(* ===== verification/CPU_Prelude.thy ===== *)
theory CPU_Prelude
  imports Main "HOL-Library.Word" "HOL-Library.Monad_Syntax"
begin

text \<open>
  Shared vocabulary of the development: the status codes of the public API, buffers and the checked
  accesses to them, bounded C++ integers, and the loop combinator every kernel model is written with.

  A C++ value that is undefined (an access outside a buffer, a signed overflow, a division by zero)
  is \<open>None\<close>: a model returns \<open>Some\<close> exactly when the C++ execution is defined and returns.
  The returned value carries the status code and the buffers as the call left them, also when the
  call reports an error halfway.
\<close>

section \<open>Status codes and pointers\<close>

text \<open>\<^verbatim>\<open>include/quixicore_cpu/status.h\<close>\<close>

datatype status = kOk | kInvalidShape | kUnsupportedFormat | kInvalidArgument | kOutOfMemory

text \<open>A pointer argument: \<open>None\<close> is \<^verbatim>\<open>nullptr\<close>, \<open>Some xs\<close> points at the buffer \<open>xs\<close>.\<close>

type_synonym 'a ptr = "'a list option"

section \<open>Machine integers\<close>

text \<open>
  \<^verbatim>\<open>int\<close> and \<^verbatim>\<open>long long\<close> values are \<open>int\<close> within the type's range; \<open>i32\<close> and \<open>i64\<close>
  mark a signed computation whose overflow would be undefined.
\<close>

definition INT_MAX :: int where "INT_MAX = 2147483647"
definition INT_MIN :: int where "INT_MIN = -2147483648"
definition LLONG_MAX :: int where "LLONG_MAX = 9223372036854775807"
definition LLONG_MIN :: int where "LLONG_MIN = -9223372036854775808"
definition SIZE_MAX :: int where "SIZE_MAX = 18446744073709551615"

lemmas int_limits = INT_MAX_def INT_MIN_def LLONG_MAX_def LLONG_MIN_def SIZE_MAX_def

definition is_int :: "int \<Rightarrow> bool" where
  "is_int x \<longleftrightarrow> INT_MIN \<le> x \<and> x \<le> INT_MAX"

definition is_llong :: "int \<Rightarrow> bool" where
  "is_llong x \<longleftrightarrow> LLONG_MIN \<le> x \<and> x \<le> LLONG_MAX"

definition i32 :: "int \<Rightarrow> int option" where
  "i32 x = (if is_int x then Some x else None)"

definition i64 :: "int \<Rightarrow> int option" where
  "i64 x = (if is_llong x then Some x else None)"

text \<open>C++ division and remainder truncate towards zero.\<close>

definition cdiv :: "int \<Rightarrow> int \<Rightarrow> int" where
  "cdiv a b = sgn a * sgn b * (\<bar>a\<bar> div \<bar>b\<bar>)"

definition crem :: "int \<Rightarrow> int \<Rightarrow> int" where
  "crem a b = a - b * cdiv a b"

lemma cdiv_nonneg [simp]: "0 \<le> a \<Longrightarrow> 0 < b \<Longrightarrow> cdiv a b = a div b"
  by (cases "a = 0") (auto simp: cdiv_def)

lemma crem_nonneg [simp]: "0 \<le> a \<Longrightarrow> 0 < b \<Longrightarrow> crem a b = a mod b"
  by (simp add: crem_def minus_mult_div_eq_mod)

lemma crem_eq_0_iff: "b \<noteq> 0 \<Longrightarrow> crem a b = 0 \<longleftrightarrow> b dvd a"
proof -
  assume b: "b \<noteq> 0"
  have sb: "sgn b * \<bar>b\<bar> = b" and sa: "sgn a * \<bar>a\<bar> = a"
    by (simp_all add: sgn_mult_abs)
  show ?thesis
  proof
    assume "crem a b = 0"
    then have "a = b * cdiv a b" by (simp add: crem_def)
    then show "b dvd a" by (metis dvd_triv_left)
  next
    assume "b dvd a"
    then have "\<bar>b\<bar> dvd \<bar>a\<bar>" by simp
    then have "\<bar>b\<bar> * (\<bar>a\<bar> div \<bar>b\<bar>) = \<bar>a\<bar>" by (rule dvd_mult_div_cancel)
    then have "sgn a * (\<bar>b\<bar> * (\<bar>a\<bar> div \<bar>b\<bar>)) = a" by (simp add: sa)
    moreover have "b * sgn b = \<bar>b\<bar>" by (simp add: abs_sgn)
    ultimately have "b * sgn b * (sgn a * (\<bar>a\<bar> div \<bar>b\<bar>)) = a"
      by (simp add: mult.left_commute)
    then show "crem a b = 0" by (simp add: crem_def cdiv_def ac_simps)
  qed
qed

text \<open>\<^verbatim>\<open>std::clamp\<close>.\<close>

definition clamp :: "int \<Rightarrow> int \<Rightarrow> int \<Rightarrow> int" where
  "clamp v lo hi = (if v < lo then lo else if hi < v then hi else v)"

lemma clamp_bounds: "lo \<le> hi \<Longrightarrow> lo \<le> clamp v lo hi \<and> clamp v lo hi \<le> hi"
  by (simp add: clamp_def)

lemma le_div_iff: "0 < (b :: int) \<Longrightarrow> x \<le> y div b \<longleftrightarrow> x * b \<le> y"
proof
  assume b: "0 < b" and x: "x \<le> y div b"
  have "x * b \<le> y div b * b" using x b by simp
  also have "\<dots> \<le> y" using b by (simp add: minus_mod_eq_div_mult [symmetric])
  finally show "x * b \<le> y" .
next
  assume b: "0 < b" and "x * b \<le> y"
  then have "x * b div b \<le> y div b" by (intro zdiv_mono1)
  with b show "x \<le> y div b" by simp
qed

lemma dvd_div_bounds:
  fixes b k :: int
  assumes "0 < b" "0 < k" "b dvd k"
  shows "0 < k div b" "k div b \<le> k"
  using assms zdiv_mono2 [of k 1 b] by (auto elim!: dvdE simp: zero_less_mult_iff)

section \<open>Checked accesses to buffers\<close>

definition in_buf :: "'a list \<Rightarrow> int \<Rightarrow> bool" where
  "in_buf xs i \<longleftrightarrow> 0 \<le> i \<and> i < int (length xs)"

definition rd :: "'a list \<Rightarrow> int \<Rightarrow> 'a option" where
  "rd xs i = (if in_buf xs i then Some (xs ! nat i) else None)"

definition wr :: "'a list \<Rightarrow> int \<Rightarrow> 'a \<Rightarrow> 'a list option" where
  "wr xs i v = (if in_buf xs i then Some (xs[nat i := v]) else None)"

text \<open>A range of \<open>n\<close> elements from \<open>off\<close>; the standard algorithms touch nothing when \<open>n \<le> 0\<close>.\<close>

definition in_range :: "'a list \<Rightarrow> int \<Rightarrow> int \<Rightarrow> bool" where
  "in_range xs off n \<longleftrightarrow> n \<le> 0 \<or> (0 \<le> off \<and> off + n \<le> int (length xs))"

text \<open>\<open>splice xs off ys\<close> overwrites \<open>xs\<close> from \<open>off\<close> with \<open>ys\<close>.\<close>

definition splice :: "'a list \<Rightarrow> nat \<Rightarrow> 'a list \<Rightarrow> 'a list" where
  "splice xs off ys = take off xs @ ys @ drop (off + length ys) xs"

text \<open>\<^verbatim>\<open>std::copy_n\<close> between different buffers, and \<^verbatim>\<open>std::fill_n\<close>.\<close>

definition copy_n :: "'a list \<Rightarrow> int \<Rightarrow> int \<Rightarrow> 'a list \<Rightarrow> int \<Rightarrow> 'a list option" where
  "copy_n src soff n dst doff =
     (if n \<le> 0 then Some dst
      else if in_range src soff n \<and> in_range dst doff n
      then Some (splice dst (nat doff) (take (nat n) (drop (nat soff) src)))
      else None)"

definition fill_n :: "'a list \<Rightarrow> int \<Rightarrow> int \<Rightarrow> 'a \<Rightarrow> 'a list option" where
  "fill_n dst doff n v =
     (if n \<le> 0 then Some dst
      else if in_range dst doff n then Some (splice dst (nat doff) (replicate (nat n) v))
      else None)"

lemma length_splice [simp]:
  "off + length ys \<le> length xs \<Longrightarrow> length (splice xs off ys) = length xs"
  by (simp add: splice_def)

lemma nth_splice:
  assumes "off + length ys \<le> length xs" "i < length xs"
  shows "splice xs off ys ! i = (if off \<le> i \<and> i < off + length ys then ys ! (i - off) else xs ! i)"
  using assms by (auto simp: splice_def nth_append)

lemma splice_Nil [simp]: "splice xs off [] = xs"
  by (simp add: splice_def)

lemma length_wr: "wr xs i v = Some ys \<Longrightarrow> length ys = length xs"
  by (auto simp: wr_def split: if_splits)

lemma length_copy_n: "copy_n src s n dst d = Some ys \<Longrightarrow> length ys = length dst"
  by (auto simp: copy_n_def in_range_def split: if_splits)

lemma length_fill_n: "fill_n dst d n v = Some ys \<Longrightarrow> length ys = length dst"
  by (auto simp: fill_n_def in_range_def split: if_splits)

section \<open>Loops with early exits\<close>

text \<open>
  How one execution of a statement leaves: on to the next statement, out of the innermost loop, or
  out of the function with a status code. The state holds every variable the loop assigns and
  every buffer it writes.
\<close>

datatype 's flow = Next 's | Brk 's | Ret status 's

fun for_n :: "nat \<Rightarrow> int \<Rightarrow> (int \<Rightarrow> 's \<Rightarrow> 's flow option) \<Rightarrow> 's \<Rightarrow> 's flow option" where
  "for_n 0 i body s = Some (Next s)"
| "for_n (Suc n) i body s =
     (case body i s of
        None \<Rightarrow> None
      | Some (Next t) \<Rightarrow> for_n n (i + 1) body t
      | Some (Brk t) \<Rightarrow> Some (Next t)
      | Some (Ret r t) \<Rightarrow> Some (Ret r t))"

text \<open>\<^verbatim>\<open>for (i = lo; i < hi; ++i) body\<close>\<close>

definition for_loop :: "int \<Rightarrow> int \<Rightarrow> (int \<Rightarrow> 's \<Rightarrow> 's flow option) \<Rightarrow> 's \<Rightarrow> 's flow option" where
  "for_loop lo hi body s = for_n (nat (hi - lo)) lo body s"

text \<open>
  Sequencing: \<open>m\<close> runs on its own local state; \<open>up\<close> puts that state back when it returns from the
  function, \<open>k\<close> continues otherwise.
\<close>

definition andthen ::
  "'t flow option \<Rightarrow> ('t \<Rightarrow> 's) \<Rightarrow> ('t \<Rightarrow> 's flow option) \<Rightarrow> 's flow option" where
  "andthen m up k =
     (case m of
        None \<Rightarrow> None
      | Some (Next t) \<Rightarrow> k t
      | Some (Brk t) \<Rightarrow> Some (Brk (up t))
      | Some (Ret r t) \<Rightarrow> Some (Ret r (up t)))"

text \<open>The end of a function body: falling off the last loop is \<^verbatim>\<open>return Status::kOk\<close>.\<close>

definition finish :: "'s flow option \<Rightarrow> (status \<times> 's) option" where
  "finish m =
     (case m of
        None \<Rightarrow> None
      | Some (Next t) \<Rightarrow> Some (kOk, t)
      | Some (Brk t) \<Rightarrow> Some (kOk, t)
      | Some (Ret r t) \<Rightarrow> Some (r, t))"

text \<open>A statement that falls through.\<close>

definition thru :: "'s option \<Rightarrow> 's flow option" where
  "thru m = map_option Next m"

section \<open>Total correctness\<close>

text \<open>\<open>ok Q m\<close>: \<open>m\<close> is defined and its result satisfies \<open>Q\<close>.\<close>

definition ok :: "('r \<Rightarrow> bool) \<Rightarrow> 'r option \<Rightarrow> bool" where
  "ok Q m \<longleftrightarrow> (\<exists>r. m = Some r \<and> Q r)"

named_theorems ok_simps

lemma ok_Some [simp, ok_simps]: "ok Q (Some r) = Q r"
  by (simp add: ok_def)

lemma ok_None [simp, ok_simps]: "\<not> ok Q None"
  by (simp add: ok_def)

lemma ok_bind: "ok Q (Option.bind m k) \<longleftrightarrow> ok (\<lambda>x. ok Q (k x)) m"
  by (cases m) simp_all

lemma ok_rd [ok_simps]: "ok Q (rd xs i) \<longleftrightarrow> in_buf xs i \<and> Q (xs ! nat i)"
  by (simp add: rd_def)

lemma ok_wr [ok_simps]: "ok Q (wr xs i v) \<longleftrightarrow> in_buf xs i \<and> Q (xs[nat i := v])"
  by (simp add: wr_def)

lemma ok_i32 [ok_simps]: "ok Q (i32 x) \<longleftrightarrow> is_int x \<and> Q x"
  by (simp add: i32_def)

lemma ok_i64 [ok_simps]: "ok Q (i64 x) \<longleftrightarrow> is_llong x \<and> Q x"
  by (simp add: i64_def)

lemma ok_if [ok_simps]: "ok Q (if b then m else n) \<longleftrightarrow> (if b then ok Q m else ok Q n)"
  by simp

declare ok_bind [ok_simps]

lemma ok_mono: "ok P m \<Longrightarrow> (\<And>r. P r \<Longrightarrow> Q r) \<Longrightarrow> ok Q m"
  by (auto simp: ok_def)

lemma okD: "ok Q m \<Longrightarrow> m = Some r \<Longrightarrow> Q r"
  by (auto simp: ok_def)

lemma okE: assumes "ok Q m" obtains r where "m = Some r" "Q r"
  using assms by (auto simp: ok_def)

text \<open>The post-condition of a statement, one clause per way of leaving it.\<close>

primrec flow_post ::
  "('s \<Rightarrow> bool) \<Rightarrow> ('s \<Rightarrow> bool) \<Rightarrow> (status \<Rightarrow> 's \<Rightarrow> bool) \<Rightarrow> 's flow \<Rightarrow> bool" where
  "flow_post N B R (Next s) = N s"
| "flow_post N B R (Brk s) = B s"
| "flow_post N B R (Ret st s) = R st s"

lemma flow_post_mono:
  "flow_post N B R r \<Longrightarrow> (\<And>s. N s \<Longrightarrow> N' s) \<Longrightarrow> (\<And>s. B s \<Longrightarrow> B' s) \<Longrightarrow>
   (\<And>st s. R st s \<Longrightarrow> R' st s) \<Longrightarrow> flow_post N' B' R' r"
  by (cases r) auto

lemma for_n_inv:
  assumes "I i s"
    and "\<And>j t. i \<le> j \<Longrightarrow> j < i + int n \<Longrightarrow> I j t \<Longrightarrow> ok (flow_post (I (j + 1)) N R) (body j t)"
    and "\<And>t. I (i + int n) t \<Longrightarrow> N t"
  shows "ok (flow_post N (\<lambda>_. False) R) (for_n n i body s)"
  using assms
proof (induction n arbitrary: i s)
  case 0
  then show ?case by simp
next
  case (Suc n)
  from Suc.prems(2) [of i s] Suc.prems(1)
  obtain r where r: "body i s = Some r" "flow_post (I (i + 1)) N R r"
    by (auto simp: ok_def)
  show ?case
  proof (cases r)
    case (Next t)
    with r have "I (i + 1) t" by simp
    then have "ok (flow_post N (\<lambda>_. False) R) (for_n n (i + 1) body t)"
    proof (rule Suc.IH)
      fix j u assume "i + 1 \<le> j" "j < i + 1 + int n" "I j u"
      with Suc.prems(2) [of j u] show "ok (flow_post (I (j + 1)) N R) (body j u)" by simp
    next
      fix u assume "I (i + 1 + int n) u"
      with Suc.prems(3) [of u] show "N u" by (simp add: ac_simps)
    qed
    with Next r show ?thesis by simp
  qed (use r in auto)
qed

text \<open>
  The loop rule: an invariant indexed by the counter, kept by every iteration that goes on; an
  iteration that breaks establishes the loop's post-condition itself.
\<close>

lemma for_loop_inv:
  assumes "lo \<le> hi" "I lo s"
    and "\<And>j t. lo \<le> j \<Longrightarrow> j < hi \<Longrightarrow> I j t \<Longrightarrow> ok (flow_post (I (j + 1)) N R) (body j t)"
    and "\<And>t. I hi t \<Longrightarrow> N t"
  shows "ok (flow_post N (\<lambda>_. False) R) (for_loop lo hi body s)"
  unfolding for_loop_def
  by (rule for_n_inv [where I = I]) (use assms in auto)

lemma for_loop_empty [simp]: "hi \<le> lo \<Longrightarrow> for_loop lo hi body s = Some (Next s)"
  by (simp add: for_loop_def)

lemma for_loop_unfold:
  "lo < hi \<Longrightarrow> for_loop lo hi body s =
     (case body lo s of
        None \<Rightarrow> None
      | Some (Next t) \<Rightarrow> for_loop (lo + 1) hi body t
      | Some (Brk t) \<Rightarrow> Some (Next t)
      | Some (Ret r t) \<Rightarrow> Some (Ret r t))"
proof -
  assume "lo < hi"
  then have "nat (hi - lo) = Suc (nat (hi - (lo + 1)))" by simp
  then show ?thesis by (simp only: for_loop_def for_n.simps)
qed

text \<open>A loop never leaves by \<open>Brk\<close>.\<close>

lemma for_n_not_Brk: "for_n n i body s \<noteq> Some (Brk t)"
  by (induction n arbitrary: i s) (auto split: option.splits flow.splits)

lemma for_loop_not_Brk [simp]: "for_loop lo hi body s \<noteq> Some (Brk t)"
  by (simp add: for_loop_def for_n_not_Brk)

lemma ok_thru [ok_simps]: "ok Q (thru m) \<longleftrightarrow> ok (\<lambda>s. Q (Next s)) m"
  by (cases m) (simp_all add: thru_def)

lemma ok_andthen:
  "ok (flow_post (\<lambda>t. ok Q (k t)) (\<lambda>t. Q (Brk (up t))) (\<lambda>st t. Q (Ret st (up t)))) m
    \<Longrightarrow> ok Q (andthen m up k)"
  by (auto simp: ok_def andthen_def split: flow.splits)

lemma ok_finish:
  "ok (flow_post (\<lambda>t. Q (kOk, t)) (\<lambda>t. Q (kOk, t)) (\<lambda>st t. Q (st, t))) m \<Longrightarrow> ok Q (finish m)"
  by (auto simp: ok_def finish_def split: flow.splits)

section \<open>Arithmetic of row-major indices\<close>

lemma index_bound:
  fixes i j m n :: int
  assumes "0 \<le> i" "i < m" "0 \<le> j" "j < n"
  shows "0 \<le> i * n + j" "i * n + j < m * n"
proof -
  show "0 \<le> i * n + j" using assms by simp
  have "i * n + j < (i + 1) * n" using assms by (simp add: distrib_right)
  also have "\<dots> \<le> m * n" using assms by (intro mult_right_mono) auto
  finally show "i * n + j < m * n" .
qed

lemma row_bound:
  fixes i m n :: int
  assumes "0 \<le> i" "i < m" "0 \<le> n"
  shows "0 \<le> i * n" "i * n + n \<le> m * n"
proof -
  show "0 \<le> i * n" using assms by simp
  have "(i + 1) * n \<le> m * n" using assms by (intro mult_right_mono) auto
  then show "i * n + n \<le> m * n" by (simp add: distrib_right)
qed

lemma index_unique:
  fixes i j i' j' n :: int
  assumes "0 \<le> j" "j < n" "0 \<le> j'" "j' < n" "i * n + j = i' * n + j'"
  shows "i = i'" "j = j'"
proof -
  have "(i * n + j) div n = i" "(i' * n + j') div n = i'"
    using assms(1-4) by (simp_all add: add.commute [of "_ * n"])
  with assms(5) show "i = i'" by simp
  with assms(5) show "j = j'" by simp
qed

lemma div_mod_bound:
  fixes t m n :: int
  assumes "0 \<le> t" "t < m * n" "0 < n"
  shows "0 \<le> t div n" "t div n < m" "0 \<le> t mod n" "t mod n < n" "t = (t div n) * n + t mod n"
proof -
  show "0 \<le> t div n" "0 \<le> t mod n" "t mod n < n" "t = (t div n) * n + t mod n"
    using assms by (simp_all add: pos_imp_zdiv_nonneg_iff)
  have "(t div n) * n \<le> t" using assms by (simp add: minus_mod_eq_div_mult [symmetric])
  with assms(2) have "(t div n) * n < m * n" by linarith
  then show "t div n < m"
    by (rule mult_right_less_imp_less) (use assms(3) in simp)
qed

end
