(* ===== verification/Word_Lemmas.thy ===== *)
theory Word_Lemmas
  imports CPU_Prelude
begin

text \<open>
  Machine words read as natural numbers: shifts, masks and disjoint unions of bit fields as
  products, remainders and sums. Every component that packs or unpacks bits reasons with these.
\<close>

unbundle bit_operations_syntax

type_synonym u8 = "8 word"
type_synonym u16 = "16 word"
type_synonym u32 = "32 word"
type_synonym u64 = "64 word"

lemma nat_or_shift: "b < 2 ^ n \<Longrightarrow> push_bit n a OR b = a * 2 ^ n + (b :: nat)"
proof -
  assume b: "b < 2 ^ n"
  have "push_bit n a AND b = 0"
    by (rule bit_eqI)
       (use b in \<open>auto simp: bit_simps dest: bit_imp_possible_bit\<close>,
        metis bit_take_bit_iff linorder_not_less take_bit_nat_eq_self)
  then have "push_bit n a OR b = push_bit n a + b" by (simp add: disjunctive_add_eq_or)
  then show ?thesis by (simp add: push_bit_eq_mult)
qed

lemma and_mask_nat: "(x :: nat) AND (2 ^ n - 1) = x mod 2 ^ n"
  by (metis and.commute mask_eq_exp_minus_1 take_bit_eq_mask take_bit_eq_mod and.left_idem)

lemma and_pow2_nat: "(n :: nat) AND 2 ^ k = (n div 2 ^ k mod 2) * 2 ^ k"
proof -
  have "n AND 2 ^ k = push_bit k (take_bit 1 (drop_bit k n))"
    by (rule bit_eqI) (auto simp: bit_simps, simp_all add: bit_iff_odd_drop_bit)
  then show ?thesis by (simp add: push_bit_eq_mult take_bit_eq_mod drop_bit_eq_div)
qed

lemma unat_lt_32: "unat (f :: 32 word) < 4294967296"
  using unsigned_less [of f] by simp

lemma unat_drop: "unat (drop_bit n w) = unat w div 2 ^ n"
  by (simp add: unat_drop_bit_eq) (simp add: drop_bit_eq_div)

lemma unat_and_mask:
  assumes "unat m = 2 ^ n - 1"
  shows "unat (w AND m) = unat w mod 2 ^ n"
  by (simp only: unsigned_and_eq assms and_mask_nat)

lemma unat_or_shift:
  assumes "unat a = c * 2 ^ n" "unat b < 2 ^ n"
  shows "unat (a OR b) = unat a + unat b"
  using nat_or_shift [OF assms(2), of c] assms(1) by (simp add: unsigned_or_eq push_bit_eq_mult)

lemma unat_and_one: "w AND 1 \<noteq> 0 \<longleftrightarrow> odd (unat w)"
  for w :: "'a::len word"
proof -
  have "unat (w AND 1) = unat w mod 2"
    using unat_and_mask [of "1::'a word" 1 w] by simp
  then show ?thesis by (metis odd_iff_mod_2_eq_one unat_eq_zero zero_neq_one not_mod_2_eq_1_eq_0)
qed

lemma ucast_up: "LENGTH('a) \<le> LENGTH('b) \<Longrightarrow> unat (ucast (w :: 'a::len word) :: 'b::len word) = unat w"
proof -
  assume "LENGTH('a) \<le> LENGTH('b)"
  then have "(2::nat) ^ LENGTH('a) \<le> 2 ^ LENGTH('b)" by simp
  moreover have "unat w < 2 ^ LENGTH('a)" by simp
  ultimately have "unat w < 2 ^ LENGTH('b)" by linarith
  then show ?thesis by (simp add: unsigned_ucast_eq take_bit_nat_eq_self)
qed

lemma unat_shift_one:
  assumes "k < 32"
  shows "unat (push_bit k 1 :: 32 word) = 2 ^ k" "unat (push_bit k 1 - 1 :: 32 word) = 2 ^ k - 1"
proof -
  have "(2::nat) ^ k < 2 ^ 32" using assms by (intro power_strict_increasing) auto
  then show e: "unat (push_bit k 1 :: 32 word) = 2 ^ k"
    using assms by (subst unsigned_push_bit_eq) (simp add: take_bit_nat_eq_self)
  have "(1 :: 32 word) \<le> push_bit k 1" by (simp only: word_le_nat_alt e unat_1) simp
  then show "unat (push_bit k 1 - 1 :: 32 word) = 2 ^ k - 1" by (simp only: unat_sub e unat_1)
qed

lemma unat_push:
  fixes w :: "'a::len word"
  assumes "unat w * 2 ^ k < 2 ^ LENGTH('a)"
  shows "unat (push_bit k w) = unat w * 2 ^ k"
  using assms by (subst unsigned_push_bit_eq) (simp add: push_bit_eq_mult take_bit_nat_eq_self)

lemma unat_lt_16: "unat (h :: 16 word) < 65536"
  using unsigned_less [of h] by simp

end
