(* ===== verification/Soft_Float.thy ===== *)
theory Soft_Float
  imports Word_Lemmas Complex_Main
begin

text \<open>
  IEEE-754 binary floating point as the C++ \<^verbatim>\<open>float\<close> and \<^verbatim>\<open>double\<close> of every supported target have it,
  over bit patterns: a format is the number \<open>p\<close> of stored fraction bits and the width \<open>ew\<close> of the
  exponent field (binary16 is \<open>10 5\<close>, bfloat16 \<open>7 8\<close>, binary32 \<open>23 8\<close>, binary64 \<open>52 11\<close>).
  A finite magnitude is a natural number times a power of two; rounding is to nearest, ties to even.
\<close>

unbundle bit_operations_syntax

text \<open>\<^verbatim>\<open>float\<close> and \<^verbatim>\<open>double\<close> values are their bit patterns.\<close>

type_synonym f32 = "32 word"
type_synonym f64 = "64 word"

section \<open>Magnitudes\<close>

text \<open>The number of binary digits.\<close>

fun bitlen :: "nat \<Rightarrow> nat" where
  "bitlen n = (if n = 0 then 0 else Suc (bitlen (n div 2)))"

declare bitlen.simps [simp del]

text \<open>The least normal exponent.\<close>

definition emin :: "nat \<Rightarrow> int" where
  "emin ew = 2 - 2 ^ (ew - 1)"

text \<open>The bit pattern of \<open>+\<infinity>\<close>; the patterns above it (sign bit aside) are NaNs.\<close>

definition inf_bits :: "nat \<Rightarrow> nat \<Rightarrow> nat" where
  "inf_bits p ew = (2 ^ ew - 1) * 2 ^ p"

text \<open>The value \<open>m * 2 ^ e\<close> of a finite bit pattern without its sign.\<close>

definition unpack :: "nat \<Rightarrow> nat \<Rightarrow> nat \<Rightarrow> nat \<times> int" where
  "unpack p ew b =
     (let ex = b div 2 ^ p; fr = b mod 2 ^ p
      in if ex = 0 then (fr, emin ew - int p)
         else (fr + 2 ^ p, int ex - 1 + emin ew - int p))"

text \<open>\<open>n / 2 ^ k\<close> rounded to nearest, ties to even.\<close>

definition rne_shift :: "nat \<Rightarrow> nat \<Rightarrow> nat" where
  "rne_shift n k =
     (let q = n div 2 ^ k; r = n mod 2 ^ k
      in if 2 * r > 2 ^ k \<or> (2 * r = 2 ^ k \<and> odd q) then q + 1 else q)"

text \<open>
  The bit pattern (sign aside) of \<open>n * 2 ^ e\<close> rounded to the format: the quantum is
  \<open>2 ^ (max E emin - p)\<close> for the value's exponent \<open>E\<close>; a carry out of the fraction moves into the
  exponent field by itself; what passes the largest finite value is \<open>+\<infinity>\<close>.
\<close>

definition round_mag :: "nat \<Rightarrow> nat \<Rightarrow> nat \<Rightarrow> int \<Rightarrow> nat" where
  "round_mag p ew n e =
     (if n = 0 then 0
      else let E = max (e + int (bitlen n) - 1) (emin ew);
               qe = E - int p;
               m = (if qe \<le> e then n * 2 ^ nat (e - qe) else rne_shift n (nat (qe - e)))
           in min (inf_bits p ew) (nat (E - emin ew) * 2 ^ p + m))"

text \<open>The same with no bound on the exponent above, for the formats that saturate instead of overflowing.\<close>

definition round_free :: "nat \<Rightarrow> nat \<Rightarrow> nat \<Rightarrow> int \<Rightarrow> nat" where
  "round_free p ew n e =
     (if n = 0 then 0
      else let E = max (e + int (bitlen n) - 1) (emin ew);
               qe = E - int p;
               m = (if qe \<le> e then n * 2 ^ nat (e - qe) else rne_shift n (nat (qe - e)))
           in nat (E - emin ew) * 2 ^ p + m)"

text \<open>
  The quotient of two finite magnitudes, the second not zero: enough quotient digits for the format, and
  one sticky digit for the remainder.
\<close>

definition div_mag :: "nat \<Rightarrow> nat \<Rightarrow> nat \<Rightarrow> nat \<Rightarrow> nat" where
  "div_mag p ew a b =
     (case unpack p ew a of (n1, e1) \<Rightarrow> case unpack p ew b of (n2, e2) \<Rightarrow>
        let s = p + 3 + bitlen n2; q = n1 * 2 ^ s div n2
        in round_mag p ew (2 * q + (if n1 * 2 ^ s mod n2 = 0 then 0 else 1)) (e1 - e2 - int s - 1))"

section \<open>Lemmas on digits and rounding\<close>

lemma bitlen_0 [simp]: "bitlen 0 = 0"
  by (simp add: bitlen.simps)

lemma bitlen_pos: "0 < n \<Longrightarrow> bitlen n = Suc (bitlen (n div 2))"
  by (simp add: bitlen.simps [of n])

lemma bitlen_bounds: "0 < n \<Longrightarrow> 2 ^ (bitlen n - 1) \<le> n \<and> n < 2 ^ bitlen n"
proof (induction n rule: bitlen.induct)
  case (1 n)
  show ?case
  proof (cases "n div 2 = 0")
    case True
    with "1.prems" have "n = 1" by simp
    then show ?thesis by (simp add: bitlen_pos)
  next
    case False
    then have IH: "2 ^ (bitlen (n div 2) - 1) \<le> n div 2" "n div 2 < 2 ^ bitlen (n div 2)"
      using "1.IH" "1.prems" by auto
    from False have "0 < bitlen (n div 2)" by (simp add: bitlen_pos)
    then obtain k where k: "bitlen (n div 2) = Suc k" by (cases "bitlen (n div 2)") auto
    show ?thesis using IH "1.prems" k by (simp add: bitlen_pos) linarith
  qed
qed

lemma bitlen_unique: "2 ^ k \<le> n \<Longrightarrow> n < 2 ^ Suc k \<Longrightarrow> bitlen n = Suc k"
proof -
  assume a: "2 ^ k \<le> n" "n < 2 ^ Suc k"
  then have n: "0 < n" by (metis le_zero_eq not_gr_zero power_not_zero zero_neq_numeral)
  from bitlen_bounds [OF n] have b: "2 ^ (bitlen n - 1) \<le> n" "n < 2 ^ bitlen n" by auto
  have pos: "0 < bitlen n" using n by (simp add: bitlen_pos)
  from a(1) b(2) have "(2::nat) ^ k < 2 ^ bitlen n" by linarith
  then have "k < bitlen n" by simp
  moreover from a(2) b(1) have "(2::nat) ^ (bitlen n - 1) < 2 ^ Suc k" by linarith
  then have "bitlen n - 1 < Suc k" by (rule power_less_imp_less_exp [rotated]) simp
  ultimately show ?thesis using pos by simp
qed

lemma rne_shift_0 [simp]: "rne_shift n 0 = n"
  by (simp add: rne_shift_def)

lemma rne_shift_exact [simp]: "rne_shift (a * 2 ^ k) k = a"
  by (simp add: rne_shift_def)

text \<open>Rounding moves a value by at most half a unit.\<close>

lemma rne_shift_error: "\<bar>int (rne_shift n k * 2 ^ k) - int n\<bar> * 2 \<le> 2 ^ k"
proof -
  define q r where "q = n div 2 ^ k" and "r = n mod 2 ^ k"
  have n: "n = q * 2 ^ k + r" and r: "r < 2 ^ k"
    using div_mult_mod_eq [of n "2 ^ k"] by (simp_all only: q_def r_def) simp_all
  have "int n = int q * 2 ^ k + int r" using n by simp
  moreover have "int r < 2 ^ k" using r by (metis of_nat_less_iff of_nat_numeral of_nat_power)
  moreover have "rne_shift n k = (if 2 * r > 2 ^ k \<or> (2 * r = 2 ^ k \<and> odd q) then q + 1 else q)"
    by (simp add: rne_shift_def q_def r_def Let_def)
  moreover have "2 * r > 2 ^ k \<longleftrightarrow> 2 * int r > 2 ^ k" and "2 * r = 2 ^ k \<longleftrightarrow> 2 * int r = 2 ^ k"
    by (metis of_nat_less_iff of_nat_mult of_nat_numeral of_nat_power)
       (metis of_nat_eq_iff of_nat_mult of_nat_numeral of_nat_power)
  ultimately show ?thesis by (auto simp: distrib_right abs_if)
qed

text \<open>A value with at most \<open>p + 1\<close> digits in range is represented exactly: unpacking and rounding is
  the identity on finite patterns.\<close>

lemma unpack_normal:
  assumes "0 < ex" "fr < 2 ^ p"
  shows "unpack p ew (ex * 2 ^ p + fr) = (fr + 2 ^ p, int ex - 1 + emin ew - int p)"
  using assms by (simp add: unpack_def)

lemma unpack_subnormal:
  assumes "fr < 2 ^ p"
  shows "unpack p ew fr = (fr, emin ew - int p)"
  using assms by (simp add: unpack_def)

lemma bitlen_le_iff: "bitlen n \<le> k \<longleftrightarrow> n < 2 ^ k"
proof (cases "n = 0")
  case False
  then have n: "0 < n" by simp
  note b = bitlen_bounds [OF n]
  show ?thesis
  proof
    assume "bitlen n \<le> k"
    then have "(2::nat) ^ bitlen n \<le> 2 ^ k" by simp
    with b show "n < 2 ^ k" by linarith
  next
    assume "n < 2 ^ k"
    with b have "(2::nat) ^ (bitlen n - 1) < 2 ^ k" by linarith
    then have "bitlen n - 1 < k" by simp
    then show "bitlen n \<le> k" by simp
  qed
qed simp

lemma round_mag_free: "round_mag p ew n e = min (inf_bits p ew) (round_free p ew n e)"
  by (simp add: round_mag_def round_free_def Let_def)

lemma round_free_unpack: "round_free p ew (fst (unpack p ew b)) (snd (unpack p ew b)) = b"
proof (cases "b div 2 ^ p = 0")
  case True
  then have b: "b < 2 ^ p" by (simp add: div_eq_0_iff)
  have u: "unpack p ew b = (b, emin ew - int p)" using b by (rule unpack_subnormal)
  show ?thesis
  proof (cases "b = 0")
    case False
    have "bitlen b \<le> p" using b by (simp add: bitlen_le_iff)
    then have "max (emin ew - int p + int (bitlen b) - 1) (emin ew) = emin ew" by simp
    with False u show ?thesis by (simp add: round_free_def Let_def)
  qed (use u in \<open>simp add: round_free_def\<close>)
next
  case False
  define ex fr where "ex = b div 2 ^ p" and "fr = b mod 2 ^ p"
  have b: "b = ex * 2 ^ p + fr" and fr: "fr < 2 ^ p" and ex: "0 < ex"
    using False div_mult_mod_eq [of b "2 ^ p"] by (simp_all only: ex_def fr_def) simp_all
  have u: "unpack p ew b = (fr + 2 ^ p, int ex - 1 + emin ew - int p)"
    unfolding b using ex fr by (rule unpack_normal)
  have L: "bitlen (fr + 2 ^ p) = Suc p" by (rule bitlen_unique) (use fr in auto)
  have E: "max (int ex - 1 + emin ew - int p + int (Suc p) - 1) (emin ew) = int ex - 1 + emin ew"
    using ex by simp
  have "nat (int ex - 1) * 2 ^ p + (fr + 2 ^ p) = b"
    using ex by (cases ex) (auto simp: b)
  with u L E show ?thesis by (simp add: round_free_def Let_def)
qed

lemma round_mag_unpack:
  "b < inf_bits p ew \<Longrightarrow> round_mag p ew (fst (unpack p ew b)) (snd (unpack p ew b)) = b"
  by (simp add: round_mag_free round_free_unpack)

text \<open>Rounding depends on the value only, not on the pair that denotes it.\<close>

lemma bitlen_shift: "0 < n \<Longrightarrow> bitlen (n * 2 ^ j) = bitlen n + j"
proof -
  assume n: "0 < n"
  then have "0 < bitlen n" by (simp add: bitlen_pos)
  then obtain L where L: "bitlen n = Suc L" by (cases "bitlen n") auto
  have "bitlen (n * 2 ^ j) = Suc (L + j)"
    by (rule bitlen_unique) (use bitlen_bounds [OF n] L in \<open>auto simp: power_add\<close>)
  with L show ?thesis by simp
qed

lemma rne_shift_scale: "rne_shift (n * 2 ^ j) (k + j) = rne_shift n k"
proof -
  have d: "n * 2 ^ j div 2 ^ (k + j) = n div 2 ^ k"
    by (simp add: power_add)
  have m: "n * 2 ^ j mod 2 ^ (k + j) = (n mod 2 ^ k) * 2 ^ j"
    by (simp add: power_add mod_mult_mult2)
  have c: "(2 ^ (k + j) < 2 * (a * 2 ^ j)) = (2 ^ k < 2 * a)"
    "(2 * (a * 2 ^ j) = 2 ^ (k + j)) = (2 * a = 2 ^ k)" for a :: nat
  proof -
    have *: "2 * (a * 2 ^ j) = (2 * a) * 2 ^ j" by simp
    show "(2 ^ (k + j) < 2 * (a * 2 ^ j)) = (2 ^ k < 2 * a)"
      "(2 * (a * 2 ^ j) = 2 ^ (k + j)) = (2 * a = 2 ^ k)"
      unfolding * power_add by (simp_all only: mult_less_cancel2 mult_cancel2) simp_all
  qed
  show ?thesis unfolding rne_shift_def d m c Let_def by simp
qed

lemma round_free_scale: "round_free p ew (n * 2 ^ j) (e - int j) = round_free p ew n e"
proof (cases "n = 0")
  case False
  then have n: "0 < n" by simp
  define E qe where "E = max (e + int (bitlen n) - 1) (emin ew)" and "qe = E - int p"
  have E': "max (e - int j + int (bitlen (n * 2 ^ j)) - 1) (emin ew) = E"
    using n by (simp add: E_def bitlen_shift)
  have m: "(if qe \<le> e - int j then n * 2 ^ j * 2 ^ nat (e - int j - qe)
            else rne_shift (n * 2 ^ j) (nat (qe - (e - int j)))) =
           (if qe \<le> e then n * 2 ^ nat (e - qe) else rne_shift n (nat (qe - e)))"
  proof (cases "qe \<le> e - int j")
    case True
    then have "nat (e - qe) = j + nat (e - int j - qe)" by simp
    then have "(2::nat) ^ nat (e - qe) = 2 ^ j * 2 ^ nat (e - int j - qe)" by (simp add: power_add)
    with True show ?thesis by simp
  next
    case F: False
    show ?thesis
    proof (cases "qe \<le> e")
      case True
      define a b where "a = nat (e - qe)" and "b = nat (qe - (e - int j))"
      have "j = a + b" using F True by (simp add: a_def b_def)
      then have "n * 2 ^ j = n * 2 ^ a * 2 ^ b" by (simp add: power_add)
      then have "rne_shift (n * 2 ^ j) b = n * 2 ^ a" by (simp only: rne_shift_exact)
      with F True show ?thesis by (simp add: a_def b_def)
    next
      case False
      then have "nat (qe - (e - int j)) = nat (qe - e) + j" by simp
      with F False show ?thesis by (simp add: rne_shift_scale)
    qed
  qed
  have nz: "(n * 2 ^ j = 0) = (n = 0)" by simp
  show ?thesis
    unfolding round_free_def Let_def nz E' E_def [symmetric] qe_def [symmetric] m ..
qed (simp add: round_free_def)

lemma round_mag_scale: "round_mag p ew (n * 2 ^ j) (e - int j) = round_mag p ew n e"
  by (simp only: round_mag_free round_free_scale)

text \<open>A value with few enough digits and an exponent in range is represented exactly.\<close>

lemma unpack_round_mag_exact:
  assumes n: "0 < n" "bitlen n \<le> Suc p"
    and e: "emin ew \<le> e + int (bitlen n) - 1" "e + int (bitlen n) - emin ew < 2 ^ ew - 1"
  shows "unpack p ew (round_mag p ew n e) = (n * 2 ^ (Suc p - bitlen n), e - int (Suc p - bitlen n))"
proof -
  define j E m where "j = Suc p - bitlen n" and "E = e + int (bitlen n) - 1" and "m = n * 2 ^ j"
  have L: "bitlen m = Suc p" using n by (simp add: m_def j_def bitlen_shift)
  have m: "2 ^ p \<le> m" "m < 2 ^ p + 2 ^ p" using bitlen_bounds [of m] n L by (auto simp: m_def)
  have "E - int p \<le> e" "nat (e - (E - int p)) = j" using n by (auto simp: E_def j_def)
  moreover have "max (e + int (bitlen n) - 1) (emin ew) = E" using e by (simp add: E_def)
  ultimately have "round_free p ew n e = nat (E - emin ew) * 2 ^ p + m"
    using n(1) by (simp add: round_free_def m_def)
  also have "\<dots> = (nat (E - emin ew) + 1) * 2 ^ p + (m - 2 ^ p)" using m by simp
  finally have R: "round_free p ew n e = (nat (E - emin ew) + 1) * 2 ^ p + (m - 2 ^ p)" .
  have "int (nat (E - emin ew) + 1) < 2 ^ ew - 1" using e by (simp add: E_def)
  also have "(2 :: int) ^ ew - 1 = int (2 ^ ew - 1)" by (simp add: of_nat_diff)
  finally have "nat (E - emin ew) + 1 < 2 ^ ew - 1" by (simp only: of_nat_less_iff)
  then have "(nat (E - emin ew) + 1 + 1) * 2 ^ p \<le> (2 ^ ew - 1) * 2 ^ p" by (intro mult_right_mono) auto
  then have "round_free p ew n e < inf_bits p ew" using R m by (simp add: inf_bits_def)
  then have "round_mag p ew n e = (nat (E - emin ew) + 1) * 2 ^ p + (m - 2 ^ p)"
    by (simp add: round_mag_free R)
  also have "unpack p ew \<dots> = (m - 2 ^ p + 2 ^ p, int (nat (E - emin ew) + 1) - 1 + emin ew - int p)"
    by (rule unpack_normal) (use m in auto)
  also have "\<dots> = (n * 2 ^ j, e - int j)" using m e n by (simp add: m_def E_def j_def)
  finally show ?thesis by (simp add: j_def)
qed

lemma rne_shift_small: "2 * n < 2 ^ k \<Longrightarrow> rne_shift n k = 0"
  by (simp add: rne_shift_def)

lemma rne_shift_ge: "n div 2 ^ k \<le> rne_shift n k"
  by (simp add: rne_shift_def Let_def)

lemma rne_shift_le:
  assumes "n \<le> m * 2 ^ k"
  shows "rne_shift n k \<le> m"
proof (cases "n = m * 2 ^ k")
  case False
  with assms have "n div 2 ^ k < m" by (simp add: less_mult_imp_div_less)
  then show ?thesis by (simp add: rne_shift_def Let_def)
qed simp

text \<open>Rounding is monotone.\<close>

lemma bitlen_mono: "m \<le> n \<Longrightarrow> bitlen m \<le> bitlen n"
  using bitlen_bounds [of n] by (cases "n = 0") (auto simp: bitlen_le_iff)

lemma rne_shift_mono:
  assumes "m \<le> n"
  shows "rne_shift m k \<le> rne_shift n k"
proof (cases "m div 2 ^ k = n div 2 ^ k")
  case True
  define q where "q = n div 2 ^ k"
  have "m = q * 2 ^ k + m mod 2 ^ k" "n = q * 2 ^ k + n mod 2 ^ k"
    using True div_mult_mod_eq [of m "2 ^ k"] div_mult_mod_eq [of n "2 ^ k"] by (simp_all only: q_def)
  then have "m mod 2 ^ k \<le> n mod 2 ^ k" using assms by linarith
  then show ?thesis using True by (auto simp: rne_shift_def Let_def)
next
  case False
  then have "m div 2 ^ k + 1 \<le> n div 2 ^ k" using div_le_mono [OF assms, of "2 ^ k"] by simp
  moreover have "rne_shift m k \<le> m div 2 ^ k + 1" by (simp add: rne_shift_def Let_def)
  ultimately show ?thesis using rne_shift_ge [of n k] by linarith
qed

lemma round_free_mono:
  assumes "m \<le> n"
  shows "round_free p ew m e \<le> round_free p ew n e"
proof (cases "m = 0")
  case False
  then have nz: "0 < m" "0 < n" using assms by auto
  define E where "E = (\<lambda>x. max (e + int (bitlen x) - 1) (emin ew))"
  define s where "s = (\<lambda>x. if E x - int p \<le> e then x * 2 ^ nat (e - (E x - int p)) else rne_shift x (nat (E x - int p - e)))"
  have r: "round_free p ew x e = nat (E x - emin ew) * 2 ^ p + s x" if "0 < x" for x
    using that by (simp add: round_free_def Let_def E_def s_def)
  have E: "E m \<le> E n" using bitlen_mono [OF assms] by (simp add: E_def)
  have up: "s x \<le> 2 ^ Suc p" if x: "0 < x" for x
  proof (cases "E x - int p \<le> e")
    case True
    have "x < 2 ^ bitlen x" using bitlen_bounds [OF x] by simp
    moreover have "bitlen x + nat (e - (E x - int p)) \<le> Suc p" using True x by (simp add: E_def bitlen_pos)
    ultimately have "x * 2 ^ nat (e - (E x - int p)) \<le> 2 ^ (bitlen x + nat (e - (E x - int p)))" by (simp add: power_add)
    also have "\<dots> \<le> 2 ^ Suc p" using \<open>bitlen x + _ \<le> Suc p\<close> by (intro power_increasing) auto
    finally show ?thesis using True by (simp add: s_def)
  next
    case False
    have "x \<le> 2 ^ bitlen x" using bitlen_bounds [OF x] by simp
    also have "\<dots> \<le> 2 ^ (Suc p + nat (E x - int p - e))"
      using False by (intro power_increasing) (auto simp: E_def)
    finally have "x \<le> 2 ^ Suc p * 2 ^ nat (E x - int p - e)" by (simp add: power_add)
    then show ?thesis using False by (simp add: s_def rne_shift_le)
  qed
  show ?thesis
  proof (cases "E m = E n")
    case True
    then have "s m \<le> s n" using assms rne_shift_mono by (auto simp: s_def)
    then show ?thesis using True r nz by simp
  next
    case False
    with E have lt: "E m < E n" by simp
    then have big: "E n = e + int (bitlen n) - 1" "emin ew \<le> E m" by (auto simp: E_def max_def split: if_splits)
    have low: "2 ^ p \<le> s n"
    proof (cases "E n - int p \<le> e")
      case True
      have "2 ^ p = 2 ^ (bitlen n - 1) * (2 :: nat) ^ nat (e - (E n - int p))"
        using True big(1) nz(2) by (simp add: bitlen_pos flip: power_add)
      also have "\<dots> \<le> n * 2 ^ nat (e - (E n - int p))" using bitlen_bounds [OF nz(2)] by simp
      finally show ?thesis using True by (simp add: s_def)
    next
      case False
      have "2 ^ p * 2 ^ nat (E n - int p - e) = (2 :: nat) ^ (bitlen n - 1)"
        using False big(1) nz(2) by (simp add: bitlen_pos flip: power_add)
      also have "\<dots> \<le> n" using bitlen_bounds [OF nz(2)] by simp
      finally have "2 ^ p * 2 ^ nat (E n - int p - e) div 2 ^ nat (E n - int p - e) \<le> n div 2 ^ nat (E n - int p - e)"
        by (rule div_le_mono)
      then have "2 ^ p \<le> n div 2 ^ nat (E n - int p - e)" by simp
      then show ?thesis using False rne_shift_ge [of n "nat (E n - int p - e)"] by (simp add: s_def)
    qed
    have "nat (E m - emin ew) * 2 ^ p + s m \<le> (nat (E m - emin ew) + 1) * 2 ^ p + 2 ^ p"
      using up [OF nz(1)] by simp
    also have "(nat (E m - emin ew) + 1) * 2 ^ p \<le> nat (E n - emin ew) * 2 ^ p"
      using lt big(2) by (intro mult_right_mono) linarith+
    finally show ?thesis using low r nz by simp
  qed
qed (simp add: round_free_def)

lemma round_mag_mono: "m \<le> n \<Longrightarrow> round_mag p ew m e \<le> round_mag p ew n e"
  using round_free_mono [of m n p ew e] by (simp add: round_mag_free)

lemma rne_shift_add: "rne_shift (a * 2 ^ Suc k + n) k = 2 * a + rne_shift n k"
proof -
  have "(a * 2 ^ Suc k + n) div 2 ^ k = 2 * a + n div 2 ^ k"
    using div_mult_self3 [of "2 ^ k" "2 * a" n] by (simp add: ac_simps)
  moreover have "(a * 2 ^ Suc k + n) mod 2 ^ k = n mod 2 ^ k"
    using mod_mult_self3 [of "2 * a" "2 ^ k" n] by (simp add: ac_simps)
  ultimately show ?thesis unfolding rne_shift_def Let_def by auto
qed

lemma rne_shift_bias:
  "(n + (2 ^ k - 1) + n div 2 ^ Suc k mod 2) div 2 ^ Suc k = rne_shift n (Suc k)"
proof -
  define q r where "q = n div 2 ^ Suc k" and "r = n mod 2 ^ Suc k"
  have n: "n = q * 2 ^ Suc k + r" and r: "r < 2 ^ Suc k"
    by (simp_all only: q_def r_def div_mult_mod_eq) simp
  have pos: "(1::nat) \<le> 2 ^ k" by simp
  have "n + b + c = q * 2 ^ Suc k + (r + b + c)" for b c using n by simp
  then have e: "n + (2 ^ k - 1) + q mod 2 = q * 2 ^ Suc k + (r + (2 ^ k - 1) + q mod 2)" .
  have "(n + (2 ^ k - 1) + q mod 2) div 2 ^ Suc k = q + (r + (2 ^ k - 1) + q mod 2) div 2 ^ Suc k"
    unfolding e by (rule div_mult_self3) simp
  also have "(r + (2 ^ k - 1) + q mod 2) div 2 ^ Suc k =
      (if 2 * r > 2 ^ Suc k \<or> (2 * r = 2 ^ Suc k \<and> odd q) then 1 else 0)"
  proof (cases "2 ^ Suc k \<le> r + (2 ^ k - 1) + q mod 2")
    case True
    have "q mod 2 < 2" by simp
    then have "r + (2 ^ k - 1) + q mod 2 < 2 * 2 ^ Suc k" using r by simp
    with True have "(r + (2 ^ k - 1) + q mod 2) div 2 ^ Suc k = 1"
      by (simp add: div_nat_eqI)
    moreover have "2 * r > 2 ^ Suc k \<or> (2 * r = 2 ^ Suc k \<and> odd q)"
    proof (cases "odd q")
      case odd: True
      then have "q mod 2 = 1" by presburger
      with True have "2 ^ Suc k \<le> 2 * r" using pos unfolding power_Suc by linarith
      with odd show ?thesis by auto
    next
      case False
      then have "q mod 2 = 0" by presburger
      with True have "2 ^ Suc k < 2 * r" using pos unfolding power_Suc by linarith
      then show ?thesis by simp
    qed
    ultimately show ?thesis by simp
  next
    case False
    then have "(r + (2 ^ k - 1) + q mod 2) div 2 ^ Suc k = 0" by (simp add: div_eq_0_iff)
    moreover have "\<not> (2 * r > 2 ^ Suc k \<or> (2 * r = 2 ^ Suc k \<and> odd q))"
      using False pos by (auto simp: odd_iff_mod_2_eq_one)
    ultimately show ?thesis by simp
  qed
  finally show ?thesis unfolding rne_shift_def Let_def by (simp add: q_def r_def)
qed

section \<open>Values\<close>

text \<open>The value of a finite magnitude pattern, as a rational number.\<close>

definition mag_value :: "nat \<Rightarrow> nat \<Rightarrow> nat \<Rightarrow> rat" where
  "mag_value p ew b = (case unpack p ew b of (n, e) \<Rightarrow> of_nat n * 2 powi e)"

lemma powi_shift: "(of_nat (n * 2 ^ j) :: rat) * 2 powi (e - int j) = of_nat n * 2 powi e"
proof -
  have "(2::rat) powi e = 2 powi (e - int j + int j)" by simp
  also have "\<dots> = 2 powi (e - int j) * 2 powi int j" by (rule power_int_add) simp
  finally show ?thesis by simp
qed

text \<open>The constants of the four formats.\<close>

lemma inf_bits_16 [simp]: "inf_bits 10 5 = 0x7C00"
  and inf_bits_32 [simp]: "inf_bits 23 8 = 0x7F800000"
  and inf_bits_b16 [simp]: "inf_bits 7 8 = 0x7F80"
  and inf_bits_64 [simp]: "inf_bits 52 11 = 0x7FF0000000000000"
  by (simp_all add: inf_bits_def)

lemma emin_5 [simp]: "emin 5 = -14"
  and emin_8 [simp]: "emin 8 = -126"
  and emin_11 [simp]: "emin 11 = -1022"
  by (simp_all add: emin_def)

end
