(* ===== verification/Fp16.thy ===== *)
theory Fp16
  imports Soft_Float
begin

text \<open>
  \<^verbatim>\<open>kernels/common/fp16.h\<close> and the bfloat16 conversions of \<^verbatim>\<open>kernels/utils/float_storage_ref.cpp\<close>:
  binary16 and bfloat16 to and from binary32 by bit manipulation. A \<^verbatim>\<open>float\<close> is its bit pattern.
  The theorems relate the shifts and masks to the IEEE values and roundings of \<open>Soft_Float\<close>.
\<close>

section \<open>The conversions\<close>

text \<open>\<^verbatim>\<open>while ((m & 0x400u) == 0) { m <<= 1; ++shift; }\<close>\<close>

partial_function (option) renormalize :: "u32 \<Rightarrow> int \<Rightarrow> (u32 \<times> int) option" where
  "renormalize m shift =
     (if m AND 0x400 = 0 then renormalize (push_bit 1 m) (shift + 1) else Some (m, shift))"

definition fp16_to_fp32 :: "u16 \<Rightarrow> f32 option" where
  "fp16_to_fp32 h =
     (let sign = push_bit 16 (ucast (h AND 0x8000) :: u32);
          ex = (ucast (drop_bit 10 h) :: u32) AND 0x1F;
          mant = (ucast h :: u32) AND 0x3FF
      in if ex = 0 then
           (if mant = 0 then Some sign
            else do {
              (m, shift) \<leftarrow> renormalize mant 0;
              Some (sign OR push_bit 23 (113 - word_of_int shift) OR push_bit 13 (m AND 0x3FF))
            })
         else if ex = 31 then Some (sign OR 0x7F800000 OR push_bit 13 mant)
         else Some (sign OR push_bit 23 (ex + 112) OR push_bit 13 mant))"

definition fp32_to_fp16 :: "f32 \<Rightarrow> u16" where
  "fp32_to_fp16 f =
     (let sign = (ucast (drop_bit 16 f AND 0x8000) :: u16);
          x = f AND 0x7FFFFFFF
      in if x \<ge> 0x47800000 then sign OR (if x > 0x7F800000 then 0x7E00 else 0x7C00)
         else if x < 0x38800000 then
           (if x < 0x33000000 then sign
            else let shift = 113 - drop_bit 23 x;
                     mant = (x AND 0x7FFFFF) OR 0x800000;
                     h = ucast ((ucast sign :: u32) OR drop_bit (unat (shift + 13)) mant) :: u16;
                     rem = mant AND (push_bit (unat (shift + 13)) 1 - 1);
                     half = push_bit (unat (shift + 12)) 1
                 in if rem > half \<or> (rem = half \<and> h AND 1 \<noteq> 0) then h + 1 else h)
         else let h = ucast ((ucast sign :: u32) OR push_bit 10 (drop_bit 23 x - 112)
                             OR (drop_bit 13 x AND 0x3FF)) :: u16;
                  rem = x AND 0x1FFF
              in if rem > 0x1000 \<or> (rem = 0x1000 \<and> h AND 1 \<noteq> 0) then h + 1 else h)"

definition float_to_f16 :: "f32 \<Rightarrow> u16" where
  "float_to_f16 value = fp32_to_fp16 value"

definition f16_to_float :: "u16 \<Rightarrow> f32 option" where
  "f16_to_float b = fp16_to_fp32 b"

definition float_to_bf16 :: "f32 \<Rightarrow> u16" where
  "float_to_bf16 bits =
     (if bits AND 0x7f800000 = 0x7f800000 \<and> bits AND 0x007fffff \<noteq> 0
      then ucast (drop_bit 16 bits OR 0x0040)
      else let rounding_bias = 0x7fff + (drop_bit 16 bits AND 1)
           in ucast (drop_bit 16 (bits + rounding_bias)))"

definition bf16_to_float :: "u16 \<Rightarrow> f32" where
  "bf16_to_float bits = push_bit 16 (ucast bits)"

section \<open>Narrowing to binary16\<close>



lemma fp32_to_fp16_sign:
  "unat (ucast (drop_bit 16 f AND 0x8000 :: 32 word) :: 16 word) = (unat f div 2147483648) * 32768"
proof -
  have "unat (drop_bit 16 f AND 0x8000) = (unat f div 2 ^ 16) AND 2 ^ 15"
    by (simp only: unsigned_and_eq unat_drop) simp
  also have "\<dots> = (unat f div 2 ^ 16 div 2 ^ 15 mod 2) * 2 ^ 15" by (rule and_pow2_nat)
  also have "unat f div 2 ^ 16 div 2 ^ 15 = unat f div 2147483648" by (simp add: div_mult2_eq [symmetric])
  also have "unat f div 2147483648 mod 2 = unat f div 2147483648" using unat_lt_32 [of f] by simp
  finally have e: "unat (drop_bit 16 f AND 0x8000) = (unat f div 2147483648) * 32768" by simp
  have "unat f div 2147483648 \<le> 1" using unat_lt_32 [of f] by simp
  then show ?thesis by (simp only: e unsigned_ucast_eq) (simp add: take_bit_nat_eq_self)
qed

text \<open>The magnitude part of the conversion, over natural numbers.\<close>

definition half_mag :: "nat \<Rightarrow> nat" where
  "half_mag y =
     (let ex = y div 2 ^ 23; fr = y mod 2 ^ 23
      in if 0x47800000 \<le> y then 0x7C00
         else if y < 0x33000000 then 0
         else if y < 0x38800000 then rne_shift (fr + 2 ^ 23) (126 - ex)
         else (ex - 113) * 1024 + rne_shift (fr + 2 ^ 23) 13)"

lemma half_mag_round:
  assumes "y \<le> 0x7F800000"
  shows "half_mag y = round_mag 10 5 (fst (unpack 23 8 y)) (snd (unpack 23 8 y))"
proof -
  define ex fr where "ex = y div 2 ^ 23" and "fr = y mod 2 ^ 23"
  have y: "y = ex * 2 ^ 23 + fr" and fr: "fr < 2 ^ 23"
    by (simp_all only: ex_def fr_def div_mult_mod_eq) simp
  have L: "bitlen (fr + 2 ^ 23) = 24" using bitlen_unique [of 23 "fr + 2 ^ 23"] fr by simp
  have U: "unpack 23 8 y = (if ex = 0 then (fr, -149) else (fr + 2 ^ 23, int ex - 150))"
    by (simp add: unpack_def ex_def fr_def Let_def)
  have N: "0 < ex \<Longrightarrow> round_mag 10 5 (fr + 2 ^ 23) (int ex - 150) =
      min 0x7C00 (if ex \<le> 112 then rne_shift (fr + 2 ^ 23) (126 - ex)
                  else (ex - 113) * 1024 + rne_shift (fr + 2 ^ 23) 13)"
    using L by (auto simp: round_mag_def Let_def max_def nat_diff_distrib' intro!: arg_cong [where f = "min _"]
        arg_cong [where f = "rne_shift _"])
  consider "0x47800000 \<le> y" | "y < 0x33000000" "ex = 0" | "y < 0x33000000" "0 < ex"
    | "0x33000000 \<le> y" "y < 0x38800000" | "0x38800000 \<le> y" "y < 0x47800000"
    by linarith
  then show ?thesis
  proof cases
    case 1
    then have ex: "143 \<le> ex" using y fr by simp
    have "1024 \<le> rne_shift (fr + 2 ^ 23) 13"
      by (rule order_trans [OF _ rne_shift_ge]) simp
    moreover have "30 * 1024 \<le> (ex - 113) * 1024" using ex by simp
    ultimately show ?thesis using 1 ex U N by (simp add: half_mag_def)
  next
    case 2
    have "bitlen fr \<le> 23" using fr by (simp add: bitlen_le_iff)
    moreover have "2 * fr < 2 ^ 125" using fr by simp
    ultimately have "round_mag 10 5 fr (-149) = 0"
      by (simp add: round_mag_def Let_def max_def rne_shift_small)
    with 2 U show ?thesis by (simp add: half_mag_def)
  next
    case 3
    then have ex: "ex \<le> 101" using y fr by simp
    have "2 * (fr + 2 ^ 23) < 2 ^ 25" using fr by simp
    also have "(2::nat) ^ 25 \<le> 2 ^ (126 - ex)" using ex by (intro power_increasing) auto
    finally have "rne_shift (fr + 2 ^ 23) (126 - ex) = 0" by (rule rne_shift_small)
    with 3 ex U N show ?thesis by (simp add: half_mag_def)
  next
    case 4
    then have ex: "102 \<le> ex" "ex \<le> 112" using y fr by simp_all
    have "fr + 2 ^ 23 \<le> 1024 * 2 ^ 14" using fr by simp
    also have "\<dots> \<le> 1024 * 2 ^ (126 - ex)" using ex by (intro mult_left_mono power_increasing) auto
    finally have "rne_shift (fr + 2 ^ 23) (126 - ex) \<le> 1024" by (rule rne_shift_le)
    with 4 ex U N show ?thesis by (simp add: half_mag_def ex_def fr_def Let_def)
  next
    case 5
    then have ex: "113 \<le> ex" "ex \<le> 142" using y fr by simp_all
    have "rne_shift (fr + 2 ^ 23) 13 \<le> 2048" by (rule rne_shift_le) (use fr in simp)
    moreover have "(ex - 113) * 1024 \<le> 29 * 1024" using ex by simp
    ultimately show ?thesis using 5 ex U N by (simp add: half_mag_def ex_def fr_def Let_def)
  qed
qed

lemma unat_sign_or:
  fixes sign :: u16 and b :: u32
  assumes sign: "unat sign = s * 2 ^ 15" and s: "s \<le> 1" and b: "unat b < 2 ^ 15"
  shows "unat (ucast ((ucast sign :: u32) OR b) :: u16) = s * 2 ^ 15 + unat b"
proof -
  have usign: "unat (ucast sign :: u32) = s * 2 ^ 15" using sign by (simp add: ucast_up)
  have o: "unat ((ucast sign :: u32) OR b) = s * 2 ^ 15 + unat b"
    using unat_or_shift [OF usign b] usign by simp
  have "s * 2 ^ 15 + unat b < 2 ^ 16" using s b by (cases s) auto
  then show ?thesis by (simp only: unsigned_ucast_eq o) (simp add: take_bit_nat_eq_self)
qed

text \<open>Rounding by a comparison of the remainder with the half and the parity of the result.\<close>

lemma unat_round_half:
  fixes h :: u16 and rem half :: u32
  assumes h: "unat h = s * 2 ^ 15 + c + n div 2 ^ k" "even c" "unat h < 2 ^ 16 - 1"
    and rem: "unat rem = n mod 2 ^ k" and half: "2 * unat half = 2 ^ k"
  shows "unat (if rem > half \<or> (rem = half \<and> h AND 1 \<noteq> 0) then h + 1 else h) =
    s * 2 ^ 15 + c + rne_shift n k"
proof -
  have "rem > half \<longleftrightarrow> 2 * unat rem > 2 * unat half" by (simp add: word_less_nat_alt)
  then have "rem > half \<longleftrightarrow> 2 * (n mod 2 ^ k) > 2 ^ k" by (simp only: rem half)
  moreover have "rem = half \<longleftrightarrow> 2 * unat rem = 2 * unat half" by (simp add: word_unat_eq_iff)
  then have "rem = half \<longleftrightarrow> 2 * (n mod 2 ^ k) = 2 ^ k" by (simp only: rem half)
  moreover have "h AND 1 \<noteq> 0 \<longleftrightarrow> odd (n div 2 ^ k)" using h(2) by (simp only: unat_and_one h(1)) simp
  moreover have "unat (h + 1) = unat h + 1" using h(3) by (simp add: unat_add_lem [THEN iffD1])
  ultimately show ?thesis using h(1) by (simp add: rne_shift_def Let_def)
qed

lemma fp32_to_fp16_subnormal:
  fixes x :: u32 and sign :: u16
  defines "shift \<equiv> 113 - drop_bit 23 x"
  defines "mant \<equiv> (x AND 0x7FFFFF) OR 0x800000"
  defines "h \<equiv> ucast ((ucast sign :: u32) OR drop_bit (unat (shift + 13)) mant) :: u16"
  defines "rem \<equiv> mant AND (push_bit (unat (shift + 13)) 1 - 1)"
  defines "half \<equiv> push_bit (unat (shift + 12)) 1 :: u32"
  assumes sign: "unat sign = s * 2 ^ 15" "s \<le> 1"
    and y: "0x33000000 \<le> unat x" "unat x < 0x38800000"
  shows "unat (if rem > half \<or> (rem = half \<and> h AND 1 \<noteq> 0) then h + 1 else h) =
    s * 32768 + half_mag (unat x)"
proof -
  define ex fr where "ex = unat x div 2 ^ 23" and "fr = unat x mod 2 ^ 23"
  have fr: "unat x = ex * 2 ^ 23 + fr" "fr < 2 ^ 23"
    by (simp_all only: ex_def fr_def div_mult_mod_eq) simp
  have ex: "102 \<le> ex" "ex \<le> 112" using y fr by simp_all
  define k n where "k = 126 - ex" and "n = fr + 2 ^ 23"
  have k: "14 \<le> k" "k \<le> 24" using ex by (simp_all add: k_def)
  have exw: "unat (drop_bit 23 x) = ex" by (simp add: unat_drop ex_def)
  have "unat shift = 113 - ex"
    using ex by (simp add: shift_def unat_sub word_le_nat_alt exw)
  then have s13: "unat (shift + 13) = k" "unat (shift + 12) = k - 1"
    using ex by (simp_all add: unat_word_ariths k_def)
  have "unat (x AND 0x7FFFFF) = fr" using unat_and_mask [of "0x7FFFFF :: u32" 23 x] by (simp add: fr_def)
  then have mant: "unat mant = n"
    using unat_or_shift [of "0x800000 :: u32" 1 23 "x AND 0x7FFFFF"] fr
    by (simp add: mant_def or.commute n_def)
  have "n < 1024 * 2 ^ 14" using fr by (simp add: n_def)
  also have "\<dots> \<le> 1024 * 2 ^ k" using k by (intro mult_left_mono power_increasing) auto
  finally have q: "n div 2 ^ k < 1024" by (simp add: less_mult_imp_div_less)
  have h: "unat h = s * 2 ^ 15 + 0 + n div 2 ^ k"
    unfolding h_def by (subst unat_sign_or [OF sign]) (use q in \<open>simp_all add: unat_drop mant s13\<close>)
  have "unat (push_bit (unat (shift + 13)) 1 - 1 :: u32) = 2 ^ k - 1"
    unfolding s13 by (rule unat_shift_one) (use k in simp)
  then have rem: "unat rem = n mod 2 ^ k" unfolding rem_def by (simp only: unat_and_mask mant)
  have half: "2 * unat half = 2 ^ k"
    using k unat_shift_one(1) [of "k - 1"] by (simp only: half_def s13) (simp flip: power_Suc)
  have "unat h < 2 ^ 16 - 1" using h sign q by (cases s) auto
  from unat_round_half [OF h _ this rem half]
  show ?thesis using y by (simp add: half_mag_def Let_def n_def k_def ex_def fr_def)
qed

lemma fp32_to_fp16_normal:
  fixes x :: u32 and sign :: u16
  defines "b \<equiv> push_bit 10 (drop_bit 23 x - 112) OR (drop_bit 13 x AND 0x3FF)"
  defines "h \<equiv> ucast ((ucast sign :: u32) OR b) :: u16"
  defines "rem \<equiv> x AND 0x1FFF"
  assumes sign: "unat sign = s * 2 ^ 15" "s \<le> 1"
    and y: "0x38800000 \<le> unat x" "unat x < 0x47800000"
  shows "unat (if rem > 0x1000 \<or> (rem = 0x1000 \<and> h AND 1 \<noteq> 0) then h + 1 else h) =
    s * 32768 + half_mag (unat x)"
proof -
  define ex fr where "ex = unat x div 2 ^ 23" and "fr = unat x mod 2 ^ 23"
  have fr: "unat x = ex * 2 ^ 23 + fr" "fr < 2 ^ 23"
    by (simp_all only: ex_def fr_def div_mult_mod_eq) simp
  have ex: "113 \<le> ex" "ex \<le> 142" using y fr by simp_all
  define n q where "n = fr + 2 ^ 23" and "q = fr div 2 ^ 13"
  have q: "q < 1024" using fr by (simp add: q_def less_mult_imp_div_less)
  have "unat (drop_bit 23 x - 112) = ex - 112"
    using ex by (simp add: unat_sub word_le_nat_alt unat_drop ex_def)
  then have p: "unat (push_bit 10 (drop_bit 23 x - 112)) = (ex - 112) * 2 ^ 10"
    using ex by (subst unsigned_push_bit_eq) (simp add: push_bit_eq_mult take_bit_nat_eq_self)
  have "unat x div 2 ^ 13 = ex * 1024 + q"
    using div_mult_self3 [of "2 ^ 13" "ex * 1024" fr] fr(1) by (simp add: q_def)
  then have xq: "unat x div 2 ^ 13 mod 2 ^ 10 = q" using q by simp
  have nq: "n div 2 ^ 13 = 1024 + q"
    using div_mult_self3 [of "2 ^ 13" 1024 fr] by (simp add: n_def q_def add.commute)
  from xq have m: "unat (drop_bit 13 x AND 0x3FF) = q"
    by (subst unat_and_mask [where n = 10]) (simp_all add: unat_drop)
  have b: "unat b = (ex - 112) * 1024 + q"
    unfolding b_def by (subst unat_or_shift [OF p]) (use q m p in simp_all)
  have h: "unat h = s * 2 ^ 15 + (ex - 113) * 1024 + n div 2 ^ 13"
    unfolding h_def by (subst unat_sign_or [OF sign]) (use q ex b nq in simp_all)
  have rem: "unat rem = n mod 2 ^ 13"
  proof -
    have "unat rem = unat x mod 2 ^ 13"
      unfolding rem_def by (rule unat_and_mask) simp
    also have "\<dots> = fr mod 2 ^ 13" using mod_mult_self3 [of "ex * 1024" "2 ^ 13" fr] fr(1) by (simp add: mult.commute)
    also have "\<dots> = n mod 2 ^ 13" using mod_mult_self3 [of 1024 "2 ^ 13" fr] by (simp add: n_def add.commute)
    finally show ?thesis .
  qed
  have "unat h < 2 ^ 16 - 1" using h nq sign q ex by (cases s) auto
  from unat_round_half [OF h _ this rem, of "0x1000"]
  show ?thesis using y by (simp add: half_mag_def Let_def n_def ex_def fr_def)
qed

lemma fp32_to_fp16_nat:
  fixes f :: f32
  defines "y \<equiv> unat f mod 2147483648" and "s \<equiv> unat f div 2147483648"
  shows "unat (fp32_to_fp16 f) = s * 32768 + (if 0x7F800000 < y then 0x7E00 else half_mag y)"
proof -
  define sign x where "sign = (ucast (drop_bit 16 f AND 0x8000) :: u16)" and "x = f AND 0x7FFFFFFF"
  have sign: "unat sign = s * 2 ^ 15" by (simp add: sign_def s_def fp32_to_fp16_sign)
  have s: "s \<le> 1" using unat_lt_32 [of f] by (simp add: s_def)
  have x: "unat x = y" unfolding x_def y_def
    by (subst unat_and_mask [where n = 31]) simp_all
  consider "0x47800000 \<le> y" | "y < 0x33000000" | "0x33000000 \<le> y" "y < 0x38800000"
    | "0x38800000 \<le> y" "y < 0x47800000" by linarith
  then show ?thesis
  proof cases
    case 1
    have "unat (sign OR m) = s * 32768 + unat m" if "unat m < 2 ^ 15" for m
      using unat_or_shift [OF sign that] sign by simp
    with 1 show ?thesis
      by (simp add: fp32_to_fp16_def Let_def word_le_nat_alt word_less_nat_alt half_mag_def
          flip: sign_def x_def add: x)
  next
    case 2
    then show ?thesis
      by (simp add: fp32_to_fp16_def Let_def word_le_nat_alt word_less_nat_alt half_mag_def x sign
          flip: sign_def x_def)
  next
    case 3
    with fp32_to_fp16_subnormal [OF sign s, of x] show ?thesis
      by (simp add: fp32_to_fp16_def Let_def word_le_nat_alt word_less_nat_alt x flip: sign_def x_def)
  next
    case 4
    with fp32_to_fp16_normal [OF sign s, of x] show ?thesis
      by (simp add: fp32_to_fp16_def Let_def word_le_nat_alt word_less_nat_alt x or.assoc
          flip: sign_def x_def)
  qed
qed

lemma renormalize_bitlen:
  assumes "bitlen (unat m) + d = 11" "0 < unat m"
  shows "renormalize m shift = Some (push_bit d m, shift + int d)"
  using assms
proof (induction d arbitrary: m shift)
  case 0
  then have "1024 \<le> unat m" "unat m < 2048" using bitlen_bounds [of "unat m"] by simp_all
  then have "unat m div 1024 = 1" by simp
  then have "unat (m AND 0x400) = 1024"
    using and_pow2_nat [of "unat m" 10] by (simp add: unsigned_and_eq)
  then have "m AND 0x400 \<noteq> 0" by (metis unat_0 zero_neq_numeral)
  then show ?case by (simp add: renormalize.simps)
next
  case (Suc d)
  then have "bitlen (unat m) \<le> 10" by simp
  then have b: "unat m < 1024" by (simp add: bitlen_le_iff)
  then have "unat (m AND 0x400) = 0"
    using and_pow2_nat [of "unat m" 10] by (simp add: unsigned_and_eq)
  then have z: "m AND 0x400 = 0" by (simp only: unat_eq_zero)
  have u: "unat (push_bit 1 m) = unat m * 2 ^ 1" by (rule unat_push) (use b in simp)
  have "renormalize (push_bit 1 m) (shift + 1) = Some (push_bit d (push_bit 1 m), shift + 1 + int d)"
    by (rule Suc.IH) (use Suc.prems u in \<open>simp_all only: bitlen_shift, simp_all\<close>)
  with z show ?case by (subst renormalize.simps) (simp add: push_bit_push_bit)
qed

text \<open>The magnitude part of the widening, over natural numbers.\<close>

definition widen_mag :: "nat \<Rightarrow> nat" where
  "widen_mag m =
     (let ex = m div 1024; fr = m mod 1024; d = 11 - bitlen fr
      in if ex = 0 then (if fr = 0 then 0 else (113 - d) * 2 ^ 23 + (fr * 2 ^ d - 1024) * 2 ^ 13)
         else if ex = 31 then 0x7F800000 + fr * 2 ^ 13
         else (ex + 112) * 2 ^ 23 + fr * 2 ^ 13)"

lemma fp16_to_fp32_fields:
  fixes h :: u16
  shows "unat (push_bit 16 (ucast (h AND 0x8000) :: u32)) = (unat h div 32768) * 2 ^ 31"
    "unat ((ucast (drop_bit 10 h) :: u32) AND 0x1F) = unat h mod 32768 div 1024"
    "unat ((ucast h :: u32) AND 0x3FF) = unat h mod 1024"
proof -
  have "unat h div 32768 mod 2 = unat h div 32768" using unat_lt_16 [of h] by simp
  then have "unat (h AND 0x8000) = (unat h div 32768) * 32768"
    using and_pow2_nat [of "unat h" 15] by (simp add: unsigned_and_eq)
  moreover have "unat h div 32768 \<le> 1" using unat_lt_16 [of h] by simp
  ultimately show "unat (push_bit 16 (ucast (h AND 0x8000) :: u32)) = (unat h div 32768) * 2 ^ 31"
    by (subst unat_push) (simp_all add: ucast_up)
  have "unat ((ucast (drop_bit 10 h) :: u32) AND 0x1F) = unat h div 2 ^ 10 mod 2 ^ 5"
    by (subst unat_and_mask [where n = 5]) (simp_all add: ucast_up unat_drop)
  also have "\<dots> = unat h mod 32768 div 1024"
    using mod_mult2_eq [of "unat h" 1024 32] by simp
  finally show "unat ((ucast (drop_bit 10 h) :: u32) AND 0x1F) = unat h mod 32768 div 1024" .
  show "unat ((ucast h :: u32) AND 0x3FF) = unat h mod 1024"
    by (subst unat_and_mask [where n = 10]) (simp_all add: ucast_up)
qed

text \<open>Normalising shift of a subnormal fraction.\<close>

lemma subnormal_shift:
  assumes "0 < fr" "fr < 1024"
  defines "d \<equiv> 11 - bitlen fr"
  shows "bitlen fr + d = 11" "1024 \<le> fr * 2 ^ d" "fr * 2 ^ d < 2048" "1 \<le> d" "d \<le> 10"
proof -
  have "bitlen fr \<le> 10" using assms(2) by (simp add: bitlen_le_iff)
  moreover have "0 < bitlen fr" using assms(1) by (simp add: bitlen_pos)
  ultimately show b: "bitlen fr + d = 11" "1 \<le> d" "d \<le> 10" by (simp_all add: d_def)
  then have "bitlen (fr * 2 ^ d) = 11" using assms(1) by (simp add: bitlen_shift)
  then show "1024 \<le> fr * 2 ^ d" "fr * 2 ^ d < 2048"
    using bitlen_bounds [of "fr * 2 ^ d"] assms(1) by simp_all
qed

lemma unat_or_three:
  fixes a b c :: u32
  assumes a: "unat a = s * 2 ^ 31" and b: "unat b = e * 2 ^ 23" "e < 256" and c: "unat c < 2 ^ 23"
  shows "unat (a OR b OR c) = s * 2 ^ 31 + e * 2 ^ 23 + unat c"
proof -
  have bc: "unat (b OR c) = e * 2 ^ 23 + unat c" using unat_or_shift [OF b(1) c] b(1) by simp
  have "unat (b OR c) < 2 ^ 31" using bc b(2) c by simp
  from unat_or_shift [OF a this] bc a show ?thesis by (simp add: or.assoc)
qed

lemma fp16_to_fp32_nat:
  obtains f where "fp16_to_fp32 h = Some f"
    "unat f = (unat h div 32768) * 2147483648 + widen_mag (unat h mod 32768)"
proof -
  define sign ex mant where "sign = push_bit 16 (ucast (h AND 0x8000) :: u32)"
    and "ex = (ucast (drop_bit 10 h) :: u32) AND 0x1F" and "mant = (ucast h :: u32) AND 0x3FF"
  define s e fr where "s = unat h div 32768" and "e = unat h mod 32768 div 1024" and "fr = unat h mod 1024"
  note F = fp16_to_fp32_fields [of h, folded sign_def ex_def mant_def s_def e_def fr_def]
  have s: "s \<le> 1" using unat_lt_16 [of h] by (simp add: s_def)
  have fr: "fr < 1024" "unat h mod 32768 mod 1024 = fr" by (simp_all add: fr_def mod_mod_cancel)
  have e: "e < 32" by (simp add: e_def less_mult_imp_div_less)
  have ex0: "ex = 0 \<longleftrightarrow> e = 0" "mant = 0 \<longleftrightarrow> fr = 0" "ex = 31 \<longleftrightarrow> e = 31"
    using F by (simp_all add: word_unat_eq_iff)
  have m13: "unat (push_bit 13 mant) = fr * 2 ^ 13" by (subst unat_push) (use F fr in simp_all)
  consider "e = 0" "fr = 0" | "e = 0" "0 < fr" | "e = 31" | "0 < e" "e < 31" using e by linarith
  then show thesis
  proof cases
    case 1
    then have "widen_mag (unat h mod 32768) = 0" using fr(2) by (simp only: widen_mag_def Let_def) (simp add: e_def)
    with 1 show thesis using that [of sign] F ex0
      by (simp add: fp16_to_fp32_def Let_def s_def flip: sign_def ex_def mant_def)
  next
    case 2
    define d where "d = 11 - bitlen fr"
    note d = subnormal_shift [OF 2(2) fr(1), folded d_def]
    have R: "renormalize mant 0 = Some (push_bit d mant, int d)"
      using renormalize_bitlen [of mant d 0] d(1) F(3) 2 by simp
    have pd: "unat (push_bit d mant) = fr * 2 ^ d" by (subst unat_push) (use F d in simp_all)
    have "unat (push_bit d mant AND 0x3FF) = fr * 2 ^ d mod 1024"
      using unat_and_mask [of "0x3FF :: u32" 10 "push_bit d mant"] pd by simp
    also have "\<dots> = fr * 2 ^ d - 1024" using d by (simp add: mod_if)
    finally have c: "unat (push_bit 13 (push_bit d mant AND 0x3FF)) = (fr * 2 ^ d - 1024) * 2 ^ 13"
      by (subst unat_push) (use d in simp_all)
    have "unat (113 - word_of_int (int d) :: u32) = 113 - d"
      using d by (simp add: unat_sub word_le_nat_alt unat_of_nat take_bit_nat_eq_self)
    then have b: "unat (push_bit 23 (113 - word_of_int (int d)) :: u32) = (113 - d) * 2 ^ 23"
      by (subst unat_push) (use d in simp_all)
    have "unat (sign OR push_bit 23 (113 - word_of_int (int d)) OR push_bit 13 (push_bit d mant AND 0x3FF))
        = s * 2 ^ 31 + (113 - d) * 2 ^ 23 + (fr * 2 ^ d - 1024) * 2 ^ 13"
      by (subst unat_or_three [OF F(1) b]) (use c d in simp_all)
    then show thesis using that 2 R ex0 fr(2)
      by (simp add: fp16_to_fp32_def Let_def widen_mag_def s_def e_def d_def flip: sign_def ex_def mant_def)
  next
    case 3
    have "unat (sign OR 0x7F800000 OR push_bit 13 mant) = s * 2 ^ 31 + 255 * 2 ^ 23 + fr * 2 ^ 13"
      by (subst unat_or_three [OF F(1), where e = 255]) (use m13 fr in simp_all)
    then show thesis using that 3 ex0 fr(2)
      by (simp add: fp16_to_fp32_def Let_def widen_mag_def s_def e_def flip: sign_def ex_def mant_def)
  next
    case 4
    have "unat (ex + 112) = e + 112" using F(2) e by (simp add: unat_word_ariths)
    then have b: "unat (push_bit 23 (ex + 112)) = (e + 112) * 2 ^ 23"
      by (subst unat_push) (use e in simp_all)
    have "unat (sign OR push_bit 23 (ex + 112) OR push_bit 13 mant)
        = s * 2 ^ 31 + (e + 112) * 2 ^ 23 + fr * 2 ^ 13"
      by (subst unat_or_three [OF F(1) b]) (use m13 fr e in simp_all)
    then show thesis using that 4 ex0 fr(2)
      by (simp add: fp16_to_fp32_def Let_def widen_mag_def s_def e_def flip: sign_def ex_def mant_def)
  qed
qed

lemma widen_mag_exact:
  assumes "m < 0x7C00"
  shows "\<exists>j. unpack 23 8 (widen_mag m) = (fst (unpack 10 5 m) * 2 ^ j, snd (unpack 10 5 m) - int j)"
proof -
  define ex fr where "ex = m div 1024" and "fr = m mod 1024"
  have ex: "ex < 31" and fr: "fr < 1024" using assms by (simp_all add: ex_def fr_def less_mult_imp_div_less)
  have U: "unpack 10 5 m = (if ex = 0 then (fr, -24) else (fr + 1024, int ex - 25))"
    by (simp add: unpack_def ex_def fr_def Let_def)
  consider "ex = 0" "fr = 0" | "ex = 0" "0 < fr" | "0 < ex" by linarith
  then show ?thesis
  proof cases
    case 1
    then have "m = 0" by (simp add: ex_def fr_def)
    then have "unpack 23 8 (widen_mag m) = (0, -149)" by (simp add: widen_mag_def unpack_def)
    with 1 U show ?thesis by (intro exI [of _ 125]) simp
  next
    case 2
    define d where "d = 11 - bitlen fr"
    note d = subnormal_shift [OF 2(2) fr, folded d_def]
    have "unpack 23 8 ((113 - d) * 2 ^ 23 + (fr * 2 ^ d - 1024) * 2 ^ 13) =
        ((fr * 2 ^ d - 1024) * 2 ^ 13 + 2 ^ 23, int (113 - d) - 150)"
      by (subst unpack_normal) (use d in simp_all)
    moreover have "(fr * 2 ^ d - 1024) * 2 ^ 13 + 2 ^ 23 = fr * 2 ^ (d + 13)"
      using d by (simp add: power_add diff_mult_distrib)
    moreover have "int (113 - d) - 150 = -24 - int (d + 13)" using d by simp
    moreover have "widen_mag m = (113 - d) * 2 ^ 23 + (fr * 2 ^ d - 1024) * 2 ^ 13"
      using 2 by (simp add: widen_mag_def Let_def d_def ex_def fr_def)
    ultimately show ?thesis using 2 U by (intro exI [of _ "d + 13"]) simp
  next
    case 3
    have "unpack 23 8 ((ex + 112) * 2 ^ 23 + fr * 2 ^ 13) = (fr * 2 ^ 13 + 2 ^ 23, int (ex + 112) - 150)"
      by (subst unpack_normal) (use fr in simp_all)
    moreover have "widen_mag m = (ex + 112) * 2 ^ 23 + fr * 2 ^ 13"
      using 3 ex by (simp add: widen_mag_def Let_def ex_def fr_def)
    ultimately show ?thesis using 3 U by (intro exI [of _ 13]) simp
  qed
qed

lemma widen_mag_bound:
  assumes "m < 0x7C00"
  shows "widen_mag m < 0x7F800000"
proof -
  define ex fr d where "ex = m div 1024" and "fr = m mod 1024" and "d = 11 - bitlen fr"
  have ex: "ex < 31" and fr: "fr < 1024" using assms by (simp_all add: ex_def fr_def less_mult_imp_div_less)
  have W: "widen_mag m = (if ex = 0 then if fr = 0 then 0 else (113 - d) * 2 ^ 23 + (fr * 2 ^ d - 1024) * 2 ^ 13
      else (ex + 112) * 2 ^ 23 + fr * 2 ^ 13)"
    using ex by (simp add: widen_mag_def Let_def d_def ex_def fr_def)
  have "fr * 2 ^ d - 1024 < 1024" if "0 < fr" using subnormal_shift(2,3) [OF that fr, folded d_def] by linarith
  moreover have "(113 - d) * 2 ^ 23 \<le> 113 * 2 ^ 23" by simp
  ultimately show ?thesis using ex fr unfolding W by auto
qed

text \<open>
  The widening is exact and the narrowing undoes it.
\<close>

lemma widen_mag_value: "m < 0x7C00 \<Longrightarrow> mag_value 23 8 (widen_mag m) = mag_value 10 5 m"
proof -
  assume "m < 0x7C00"
  then obtain j where "unpack 23 8 (widen_mag m) = (fst (unpack 10 5 m) * 2 ^ j, snd (unpack 10 5 m) - int j)"
    using widen_mag_exact by blast
  then have "mag_value 23 8 (widen_mag m) =
      of_nat (fst (unpack 10 5 m) * 2 ^ j) * 2 powi (snd (unpack 10 5 m) - int j)"
    by (simp only: mag_value_def prod.case)
  also have "\<dots> = mag_value 10 5 m" by (simp only: powi_shift) (simp add: mag_value_def case_prod_beta)
  finally show ?thesis .
qed

lemma half_mag_widen_mag:
  assumes "m < 0x7C00"
  shows "half_mag (widen_mag m) = m"
proof -
  obtain j where j: "unpack 23 8 (widen_mag m) = (fst (unpack 10 5 m) * 2 ^ j, snd (unpack 10 5 m) - int j)"
    using widen_mag_exact [OF assms] by blast
  have "half_mag (widen_mag m) = round_mag 10 5 (fst (unpack 10 5 m) * 2 ^ j) (snd (unpack 10 5 m) - int j)"
    using half_mag_round [of "widen_mag m"] widen_mag_bound [OF assms] j by simp
  also have "\<dots> = m" using assms by (simp only: round_mag_scale) (simp add: round_mag_unpack)
  finally show ?thesis .
qed

section \<open>Correctness of the conversions\<close>

definition is_nan16 :: "u16 \<Rightarrow> bool" where
  "is_nan16 h \<longleftrightarrow> 0x7C00 < unat h mod 32768"

text \<open>Every binary16 bit pattern decodes: the normalising loop always ends.\<close>

lemma fp16_to_fp32_defined: "\<exists>f. fp16_to_fp32 h = Some f"
  using fp16_to_fp32_nat by metis

lemma fp16_roundtrip:
  assumes "\<not> is_nan16 h" "fp16_to_fp32 h = Some f"
  shows "fp32_to_fp16 f = h"
proof -
  define m s where "m = unat h mod 32768" and "s = unat h div 32768"
  have h: "unat h = s * 32768 + m" by (simp add: s_def m_def)
  have m: "m \<le> 0x7C00" using assms(1) by (simp add: is_nan16_def m_def)
  obtain g where "fp16_to_fp32 h = Some g" "unat g = s * 2147483648 + widen_mag m"
    unfolding s_def m_def by (rule fp16_to_fp32_nat)
  with assms have f: "unat f = s * 2147483648 + widen_mag m" by simp
  have w: "widen_mag m \<le> 0x7F800000" "half_mag (widen_mag m) = m"
  proof -
    show "widen_mag m \<le> 0x7F800000"
      using widen_mag_bound [of m] m by (cases "m = 0x7C00") (auto simp: widen_mag_def)
    show "half_mag (widen_mag m) = m"
      using half_mag_widen_mag [of m] m by (cases "m = 0x7C00") (auto simp: widen_mag_def half_mag_def)
  qed
  then have "unat f mod 2147483648 = widen_mag m" "unat f div 2147483648 = s"
    by (simp_all add: f)
  with w fp32_to_fp16_nat [of f] h have "unat (fp32_to_fp16 f) = unat h" by simp
  then show ?thesis by (simp add: word_unat_eq_iff)
qed

lemma bf16_mag_round:
  assumes "y \<le> 0x7F800000"
  shows "rne_shift y 16 = round_mag 7 8 (fst (unpack 23 8 y)) (snd (unpack 23 8 y))"
proof -
  define ex fr where "ex = y div 2 ^ 23" and "fr = y mod 2 ^ 23"
  have y: "y = ex * 2 ^ 23 + fr" and fr: "fr < 2 ^ 23"
    by (simp_all only: ex_def fr_def div_mult_mod_eq) simp
  have ex: "ex \<le> 255" using assms y by simp
  have U: "unpack 23 8 y = (if ex = 0 then (fr, -149) else (fr + 2 ^ 23, int ex - 150))"
    by (simp add: unpack_def ex_def fr_def Let_def)
  have cap: "rne_shift y 16 \<le> 0x7F80" by (rule rne_shift_le) (use assms in simp)
  show ?thesis
  proof (cases "ex = 0")
    case True
    have "bitlen fr \<le> 23" using fr by (simp add: bitlen_le_iff)
    then show ?thesis using True U y cap by (auto simp: round_mag_def Let_def max_def rne_shift_def)
  next
    case False
    have L: "bitlen (fr + 2 ^ 23) = 24" using bitlen_unique [of 23 "fr + 2 ^ 23"] fr by simp
    have "y = (ex - 1) * 64 * 2 ^ Suc 16 + (fr + 2 ^ 23)" using False y by (cases ex) auto
    then have r: "rne_shift y 16 = (ex - 1) * 128 + rne_shift (fr + 2 ^ 23) 16"
      by (simp only: rne_shift_add)
    have E: "max (int ex - 150 + int 24 - 1) (-126) = int ex - 127" using False by simp
    show ?thesis using False U L r cap by (simp only: round_mag_def Let_def) (simp add: E nat_diff_distrib')
  qed
qed

lemma float_to_bf16_nat:
  fixes f :: f32
  assumes "unat f mod 2147483648 \<le> 0x7F800000"
  shows "unat (float_to_bf16 f) = (unat f div 2147483648) * 32768 + rne_shift (unat f mod 2147483648) 16"
proof -
  define s y where "s = unat f div 2147483648" and "y = unat f mod 2147483648"
  have f: "unat f = s * 2147483648 + y" and y: "y \<le> 0x7F800000" using assms by (simp_all add: s_def y_def)
  have s: "s \<le> 1" using unat_lt_32 [of f] by (simp add: s_def)
  have ex: "unat (f AND 0x007fffff) = y mod 2 ^ 23"
    using unat_and_mask [of "0x7fffff :: u32" 23 f] by (simp add: y_def mod_mod_cancel)
  have nn: "\<not> (f AND 0x7f800000 = 0x7f800000 \<and> f AND 0x007fffff \<noteq> 0)"
  proof
    assume a: "f AND 0x7f800000 = 0x7f800000 \<and> f AND 0x007fffff \<noteq> 0"
    have "f AND 0x7FFFFFFF = (f AND 0x7f800000) OR (f AND 0x007fffff)"
      by (simp flip: bit.conj_disj_distrib)
    then have "f AND 0x7FFFFFFF = 0x7f800000 OR (f AND 0x007fffff)" using a by simp
    then have "unat (f AND 0x7FFFFFFF) = 0x7f800000 + y mod 2 ^ 23"
      using unat_or_shift [of "0x7f800000 :: u32" 255 23 "f AND 0x007fffff"] ex by simp
    moreover have "unat (f AND 0x7FFFFFFF) = y"
      using unat_and_mask [of "0x7FFFFFFF :: u32" 31 f] by (simp add: y_def)
    ultimately have "y = 0x7f800000 + y mod 2 ^ 23" by simp
    moreover have "y mod 2 ^ 23 \<noteq> 0" using a ex by (metis unat_eq_zero)
    ultimately show False using y by simp
  qed
  define bias where "bias = 0x7fff + (drop_bit 16 f AND 1)"
  have lsb: "unat (drop_bit 16 f AND 1) = y div 2 ^ 16 mod 2"
  proof -
    have "unat (drop_bit 16 f AND 1) = unat f div 2 ^ 16 mod 2"
      using unat_and_mask [of "1::u32" 1 "drop_bit 16 f"] by (simp add: unat_drop)
    also have "unat f div 2 ^ 16 = (s * 16384) * 2 + y div 2 ^ 16"
      using div_mult_self3 [of "2 ^ 16" "s * 32768" y] by (simp add: f)
    also have "\<dots> mod 2 = y div 2 ^ 16 mod 2" by (rule mod_mult_self3)
    finally show ?thesis .
  qed
  have bias: "unat bias = 2 ^ 15 - 1 + y div 2 ^ 16 mod 2"
    by (simp add: bias_def unat_word_ariths lsb)
  have "unat (f + bias) = unat f + unat bias"
    using f s y bias by (subst unat_add_lem [THEN iffD1]) auto
  then have "unat (drop_bit 16 (f + bias)) = (s * 2147483648 + (y + (2 ^ 15 - 1) + y div 2 ^ 16 mod 2)) div 2 ^ 16"
    by (simp add: unat_drop f bias ac_simps)
  also have "\<dots> = s * 32768 + (y + (2 ^ 15 - 1) + y div 2 ^ Suc 15 mod 2) div 2 ^ Suc 15"
    using div_mult_self3 [of "2 ^ 16" "s * 32768" "y + (2 ^ 15 - 1) + y div 2 ^ 16 mod 2"] by (simp add: mult.commute)
  also have "\<dots> = s * 32768 + rne_shift y 16" by (simp only: rne_shift_bias) simp
  finally have d: "unat (drop_bit 16 (f + bias)) = s * 32768 + rne_shift y 16" .
  have "rne_shift y 16 \<le> 0x7F80" by (rule rne_shift_le) (use y in simp)
  then have "s * 32768 + rne_shift y 16 < 2 ^ 16" using s by (cases s) auto
  then show ?thesis
    unfolding float_to_bf16_def if_not_P [OF nn] Let_def bias_def [symmetric] s_def [symmetric] y_def [symmetric]
    by (simp only: unsigned_ucast_eq d) (simp add: take_bit_nat_eq_self)
qed

section \<open>What the conversions compute\<close>

text \<open>A binary32 pattern splits into a sign and a magnitude; the magnitude of a number is at most that of infinity.\<close>

definition magnitude32 :: "f32 \<Rightarrow> nat" where
  "magnitude32 f = unat f mod 2147483648"

definition is_nan32 :: "f32 \<Rightarrow> bool" where
  "is_nan32 f \<longleftrightarrow> 0x7F800000 < magnitude32 f"

text \<open>
  C5: narrowing a number keeps its sign and rounds its magnitude to the nearest binary16 value, ties to
  even, with gradual underflow and overflow to infinity.
\<close>

theorem fp32_to_fp16_rounds_to_nearest:
  assumes "\<not> is_nan32 f"
  shows "unat (fp32_to_fp16 f) = (unat f div 2147483648) * 32768 +
    round_mag 10 5 (fst (unpack 23 8 (magnitude32 f))) (snd (unpack 23 8 (magnitude32 f)))"
  using assms fp32_to_fp16_nat [of f] half_mag_round [of "magnitude32 f"]
  by (simp add: is_nan32_def magnitude32_def)

text \<open>One third: the mantissa is cut in the middle and rounds up.\<close>

theorem fp32_to_fp16_rounds_to_nearest_witness:
  "\<not> is_nan32 0x3EAAAAAB \<and> fp32_to_fp16 0x3EAAAAAB = 0x3555 \<and>
   unat (fp32_to_fp16 0x3EAAAAAB) = (unat (0x3EAAAAAB :: f32) div 2147483648) * 32768 +
     round_mag 10 5 (fst (unpack 23 8 (magnitude32 0x3EAAAAAB))) (snd (unpack 23 8 (magnitude32 0x3EAAAAAB)))"
  (is "?a \<and> ?b \<and> ?c")
proof -
  have a: ?a by (simp add: is_nan32_def magnitude32_def)
  moreover have ?b by (simp add: fp32_to_fp16_def Let_def)
  ultimately show ?thesis using fp32_to_fp16_rounds_to_nearest [OF a] by blast
qed

text \<open>
  C6: widening a finite half terminates, subnormals included, keeps the sign and keeps the value exactly.
\<close>

theorem fp16_to_fp32_exact:
  assumes "unat h mod 32768 < 0x7C00"
  shows "\<exists>f. fp16_to_fp32 h = Some f \<and> unat f div 2147483648 = unat h div 32768 \<and>
    mag_value 23 8 (magnitude32 f) = mag_value 10 5 (unat h mod 32768)"
proof -
  obtain f where f: "fp16_to_fp32 h = Some f"
    "unat f = (unat h div 32768) * 2147483648 + widen_mag (unat h mod 32768)" by (rule fp16_to_fp32_nat)
  have "widen_mag (unat h mod 32768) < 2147483648" using widen_mag_bound [OF assms] by simp
  then show ?thesis using f widen_mag_value [OF assms] by (simp add: magnitude32_def)
qed

text \<open>The smallest subnormal half is \<open>2\<close> to the power of \<open>-24\<close>.\<close>

theorem fp16_to_fp32_exact_witness:
  "unat (1 :: u16) mod 32768 < 0x7C00 \<and>
   (\<exists>f. fp16_to_fp32 1 = Some f \<and> unat f div 2147483648 = unat (1 :: u16) div 32768 \<and>
      mag_value 23 8 (magnitude32 f) = mag_value 10 5 (unat (1 :: u16) mod 32768))"
  using fp16_to_fp32_exact [of 1] by simp

text \<open>
  C7: a half that is not a NaN survives the round trip through binary32.
\<close>

theorem float_to_f16_of_f16_to_float:
  assumes "\<not> is_nan16 h"
  shows "\<exists>f. f16_to_float h = Some f \<and> float_to_f16 f = h"
  using fp16_to_fp32_defined [of h] fp16_roundtrip [OF assms]
  by (auto simp: f16_to_float_def float_to_f16_def)

theorem float_to_f16_of_f16_to_float_witness:
  "\<not> is_nan16 0x83FF \<and> (\<exists>f. f16_to_float 0x83FF = Some f \<and> float_to_f16 f = 0x83FF)"
proof -
  have "\<not> is_nan16 0x83FF" by (simp add: is_nan16_def)
  then show ?thesis using float_to_f16_of_f16_to_float [of "0x83FF"] by blast
qed



end
