(* ===== verification/Validation.thy ===== *)
theory Validation
  imports CPU_Prelude
begin

text \<open>
  \<^verbatim>\<open>kernels/common/validation.h\<close>: the shape check every kernel entry point starts with, and the
  pointer check. \<open>valid_product\<close> is proved to accept exactly the positive shapes whose element count
  a \<^verbatim>\<open>long long\<close> holds, which is what makes the index arithmetic of the kernels exact.
\<close>

fun valid_product_loop :: "int \<Rightarrow> int list \<Rightarrow> bool" where
  "valid_product_loop product [] = True"
| "valid_product_loop product (dimension # rest) =
     (if dimension \<le> 0 \<or> product > cdiv LLONG_MAX dimension then False
      else valid_product_loop (product * dimension) rest)"

definition valid_product :: "int list \<Rightarrow> bool" where
  "valid_product dimensions = valid_product_loop 1 dimensions"

definition all_nonnull :: "bool list \<Rightarrow> bool" where
  "all_nonnull pointers = list_all id pointers"

lemma product_fits:
  fixes p d m :: int
  assumes "0 < d"
  shows "p \<le> m div d \<longleftrightarrow> p * d \<le> m"
proof
  assume "p \<le> m div d"
  then have "p * d \<le> (m div d) * d" using assms by (intro mult_right_mono) auto
  also have "\<dots> \<le> m" using assms by (simp add: minus_mod_eq_div_mult [symmetric])
  finally show "p * d \<le> m" .
next
  assume "p * d \<le> m"
  then have "(p * d) div d \<le> m div d" using assms by (intro zdiv_mono1)
  with assms show "p \<le> m div d" by simp
qed

lemma prod_list_pos: "\<forall>d \<in> set ds. 0 < d \<Longrightarrow> 0 < prod_list (ds :: int list)"
  by (induction ds) auto

lemma valid_product_loop_iff:
  assumes "0 < p"
  shows "valid_product_loop p ds \<longleftrightarrow> (\<forall>d \<in> set ds. 0 < d) \<and> (ds \<noteq> [] \<longrightarrow> p * prod_list ds \<le> LLONG_MAX)"
  using assms
proof (induction ds arbitrary: p)
  case Nil
  then show ?case by simp
next
  case (Cons d ds)
  show ?case
  proof (cases "0 < d")
    case True
    then have pos: "0 < p * d" using Cons.prems by simp
    have head: "valid_product_loop p (d # ds) \<longleftrightarrow> p * d \<le> LLONG_MAX \<and> valid_product_loop (p * d) ds"
      using True product_fits [of d p LLONG_MAX] by (auto simp: LLONG_MAX_def)
    have tail: "p * d \<le> LLONG_MAX" if "\<forall>e \<in> set ds. 0 < e" "p * d * prod_list ds \<le> LLONG_MAX"
    proof -
      have "1 \<le> prod_list ds" using prod_list_pos [OF that(1)] by simp
      then have "p * d * 1 \<le> p * d * prod_list ds" using pos by (intro mult_left_mono) auto
      with that(2) show ?thesis by simp
    qed
    show ?thesis unfolding head Cons.IH [OF pos] using True tail
      by (cases "ds = []") (auto simp: mult.assoc)
  qed simp
qed

lemma valid_product_iff:
  "ds \<noteq> [] \<Longrightarrow> valid_product ds \<longleftrightarrow> (\<forall>d \<in> set ds. 0 < d) \<and> prod_list ds \<le> LLONG_MAX"
  by (simp add: valid_product_def valid_product_loop_iff)

lemma valid_product_1 [simp]: "valid_product [a] \<longleftrightarrow> 0 < a \<and> a \<le> LLONG_MAX"
  and valid_product_2 [simp]: "valid_product [a, b] \<longleftrightarrow> 0 < a \<and> 0 < b \<and> a * b \<le> LLONG_MAX"
  and valid_product_3 [simp]: "valid_product [a, b, c] \<longleftrightarrow> 0 < a \<and> 0 < b \<and> 0 < c \<and> a * b * c \<le> LLONG_MAX"
  and valid_product_4 [simp]: "valid_product [a, b, c, d] \<longleftrightarrow>
    0 < a \<and> 0 < b \<and> 0 < c \<and> 0 < d \<and> a * b * c * d \<le> LLONG_MAX"
  by (auto simp: valid_product_iff mult.assoc)

lemma all_nonnull_simps [simp]:
  "all_nonnull []" "all_nonnull (b # bs) \<longleftrightarrow> b \<and> all_nonnull bs"
  by (simp_all add: all_nonnull_def)

text \<open>
  The overflow-free division test accepts a shape exactly when every dimension is positive and
  the mathematical product of the dimensions fits a signed 64-bit integer.
\<close>

theorem valid_product_exact:
  "valid_product (d # ds) \<longleftrightarrow> (\<forall>e \<in> set (d # ds). 0 < e) \<and> prod_list (d # ds) \<le> LLONG_MAX"
  by (rule valid_product_iff) simp

lemma valid_product_exact_witness:
  "\<not> valid_product [4294967296, 4294967296] \<and> valid_product [4294967296, 2147483647]"
  using valid_product_exact [of 4294967296 "[4294967296]"] valid_product_exact [of 4294967296 "[2147483647]"]
  by (simp add: LLONG_MAX_def)

end
