(* ===== verification/Workspace.thy ===== *)
theory Workspace
  imports Word_Lemmas
begin

text \<open>
  \<^verbatim>\<open>src/memory/workspace.cpp\<close> and \<^verbatim>\<open>src/memory/workspace_internal.h\<close>: the segmented scratch arena.
  Sizes are \<^verbatim>\<open>size_t\<close> words. A moved-from \<^verbatim>\<open>Workspace\<close> (\<^verbatim>\<open>impl_ == nullptr\<close>) is \<open>None\<close>. What
  \<^verbatim>\<open>::operator new\<close> and the growth of the block vector do is a parameter \<open>new_data\<close> of the operations
  that call them: the address of a fresh block of the requested size, or \<open>None\<close> where one of them throws.
  A pointer into the arena is a block index and an offset into the block.
\<close>

unbundle bit_operations_syntax

type_synonym size_t = "64 word"

section \<open>State\<close>

record block =
  data :: size_t
  capacity :: size_t
  used :: size_t

record arena =
  blocks :: "block list"
  current :: nat

record marker =
  mblock :: nat
  moffset :: size_t
  valid :: bool

type_synonym workspace = "arena option"
type_synonym pointer = "nat \<times> size_t"

section \<open>Arithmetic helpers\<close>

definition kAlignment :: size_t where "kAlignment = 64"
definition kMinimumBlock :: size_t where "kMinimumBlock = 64 * 1024"
definition size_max :: size_t where "size_max = - 1"

definition power_of_two :: "size_t \<Rightarrow> bool" where
  "power_of_two value \<longleftrightarrow> value \<noteq> 0 \<and> value AND (value - 1) = 0"

definition aligned_offset :: "size_t \<Rightarrow> size_t \<Rightarrow> size_t option" where
  "aligned_offset offset alignment =
     (let mask = alignment - 1
      in if offset > size_max - mask then None else Some ((offset + mask) AND NOT mask))"

definition growth_size :: "size_t \<Rightarrow> size_t \<Rightarrow> size_t" where
  "growth_size required previous =
     (let candidate = max required kMinimumBlock
      in if previous \<noteq> 0 \<and> previous \<le> size_max div 2 then max candidate (previous * 2) else candidate)"

section \<open>Operations\<close>

definition make_block :: "(size_t \<Rightarrow> size_t option) \<Rightarrow> size_t \<Rightarrow> block option" where
  "make_block new_data requested =
     map_option (\<lambda>a. \<lparr>data = a, capacity = requested, used = 0\<rparr>) (new_data requested)"

definition fits :: "size_t \<Rightarrow> size_t \<Rightarrow> block \<Rightarrow> size_t option" where
  "fits bytes alignment b =
     (case aligned_offset (used b) alignment of
        None \<Rightarrow> None
      | Some offset \<Rightarrow>
          if offset > capacity b \<or> bytes > capacity b - offset then None else Some offset)"

text \<open>The scan over \<open>blocks[from..]\<close> for the first block the request fits in.\<close>

fun scan :: "(block \<Rightarrow> size_t option) \<Rightarrow> block list \<Rightarrow> nat \<Rightarrow> (nat \<times> size_t) option" where
  "scan f [] i = None"
| "scan f (b # bs) i = (case f b of None \<Rightarrow> scan f bs (Suc i) | Some off \<Rightarrow> Some (i, off))"

definition previous_capacity :: "arena \<Rightarrow> size_t" where
  "previous_capacity a = (if blocks a = [] then 0 else capacity (last (blocks a)))"

definition new_workspace :: workspace where
  "new_workspace = Some \<lparr>blocks = [], current = 0\<rparr>"

definition reserve :: "(size_t \<Rightarrow> size_t option) \<Rightarrow> size_t \<Rightarrow> workspace \<Rightarrow> status \<times> workspace" where
  "reserve new_data bytes ws =
     (if bytes = 0 then (kOk, ws)
      else let a = (case ws of None \<Rightarrow> \<lparr>blocks = [], current = 0\<rparr> | Some a \<Rightarrow> a)
           in case scan (fits bytes kAlignment) (drop (current a) (blocks a)) (current a) of
                Some _ \<Rightarrow> (kOk, Some a)
              | None \<Rightarrow>
                  (case make_block new_data (growth_size bytes (previous_capacity a)) of
                     None \<Rightarrow> (kOutOfMemory, Some a)
                   | Some b \<Rightarrow> (kOk, Some (a\<lparr>blocks := blocks a @ [b]\<rparr>))))"

definition allocate ::
  "(size_t \<Rightarrow> size_t option) \<Rightarrow> size_t \<Rightarrow> size_t \<Rightarrow> workspace \<Rightarrow> pointer option \<times> workspace" where
  "allocate new_data bytes alignment ws =
     (case ws of
        None \<Rightarrow> (None, ws)
      | Some a \<Rightarrow>
          if bytes = 0 \<or> \<not> power_of_two alignment \<or> alignment > kAlignment then (None, ws)
          else case scan (fits bytes alignment) (drop (current a) (blocks a)) (current a) of
            Some (i, offset) \<Rightarrow>
              (Some (i, offset),
               Some (a\<lparr>blocks := (blocks a)[i := (blocks a ! i)\<lparr>used := offset + bytes\<rparr>], current := i\<rparr>))
          | None \<Rightarrow>
              let padding = alignment - 1
              in if bytes > size_max - padding then (None, ws)
                 else case make_block new_data (growth_size (bytes + padding) (previous_capacity a)) of
                   None \<Rightarrow> (None, ws)
                 | Some b \<Rightarrow>
                     (Some (length (blocks a), 0),
                      Some (a\<lparr>blocks := blocks a @ [b\<lparr>used := bytes\<rparr>], current := length (blocks a)\<rparr>)))"

definition reset_arena :: "arena \<Rightarrow> arena" where
  "reset_arena a = \<lparr>blocks = map (\<lambda>b. b\<lparr>used := 0\<rparr>) (blocks a), current = 0\<rparr>"

definition reset :: "workspace \<Rightarrow> workspace" where
  "reset ws = map_option reset_arena ws"

text \<open>The two accumulating queries saturate.\<close>

fun saturating_sum :: "size_t \<Rightarrow> size_t list \<Rightarrow> size_t" where
  "saturating_sum acc [] = acc"
| "saturating_sum acc (x # xs) =
     (if x > size_max - acc then size_max else saturating_sum (acc + x) xs)"

definition workspace_capacity :: "workspace \<Rightarrow> size_t" where
  "workspace_capacity ws = (case ws of None \<Rightarrow> 0 | Some a \<Rightarrow> saturating_sum 0 (map capacity (blocks a)))"

definition workspace_used :: "workspace \<Rightarrow> size_t" where
  "workspace_used ws = (case ws of None \<Rightarrow> 0 | Some a \<Rightarrow> saturating_sum 0 (map used (blocks a)))"

definition mark :: "workspace \<Rightarrow> marker" where
  "mark ws =
     (case ws of
        None \<Rightarrow> \<lparr>mblock = 0, moffset = 0, valid = False\<rparr>
      | Some a \<Rightarrow>
          if blocks a = [] then \<lparr>mblock = 0, moffset = 0, valid = False\<rparr>
          else \<lparr>mblock = current a, moffset = used (blocks a ! current a), valid = True\<rparr>)"

definition rewind_arena :: "marker \<Rightarrow> arena \<Rightarrow> arena" where
  "rewind_arena m a =
     (if \<not> valid m \<or> mblock m \<ge> length (blocks a) then reset_arena a
      else let bs = (blocks a)[mblock m := (blocks a ! mblock m)\<lparr>used := moffset m\<rparr>]
           in \<lparr>blocks = take (Suc (mblock m)) bs @ map (\<lambda>b. b\<lparr>used := 0\<rparr>) (drop (Suc (mblock m)) bs),
               current = mblock m\<rparr>)"

definition rewind :: "marker \<Rightarrow> workspace \<Rightarrow> workspace" where
  "rewind m ws = map_option (rewind_arena m) ws"

text \<open>
  \<^verbatim>\<open>WorkspaceFrame::allocate<T>(count)\<close> of \<^verbatim>\<open>workspace_internal.h\<close>, for a type of \<open>width\<close> bytes with the
  natural alignment \<open>align\<close>.
\<close>

definition frame_allocate ::
  "(size_t \<Rightarrow> size_t option) \<Rightarrow> size_t \<Rightarrow> size_t \<Rightarrow> size_t \<Rightarrow> workspace \<Rightarrow> pointer option \<times> workspace" where
  "frame_allocate new_data width align count ws =
     (if count > size_max div width then (None, ws)
      else allocate new_data (count * width) (if align > kAlignment then align else kAlignment) ws)"

section \<open>Alignment\<close>

lemma power_of_two_cases:
  assumes "power_of_two a" "a \<le> kAlignment"
  obtains k where "k \<le> 6" "a = 2 ^ k"
proof -
  have le: "unat a < 65" using assms(2) by (simp add: kAlignment_def word_le_nat_alt)
  have "\<forall>n \<in> set [0..<65]. power_of_two (of_nat n) \<longrightarrow> (\<exists>k \<in> set [0..<7]. (of_nat n :: size_t) = 2 ^ k)"
    by (simp add: upt_rec power_of_two_def)
  from bspec [OF this [unfolded set_upt], of "unat a"] le assms(1)
  obtain k where "k < 7" "a = 2 ^ k" by auto
  then show thesis using that [of k] by simp
qed

lemma unat_pow2: "k < 64 \<Longrightarrow> unat (2 ^ k :: size_t) = 2 ^ k"
proof -
  assume "k < 64"
  then have "(2::nat) ^ k < 2 ^ 64" by (intro power_strict_increasing) auto
  then show ?thesis using unat_push [of "1::size_t" k] by simp
qed

lemma and_not_mask: "(x :: size_t) AND NOT (2 ^ k - 1) = push_bit k (drop_bit k x)"
  unfolding mask_eq_exp_minus_1 [symmetric]
  by (rule bit_word_eqI) (auto simp: bit_simps)

lemma unat_align_down:
  assumes "k < 64"
  shows "unat ((x :: size_t) AND NOT (2 ^ k - 1)) = unat x div 2 ^ k * 2 ^ k"
proof -
  have "unat x div 2 ^ k * 2 ^ k < 2 ^ LENGTH(64)"
    by (rule le_less_trans [OF div_times_less_eq_dividend]) (rule unsigned_less)
  then have "unat (drop_bit k x) * 2 ^ k < 2 ^ LENGTH(64)" by (simp only: unat_drop)
  then show ?thesis by (simp only: and_not_mask unat_push) (simp only: unat_drop)
qed

lemma unat_size_max: "unat size_max = 18446744073709551615"
  by (simp add: size_max_def unsigned_minus_1_eq_mask mask_eq_exp_minus_1)

text \<open>\<open>aligned_offset\<close> rounds up to the next multiple, and refuses exactly when that would wrap.\<close>

lemma aligned_offset_Some:
  assumes a: "a = 2 ^ k" "k \<le> 6" and s: "aligned_offset x a = Some y"
  shows "unat x \<le> unat y" "2 ^ k dvd unat y" "unat y < unat x + 2 ^ k"
proof -
  have m: "unat (a - 1) = 2 ^ k - 1"
    using a unat_pow2 [of k] by (simp add: unat_sub word_le_nat_alt)
  have "\<not> x > size_max - (a - 1)" and y: "y = (x + (a - 1)) AND NOT (2 ^ k - 1)"
    using s a by (auto simp: aligned_offset_def Let_def split: if_splits)
  then have "unat x \<le> unat (size_max - (a - 1))" by (simp add: word_le_nat_alt not_less)
  moreover have le: "unat (a - 1) \<le> unat size_max"
    using word_n1_ge [of "a - 1"] by (simp add: size_max_def word_le_nat_alt del: word_n1_ge)
  then have "unat (size_max - (a - 1)) = unat size_max - unat (a - 1)"
    by (subst unat_sub) (simp_all add: word_le_nat_alt)
  ultimately have "unat x + unat (a - 1) \<le> unat size_max" using le by linarith
  then have "unat (x + (a - 1)) = unat x + (2 ^ k - 1)"
    using m by (subst unat_add_lem [THEN iffD1]) (auto simp: unat_size_max)
  with y a have uy: "unat y = (unat x + (2 ^ k - 1)) div 2 ^ k * 2 ^ k"
    using unat_align_down [of k "x + (a - 1)"] by simp
  show "2 ^ k dvd unat y" by (simp add: uy)
  have b: "(unat x + (2 ^ k - 1)) = unat y + (unat x + (2 ^ k - 1)) mod 2 ^ k"
    unfolding uy by (simp only: div_mult_mod_eq)
  have r: "(unat x + (2 ^ k - 1)) mod 2 ^ k < 2 ^ k" by simp
  have p: "(1::nat) \<le> 2 ^ k" by simp
  from b r p show "unat x \<le> unat y" by linarith
  from b p show "unat y < unat x + 2 ^ k" by linarith
qed


section \<open>The invariant of an arena\<close>

text \<open>
  Every block is used within its capacity and starts at a multiple of 64, the blocks after the current
  one are unused, and the current index points at a block once there is one.
\<close>

definition block_wf :: "block \<Rightarrow> bool" where
  "block_wf b \<longleftrightarrow> used b \<le> capacity b \<and> 64 dvd unat (data b)"

definition arena_wf :: "arena \<Rightarrow> bool" where
  "arena_wf a \<longleftrightarrow>
     (\<forall>b \<in> set (blocks a). block_wf b) \<and>
     (if blocks a = [] then current a = 0 else current a < length (blocks a)) \<and>
     (\<forall>b \<in> set (drop (Suc (current a)) (blocks a)). used b = 0)"

text \<open>How far block \<open>i\<close> is in use.\<close>

definition used_at :: "arena \<Rightarrow> nat \<Rightarrow> nat" where
  "used_at a i = (if i < length (blocks a) then unat (used (blocks a ! i)) else 0)"

text \<open>\<^verbatim>\<open>::operator new\<close> with \<^verbatim>\<open>std::align_val_t(64)\<close> returns a multiple of 64.\<close>

definition aligned_new :: "(size_t \<Rightarrow> size_t option) \<Rightarrow> bool" where
  "aligned_new new_data \<longleftrightarrow> (\<forall>n a. new_data n = Some a \<longrightarrow> 64 dvd unat a)"

lemma scan_Some:
  assumes "scan f bs i = Some (j, off)"
  shows "i \<le> j" "j - i < length bs" "f (bs ! (j - i)) = Some off" "\<forall>b \<in> set (take (j - i) bs). f b = None"
proof -
  have "i \<le> j \<and> j - i < length bs \<and> f (bs ! (j - i)) = Some off \<and>
        (\<forall>b \<in> set (take (j - i) bs). f b = None)"
    using assms
  proof (induction bs arbitrary: i)
    case Nil
    then show ?case by simp
  next
    case (Cons b bs)
    show ?case
    proof (cases "f b")
      case None
      with Cons have IH: "Suc i \<le> j" "j - Suc i < length bs" "f (bs ! (j - Suc i)) = Some off"
          "\<forall>b \<in> set (take (j - Suc i) bs). f b = None" by auto
      then have "j - i = Suc (j - Suc i)" by simp
      with IH None show ?thesis by auto
    next
      case (Some off')
      with Cons.prems show ?thesis by auto
    qed
  qed
  then show "i \<le> j" "j - i < length bs" "f (bs ! (j - i)) = Some off"
    "\<forall>b \<in> set (take (j - i) bs). f b = None" by blast+
qed

lemma scan_None: "scan f bs i = None \<longleftrightarrow> (\<forall>b \<in> set bs. f b = None)"
  by (induction bs arbitrary: i) (auto split: option.splits)

lemma scan_member: "b \<in> set bs \<Longrightarrow> f b = Some y \<Longrightarrow> scan f bs i \<noteq> None"
  by (auto simp: scan_None)

lemma fits_Some:
  assumes "fits bytes a b = Some off" "a = 2 ^ k" "k \<le> 6"
  shows "unat (used b) \<le> unat off" "2 ^ k dvd unat off"
    "unat (off + bytes) = unat off + unat bytes" "unat off + unat bytes \<le> unat (capacity b)"
    "off + bytes \<le> capacity b"
proof -
  from assms(1) have s: "aligned_offset (used b) a = Some off"
    and "off \<le> capacity b" "bytes \<le> capacity b - off"
    by (auto simp: fits_def not_less split: option.splits if_splits)
  show "unat (used b) \<le> unat off" "2 ^ k dvd unat off"
    using aligned_offset_Some [OF assms(2,3) s] by simp_all
  from \<open>off \<le> capacity b\<close> have "unat (capacity b - off) = unat (capacity b) - unat off"
    by (simp add: unat_sub)
  with \<open>bytes \<le> capacity b - off\<close> \<open>off \<le> capacity b\<close>
  show le: "unat off + unat bytes \<le> unat (capacity b)" by (simp add: word_le_nat_alt)
  have "unat off + unat bytes < 2 ^ LENGTH(64)"
    by (rule le_less_trans [OF le unsigned_less])
  then show eq: "unat (off + bytes) = unat off + unat bytes"
    by (simp add: unat_add_lem [THEN iffD1])
  with le show "off + bytes \<le> capacity b" by (simp add: word_le_nat_alt)
qed

lemma growth_size_ge: "required \<le> growth_size required previous"
  by (auto simp: growth_size_def Let_def intro: max.coboundedI1)

lemma make_block_Some:
  "make_block nd n = Some b \<Longrightarrow> capacity b = n \<and> used b = 0 \<and> nd n = Some (data b)"
  by (auto simp: make_block_def)

lemma arena_wf_new: "arena_wf \<lparr>blocks = [], current = 0\<rparr>"
  by (simp add: arena_wf_def)

lemma arena_wf_block: "arena_wf a \<Longrightarrow> i < length (blocks a) \<Longrightarrow> block_wf (blocks a ! i)"
  by (simp add: arena_wf_def)

lemma arena_wf_later:
  assumes "arena_wf a" "current a < i"
  shows "used_at a i = 0"
proof (cases "i < length (blocks a)")
  case True
  with assms(2) have "blocks a ! i \<in> set (drop (Suc (current a)) (blocks a))"
    by (auto simp: in_set_conv_nth intro!: exI [of _ "i - Suc (current a)"])
  with assms(1) True show ?thesis by (simp add: arena_wf_def used_at_def)
qed (simp add: used_at_def)

lemma used_at_le_capacity:
  "arena_wf a \<Longrightarrow> i < length (blocks a) \<Longrightarrow> used_at a i \<le> unat (capacity (blocks a ! i))"
  using arena_wf_block [of a i] by (simp add: used_at_def block_wf_def word_le_nat_alt)

lemma arena_wf_append:
  assumes "arena_wf a" "block_wf b" "used b = 0"
  shows "arena_wf (a\<lparr>blocks := blocks a @ [b]\<rparr>)"
  using assms by (auto simp: arena_wf_def split: if_splits)

lemma reset_wf: "arena_wf a \<Longrightarrow> arena_wf (reset_arena a)"
  by (auto simp: arena_wf_def reset_arena_def block_wf_def drop_map)

lemma used_at_reset: "used_at (reset_arena a) i = 0"
  by (simp add: used_at_def reset_arena_def)

text \<open>What one successful allocation does to the arena.\<close>

definition grows :: "arena \<Rightarrow> arena \<Rightarrow> bool" where
  "grows a a' \<longleftrightarrow> length (blocks a) \<le> length (blocks a') \<and> current a \<le> current a' \<and>
     (\<forall>j < length (blocks a). capacity (blocks a' ! j) = capacity (blocks a ! j) \<and>
        data (blocks a' ! j) = data (blocks a ! j)) \<and>
     (\<forall>j. used_at a j \<le> used_at a' j) \<and>
     (\<forall>j < current a. used_at a' j = used_at a j)"

lemma grows_refl: "grows a a"
  by (simp add: grows_def)

lemma allocate_old_block:
  assumes wf: "arena_wf a" and al: "al = 2 ^ k" "k \<le> 6"
    and s: "scan (fits bytes al) (drop (current a) (blocks a)) (current a) = Some (i, off)"
  defines "a' \<equiv> a\<lparr>blocks := (blocks a)[i := (blocks a ! i)\<lparr>used := off + bytes\<rparr>], current := i\<rparr>"
  shows "arena_wf a'" "grows a a'" "i < length (blocks a)" "current a \<le> i" "used_at a i \<le> unat off"
    "unat off + unat bytes = used_at a' i" "2 ^ k dvd unat off"
proof -
  note sc = scan_Some [OF s]
  have nn: "blocks a \<noteq> []" using sc(2) by auto
  then have cur: "current a < length (blocks a)" using wf by (simp add: arena_wf_def)
  show i: "i < length (blocks a)" and ci: "current a \<le> i" using sc(1,2) by simp_all
  then have "drop (current a) (blocks a) ! (i - current a) = blocks a ! i" by simp
  with sc(3) have f: "fits bytes al (blocks a ! i) = Some off" by simp
  note ft = fits_Some [OF f al]
  show "used_at a i \<le> unat off" "2 ^ k dvd unat off" using ft i by (simp_all add: used_at_def)
  show u: "unat off + unat bytes = used_at a' i" using ft i by (simp add: used_at_def a'_def)
  have later: "\<forall>b \<in> set (drop (Suc i) (blocks a)). used b = 0"
    using wf ci set_drop_subset_set_drop [of "Suc (current a)" "Suc i" "blocks a"]
    by (auto simp: arena_wf_def)
  have bw: "block_wf ((blocks a ! i)\<lparr>used := off + bytes\<rparr>)"
    using ft(5) arena_wf_block [OF wf i] by (simp add: block_wf_def)
  show "arena_wf a'"
    using wf bw later nn i by (auto simp: arena_wf_def a'_def dest!: set_update_subset_insert [THEN subsetD])
  have "used_at a j \<le> used_at a' j" for j
    using ft i by (cases "j = i") (auto simp: used_at_def a'_def)
  then show "grows a a'"
    using i ci by (auto simp: grows_def a'_def used_at_def nth_list_update)
qed

lemma allocate_new_block:
  assumes wf: "arena_wf a" and b: "make_block nd n = Some b" and nd: "aligned_new nd"
    and le: "bytes \<le> n"
  defines "a' \<equiv> a\<lparr>blocks := blocks a @ [b\<lparr>used := bytes\<rparr>], current := length (blocks a)\<rparr>"
  shows "arena_wf a'" "grows a a'" "used_at a' (length (blocks a)) = unat bytes"
proof -
  note mb = make_block_Some [OF b]
  have bw: "block_wf (b\<lparr>used := bytes\<rparr>)"
    using mb le nd by (auto simp: block_wf_def aligned_new_def)
  then show "arena_wf a'" using wf by (auto simp: arena_wf_def a'_def)
  show "used_at a' (length (blocks a)) = unat bytes" by (simp add: used_at_def a'_def)
  have "current a \<le> length (blocks a)" using wf by (auto simp: arena_wf_def split: if_splits)
  then show "grows a a'" by (auto simp: grows_def a'_def used_at_def nth_append)
qed


text \<open>Both ways an allocation can succeed, in one statement.\<close>

lemma allocate_Some:
  assumes wf: "arena_wf a" and nd: "aligned_new nd"
    and al: "allocate nd bytes al (Some a) = (Some (i, off), ws)"
  obtains a' where "ws = Some a'" "arena_wf a'" "grows a a'" "i < length (blocks a')" "current a' = i"
    "current a \<le> i" "used_at a i \<le> unat off" "unat off + unat bytes = used_at a' i"
    "unat al dvd unat (data (blocks a' ! i)) + unat off"
proof -
  from al have c: "bytes \<noteq> 0" "power_of_two al" "al \<le> kAlignment"
    by (auto simp: allocate_def split: if_splits)
  then obtain k where k: "k \<le> 6" "al = 2 ^ k" using power_of_two_cases by blast
  then have ua: "unat al = 2 ^ k" using unat_pow2 [of k] by simp
  have "2 ^ k dvd (2::nat) ^ 6" using k(1) by (rule le_imp_power_dvd)
  then have d64: "2 ^ k dvd (64::nat)" by simp
  show thesis
  proof (cases "scan (fits bytes al) (drop (current a) (blocks a)) (current a)")
    case (Some r)
    then obtain i' off' where s: "scan (fits bytes al) (drop (current a) (blocks a)) (current a) = Some (i', off')"
      by (cases r) auto
    let ?a = "a\<lparr>blocks := (blocks a)[i := (blocks a ! i)\<lparr>used := off + bytes\<rparr>], current := i\<rparr>"
    from al c s have e: "i' = i" "off' = off" "ws = Some ?a" by (auto simp: allocate_def not_less [symmetric])
    note l = allocate_old_block [OF wf k(2,1) s, unfolded e]
    show thesis
    proof (rule that [of ?a])
      show "ws = Some ?a" by (rule e)
      from l(1,3) have "64 dvd unat (data (blocks ?a ! i))"
        using arena_wf_block [of ?a i] by (simp add: block_wf_def)
      with d64 l(7) show "unat al dvd unat (data (blocks ?a ! i)) + unat off"
        unfolding ua by (meson dvd_add dvd_trans)
    qed (use l in simp_all)
  next
    case None
    let ?n = "growth_size (bytes + (al - 1)) (previous_capacity a)"
    from al c None obtain b where b: "make_block nd ?n = Some b"
      and e: "i = length (blocks a)" "off = 0"
        "ws = Some (a\<lparr>blocks := blocks a @ [b\<lparr>used := bytes\<rparr>], current := length (blocks a)\<rparr>)"
      and nw: "bytes \<le> size_max - (al - 1)"
      by (auto simp: allocate_def Let_def not_less split: if_splits option.splits)
    let ?a = "a\<lparr>blocks := blocks a @ [b\<lparr>used := bytes\<rparr>], current := length (blocks a)\<rparr>"
    have "al - 1 \<le> size_max" by (simp add: size_max_def)
    then have "unat (size_max - (al - 1)) = unat size_max - unat (al - 1)" by (rule unat_sub)
    with nw have "unat bytes + unat (al - 1) \<le> unat size_max"
      using \<open>al - 1 \<le> size_max\<close> by (simp add: word_le_nat_alt)
    then have "unat (bytes + (al - 1)) = unat bytes + unat (al - 1)"
      by (subst unat_add_lem [THEN iffD1]) (simp_all add: unat_size_max)
    then have "bytes \<le> bytes + (al - 1)" by (simp add: word_le_nat_alt)
    then have "bytes \<le> ?n" by (rule order_trans) (rule growth_size_ge)
    note l = allocate_new_block [OF wf b nd this]
    have "64 dvd unat (data b)" using make_block_Some [OF b] nd unfolding aligned_new_def by blast
    with d64 have "unat al dvd unat (data b)" unfolding ua by (rule dvd_trans)
    then show thesis
      using l wf e by (intro that [of ?a]) (auto simp: used_at_def arena_wf_def split: if_splits)
  qed
qed

lemma allocate_None:
  "allocate nd bytes al (Some a) = (None, ws) \<Longrightarrow> ws = Some a"
  by (auto simp: allocate_def Let_def split: if_splits option.splits)

lemma reserve_arena:
  assumes wf: "arena_wf a" and nd: "aligned_new nd" and r: "reserve nd bytes (Some a) = (st, ws)"
  obtains a' where "ws = Some a'" "arena_wf a'" "grows a a'" "current a' = current a"
    "\<And>i. used_at a' i = used_at a i"
proof (cases "ws = Some a")
  case True
  then show thesis using wf grows_refl by (intro that) auto
next
  case False
  with r obtain b where b: "make_block nd (growth_size bytes (previous_capacity a)) = Some b"
    and e: "ws = Some (a\<lparr>blocks := blocks a @ [b]\<rparr>)"
    by (auto simp: reserve_def split: if_splits option.splits)
  note mb = make_block_Some [OF b]
  then have "block_wf b" using nd by (auto simp: block_wf_def aligned_new_def)
  then have w: "arena_wf (a\<lparr>blocks := blocks a @ [b]\<rparr>)" using mb wf arena_wf_append by blast
  have u: "used_at (a\<lparr>blocks := blocks a @ [b]\<rparr>) i = used_at a i" for i
    using mb by (auto simp: used_at_def nth_append)
  have g: "grows a (a\<lparr>blocks := blocks a @ [b]\<rparr>)" by (auto simp: grows_def u nth_append)
  show thesis
  proof (rule that [of "a\<lparr>blocks := blocks a @ [b]\<rparr>"])
    show "used_at (a\<lparr>blocks := blocks a @ [b]\<rparr>) i = used_at a i" for i by (rule u)
  qed (use e w g in simp_all)
qed

text \<open>What a rewind leaves in use.\<close>

lemma used_at_rewind:
  assumes "valid m" "mblock m < length (blocks a)"
  shows "used_at (rewind_arena m a) i =
    (if i < mblock m then used_at a i else if i = mblock m then unat (moffset m) else 0)"
  using assms by (auto simp: used_at_def rewind_arena_def Let_def nth_append min_def)

lemma length_rewind [simp]: "length (blocks (rewind_arena m a)) = length (blocks a)"
  by (auto simp: rewind_arena_def reset_arena_def Let_def)

lemma capacity_rewind:
  assumes "i < length (blocks a)"
  shows "capacity (blocks (rewind_arena m a) ! i) = capacity (blocks a ! i)"
    "data (blocks (rewind_arena m a) ! i) = data (blocks a ! i)"
  using assms
  by (auto simp: rewind_arena_def reset_arena_def Let_def nth_append nth_list_update min_def)

lemma rewind_wf:
  assumes wf: "arena_wf a" and m: "valid m \<Longrightarrow> mblock m < length (blocks a) \<Longrightarrow>
    unat (moffset m) \<le> used_at a (mblock m)"
  shows "arena_wf (rewind_arena m a)"
proof (cases "valid m \<and> mblock m < length (blocks a)")
  case False
  then have "rewind_arena m a = reset_arena a" by (auto simp: rewind_arena_def)
  then show ?thesis using reset_wf [OF wf] by simp
next
  case True
  let ?r = "rewind_arena m a"
  have c: "current ?r = mblock m" using True by (auto simp: rewind_arena_def Let_def)
  have bw: "block_wf (blocks ?r ! i)" if i: "i < length (blocks a)" for i
  proof -
    have "used_at ?r i \<le> used_at a i" using True m by (auto simp: used_at_rewind)
    also have "\<dots> \<le> unat (capacity (blocks a ! i))" using wf i by (rule used_at_le_capacity)
    finally have "used (blocks ?r ! i) \<le> capacity (blocks ?r ! i)"
      using i by (simp add: used_at_def word_le_nat_alt capacity_rewind)
    then show ?thesis
      using arena_wf_block [OF wf i] i by (simp add: block_wf_def capacity_rewind)
  qed
  have later: "used b = 0" if b: "b \<in> set (drop (Suc (mblock m)) (blocks ?r))" for b
  proof -
    from b obtain i where i: "Suc (mblock m) + i < length (blocks a)" "b = blocks ?r ! (Suc (mblock m) + i)"
      by (force simp: in_set_conv_nth)
    then show ?thesis
      using used_at_rewind [of m a "Suc (mblock m) + i"] True
      by (simp add: used_at_def unat_eq_0)
  qed
  have ne: "blocks ?r \<noteq> []" using True length_rewind [of m a] by (metis length_0_conv not_less0)
  have "\<forall>b \<in> set (blocks ?r). block_wf b"
    using bw by (metis in_set_conv_nth length_rewind)
  then show ?thesis using ne later c True by (simp add: arena_wf_def)
qed

text \<open>Rewinding to the present mark changes nothing.\<close>

lemma mark_Some:
  assumes "arena_wf a"
  shows "valid (mark (Some a)) \<longleftrightarrow> blocks a \<noteq> []"
    "blocks a \<noteq> [] \<Longrightarrow> mblock (mark (Some a)) = current a"
    "unat (moffset (mark (Some a))) = used_at a (current a)"
  using assms by (auto simp: mark_def used_at_def arena_wf_def)


section \<open>Sessions: allocations and nested frames\<close>

text \<open>
  A session is the arena together with what its clients hold: the live regions (block, first byte,
  length), and the open \<^verbatim>\<open>WorkspaceFrame\<close>s, innermost first, each with its marker and the regions
  that were live when it opened. A frame closes in the order of C++ scopes; the regions allocated
  inside it are dead from then on.
\<close>

type_synonym region = "nat \<times> nat \<times> nat"

record session =
  arena :: arena
  live :: "region list"
  frames :: "(marker \<times> region list) list"

inductive step :: "(size_t \<Rightarrow> size_t option) \<Rightarrow> session \<Rightarrow> session \<Rightarrow> bool" for new_data where
  Alloc: "allocate new_data bytes al (Some (arena s)) = (Some (i, off), Some a) \<Longrightarrow>
    step new_data s (s\<lparr>arena := a, live := (i, unat off, unat bytes) # live s\<rparr>)"
| Alloc_fails: "allocate new_data bytes al (Some (arena s)) = (None, Some a) \<Longrightarrow>
    step new_data s (s\<lparr>arena := a\<rparr>)"
| Reserve: "reserve new_data bytes (Some (arena s)) = (st, Some a) \<Longrightarrow>
    step new_data s (s\<lparr>arena := a\<rparr>)"
| Frame_begin: "step new_data s (s\<lparr>frames := (mark (Some (arena s)), live s) # frames s\<rparr>)"
| Frame_end: "frames s = (m, l) # fs \<Longrightarrow> rewind m (Some (arena s)) = Some a \<Longrightarrow>
    step new_data s (s\<lparr>arena := a, live := l, frames := fs\<rparr>)"
| Reset: "frames s = [] \<Longrightarrow> reset (Some (arena s)) = Some a \<Longrightarrow>
    step new_data s (s\<lparr>arena := a, live := []\<rparr>)"

inductive_cases step_elim: "step new_data s s'"

inductive reachable :: "(size_t \<Rightarrow> size_t option) \<Rightarrow> session \<Rightarrow> bool" for new_data where
  initial: "new_workspace = Some a \<Longrightarrow> reachable new_data \<lparr>arena = a, live = [], frames = []\<rparr>"
| stepped: "reachable new_data s \<Longrightarrow> step new_data s s' \<Longrightarrow> reachable new_data s'"

definition disjoint :: "region \<Rightarrow> region \<Rightarrow> bool" where
  "disjoint r r' \<longleftrightarrow>
     (case r of (i, p, n) \<Rightarrow> case r' of (j, q, k) \<Rightarrow> i \<noteq> j \<or> p + n \<le> q \<or> q + k \<le> p)"

fun pairwise_disjoint :: "region list \<Rightarrow> bool" where
  "pairwise_disjoint [] \<longleftrightarrow> True"
| "pairwise_disjoint (r # rs) \<longleftrightarrow> (\<forall>r' \<in> set rs. disjoint r r') \<and> pairwise_disjoint rs"

definition in_block :: "arena \<Rightarrow> region \<Rightarrow> bool" where
  "in_block a r \<longleftrightarrow>
     (case r of (i, p, n) \<Rightarrow> i < length (blocks a) \<and> p + n \<le> unat (capacity (blocks a ! i)))"

text \<open>
  The regions in use below a position of the arena: up to \<open>used\<close> in the blocks before it, up to its own
  offset in its block.
\<close>

definition below :: "arena \<Rightarrow> nat \<Rightarrow> nat \<Rightarrow> region \<Rightarrow> bool" where
  "below a blk off r \<longleftrightarrow>
     (case r of (i, p, n) \<Rightarrow> i < length (blocks a) \<and>
        (i < blk \<and> p + n \<le> used_at a i \<or> i = blk \<and> p + n \<le> off))"

definition position_le :: "nat \<Rightarrow> nat \<Rightarrow> nat \<Rightarrow> nat \<Rightarrow> bool" where
  "position_le blk off blk' off' \<longleftrightarrow> blk < blk' \<or> blk = blk' \<and> off \<le> off'"

text \<open>
  The stack of frames below a position: the markers descend, each covers the regions live when it was
  taken, and a marker taken before the first block covers nothing.
\<close>

fun frames_ok :: "arena \<Rightarrow> nat \<Rightarrow> nat \<Rightarrow> (marker \<times> region list) list \<Rightarrow> bool" where
  "frames_ok a blk off [] \<longleftrightarrow> True"
| "frames_ok a blk off ((m, l) # fs) \<longleftrightarrow>
     pairwise_disjoint l \<and>
     (if valid m
      then mblock m < length (blocks a) \<and> unat (moffset m) \<le> used_at a (mblock m) \<and>
           position_le (mblock m) (unat (moffset m)) blk off \<and>
           (\<forall>r \<in> set l. below a (mblock m) (unat (moffset m)) r) \<and>
           frames_ok a (mblock m) (unat (moffset m)) fs
      else l = [] \<and> (\<forall>(m', l') \<in> set fs. \<not> valid m' \<and> l' = []))"

definition session_ok :: "session \<Rightarrow> bool" where
  "session_ok s \<longleftrightarrow> arena_wf (arena s) \<and> pairwise_disjoint (live s) \<and>
     (\<forall>r \<in> set (live s). below (arena s) (current (arena s)) (used_at (arena s) (current (arena s))) r) \<and>
     frames_ok (arena s) (current (arena s)) (used_at (arena s) (current (arena s))) (frames s)"

lemma below_grows:
  assumes "below a blk off r" "grows a a'"
    "position_le blk off blk' off'" "blk \<le> current a" "blk < length (blocks a) \<Longrightarrow> off \<le> used_at a blk"
  shows "below a' blk' off' r"
proof (cases r)
  case (fields i p n)
  with assms(1) have i: "i < length (blocks a)"
    and c: "i < blk \<and> p + n \<le> used_at a i \<or> i = blk \<and> p + n \<le> off" by (auto simp: below_def)
  from assms(2) have g: "length (blocks a) \<le> length (blocks a')" "used_at a i \<le> used_at a' i"
    by (auto simp: grows_def)
  from c show ?thesis
  proof
    assume "i < blk \<and> p + n \<le> used_at a i"
    with assms(3) i g show ?thesis by (auto simp: below_def fields position_le_def)
  next
    assume "i = blk \<and> p + n \<le> off"
    with assms(3,5) i g show ?thesis by (auto simp: below_def fields position_le_def)
  qed
qed

lemma frames_ok_grows:
  assumes "frames_ok a blk off fs" "grows a a'" "position_le blk off blk' off'" "blk \<le> current a"
  shows "frames_ok a' blk' off' fs"
  using assms
proof (induction a blk off fs arbitrary: blk' off' rule: frames_ok.induct)
  case (1 a blk off)
  then show ?case by simp
next
  case (2 a blk off m l fs)
  show ?case
  proof (cases "valid m")
    case False
    with 2 show ?thesis by simp
  next
    case True
    note p = "2.prems"(1) [unfolded frames_ok.simps if_P [OF True]]
    have le: "mblock m \<le> current a" using p "2.prems"(4) by (auto simp: position_le_def)
    have g: "length (blocks a) \<le> length (blocks a')" "used_at a (mblock m) \<le> used_at a' (mblock m)"
      using "2.prems"(2) by (auto simp: grows_def)
    have refl: "position_le (mblock m) (unat (moffset m)) (mblock m) (unat (moffset m))"
      by (simp add: position_le_def)
    have tr: "position_le (mblock m) (unat (moffset m)) blk' off'"
      using p "2.prems"(3) by (auto simp: position_le_def)
    have fr: "frames_ok a' (mblock m) (unat (moffset m)) fs"
      by (rule "2.IH" [OF True _ "2.prems"(2) refl le]) (use p in simp)
    have "\<forall>r \<in> set l. below a' (mblock m) (unat (moffset m)) r"
      using p below_grows [OF _ "2.prems"(2) refl le] by blast
    then show ?thesis using p g tr fr True by auto
  qed
qed

lemma in_block_below:
  assumes "arena_wf a" "below a blk off r" "blk < length (blocks a) \<Longrightarrow> off \<le> used_at a blk"
  shows "in_block a r"
proof (cases r)
  case (fields i p n)
  with assms have "i < length (blocks a)" "p + n \<le> used_at a i" by (auto simp: below_def)
  with used_at_le_capacity [OF assms(1)] show ?thesis
    by (fastforce simp: in_block_def fields)
qed

lemma frames_invalid: "\<forall>(m, l) \<in> set fs. \<not> valid m \<and> l = [] \<Longrightarrow> frames_ok a blk off fs"
  by (induction fs) (auto simp: case_prod_beta)

text \<open>Rewinding to the innermost marker keeps the outer frames as they are.\<close>

lemma below_rewind:
  assumes "below a blk off r" "valid m" "mblock m < length (blocks a)"
    "position_le blk off (mblock m) (unat (moffset m))"
  shows "below (rewind_arena m a) blk off r"
  using assms by (cases r) (auto simp: below_def used_at_rewind position_le_def)

lemma frames_ok_rewind:
  assumes "frames_ok a blk off fs" "valid m" "mblock m < length (blocks a)"
    "position_le blk off (mblock m) (unat (moffset m))"
  shows "frames_ok (rewind_arena m a) blk off fs"
  using assms
proof (induction a blk off fs rule: frames_ok.induct)
  case (1 a blk off)
  then show ?case by simp
next
  case (2 a blk off m' l fs)
  show ?case
  proof (cases "valid m'")
    case False
    with 2 show ?thesis by simp
  next
    case True
    note p = "2.prems"(1) [unfolded frames_ok.simps if_P [OF True]]
    have le: "position_le (mblock m') (unat (moffset m')) (mblock m) (unat (moffset m))"
      using p "2.prems"(4) by (auto simp: position_le_def)
    have fr: "frames_ok (rewind_arena m a) (mblock m') (unat (moffset m')) fs"
      by (rule "2.IH" [OF True _ "2.prems"(2,3) le]) (use p in simp)
    have "\<forall>r \<in> set l. below (rewind_arena m a) (mblock m') (unat (moffset m')) r"
      using p below_rewind [OF _ "2.prems"(2,3) le] by blast
    moreover have "unat (moffset m') \<le> used_at (rewind_arena m a) (mblock m')"
      using p le "2.prems"(2,3) by (auto simp: used_at_rewind position_le_def)
    ultimately show ?thesis using p fr True by simp
  qed
qed


lemma position_le_refl [simp]: "position_le b x b x"
  by (simp add: position_le_def)

lemma position_grows:
  assumes "grows a a'"
  shows "position_le (current a) (used_at a (current a)) (current a') (used_at a' (current a'))"
proof (cases "current a = current a'")
  case True
  moreover have "used_at a (current a) \<le> used_at a' (current a)" using assms by (simp add: grows_def)
  ultimately show ?thesis by (simp add: position_le_def)
next
  case False
  with assms show ?thesis by (simp add: grows_def position_le_def)
qed

lemma session_ok_grows:
  assumes ok: "session_ok s" and g: "grows (arena s) a'" and wf: "arena_wf a'"
  shows "session_ok (s\<lparr>arena := a'\<rparr>)"
proof -
  have "\<forall>r \<in> set (live s). below a' (current a') (used_at a' (current a')) r"
    using ok below_grows [OF _ g position_grows [OF g] order_refl] by (auto simp: session_ok_def)
  moreover have "frames_ok a' (current a') (used_at a' (current a')) (frames s)"
    using ok frames_ok_grows [OF _ g position_grows [OF g] order_refl] by (auto simp: session_ok_def)
  ultimately show ?thesis using ok wf by (simp add: session_ok_def)
qed

lemma session_ok_step:
  assumes "step nd s s'" "session_ok s" "aligned_new nd"
  shows "session_ok s'"
  using assms
proof (cases rule: step.cases)
  case (Alloc bytes al i off a)
  have wf: "arena_wf (arena s)" using assms(2) by (simp add: session_ok_def)
  from allocate_Some [OF wf assms(3) Alloc(2)]
  have a: "arena_wf a" and g: "grows (arena s) a" and i: "i < length (blocks a)" "current a = i"
    "current (arena s) \<le> i" "used_at (arena s) i \<le> unat off"
    "unat off + unat bytes = used_at a i" by auto
  have sg: "session_ok (s\<lparr>arena := a\<rparr>)" using session_ok_grows [OF assms(2) g a] .
  have new: "below a i (used_at a i) (i, unat off, unat bytes)" using i by (simp add: below_def)
  have dj: "disjoint (i, unat off, unat bytes) r" if "r \<in> set (live s)" for r
  proof (cases r)
    case (fields j p n)
    with that assms(2) have "j < current (arena s) \<or>
        j = current (arena s) \<and> p + n \<le> used_at (arena s) (current (arena s))"
      by (fastforce simp: session_ok_def below_def)
    with i(3,4) show ?thesis by (auto simp: disjoint_def fields)
  qed
  show ?thesis using sg new dj i(2) unfolding Alloc(1) by (simp add: session_ok_def)
next
  case (Alloc_fails bytes al a)
  then have "a = arena s" using allocate_None by blast
  with Alloc_fails(1) assms(2) show ?thesis by simp
next
  case (Reserve bytes st a)
  have wf: "arena_wf (arena s)" using assms(2) by (simp add: session_ok_def)
  from reserve_arena [OF wf assms(3) Reserve(2)]
  have "arena_wf a" "grows (arena s) a" by auto
  then show ?thesis using session_ok_grows [OF assms(2)] Reserve(1) by simp
next
  case Frame_begin
  let ?a = "arena s"
  have wf: "arena_wf ?a" using assms(2) by (simp add: session_ok_def)
  note mk = mark_Some [OF wf]
  show ?thesis
  proof (cases "blocks ?a = []")
    case True
    then have nb: "\<not> below ?a b x r" for b x r by (auto simp: below_def)
    have "\<forall>r \<in> set (live s). False" using assms(2) nb unfolding session_ok_def by blast
    then have "live s = []" by (metis list.set_intros(1) neq_Nil_conv)
    moreover have "frames_ok ?a b x fs \<Longrightarrow> \<forall>(m, l) \<in> set fs. \<not> valid m \<and> l = []" for b x fs
      using True by (cases fs) (auto split: if_splits)
    ultimately have "\<forall>(m, l) \<in> set (frames s). \<not> valid m \<and> l = []" "live s = []"
      using assms(2) unfolding session_ok_def by blast+
    then show ?thesis using assms(2) mk True unfolding Frame_begin(1) by (simp add: session_ok_def)
  next
    case False
    with wf have "current ?a < length (blocks ?a)" by (simp add: arena_wf_def)
    then show ?thesis using assms(2) mk False unfolding Frame_begin(1) by (auto simp: session_ok_def)
  qed
next
  case (Frame_end m l fs a)
  have wf: "arena_wf (arena s)" using assms(2) by (simp add: session_ok_def)
  have a: "a = rewind_arena m (arena s)" using Frame_end(3) by (simp add: rewind_def)
  have fo: "frames_ok (arena s) (current (arena s)) (used_at (arena s) (current (arena s))) ((m, l) # fs)"
    using assms(2) Frame_end(2) by (simp add: session_ok_def)
  show ?thesis
  proof (cases "valid m")
    case False
    then have "l = []" "\<forall>(m', l') \<in> set fs. \<not> valid m' \<and> l' = []" using fo by auto
    moreover have "arena_wf a" using wf False reset_wf by (simp add: a rewind_arena_def)
    ultimately show ?thesis using frames_invalid unfolding Frame_end(1) by (simp add: session_ok_def)
  next
    case True
    note p = fo [unfolded frames_ok.simps if_P [OF True]]
    have c: "current a = mblock m" using p True by (simp add: a rewind_arena_def Let_def)
    have u: "used_at a (current a) = unat (moffset m)" using p True c by (simp add: a used_at_rewind)
    have "arena_wf a" unfolding a by (rule rewind_wf [OF wf]) (use p in simp)
    moreover have "\<forall>r \<in> set l. below a (mblock m) (unat (moffset m)) r"
      using p below_rewind [OF _ True] by (auto simp: a)
    moreover have "frames_ok a (mblock m) (unat (moffset m)) fs"
      using p frames_ok_rewind [OF _ True] by (auto simp: a)
    ultimately show ?thesis using p c u unfolding Frame_end(1) by (simp add: session_ok_def)
  qed
next
  case (Reset a)
  have wf: "arena_wf (arena s)" using assms(2) by (simp add: session_ok_def)
  have "a = reset_arena (arena s)" using Reset(3) by (simp add: reset_def)
  then show ?thesis using Reset(1,2) reset_wf [OF wf] by (simp add: session_ok_def)
qed

lemma session_ok_reachable: "reachable nd s \<Longrightarrow> aligned_new nd \<Longrightarrow> session_ok s"
proof (induction rule: reachable.induct)
  case (initial a)
  then show ?case using arena_wf_new by (simp add: session_ok_def new_workspace_def)
next
  case (stepped s s')
  then show ?case using session_ok_step by blast
qed


section \<open>Scopes\<close>

text \<open>
  A client of a scratch allocator issues requests and opens scopes; a scope takes a checkpoint, runs,
  and restores the checkpoint, as a \<^verbatim>\<open>WorkspaceFrame\<close> does between its constructor and destructor.
\<close>

datatype 'r act = Do 'r | Scope "'r act list"

fun run :: "('r \<Rightarrow> 'a \<Rightarrow> 'a) \<Rightarrow> ('a \<Rightarrow> 'm) \<Rightarrow> ('m \<Rightarrow> 'a \<Rightarrow> 'a) \<Rightarrow> 'r act list \<Rightarrow> 'a \<Rightarrow> 'a" where
  "run serve checkpoint restore [] a = a"
| "run serve checkpoint restore (Do r # as) a = run serve checkpoint restore as (serve r a)"
| "run serve checkpoint restore (Scope inner # as) a =
     run serve checkpoint restore as
       (restore (checkpoint a) (run serve checkpoint restore inner a))"

fun acts_legal :: "('r \<Rightarrow> bool) \<Rightarrow> 'r act list \<Rightarrow> bool" where
  "acts_legal legal [] \<longleftrightarrow> True"
| "acts_legal legal (Do r # as) \<longleftrightarrow> legal r \<and> acts_legal legal as"
| "acts_legal legal (Scope inner # as) \<longleftrightarrow> acts_legal legal inner \<and> acts_legal legal as"

locale scratch_allocator =
  fixes inv :: "'a \<Rightarrow> bool"
    and legal :: "'r \<Rightarrow> bool"
    and serve :: "'r \<Rightarrow> 'a \<Rightarrow> 'a"
    and checkpoint :: "'a \<Rightarrow> 'm"
    and restore :: "'m \<Rightarrow> 'a \<Rightarrow> 'a"
    and extends :: "'a \<Rightarrow> 'a \<Rightarrow> bool"
    and usage :: "'a \<Rightarrow> 'u"
  assumes extends_refl: "extends a a"
    and extends_trans: "extends a b \<Longrightarrow> extends b c \<Longrightarrow> extends a c"
    and serve_inv: "inv a \<Longrightarrow> legal r \<Longrightarrow> inv (serve r a)"
    and serve_extends: "inv a \<Longrightarrow> legal r \<Longrightarrow> extends a (serve r a)"
    and restore_inv: "inv a \<Longrightarrow> inv b \<Longrightarrow> extends a b \<Longrightarrow> inv (restore (checkpoint a) b)"
    and restore_extends: "inv a \<Longrightarrow> inv b \<Longrightarrow> extends a b \<Longrightarrow> extends a (restore (checkpoint a) b)"
    and restore_usage: "inv a \<Longrightarrow> inv b \<Longrightarrow> extends a b \<Longrightarrow> usage (restore (checkpoint a) b) = usage a"
begin

lemma run_extends:
  "inv a \<Longrightarrow> acts_legal legal as \<Longrightarrow>
    inv (run serve checkpoint restore as a) \<and> extends a (run serve checkpoint restore as a)"
proof (induction d \<equiv> serve c \<equiv> checkpoint q \<equiv> restore as a rule: run.induct)
  case (1 a)
  then show ?case using extends_refl by simp
next
  case (2 r as a)
  then have "inv (serve r a)" "extends a (serve r a)" "acts_legal legal as"
    using serve_inv serve_extends by simp_all
  with 2 show ?case using extends_trans by (metis run.simps(2))
next
  case (3 inner as a)
  let ?b = "run serve checkpoint restore inner a"
  from 3 have "inv ?b" "extends a ?b" "acts_legal legal as" by simp_all
  with 3 have "inv (restore (checkpoint a) ?b)" "extends a (restore (checkpoint a) ?b)"
    using restore_inv restore_extends by simp_all
  with 3 show ?case using extends_trans by (metis run.simps(3) acts_legal.simps(3))
qed

lemma scope_transparent:
  assumes "inv a" "acts_legal legal as"
  shows "usage (run serve checkpoint restore [Scope as] a) = usage a"
  using run_extends [OF assms] restore_usage assms(1) by simp

end

text \<open>The arena as a scratch allocator: its requests, each with what \<^verbatim>\<open>::operator new\<close> does meanwhile.\<close>

datatype request =
    Allocate "size_t \<Rightarrow> size_t option" size_t size_t
  | Reserve_request "size_t \<Rightarrow> size_t option" size_t

fun serve :: "request \<Rightarrow> workspace \<Rightarrow> workspace" where
  "serve (Allocate new_data bytes al) ws = snd (allocate new_data bytes al ws)"
| "serve (Reserve_request new_data bytes) ws = snd (reserve new_data bytes ws)"

fun request_legal :: "request \<Rightarrow> bool" where
  "request_legal (Allocate new_data bytes al) = aligned_new new_data"
| "request_legal (Reserve_request new_data bytes) = aligned_new new_data"

fun workspace_wf :: "workspace \<Rightarrow> bool" where
  "workspace_wf None = False"
| "workspace_wf (Some a) = arena_wf a"

fun workspace_grows :: "workspace \<Rightarrow> workspace \<Rightarrow> bool" where
  "workspace_grows (Some a) (Some b) = grows a b"
| "workspace_grows None ws = (ws = None)"
| "workspace_grows (Some a) None = False"

text \<open>What a workspace has in use: the current block and the bytes used of every block.\<close>

fun workspace_usage :: "workspace \<Rightarrow> nat \<times> (nat \<Rightarrow> nat)" where
  "workspace_usage None = (0, \<lambda>_. 0)"
| "workspace_usage (Some a) = (current a, used_at a)"

lemma grows_trans:
  assumes ab: "grows a b" and bc: "grows b c"
  shows "grows a c"
proof -
  have "used_at a j \<le> used_at c j" for j
    using ab bc le_trans [of "used_at a j" "used_at b j"] by (simp add: grows_def)
  then show ?thesis using ab bc by (simp add: grows_def)
qed

lemma workspace_wf_cases: "workspace_wf ws \<Longrightarrow> (\<And>a. ws = Some a \<Longrightarrow> arena_wf a \<Longrightarrow> P) \<Longrightarrow> P"
  by (cases ws) auto

lemma serve_arena:
  assumes "arena_wf a" "request_legal r"
  obtains b where "serve r (Some a) = Some b" "arena_wf b" "grows a b"
proof (cases r)
  case (Allocate nd bytes al)
  obtain p ws where al: "allocate nd bytes al (Some a) = (p, ws)" by fastforce
  show thesis
  proof (cases p)
    case None
    then have "ws = Some a" using allocate_None [of nd bytes al a ws] al by simp
    then show thesis using that assms(1) grows_refl Allocate al by simp
  next
    case (Some q)
    obtain i off where "q = (i, off)" by fastforce
    with allocate_Some [of a nd bytes al i off ws] al Some assms Allocate show thesis
      using that by fastforce
  qed
next
  case (Reserve_request nd bytes)
  obtain st ws where "reserve nd bytes (Some a) = (st, ws)" by fastforce
  with reserve_arena [of a nd bytes st ws] assms Reserve_request show thesis
    using that by fastforce
qed

lemma rewind_mark:
  assumes a: "arena_wf a" and b: "arena_wf b" and g: "grows a b"
  defines "c \<equiv> rewind_arena (mark (Some a)) b"
  shows "arena_wf c" "grows a c" "current c = current a" "used_at c = used_at a"
proof -
  note mk = mark_Some [OF a]
  have u: "used_at c i = used_at a i" and cu: "current c = current a" for i
  proof -
    show "used_at c i = used_at a i"
    proof (cases "blocks a = []")
      case True
      then show ?thesis using mk by (simp add: c_def rewind_arena_def used_at_reset) (simp add: used_at_def)
    next
      case False
      then have l: "current a < length (blocks a)" using a by (simp add: arena_wf_def)
      with g have "current a < length (blocks b)" by (simp add: grows_def)
      then show ?thesis
        using mk False g arena_wf_later [OF a, of i]
        by (auto simp: c_def used_at_rewind grows_def)
    qed
    show "current c = current a"
    proof (cases "blocks a = []")
      case True
      then show ?thesis using mk a by (simp add: c_def rewind_arena_def reset_arena_def arena_wf_def)
    next
      case False
      then have "current a < length (blocks b)" using a g by (simp add: arena_wf_def grows_def)
      then show ?thesis using mk False by (simp add: c_def rewind_arena_def Let_def)
    qed
  qed
  then show "current c = current a" "used_at c = used_at a" by auto
  have ub: "used_at a i \<le> used_at b i" for i using g by (simp add: grows_def)
  show "arena_wf c" unfolding c_def
  proof (rule rewind_wf [OF b])
    assume "valid (mark (Some a))"
    then show "unat (moffset (mark (Some a))) \<le> used_at b (mblock (mark (Some a)))"
      using mk ub by simp
  qed
  show "grows a c" using g u cu by (auto simp: grows_def c_def capacity_rewind)
qed

interpretation ws: scratch_allocator workspace_wf request_legal serve mark rewind workspace_grows workspace_usage
proof
  fix a b c :: workspace and r
  show "workspace_grows a a" by (cases a) (simp_all add: grows_refl)
  show "workspace_grows a b \<Longrightarrow> workspace_grows b c \<Longrightarrow> workspace_grows a c"
    by (cases a; cases b; cases c) (auto intro: grows_trans)
  show "workspace_wf a \<Longrightarrow> request_legal r \<Longrightarrow> workspace_wf (serve r a)"
    by (auto elim!: workspace_wf_cases intro: serve_arena)
  show "workspace_wf a \<Longrightarrow> request_legal r \<Longrightarrow> workspace_grows a (serve r a)"
    by (auto elim!: workspace_wf_cases intro: serve_arena)
  assume "workspace_wf a" "workspace_wf b" "workspace_grows a b"
  then obtain x y where "a = Some x" "b = Some y" "arena_wf x" "arena_wf y" "grows x y"
    by (auto elim!: workspace_wf_cases)
  with rewind_mark [of x y]
  show "workspace_wf (rewind (mark a) b)" "workspace_grows a (rewind (mark a) b)"
    "workspace_usage (rewind (mark a) b) = workspace_usage a"
    by (simp_all add: rewind_def)
qed


section \<open>What the arena promises\<close>

text \<open>
  C1: in every reachable session the live allocations are pairwise disjoint and lie within the capacity
  of their blocks, whatever the order of allocations, reservations, resets and nested frames.
\<close>

theorem workspace_regions_disjoint:
  assumes "reachable new_data s" "aligned_new new_data"
  shows "pairwise_disjoint (live s) \<and> (\<forall>r \<in> set (live s). in_block (arena s) r)"
proof -
  have ok: "session_ok s" using assms by (rule session_ok_reachable)
  then have "in_block (arena s) r" if "r \<in> set (live s)" for r
    using that in_block_below [of "arena s"] unfolding session_ok_def by blast
  with ok show ?thesis by (simp add: session_ok_def)
qed

text \<open>
  C11: a successful allocation returns an address aligned as asked, in a block of the arena, past
  everything the block had in use and within its capacity; only then is the block charged for it.
\<close>

theorem allocate_returns_fresh_aligned_region:
  assumes "arena_wf a" "aligned_new new_data"
    and "allocate new_data bytes al (Some a) = (Some (i, off), ws)"
  shows "\<exists>a'. ws = Some a' \<and> i < length (blocks a') \<and>
           unat al dvd unat (data (blocks a' ! i)) + unat off \<and>
           used_at a i \<le> unat off \<and> used_at a' i = unat off + unat bytes \<and>
           unat off + unat bytes \<le> unat (capacity (blocks a' ! i))"
proof -
  from allocate_Some [OF assms] obtain a' where a: "ws = Some a'" "arena_wf a'" "i < length (blocks a')"
    "used_at a i \<le> unat off" "unat off + unat bytes = used_at a' i"
    "unat al dvd unat (data (blocks a' ! i)) + unat off" by metis
  with used_at_le_capacity [of a' i] show ?thesis by auto
qed

text \<open>
  C12: a workspace frame is transparent: whatever the frame allocates, reserves or nests, closing it puts
  the current block and the bytes used of every block back to what they were when it opened.
\<close>

theorem workspace_frame_transparent:
  assumes "workspace_wf w" "acts_legal request_legal acts"
  shows "workspace_usage (run serve mark rewind [Scope acts] w) = workspace_usage w"
  using assms by (rule ws.scope_transparent)

lemma aligned_offset_zero: "aligned_offset 0 kAlignment = Some 0"
  by (simp add: aligned_offset_def kAlignment_def size_max_def Let_def)

lemma fits_new_block: "make_block nd n = Some b \<Longrightarrow> bytes \<le> n \<Longrightarrow> fits bytes kAlignment b = Some 0"
  by (auto simp: fits_def aligned_offset_zero not_less dest: make_block_Some)

text \<open>
  \<^verbatim>\<open>reserve\<close> keeps its promise: after it returned \<^verbatim>\<open>kOk\<close>, an allocation of that many bytes at the
  default alignment succeeds without asking the system for memory.
\<close>

theorem reserve_then_allocate:
  assumes "bytes \<noteq> 0" "reserve new_data bytes w = (kOk, w')"
    "case w of None \<Rightarrow> True | Some a \<Rightarrow> arena_wf a"
  shows "fst (allocate (\<lambda>_. None) bytes kAlignment w') \<noteq> None"
proof -
  let ?a = "case w of None \<Rightarrow> \<lparr>blocks = [], current = 0\<rparr> | Some a \<Rightarrow> a"
  have p: "power_of_two kAlignment" by (simp add: power_of_two_def kAlignment_def)
  have cur: "current ?a \<le> length (blocks ?a)"
    using assms(3) by (auto simp: arena_wf_def split: option.splits if_splits)
  have fin: "fst (allocate (\<lambda>_. None) bytes kAlignment (Some a')) \<noteq> None"
    if "scan (fits bytes kAlignment) (drop (current a') (blocks a')) (current a') \<noteq> None" for a'
    using that p assms(1) by (auto simp: allocate_def)
  show ?thesis
  proof (cases "scan (fits bytes kAlignment) (drop (current ?a) (blocks ?a)) (current ?a)")
    case (Some r)
    with assms(1,2) have "w' = Some ?a" by (auto simp: reserve_def)
    with fin [of ?a] Some show ?thesis by simp
  next
    case None
    with assms(1,2) obtain b where b: "make_block new_data (growth_size bytes (previous_capacity ?a)) = Some b"
      and w: "w' = Some (?a\<lparr>blocks := blocks ?a @ [b]\<rparr>)"
      by (auto simp: reserve_def Let_def split: option.splits)
    have mem: "b \<in> set (drop (current ?a) (blocks ?a @ [b]))" using cur by simp
    have "scan (fits bytes kAlignment) (drop (current ?a) (blocks ?a @ [b])) (current ?a) \<noteq> None"
      by (rule scan_member [of b _ "fits bytes kAlignment", OF mem])
        (rule fits_new_block [OF b growth_size_ge])
    with fin [of "?a\<lparr>blocks := blocks ?a @ [b]\<rparr>"] show ?thesis unfolding w by simp
  qed
qed

lemma saturating_sum_min:
  "unat (saturating_sum acc xs) = min (unat size_max) (unat acc + sum_list (map unat xs))"
proof (induction xs arbitrary: acc)
  case Nil
  have "unat acc \<le> unat size_max" by (simp add: size_max_def flip: word_le_nat_alt)
  then show ?case by simp
next
  case (Cons x xs)
  have le: "acc \<le> size_max" by (simp add: size_max_def)
  then have s: "unat (size_max - acc) = unat size_max - unat acc" by (rule unat_sub)
  have "unat acc \<le> unat size_max" using le by (simp add: word_le_nat_alt)
  then have c: "x > size_max - acc \<longleftrightarrow> unat size_max < unat acc + unat x"
    using s by (auto simp: word_less_nat_alt)
  show ?case
  proof (cases "x > size_max - acc")
    case True
    with c show ?thesis by simp
  next
    case False
    with c have "unat acc + unat x \<le> unat size_max" by simp
    then have "unat (acc + x) = unat acc + unat x"
      by (subst unat_add_lem [THEN iffD1]) (simp_all add: unat_size_max)
    with False Cons show ?thesis by (simp add: ac_simps)
  qed
qed

text \<open>The two queries are the exact sums, capped at the largest \<^verbatim>\<open>size_t\<close>.\<close>

lemma workspace_queries:
  "unat (workspace_capacity (Some a)) = min (unat size_max) (sum_list (map (unat \<circ> capacity) (blocks a)))"
  "unat (workspace_used (Some a)) = min (unat size_max) (sum_list (map (unat \<circ> used) (blocks a)))"
  by (simp_all add: workspace_capacity_def workspace_used_def saturating_sum_min)

section \<open>Witnesses\<close>

definition demo_new :: "size_t \<Rightarrow> size_t option" where
  "demo_new n = (if n \<le> 131072 then Some (4096 * n) else None)"

lemma demo_new_aligned: "aligned_new demo_new"
proof -
  have "64 dvd unat (4096 * n :: size_t)" if "n \<le> 131072" for n :: size_t
  proof -
    have "unat n \<le> 131072" using that by (simp add: word_le_nat_alt)
    then have "unat (4096 * n) = 4096 * unat n" by (simp add: unat_word_ariths)
    then show ?thesis by (simp add: dvd_mult2)
  qed
  then show ?thesis by (auto simp: aligned_new_def demo_new_def split: if_splits)
qed

lemmas workspace_eval = allocate_def reserve_def fits_def aligned_offset_def power_of_two_def
  make_block_def growth_size_def previous_capacity_def new_workspace_def demo_new_def kAlignment_def
  kMinimumBlock_def size_max_def mark_def rewind_def rewind_arena_def Let_def

definition demo_block :: "size_t \<Rightarrow> block" where
  "demo_block u = \<lparr>data = 268435456, capacity = 65536, used = u\<rparr>"

definition demo_session :: "session" where
  "demo_session =
     \<lparr>arena = \<lparr>blocks = [demo_block 178], current = 0\<rparr>, live = [(0, 128, 50), (0, 0, 100)], frames = []\<rparr>"

lemma demo_allocations:
  "allocate demo_new 100 64 new_workspace = (Some (0, 0), Some \<lparr>blocks = [demo_block 100], current = 0\<rparr>)"
  "allocate demo_new 50 64 (Some \<lparr>blocks = [demo_block 100], current = 0\<rparr>) =
     (Some (0, 128), Some \<lparr>blocks = [demo_block 178], current = 0\<rparr>)"
  by (simp_all add: workspace_eval demo_block_def)

lemma demo_reachable: "reachable demo_new demo_session"
proof -
  let ?s0 = "\<lparr>arena = \<lparr>blocks = [], current = 0\<rparr>, live = [], frames = []\<rparr> :: session"
  let ?s1 = "\<lparr>arena = \<lparr>blocks = [demo_block 100], current = 0\<rparr>, live = [(0, 0, 100)], frames = []\<rparr> :: session"
  have "reachable demo_new ?s0" by (rule reachable.initial) (simp add: new_workspace_def)
  moreover have "step demo_new ?s0 ?s1"
    using step.Alloc [of demo_new 100 64 ?s0 0 0] demo_allocations(1) by (simp add: new_workspace_def)
  moreover have "step demo_new ?s1 demo_session"
    using step.Alloc [of demo_new 50 64 ?s1 0 128] demo_allocations(2) by (simp add: demo_session_def)
  ultimately show ?thesis using reachable.stepped by blast
qed

theorem workspace_regions_disjoint_witness:
  "pairwise_disjoint (live demo_session) \<and> list_all (in_block (arena demo_session)) (live demo_session) \<and>
   length (live demo_session) = 2"
  using workspace_regions_disjoint [OF demo_reachable demo_new_aligned] by (simp add: demo_session_def list_all_iff)

lemma demo_wf: "arena_wf \<lparr>blocks = [demo_block 100], current = 0\<rparr>"
  by (simp add: arena_wf_def block_wf_def demo_block_def)

theorem allocate_returns_fresh_aligned_region_witness:
  "\<exists>a'. Some \<lparr>blocks = [demo_block 178], current = 0\<rparr> = Some a' \<and> 0 < length (blocks a') \<and>
     used_at a' 0 = 128 + 50"
  using allocate_returns_fresh_aligned_region [OF demo_wf demo_new_aligned demo_allocations(2)] by auto

theorem workspace_frame_transparent_witness:
  "workspace_usage (run serve mark rewind [Scope [Do (Allocate demo_new 70000 64), Scope [Do (Allocate demo_new 8 8)]]]
     (Some \<lparr>blocks = [demo_block 100], current = 0\<rparr>)) =
   workspace_usage (Some \<lparr>blocks = [demo_block 100], current = 0\<rparr>)"
  using demo_wf demo_new_aligned by (intro workspace_frame_transparent) simp_all

theorem reserve_then_allocate_witness:
  "fst (allocate (\<lambda>_. None) 1000 kAlignment (Some \<lparr>blocks = [demo_block 0], current = 0\<rparr>)) \<noteq> None"
  by (rule reserve_then_allocate [of 1000 demo_new None])
    (simp_all add: workspace_eval demo_block_def)

end
