(* ===== verification/ThreadPool.thy ===== *)
theory ThreadPool
  imports CPU_Prelude
begin

text \<open>
  \<^verbatim>\<open>src/threading/thread_pool.cpp\<close>: the fork-join pool every kernel is parallelised with. The partition
  of an index range into chunks, the atomic steps of the pool (one per critical section of the mutex
  \<^verbatim>\<open>m_\<close> and one per call of the range function), interleaved in any order, and what holds of them:
  every region runs each chunk of the partition exactly once, no schedule deadlocks or runs forever.
\<close>

section \<open>The partition\<close>

definition chunk_range :: "int \<Rightarrow> int \<Rightarrow> int \<Rightarrow> int \<times> int" where
  "chunk_range n parts index =
     (let base = cdiv n parts; rem = crem n parts; begin = index * base + min index rem
      in (begin, begin + base + (if index < rem then 1 else 0)))"

text \<open>The number of parts of a region of \<open>n\<close> items on a pool of \<open>total\<close> threads.\<close>

definition region_parts :: "int \<Rightarrow> int \<Rightarrow> int \<Rightarrow> int" where
  "region_parts n min_per_chunk threads = clamp (cdiv n (max min_per_chunk 1)) 1 threads"

text \<open>The calls \<^verbatim>\<open>fn(ctx, begin, end, worker)\<close> as triples; call \<open>i\<close> of a region with several parts.\<close>

type_synonym call = "int \<times> int \<times> int"

definition call :: "int \<Rightarrow> int \<Rightarrow> int \<Rightarrow> call" where
  "call n parts i = (fst (chunk_range n parts i), snd (chunk_range n parts i), i)"

lemma chunk_begin:
  assumes "0 \<le> n" "0 < parts"
  shows "fst (chunk_range n parts i) = i * (n div parts) + min i (n mod parts)"
  using assms by (simp add: chunk_range_def Let_def)

lemma chunk_end: "snd (chunk_range n parts i) = fst (chunk_range n parts (i + 1))"
  by (simp add: chunk_range_def Let_def distrib_right min_def)

lemma chunk_first: "0 \<le> n \<Longrightarrow> 0 < parts \<Longrightarrow> fst (chunk_range n parts 0) = 0"
  by (simp add: chunk_begin min_def not_le pos_mod_sign)

lemma chunk_last:
  assumes "0 \<le> n" "0 < parts"
  shows "fst (chunk_range n parts parts) = n"
proof -
  have "n mod parts < parts" using assms by simp
  then have "min parts (n mod parts) = n mod parts" by simp
  with assms show ?thesis by (simp add: chunk_begin)
qed

lemma chunk_begin_mono:
  assumes "0 \<le> n" "0 < parts" "i \<le> j"
  shows "fst (chunk_range n parts i) \<le> fst (chunk_range n parts j)"
proof -
  have "i * (n div parts) \<le> j * (n div parts)"
    using assms by (intro mult_right_mono) (auto simp: pos_imp_zdiv_nonneg_iff)
  with assms show ?thesis by (simp add: chunk_begin min_def)
qed

lemma chunk_bounds:
  assumes "0 \<le> n" "0 < parts" "0 \<le> i" "i < parts"
  shows "0 \<le> fst (chunk_range n parts i)" "fst (chunk_range n parts i) \<le> snd (chunk_range n parts i)"
    "snd (chunk_range n parts i) \<le> n"
  using chunk_begin_mono [of n parts 0 i] chunk_begin_mono [of n parts i "i + 1"]
    chunk_begin_mono [of n parts "i + 1" parts] chunk_first [of n parts] chunk_last [of n parts] assms
  by (simp_all add: chunk_end)

lemma chunk_disjoint:
  assumes "0 \<le> n" "0 < parts" "i < j"
  shows "snd (chunk_range n parts i) \<le> fst (chunk_range n parts j)"
  using chunk_begin_mono [of n parts "i + 1" j] assms by (simp add: chunk_end)

text \<open>Every index lies in some chunk.\<close>

lemma chunk_cover:
  assumes "0 \<le> n" "0 < parts" "0 \<le> x" "x < n"
  obtains i where "0 \<le> i" "i < parts" "fst (chunk_range n parts i) \<le> x" "x < snd (chunk_range n parts i)"
proof -
  have *: "x < fst (chunk_range n parts (int k)) \<Longrightarrow>
    \<exists>i. 0 \<le> i \<and> i < int k \<and> fst (chunk_range n parts i) \<le> x \<and> x < snd (chunk_range n parts i)" for k
  proof (induction k)
    case 0
    with assms show ?case by (simp add: chunk_first)
  next
    case (Suc k)
    show ?case
    proof (cases "x < fst (chunk_range n parts (int k))")
      case True
      with Suc.IH obtain i where "0 \<le> i" "i < int k" "fst (chunk_range n parts i) \<le> x"
        "x < snd (chunk_range n parts i)" by blast
      then show ?thesis by (intro exI [of _ i]) simp
    next
      case False
      with Suc.prems show ?thesis
        by (intro exI [of _ "int k"]) (simp add: chunk_end add.commute)
    qed
  qed
  have "x < fst (chunk_range n parts (int (nat parts)))" using assms by (simp add: chunk_last)
  from * [OF this] assms(2) that show thesis by auto
qed

section \<open>The pool\<close>

text \<open>
  A worker waits with the generation it has seen, holds the job it copied under the lock, has run its
  chunk, or has returned. The caller (the thread that holds \<^verbatim>\<open>control_m_\<close>) is outside the pool, runs
  its own chunk, waits for the others, or joins the workers during a resize. \<open>calls\<close> is a ghost: the
  calls of the range function since the region was published.
\<close>

datatype 'f phase =
    Waiting "64 word"
  | Ready "64 word" "'f option" int int
  | Ran "64 word"
  | Exited

datatype 'f caller = Idle | Own_chunk 'f int int | Awaiting 'f int int | Joining int

record 'f pool =
  pool_total :: int
  generation :: "64 word"
  pending :: int
  stop :: bool
  job_fn :: "'f option"
  job_count :: int
  job_parts :: int
  workers :: "'f phase list"
  caller :: "'f caller"
  calls :: "call list"

definition new_pool :: "'f pool" where
  "new_pool = \<lparr>pool_total = 1, generation = 0, pending = 0, stop = False, job_fn = None, job_count = 0,
     job_parts = 0, workers = [], caller = Idle, calls = []\<rparr>"

text \<open>\<^verbatim>\<open>Pool::run\<close>: the inline cases, the publication of a job, the caller's own chunk, and its return.\<close>

definition run_inline :: "bool \<Rightarrow> int \<Rightarrow> int \<Rightarrow> int \<Rightarrow> call list option" where
  "run_inline in_parallel n min_per_chunk threads =
     (if n \<le> 0 then Some []
      else if in_parallel then Some [(0, n, 0)]
      else if region_parts n min_per_chunk threads = 1 then Some [(0, n, 0)]
      else None)"

definition publish :: "'f \<Rightarrow> int \<Rightarrow> int \<Rightarrow> 'f pool \<Rightarrow> 'f pool" where
  "publish f n parts s = s\<lparr>job_fn := Some f, job_count := n, job_parts := parts,
     pending := pool_total s - 1, generation := generation s + 1, caller := Own_chunk f n parts, calls := []\<rparr>"

definition run_own_chunk :: "'f \<Rightarrow> int \<Rightarrow> int \<Rightarrow> 'f pool \<Rightarrow> 'f pool" where
  "run_own_chunk f n parts s = s\<lparr>calls := call n parts 0 # calls s, caller := Awaiting f n parts\<rparr>"

definition complete :: "'f pool \<Rightarrow> 'f pool" where
  "complete s = s\<lparr>job_fn := None, caller := Idle\<rparr>"

text \<open>\<^verbatim>\<open>Pool::resize\<close> up to the join, and from the join on.\<close>

definition stop_workers :: "int \<Rightarrow> 'f pool \<Rightarrow> 'f pool" where
  "stop_workers t s = s\<lparr>stop := True, generation := generation s + 1, caller := Joining t\<rparr>"

definition start_workers :: "int \<Rightarrow> 'f pool \<Rightarrow> 'f pool" where
  "start_workers t s = s\<lparr>stop := False, pool_total := t,
     workers := replicate (nat (t - 1)) (Waiting (generation s)), caller := Idle\<rparr>"

text \<open>\<^verbatim>\<open>Pool::worker_loop\<close> of the worker with index \<open>k + 1\<close>: wake up, run the chunk, report.\<close>

definition wake :: "nat \<Rightarrow> 'f pool \<Rightarrow> 'f pool" where
  "wake k s = s\<lparr>workers := (workers s)[k :=
     (if stop s then Exited else Ready (generation s) (job_fn s) (job_count s) (job_parts s))]\<rparr>"

definition run_chunk :: "nat \<Rightarrow> 64 word \<Rightarrow> 'f option \<Rightarrow> int \<Rightarrow> int \<Rightarrow> 'f pool \<Rightarrow> 'f pool" where
  "run_chunk k seen fn n parts s =
     (if fn \<noteq> None \<and> int k + 1 < parts
      then s\<lparr>calls := call n parts (int k + 1) # calls s, workers := (workers s)[k := Ran seen]\<rparr>
      else s\<lparr>workers := (workers s)[k := Ran seen]\<rparr>)"

definition report :: "nat \<Rightarrow> 64 word \<Rightarrow> 'f pool \<Rightarrow> 'f pool" where
  "report k seen s = s\<lparr>pending := pending s - 1, workers := (workers s)[k := Waiting seen]\<rparr>"

text \<open>
  The steps the pool takes by itself, and the two requests from outside; a request starts when the
  control mutex is free, that is, when the caller is idle.
\<close>

inductive pool_internal :: "'f pool \<Rightarrow> 'f pool \<Rightarrow> bool" where
  Own: "caller s = Own_chunk f n parts \<Longrightarrow> pool_internal s (run_own_chunk f n parts s)"
| Return: "caller s = Awaiting f n parts \<Longrightarrow> pending s = 0 \<Longrightarrow> pool_internal s (complete s)"
| Joined: "caller s = Joining t \<Longrightarrow> \<forall>w \<in> set (workers s). w = Exited \<Longrightarrow> pool_internal s (start_workers t s)"
| Wake: "k < length (workers s) \<Longrightarrow> workers s ! k = Waiting seen \<Longrightarrow> stop s \<or> generation s \<noteq> seen \<Longrightarrow>
    pool_internal s (wake k s)"
| Chunk: "k < length (workers s) \<Longrightarrow> workers s ! k = Ready seen fn n parts \<Longrightarrow>
    pool_internal s (run_chunk k seen fn n parts s)"
| Report: "k < length (workers s) \<Longrightarrow> workers s ! k = Ran seen \<Longrightarrow> pool_internal s (report k seen s)"

inductive pool_request :: "'f pool \<Rightarrow> 'f pool \<Rightarrow> bool" where
  Run_inline: "caller s = Idle \<Longrightarrow> run_inline False n min_per_chunk (pool_total s) = Some cs \<Longrightarrow>
    pool_request s (s\<lparr>calls := cs\<rparr>)"
| Run: "caller s = Idle \<Longrightarrow> run_inline False n min_per_chunk (pool_total s) = None \<Longrightarrow>
    pool_request s (publish f n (region_parts n min_per_chunk (pool_total s)) s)"
| Resize: "caller s = Idle \<Longrightarrow> clamp t 1 512 \<noteq> pool_total s \<Longrightarrow>
    pool_request s (stop_workers (clamp t 1 512) s)"

inductive reachable :: "'f pool \<Rightarrow> bool" where
  start: "reachable new_pool"
| pool_internal: "reachable s \<Longrightarrow> pool_internal s s' \<Longrightarrow> reachable s'"
| pool_request: "reachable s \<Longrightarrow> pool_request s s' \<Longrightarrow> reachable s'"

inductive_cases internal_elim: "pool_internal s s'"
inductive_cases request_elim: "pool_request s s'"

section \<open>The invariant\<close>

text \<open>The phases a worker can be in while a job of the present generation is open.\<close>

definition job_phase :: "'f pool \<Rightarrow> 'f \<Rightarrow> int \<Rightarrow> int \<Rightarrow> 'f phase \<Rightarrow> bool" where
  "job_phase s f n parts w \<longleftrightarrow>
     w = Waiting (generation s - 1) \<or> w = Ready (generation s) (Some f) n parts \<or>
     w = Ran (generation s) \<or> w = Waiting (generation s)"

text \<open>Whether worker \<open>k + 1\<close> has run its chunk.\<close>

definition has_run :: "'f pool \<Rightarrow> nat \<Rightarrow> bool" where
  "has_run s k \<longleftrightarrow> workers s ! k = Ran (generation s) \<or> workers s ! k = Waiting (generation s)"

definition job_open :: "'f pool \<Rightarrow> 'f \<Rightarrow> int \<Rightarrow> int \<Rightarrow> bool \<Rightarrow> bool" where
  "job_open s f n parts own \<longleftrightarrow>
     \<not> stop s \<and> job_fn s = Some f \<and> job_count s = n \<and> job_parts s = parts \<and>
     0 < n \<and> 1 < parts \<and> parts \<le> pool_total s \<and>
     (\<forall>w \<in> set (workers s). job_phase s f n parts w) \<and>
     pending s = int (length (filter (\<lambda>w. w \<noteq> Waiting (generation s)) (workers s))) \<and>
     distinct (calls s) \<and>
     set (calls s) = (if own then {call n parts 0} else {}) \<union>
       {call n parts (int k + 1) |k. k < length (workers s) \<and> int k + 1 < parts \<and> has_run s k}"

definition pool_ok :: "'f pool \<Rightarrow> bool" where
  "pool_ok s \<longleftrightarrow>
     pool_total s = int (length (workers s)) + 1 \<and>
     (case caller s of
        Idle \<Rightarrow> \<not> stop s \<and> (\<forall>w \<in> set (workers s). w = Waiting (generation s))
      | Own_chunk f n parts \<Rightarrow> job_open s f n parts False
      | Awaiting f n parts \<Rightarrow> job_open s f n parts True
      | Joining t \<Rightarrow> stop s \<and> 1 \<le> t \<and> (\<forall>w \<in> set (workers s). (\<exists>g. w = Waiting g) \<or> w = Exited))"


lemma length_filter_update:
  "k < length xs \<Longrightarrow> length (filter P (xs[k := v])) + (if P (xs ! k) then 1 else 0) =
    length (filter P xs) + (if P v then 1 else 0)"
proof (induction xs arbitrary: k)
  case (Cons x xs)
  then show ?case by (cases k) auto
qed simp

lemma pred_one_neq [simp]: "(g :: 64 word) - 1 \<noteq> g" "g \<noteq> g - 1"
  by (simp_all add: diff_eq_eq)

lemma workers_update: "\<forall>w \<in> set ws. P w \<Longrightarrow> P v \<Longrightarrow> \<forall>w \<in> set (ws[k := v]). P w"
  by (auto dest!: set_update_subset_insert [THEN subsetD])

lemma pool_ok_new: "pool_ok new_pool"
  by (simp add: pool_ok_def new_pool_def)

lemma region_parts_many:
  assumes "run_inline False n m threads = None" "1 \<le> threads"
  shows "0 < n" "1 < region_parts n m threads" "region_parts n m threads \<le> threads"
proof -
  from assms show "0 < n" by (auto simp: run_inline_def split: if_splits)
  have "region_parts n m threads \<noteq> 1" using assms by (auto simp: run_inline_def split: if_splits)
  moreover have "1 \<le> region_parts n m threads \<and> region_parts n m threads \<le> threads"
    unfolding region_parts_def by (rule clamp_bounds [OF assms(2)])
  ultimately show "1 < region_parts n m threads" "region_parts n m threads \<le> threads" by auto
qed

lemma pool_ok_publish:
  assumes ok: "pool_ok s" and idle: "caller s = Idle" and n: "0 < n" "1 < parts" "parts \<le> pool_total s"
  shows "pool_ok (publish f n parts s)"
proof -
  have ws: "\<forall>w \<in> set (workers s). w = Waiting (generation s)" and tot: "pool_total s = int (length (workers s)) + 1"
    and "\<not> stop s" using ok idle by (auto simp: pool_ok_def)
  have "filter (\<lambda>w. w \<noteq> Waiting (generation s + 1)) (workers s) = workers s"
    using ws by (auto simp: filter_id_conv)
  moreover have "\<not> has_run (publish f n parts s) k" if "k < length (workers s)" for k
    using bspec [OF ws nth_mem [OF that]] by (simp add: has_run_def publish_def)
  ultimately show ?thesis
    using ws tot \<open>\<not> stop s\<close> n by (auto simp: pool_ok_def job_open_def job_phase_def publish_def)
qed

lemma call_inject: "call n parts i = call n parts j \<longleftrightarrow> i = j"
  by (auto simp: call_def)

lemma pool_ok_own_chunk:
  assumes ok: "pool_ok s" and c: "caller s = Own_chunk f n parts"
  shows "pool_ok (run_own_chunk f n parts s)"
proof -
  let ?t = "run_own_chunk f n parts s"
  have jo: "job_open s f n parts False" using ok c by (simp add: pool_ok_def)
  then have "call n parts 0 \<notin> set (calls s)" by (auto simp: job_open_def call_inject)
  moreover have "has_run ?t = has_run s" by (auto simp: has_run_def run_own_chunk_def fun_eq_iff)
  moreover have "job_phase ?t = job_phase s" by (simp add: job_phase_def run_own_chunk_def fun_eq_iff)
  ultimately have "job_open ?t f n parts True"
    using jo by (simp add: job_open_def) (simp add: run_own_chunk_def)
  with ok show ?thesis by (simp add: pool_ok_def) (simp add: run_own_chunk_def)
qed

text \<open>A worker's step inside an open job: the new phase and the calls it adds.\<close>

lemma job_open_worker:
  assumes jo: "job_open s f n parts own" and k: "k < length (workers s)" and v: "job_phase s f n parts v"
    and pend: "p = pending s - (if v = Waiting (generation s) \<and> workers s ! k \<noteq> Waiting (generation s) then 1 else 0)"
    and old: "v \<noteq> Waiting (generation s) \<Longrightarrow> workers s ! k \<noteq> Waiting (generation s)"
    and run: "if \<not> has_run s k \<and> (v = Ran (generation s) \<or> v = Waiting (generation s)) \<and> int k + 1 < parts
              then cs = call n parts (int k + 1) # calls s else cs = calls s"
    and keep: "has_run s k \<Longrightarrow> v = Ran (generation s) \<or> v = Waiting (generation s)"
  shows "job_open (s\<lparr>workers := (workers s)[k := v], pending := p, calls := cs\<rparr>) f n parts own"
proof -
  let ?t = "s\<lparr>workers := (workers s)[k := v], pending := p, calls := cs\<rparr>"
  have hr: "has_run ?t i = (if i = k then v = Ran (generation s) \<or> v = Waiting (generation s) else has_run s i)" for i
    using k by (auto simp: has_run_def nth_list_update)
  have jp: "job_phase ?t = job_phase s" by (simp add: job_phase_def fun_eq_iff)
  have ph: "\<forall>w \<in> set (workers ?t). job_phase s f n parts w"
    using jo v workers_update [of "workers s" "job_phase s f n parts" v k] by (simp add: job_open_def)
  have pd: "p = int (length (filter (\<lambda>w. w \<noteq> Waiting (generation s)) ((workers s)[k := v])))"
    using jo k pend old length_filter_update [of k "workers s" "\<lambda>w. w \<noteq> Waiting (generation s)" v]
    by (auto simp: job_open_def split: if_splits)
  let ?old = "{call n parts (int i + 1) |i. i < length (workers s) \<and> int i + 1 < parts \<and> has_run s i}"
  let ?new = "{call n parts (int i + 1) |i. i < length (workers s) \<and> int i + 1 < parts \<and> has_run ?t i}"
  have cs: "set (calls s) = (if own then {call n parts 0} else {}) \<union> ?old" and d: "distinct (calls s)"
    using jo by (simp_all add: job_open_def)
  have new: "distinct cs \<and> set cs = (if own then {call n parts 0} else {}) \<union> ?new"
  proof (cases "\<not> has_run s k \<and> (v = Ran (generation s) \<or> v = Waiting (generation s)) \<and> int k + 1 < parts")
    case True
    then have "?new = insert (call n parts (int k + 1)) ?old" using k by (auto simp: hr)
    moreover have "call n parts (int k + 1) \<notin> set (calls s)" using True cs by (auto simp: call_inject)
    ultimately show ?thesis using run True d cs by simp
  next
    case False
    then have "(int i + 1 < parts \<and> has_run ?t i) = (int i + 1 < parts \<and> has_run s i)" for i
      using keep by (auto simp: hr)
    then have "?new = ?old" by presburger
    then show ?thesis using run False d cs by auto
  qed
  show ?thesis using jo ph pd new unfolding job_open_def jp by simp
qed

lemma pool_ok_worker:
  assumes ok: "pool_ok s" and k: "k < length (workers s)"
    and job: "\<And>f n parts own. job_open s f n parts own \<Longrightarrow>
      job_open (s\<lparr>workers := (workers s)[k := v], pending := p, calls := cs\<rparr>) f n parts own"
    and idle: "caller s = Idle \<Longrightarrow> False"
    and join: "\<And>t. caller s = Joining t \<Longrightarrow> (\<exists>g. v = Waiting g) \<or> v = Exited"
  shows "pool_ok (s\<lparr>workers := (workers s)[k := v], pending := p, calls := cs\<rparr>)"
proof (cases "caller s")
  case (Joining t)
  then show ?thesis
    using ok join [OF Joining] workers_update [of "workers s" "\<lambda>w. (\<exists>g. w = Waiting g) \<or> w = Exited" v k]
    by (simp add: pool_ok_def)
qed (use ok job idle in \<open>simp_all add: pool_ok_def\<close>)


lemma job_open_wake:
  assumes jo: "job_open s f n parts own" and k: "k < length (workers s)" "workers s ! k = Waiting seen"
    and seen: "generation s \<noteq> seen"
  shows "job_open (s\<lparr>workers := (workers s)[k := Ready (generation s) (job_fn s) (job_count s) (job_parts s)],
    pending := pending s, calls := calls s\<rparr>) f n parts own"
proof -
  have "job_phase s f n parts (Waiting seen)" using jo k by (metis job_open_def nth_mem)
  then have "\<not> has_run s k" using k seen by (auto simp: has_run_def)
  then show ?thesis
    using jo k seen by (intro job_open_worker) (auto simp: job_phase_def job_open_def)
qed

lemma job_open_chunk:
  assumes jo: "job_open s f n parts own" and k: "k < length (workers s)" "workers s ! k = Ready seen fn m q"
  shows "job_open (s\<lparr>workers := (workers s)[k := Ran seen], pending := pending s,
    calls := (if fn \<noteq> None \<and> int k + 1 < q then call m q (int k + 1) # calls s else calls s)\<rparr>) f n parts own"
proof -
  have "job_phase s f n parts (Ready seen fn m q)" using jo k by (metis job_open_def nth_mem)
  then have e: "seen = generation s" "fn = Some f" "m = n" "q = parts" by (auto simp: job_phase_def)
  have "\<not> has_run s k" using k by (auto simp: has_run_def)
  then show ?thesis
    unfolding e using jo k by (intro job_open_worker) (auto simp: job_phase_def job_open_def)
qed

lemma job_open_report:
  assumes jo: "job_open s f n parts own" and k: "k < length (workers s)" "workers s ! k = Ran seen"
  shows "job_open (s\<lparr>workers := (workers s)[k := Waiting seen], pending := pending s - 1, calls := calls s\<rparr>)
    f n parts own"
proof -
  have "job_phase s f n parts (Ran seen)" using jo k by (metis job_open_def nth_mem)
  then have e: "seen = generation s" by (auto simp: job_phase_def)
  have "has_run s k" using k e by (auto simp: has_run_def)
  then show ?thesis
    unfolding e using jo k by (intro job_open_worker) (auto simp: job_phase_def job_open_def)
qed

lemma job_open_not_stop: "job_open s f n parts own \<Longrightarrow> \<not> stop s"
  by (simp add: job_open_def)

lemma pool_ok_idle_worker:
  "pool_ok s \<Longrightarrow> caller s = Idle \<Longrightarrow> k < length (workers s) \<Longrightarrow> workers s ! k = Waiting (generation s)"
  by (simp add: pool_ok_def)

lemma pool_ok_joining_worker:
  "pool_ok s \<Longrightarrow> caller s = Joining t \<Longrightarrow> k < length (workers s) \<Longrightarrow>
    (\<exists>g. workers s ! k = Waiting g) \<or> workers s ! k = Exited"
  by (simp add: pool_ok_def)

lemma pool_ok_stop: "pool_ok s \<Longrightarrow> stop s \<longleftrightarrow> (\<exists>t. caller s = Joining t)"
  by (auto simp: pool_ok_def dest: job_open_not_stop split: caller.splits)

lemma pool_ok_internal:
  assumes "pool_internal s s'" "pool_ok s"
  shows "pool_ok s'"
  using assms(1)
proof cases
  case (Own f n parts)
  then show ?thesis using pool_ok_own_chunk [OF assms(2)] by simp
next
  case (Return f n parts)
  with assms(2) have jo: "job_open s f n parts True" by (simp add: pool_ok_def)
  then have "filter (\<lambda>w. w \<noteq> Waiting (generation s)) (workers s) = []"
    using Return(3) by (simp add: job_open_def)
  then have "\<forall>w \<in> set (workers s). w = Waiting (generation s)" by (simp add: filter_empty_conv)
  then show ?thesis using assms(2) jo unfolding Return(1) by (simp add: pool_ok_def complete_def job_open_def)
next
  case (Joined t)
  with assms(2) have "1 \<le> t" by (simp add: pool_ok_def)
  then show ?thesis unfolding Joined(1) by (simp add: pool_ok_def start_workers_def)
next
  case (Wake k seen)
  show ?thesis
  proof (cases "stop s")
    case True
    then obtain t where "caller s = Joining t" using pool_ok_stop [OF assms(2)] by blast
    then show ?thesis
      using assms(2) True workers_update [of "workers s" "\<lambda>w. (\<exists>g. w = Waiting g) \<or> w = Exited" Exited k]
      unfolding Wake(1) by (simp add: pool_ok_def wake_def)
  next
    case False
    let ?v = "Ready (generation s) (job_fn s) (job_count s) (job_parts s)"
    have e: "wake k s = s\<lparr>workers := (workers s)[k := ?v], pending := pending s, calls := calls s\<rparr>"
      using False by (simp add: wake_def)
    have ne: "generation s \<noteq> seen" using Wake(4) False by simp
    show ?thesis unfolding Wake(1) e
    proof (rule pool_ok_worker [OF assms(2) Wake(2)])
      show "caller s = Idle \<Longrightarrow> False"
        using pool_ok_idle_worker [OF assms(2) _ Wake(2)] Wake(3,4) False by auto
      show "\<And>t. caller s = Joining t \<Longrightarrow> (\<exists>g. ?v = Waiting g) \<or> ?v = Exited"
        using pool_ok_stop [OF assms(2)] False by blast
    qed (rule job_open_wake [OF _ Wake(2,3) ne])
  qed
next
  case (Chunk k seen fn n parts)
  let ?cs = "if fn \<noteq> None \<and> int k + 1 < parts then call n parts (int k + 1) # calls s else calls s"
  have e: "run_chunk k seen fn n parts s =
      s\<lparr>workers := (workers s)[k := Ran seen], pending := pending s, calls := ?cs\<rparr>"
    by (simp add: run_chunk_def)
  show ?thesis unfolding Chunk(1) e
  proof (rule pool_ok_worker [OF assms(2) Chunk(2)])
    show "caller s = Idle \<Longrightarrow> False" using pool_ok_idle_worker [OF assms(2) _ Chunk(2)] Chunk(3) by simp
    show "\<And>t. caller s = Joining t \<Longrightarrow> (\<exists>g. Ran seen = Waiting g) \<or> Ran seen = Exited"
      using pool_ok_joining_worker [OF assms(2) _ Chunk(2)] Chunk(3) by auto
  qed (rule job_open_chunk [OF _ Chunk(2,3)])
next
  case (Report k seen)
  have e: "report k seen s = s\<lparr>workers := (workers s)[k := Waiting seen], pending := pending s - 1, calls := calls s\<rparr>"
    by (simp add: report_def)
  show ?thesis unfolding Report(1) e
  proof (rule pool_ok_worker [OF assms(2) Report(2)])
    show "caller s = Idle \<Longrightarrow> False" using pool_ok_idle_worker [OF assms(2) _ Report(2)] Report(3) by simp
  qed (use job_open_report [OF _ Report(2,3)] in auto)
qed

lemma pool_total_ge_1: "pool_ok s \<Longrightarrow> 1 \<le> pool_total s"
  by (simp add: pool_ok_def)

lemma pool_ok_request:
  assumes "pool_request s s'" "pool_ok s"
  shows "pool_ok s'"
  using assms(1)
proof cases
  case (Run_inline n m cs)
  then show ?thesis using assms(2) by (simp add: pool_ok_def)
next
  case (Run n m f)
  then show ?thesis
    using pool_ok_publish [OF assms(2)] region_parts_many [OF _ pool_total_ge_1 [OF assms(2)]] by simp
next
  case (Resize t)
  have "1 \<le> clamp t 1 512" using clamp_bounds [of 1 512 t] by simp
  then show ?thesis using Resize assms(2) by (auto simp: pool_ok_def stop_workers_def)
qed

lemma pool_ok_reachable: "reachable s \<Longrightarrow> pool_ok s"
  by (induction rule: reachable.induct) (auto intro: pool_ok_new pool_ok_internal pool_ok_request)


section \<open>What a region does\<close>

lemma region_runs_each_chunk:
  assumes "reachable s" "caller s = Awaiting f n parts" "pending s = 0"
  shows "distinct (calls s) \<and> set (calls s) = {call n parts i |i. 0 \<le> i \<and> i < parts}"
proof -
  have jo: "job_open s f n parts True" and tot: "pool_total s = int (length (workers s)) + 1"
    using pool_ok_reachable [OF assms(1)] assms(2) by (simp_all add: pool_ok_def)
  have p: "1 < parts" "parts \<le> pool_total s" using jo by (simp_all add: job_open_def)
  have "filter (\<lambda>w. w \<noteq> Waiting (generation s)) (workers s) = []"
    using jo assms(3) by (simp add: job_open_def)
  then have run: "has_run s k" if "k < length (workers s)" for k
    using nth_mem [OF that] by (simp add: has_run_def filter_empty_conv)
  have "{call n parts i |i. 0 \<le> i \<and> i < parts} =
      {call n parts 0} \<union> {call n parts (int k + 1) |k. k < length (workers s) \<and> int k + 1 < parts \<and> has_run s k}"
    (is "?A = ?B")
  proof
    show "?B \<subseteq> ?A" using p by fastforce
    show "?A \<subseteq> ?B"
    proof
      fix c assume "c \<in> ?A"
      then obtain i where i: "c = call n parts i" "0 \<le> i" "i < parts" by blast
      show "c \<in> ?B"
      proof (cases "i = 0")
        case False
        then have k: "i = int (nat (i - 1)) + 1" "nat (i - 1) < length (workers s)" using i p tot by auto
        then have "c = call n parts (int (nat (i - 1)) + 1)" "int (nat (i - 1)) + 1 < parts" using i by simp_all
        with run [OF k(2)] k(2) show ?thesis by blast
      qed (simp add: i)
    qed
  qed
  with jo show ?thesis by (simp add: job_open_def)
qed

text \<open>
  C2: when the caller of a parallel region is let go, the calls made since the region was published are
  exactly the chunks of the partition, each made once, whatever the schedule of the workers.
\<close>

theorem region_runs_each_chunk_once:
  assumes "reachable s" "caller s = Awaiting f n parts" "pending s = 0"
  shows "distinct (calls s) \<and> set (calls s) = {call n parts i |i. 0 \<le> i \<and> i < parts}"
  using assms by (rule region_runs_each_chunk)


text \<open>How much a worker and the caller still have to do for what is open.\<close>

fun worker_work :: "bool \<Rightarrow> 64 word \<Rightarrow> 'f phase \<Rightarrow> nat" where
  "worker_work stopping g (Waiting seen) = (if stopping then 1 else if seen = g then 0 else 3)"
| "worker_work stopping g (Ready seen fn n parts) = 2"
| "worker_work stopping g (Ran seen) = 1"
| "worker_work stopping g Exited = 0"

fun caller_work :: "'f caller \<Rightarrow> nat" where
  "caller_work Idle = 0"
| "caller_work (Own_chunk f n parts) = 2"
| "caller_work (Awaiting f n parts) = 1"
| "caller_work (Joining t) = 1"

definition work :: "'f pool \<Rightarrow> nat" where
  "work s = sum_list (map (worker_work (stop s) (generation s)) (workers s)) + caller_work (caller s)"

lemma sum_list_update:
  "k < length xs \<Longrightarrow> sum_list (map h (xs[k := v])) + h (xs ! k) = sum_list (map h xs) + (h v :: nat)"
proof (induction xs arbitrary: k)
  case (Cons x xs)
  then show ?case by (cases k) (auto simp: ac_simps)
qed simp

lemma work_worker:
  assumes "k < length (workers s)" "stop t = stop s" "generation t = generation s" "caller t = caller s"
    "workers t = (workers s)[k := v]"
    "worker_work (stop s) (generation s) v < worker_work (stop s) (generation s) (workers s ! k)"
  shows "work t < work s"
  using assms sum_list_update [OF assms(1), of "worker_work (stop s) (generation s)" v]
  by (simp add: work_def)

lemma internal_work:
  assumes "pool_internal s s'" "pool_ok s"
  shows "work s' < work s"
  using assms(1)
proof cases
  case (Wake k seen)
  then show ?thesis
    by (intro work_worker [where k = k and v = "workers (wake k s) ! k"]) (auto simp: wake_def)
next
  case (Chunk k seen fn n parts)
  then show ?thesis by (intro work_worker [where k = k and v = "Ran seen"]) (auto simp: run_chunk_def)
next
  case (Report k seen)
  have "\<not> stop s"
    using pool_ok_stop [OF assms(2)] pool_ok_joining_worker [OF assms(2) _ Report(2)] Report(3) by auto
  moreover have "seen = generation s"
  proof -
    have "caller s \<noteq> Idle" using pool_ok_idle_worker [OF assms(2) _ Report(2)] Report(3) by auto
    with \<open>\<not> stop s\<close> obtain f n parts own where "job_open s f n parts own"
      using assms(2) by (auto simp: pool_ok_def split: caller.splits)
    then have "job_phase s f n parts (Ran seen)" using Report(2,3) by (metis job_open_def nth_mem)
    then show ?thesis by (simp add: job_phase_def)
  qed
  ultimately show ?thesis
    using Report by (intro work_worker [where k = k and v = "Waiting seen"]) (auto simp: report_def)
next
  case (Joined t)
  have "map (worker_work False g) (replicate n (Waiting g)) = replicate n 0" for g n by simp
  then show ?thesis using Joined by (simp add: work_def start_workers_def sum_list_replicate)
qed (simp_all add: work_def run_own_chunk_def complete_def)

lemma worker_can_step:
  assumes ok: "pool_ok s" and k: "k < length (workers s)"
    and busy: "workers s ! k \<noteq> Exited" "stop s \<or> workers s ! k \<noteq> Waiting (generation s)"
  shows "\<exists>s'. pool_internal s s'"
proof (cases "workers s ! k")
  case (Waiting seen)
  then show ?thesis using busy pool_internal.Wake [OF k Waiting] by fastforce
next
  case (Ready seen fn n parts)
  then show ?thesis using pool_internal.Chunk [OF k] by blast
next
  case (Ran seen)
  then show ?thesis using pool_internal.Report [OF k] by blast
qed (use busy in simp)



section \<open>What a kernel may rely on\<close>

text \<open>
  A kernel hands the pool a range function that updates the elements of its range. \<open>apply_range h\<close> is
  that call for an element-wise update \<open>h\<close> of a buffer.
\<close>

definition in_call :: "int \<Rightarrow> call \<Rightarrow> bool" where
  "in_call x c \<longleftrightarrow> fst c \<le> x \<and> x < fst (snd c)"

definition apply_range :: "(nat \<Rightarrow> 'a \<Rightarrow> 'a) \<Rightarrow> call \<Rightarrow> 'a list \<Rightarrow> 'a list" where
  "apply_range h c out = map (\<lambda>i. if in_call (int i) c then h i (out ! i) else out ! i) [0..<length out]"

locale range_executor =
  fixes runs :: "int \<Rightarrow> call list \<Rightarrow> bool"
  assumes once: "runs n cs \<Longrightarrow> 0 \<le> x \<Longrightarrow> x < n \<Longrightarrow> length (filter (in_call x) cs) = 1"
    and inside: "runs n cs \<Longrightarrow> c \<in> set cs \<Longrightarrow> in_call x c \<Longrightarrow> 0 \<le> x \<and> x < n"
begin

lemma length_fold [simp]: "length (fold (apply_range h) cs out) = length out"
  by (induction cs arbitrary: out) (simp_all add: apply_range_def)

lemma nth_fold:
  "i < length out \<Longrightarrow>
    fold (apply_range h) cs out ! i = (h i ^^ length (filter (in_call (int i)) cs)) (out ! i)"
proof (induction cs arbitrary: out)
  case (Cons c cs)
  have "length (apply_range h c out) = length out" by (simp add: apply_range_def)
  with Cons show ?case by (simp add: funpow_swap1) (simp add: apply_range_def funpow_swap1)
qed simp

lemma elementwise:
  assumes "runs n cs" "n \<le> int (length out)"
  shows "fold (apply_range h) cs out =
    map (\<lambda>i. if int i < n then h i (out ! i) else out ! i) [0..<length out]"
proof (rule nth_equalityI)
  fix i assume "i < length (fold (apply_range h) cs out)"
  then have i: "i < length out" by simp
  show "fold (apply_range h) cs out ! i =
      map (\<lambda>i. if int i < n then h i (out ! i) else out ! i) [0..<length out] ! i"
  proof (cases "int i < n")
    case True
    then show ?thesis using i once [OF assms(1), of "int i"] by (simp add: nth_fold)
  next
    case False
    then have "filter (in_call (int i)) cs = []" using inside [OF assms(1)] by (auto simp: filter_empty_conv)
    then show ?thesis using i False by (simp add: nth_fold)
  qed
qed simp

end

text \<open>
  The calls a region of \<open>n\<close> items can consist of: the inline ones, and those a pool (whose function
  pointers are numbers) has made, in some order, when it lets the caller go.
\<close>

definition region_calls :: "int \<Rightarrow> call list \<Rightarrow> bool" where
  "region_calls n cs \<longleftrightarrow>
     (\<exists>in_parallel m threads. run_inline in_parallel n m threads = Some cs) \<or>
     (\<exists>s f parts. reachable (s :: nat pool) \<and> caller s = Awaiting f n parts \<and> pending s = 0 \<and> cs = calls s)"

lemma completed_region:
  assumes "reachable s" "caller s = Awaiting f n parts" "pending s = 0"
  shows "0 \<le> n" "0 < parts"
  using pool_ok_reachable [OF assms(1)] assms(2) by (simp_all add: pool_ok_def job_open_def)

lemma region_calls_once:
  assumes "region_calls n cs" "0 \<le> x" "x < n"
  shows "length (filter (in_call x) cs) = 1"
  using assms(1) unfolding region_calls_def
proof (elim disjE exE conjE)
  fix ip m threads assume "run_inline ip n m threads = Some cs"
  then have "cs = [(0, n, 0)]" using assms(2,3) by (auto simp: run_inline_def split: if_splits)
  then show ?thesis using assms(2,3) by (simp add: in_call_def)
next
  fix s :: "nat pool" and f parts
  assume s: "reachable s" "caller s = Awaiting f n parts" "pending s = 0" and cs: "cs = calls s"
  note once = region_runs_each_chunk [OF s]
  note np = completed_region [OF s]
  obtain i where i: "0 \<le> i" "i < parts" "fst (chunk_range n parts i) \<le> x" "x < snd (chunk_range n parts i)"
    using chunk_cover [OF np assms(2,3)] by blast
  have ic: "in_call x (call n parts j) \<longleftrightarrow>
      fst (chunk_range n parts j) \<le> x \<and> x < snd (chunk_range n parts j)" for j
    by (simp add: in_call_def call_def)
  have uniq: "j = i" if "in_call x (call n parts j)" for j
    using chunk_disjoint [OF np, of i j] chunk_disjoint [OF np, of j i] i that unfolding ic by linarith
  have cset: "set cs = {call n parts i |i. 0 \<le> i \<and> i < parts}" using once cs by simp
  have "in_call x (call n parts i)" using i by (simp add: ic)
  then have "{c \<in> set cs. in_call x c} = {call n parts i}" unfolding cset using i(1,2) uniq by blast
  then have "set (filter (in_call x) cs) = {call n parts i}" by simp
  moreover have "distinct (filter (in_call x) cs)" using once by (simp add: cs)
  ultimately show ?thesis using distinct_card [of "filter (in_call x) cs"] by simp
qed

lemma region_calls_inside:
  assumes "region_calls n cs" "c \<in> set cs" "in_call x c"
  shows "0 \<le> x \<and> x < n"
  using assms(1) unfolding region_calls_def
proof (elim disjE exE conjE)
  fix ip m threads assume "run_inline ip n m threads = Some cs"
  then show ?thesis using assms(2,3) by (auto simp: run_inline_def in_call_def split: if_splits)
next
  fix s :: "nat pool" and f parts
  assume s: "reachable s" "caller s = Awaiting f n parts" "pending s = 0" and cs: "cs = calls s"
  from region_runs_each_chunk [OF s] assms(2) cs
  obtain i where i: "c = call n parts i" "0 \<le> i" "i < parts" by auto
  with chunk_bounds [OF completed_region [OF s] i(2,3)] assms(3) show ?thesis
    by (simp add: in_call_def call_def)
qed

interpretation region: range_executor region_calls
  by unfold_locales (use region_calls_once region_calls_inside in blast)+

text \<open>
  An element-wise kernel run on the pool computes what the sequential loop computes, whatever the
  number of threads, the partition and the order in which the workers run their chunks.
\<close>

theorem elementwise_kernel_schedule_independent:
  assumes "region_calls (int (length out)) cs"
  shows "fold (apply_range h) cs out = map (\<lambda>i. h i (out ! i)) [0..<length out]"
  using region.elementwise [OF assms order_refl, of h] by simp

section \<open>Witnesses\<close>

text \<open>A pool of two threads runs a region of five items, the worker first.\<close>

definition demo_pool :: "nat phase list \<Rightarrow> 64 word \<Rightarrow> nat caller \<Rightarrow> bool \<Rightarrow> int \<Rightarrow> int \<Rightarrow> int \<Rightarrow> call list \<Rightarrow> nat pool" where
  "demo_pool ws g c st p t n cs = \<lparr>pool_total = t, generation = g, pending = p, stop = st,
     job_fn = (if n = 0 then None else Some 7), job_count = n, job_parts = (if n = 0 then 0 else 2),
     workers = ws, caller = c, calls = cs\<rparr>"

lemma demo_resized: "reachable (demo_pool [Waiting 1] 1 Idle False 0 2 0 [])"
proof -
  have "reachable (stop_workers 2 new_pool :: nat pool)"
    using reachable.pool_request [OF reachable.start pool_request.Resize [of new_pool 2]]
    by (simp add: new_pool_def clamp_def)
  from reachable.pool_internal [OF this pool_internal.Joined [of _ 2]]
  have "reachable (start_workers 2 (stop_workers 2 new_pool) :: nat pool)"
    by (simp add: stop_workers_def new_pool_def)
  then show ?thesis by (simp add: start_workers_def stop_workers_def new_pool_def demo_pool_def)
qed

lemma demo_published: "reachable (demo_pool [Waiting 1] 2 (Own_chunk 7 5 2) False 1 2 5 [])"
  using reachable.pool_request [OF demo_resized pool_request.Run [of _ 5 1 "7 :: nat"]]
  by (simp add: demo_pool_def run_inline_def region_parts_def clamp_def publish_def)

lemma demo_completed: "reachable (demo_pool [Waiting 2] 2 (Awaiting 7 5 2) False 0 2 5 [(3, 5, 1), (0, 3, 0)])"
proof -
  have c: "call 5 2 0 = (0, 3, 0)" "call 5 2 1 = (3, 5, 1)" by (simp_all add: call_def chunk_range_def)
  have "reachable (demo_pool [Waiting 1] 2 (Awaiting 7 5 2) False 1 2 5 [(0, 3, 0)])"
    using reachable.pool_internal [OF demo_published pool_internal.Own [of _ 7 5 2]]
    by (simp add: demo_pool_def run_own_chunk_def c)
  from reachable.pool_internal [OF this pool_internal.Wake [of 0 _ 1]]
  have "reachable (demo_pool [Ready 2 (Some 7) 5 2] 2 (Awaiting 7 5 2) False 1 2 5 [(0, 3, 0)])"
    by (simp add: demo_pool_def wake_def)
  from reachable.pool_internal [OF this pool_internal.Chunk [of 0 _ 2 "Some 7" 5 2]]
  have "reachable (demo_pool [Ran 2] 2 (Awaiting 7 5 2) False 1 2 5 [(3, 5, 1), (0, 3, 0)])"
    by (simp add: demo_pool_def run_chunk_def c)
  from reachable.pool_internal [OF this pool_internal.Report [of 0 _ 2]]
  show ?thesis by (simp add: demo_pool_def report_def)
qed

theorem region_runs_each_chunk_once_witness:
  "set [(3, 5, 1), (0, 3, 0)] = {call 5 2 i |i. 0 \<le> i \<and> i < 2}"
  using region_runs_each_chunk_once [OF demo_completed] by (simp add: demo_pool_def)



lemma demo_region: "region_calls 5 [(3, 5, 1), (0, 3, 0)]"
  using demo_completed unfolding region_calls_def
  by (intro disjI2 exI [of _ "demo_pool [Waiting 2] 2 (Awaiting 7 5 2) False 0 2 5 [(3, 5, 1), (0, 3, 0)]"])
    (simp add: demo_pool_def)

theorem elementwise_kernel_schedule_independent_witness:
  "fold (apply_range (\<lambda>i x. x + int i)) [(3, 5, 1), (0, 3, 0)] [10, 20, 30, 40, 50] = [10, 21, 32, 43, 54]"
  by (subst elementwise_kernel_schedule_independent) (simp_all add: demo_region upt_rec)

end
