(* ===== verification/QuantContract.thy ===== *)
theory QuantContract
  imports Soft_Float
begin

text \<open>
  \<^verbatim>\<open>include/quixicore_cpu/quant_contract.h\<close> and \<^verbatim>\<open>src/memory/quant_contract.cpp\<close>: the canonical
  quantized layouts, their descriptors, and the validation of the metadata that travels with a tensor.
  A \<^verbatim>\<open>size_t\<close> is an \<open>int\<close> of \<open>[0, 2 ^ 64)\<close>; \<open>usz\<close> marks a computation that wraps.
\<close>

unbundle bit_operations_syntax

section \<open>The enumerations\<close>

datatype CanonicalQuantLayout =
    kInt4Symmetric | kUInt4Affine | kInt8Symmetric | kInt8Affine | kFP8E4M3FN | kFP8E5M2 | kFP4E2M1
  | kMXFP8E4M3E8M0 | kMXFP4E2M1E8M0 | kNVFP4E2M1E4M3 | kBitNetTernary | kTurboQuantKey | kTurboQuantValue

text \<open>The three enumerations that share the name \<^verbatim>\<open>kNone\<close> carry a prefix here.\<close>

datatype QuantScaleMode =
    Scale_kNone | kTensor | kRow | kChannel | kGroup | kBlock | kMicroscaleK32 | kNVFP4K16 | kTurboQuantK32

datatype QuantScaleEncoding = Enc_kNone | kFP16 | kFP32 | kE8M0 | kE4M3FN

datatype QuantZeroPointMode = Zero_kNone | kInteger | kFractional | kTurboQuantOffset

datatype QuantPackingOrder =
    kBytePerElement | kLowKFirstNibble | kLowKFirstTwoBits | kLeastSignificantBitStream
  | kSplitCodesAndMetadata

record CanonicalQuantDescriptor =
  d_contract_version :: int
  d_layout :: CanonicalQuantLayout
  d_name :: string
  element_bits :: int
  block_elements :: int
  packed_block_bytes :: int
  packing :: QuantPackingOrder
  default_scale_mode :: QuantScaleMode
  d_scale_encoding :: QuantScaleEncoding
  d_zero_point_mode :: QuantZeroPointMode
  scale_group_elements :: int
  has_global_scale :: bool
  supports_act_order :: bool
  supports_sparse_mask :: bool
  requires_centroid_table :: bool
  is_cache_layout :: bool

record QuantTensorMetadata =
  contract_version :: int
  layout :: CanonicalQuantLayout
  logical_rows :: int
  logical_columns :: int
  group_size :: int
  scale_mode :: QuantScaleMode
  scale_encoding :: QuantScaleEncoding
  zero_point_mode :: QuantZeroPointMode
  scale_count :: int
  zero_point_count :: int
  group_index_count :: int
  act_order_count :: int
  sparse_mask_bytes :: int
  centroid_count :: int
  global_scale :: f32
  key_bits :: int
  value_bits :: int
  key_signed :: bool
  scale_2d :: bool
  scale_domain_rows :: int

text \<open>The default member initialisers; \<open>0x3F800000\<close> is \<^verbatim>\<open>1.0f\<close>.\<close>

definition default_metadata :: QuantTensorMetadata where
  "default_metadata = \<lparr>contract_version = 1, layout = kInt4Symmetric, logical_rows = 0, logical_columns = 0,
     group_size = 0, scale_mode = Scale_kNone, scale_encoding = Enc_kNone, zero_point_mode = Zero_kNone,
     scale_count = 0, zero_point_count = 0, group_index_count = 0, act_order_count = 0,
     sparse_mask_bytes = 0, centroid_count = 0, global_scale = 0x3F800000, key_bits = 0, value_bits = 0,
     key_signed = False, scale_2d = False, scale_domain_rows = 1\<rparr>"

section \<open>The descriptor table\<close>

definition kDescriptors :: "CanonicalQuantDescriptor list" where
  "kDescriptors =
    [CanonicalQuantDescriptor.make 1 kInt4Symmetric ''int4_symmetric'' 4 0 0 kLowKFirstNibble kGroup kFP32
       Zero_kNone 0 False True False False False,
     CanonicalQuantDescriptor.make 1 kUInt4Affine ''uint4_affine'' 4 0 0 kLowKFirstNibble kGroup kFP32
       kFractional 0 False True False False False,
     CanonicalQuantDescriptor.make 1 kInt8Symmetric ''int8_symmetric'' 8 0 0 kBytePerElement kRow kFP32
       Zero_kNone 0 False False False False False,
     CanonicalQuantDescriptor.make 1 kInt8Affine ''int8_affine'' 8 0 0 kBytePerElement kRow kFP32
       kInteger 0 False False False False False,
     CanonicalQuantDescriptor.make 1 kFP8E4M3FN ''fp8_e4m3fn'' 8 0 0 kBytePerElement kTensor kFP32
       Zero_kNone 0 False False False False False,
     CanonicalQuantDescriptor.make 1 kFP8E5M2 ''fp8_e5m2'' 8 0 0 kBytePerElement kTensor kFP32
       Zero_kNone 0 False False False False False,
     CanonicalQuantDescriptor.make 1 kFP4E2M1 ''fp4_e2m1'' 4 0 0 kLowKFirstNibble kBlock kFP16
       Zero_kNone 0 False False False False False,
     CanonicalQuantDescriptor.make 1 kMXFP8E4M3E8M0 ''mxfp8_e4m3_e8m0'' 8 32 33 kSplitCodesAndMetadata
       kMicroscaleK32 kE8M0 Zero_kNone 32 False False False False False,
     CanonicalQuantDescriptor.make 1 kMXFP4E2M1E8M0 ''mxfp4_e2m1_e8m0'' 4 32 17 kSplitCodesAndMetadata
       kMicroscaleK32 kE8M0 Zero_kNone 32 False False False False False,
     CanonicalQuantDescriptor.make 1 kNVFP4E2M1E4M3 ''nvfp4_e2m1_e4m3'' 4 16 0 kSplitCodesAndMetadata
       kNVFP4K16 kE4M3FN Zero_kNone 16 True False False False False,
     CanonicalQuantDescriptor.make 1 kBitNetTernary ''bitnet_ternary'' 2 32 10 kLowKFirstTwoBits
       kBlock kFP16 Zero_kNone 32 False False True False False,
     CanonicalQuantDescriptor.make 1 kTurboQuantKey ''turboquant_key'' 0 32 0 kLeastSignificantBitStream
       kTurboQuantK32 kFP16 kTurboQuantOffset 32 False False False False True,
     CanonicalQuantDescriptor.make 1 kTurboQuantValue ''turboquant_value'' 0 32 0 kLeastSignificantBitStream
       kTurboQuantK32 kFP16 Zero_kNone 32 False False False True True]"

definition find_descriptor :: "CanonicalQuantLayout \<Rightarrow> CanonicalQuantDescriptor option" where
  "find_descriptor l = find (\<lambda>d. d_layout d = l) kDescriptors"

definition valid_shape :: "int \<Rightarrow> int \<Rightarrow> bool" where
  "valid_shape rows columns =
     (if rows \<le> 0 \<or> columns \<le> 0 then False else rows \<le> SIZE_MAX div columns)"

definition canonical_quant_descriptor ::
  "CanonicalQuantLayout \<Rightarrow> CanonicalQuantDescriptor option \<Rightarrow> status \<times> CanonicalQuantDescriptor option" where
  "canonical_quant_descriptor l descriptor =
     (case descriptor of
        None \<Rightarrow> (kInvalidArgument, None)
      | Some d \<Rightarrow>
          (case find_descriptor l of
             None \<Rightarrow> (kUnsupportedFormat, Some d)
           | Some found \<Rightarrow> (kOk, Some found)))"

definition canonical_quant_layout_name :: "CanonicalQuantLayout \<Rightarrow> string" where
  "canonical_quant_layout_name l =
     (case find_descriptor l of None \<Rightarrow> ''unknown'' | Some d \<Rightarrow> d_name d)"

section \<open>Validation of the metadata\<close>

text \<open>\<^verbatim>\<open>size_t\<close> arithmetic, and the two predicates on a \<^verbatim>\<open>float\<close>.\<close>

definition usz :: "int \<Rightarrow> int" where "usz x = x mod 18446744073709551616"

definition f32_isfinite :: "f32 \<Rightarrow> bool" where
  "f32_isfinite x \<longleftrightarrow> x AND 0x7FFFFFFF < 0x7F800000"

definition f32_is_negative :: "f32 \<Rightarrow> bool" where
  "f32_is_negative x \<longleftrightarrow> 0x80000000 < x \<and> x \<le> 0xFF800000"

text \<open>The \<^verbatim>\<open>switch\<close> on the scale mode: an early return, or the expected number of scales.\<close>

definition expected_scales :: "QuantTensorMetadata \<Rightarrow> status + int" where
  "expected_scales m =
     (let rows = usz (logical_rows m); columns = usz (logical_columns m)
      in case scale_mode m of
           Scale_kNone \<Rightarrow> Inr 0
         | kTensor \<Rightarrow> Inr 1
         | kRow \<Rightarrow> Inr rows
         | kChannel \<Rightarrow> Inr rows
         | kGroup \<Rightarrow>
             if group_size m \<le> 0 then Inl kInvalidShape
             else Inr (usz (rows * (columns div usz (group_size m))))
         | kBlock \<Rightarrow> if scale_count m = 0 then Inl kInvalidShape else Inr (scale_count m)
         | kMicroscaleK32 \<Rightarrow> Inr (usz (rows * (columns div 32)))
         | kTurboQuantK32 \<Rightarrow> Inr (usz (rows * (columns div 32)))
         | kNVFP4K16 \<Rightarrow> Inr (usz (rows * (columns div 16))))"

text \<open>The checks before the \<^verbatim>\<open>switch\<close>, in order: \<open>Inl\<close> is an early return.\<close>

definition metadata_checks :: "CanonicalQuantDescriptor \<Rightarrow> QuantTensorMetadata \<Rightarrow> (status + unit) option" where
  "metadata_checks d m =
     (if contract_version m \<noteq> d_contract_version d \<or> \<not> valid_shape (logical_rows m) (logical_columns m)
      then Some (Inl kInvalidShape)
      else if \<not> f32_isfinite (global_scale m) \<or> f32_is_negative (global_scale m) \<or> scale_domain_rows m \<le> 0
      then Some (Inl kInvalidArgument)
      else if block_elements d \<noteq> 0 \<and> crem (logical_columns m) (block_elements d) \<noteq> 0
      then Some (Inl kInvalidShape)
      else if group_size m < 0 \<or> (group_size m > 0 \<and> crem (logical_columns m) (group_size m) \<noteq> 0)
      then Some (Inl kInvalidShape)
      else if act_order_count m \<noteq> 0 \<and> act_order_count m \<noteq> usz (logical_columns m)
      then Some (Inl kInvalidShape)
      else if group_index_count m \<noteq> 0 \<and> group_index_count m \<noteq> usz (logical_columns m)
      then Some (Inl kInvalidShape)
      else if group_index_count m \<noteq> 0 \<and> layout m \<noteq> kInt4Symmetric \<and> layout m \<noteq> kUInt4Affine
      then Some (Inl kInvalidArgument)
      else if act_order_count m \<noteq> 0 \<and> \<not> supports_act_order d
      then Some (Inl kInvalidArgument)
      else do {
        small \<leftarrow> (if sparse_mask_bytes m \<noteq> 0
                 then do { c \<leftarrow> i64 (logical_columns m + 7);
                           Some (sparse_mask_bytes m < usz (cdiv c 8)) }
                 else Some False);
        if small then Some (Inl kInvalidShape)
        else if sparse_mask_bytes m \<noteq> 0 \<and> \<not> supports_sparse_mask d then Some (Inl kInvalidArgument)
        else if requires_centroid_table d \<and>
                (value_bits m < 2 \<or> value_bits m > 8 \<or> centroid_count m \<noteq> 2 ^ nat (value_bits m))
        then Some (Inl kInvalidShape)
        else if \<not> requires_centroid_table d \<and> centroid_count m \<noteq> 0 then Some (Inl kInvalidArgument)
        else
          let bits = (if layout m = kTurboQuantKey then key_bits m else value_bits m)
          in if is_cache_layout d \<and>
                (bits < 2 \<or> bits > 8 \<or>
                 (logical_columns m \<noteq> 64 \<and> logical_columns m \<noteq> 128 \<and> logical_columns m \<noteq> 256))
             then Some (Inl kInvalidShape)
             else if scale_2d m \<and> (layout m \<noteq> kNVFP4E2M1E4M3 \<or> scale_domain_rows m > 16)
             then Some (Inl kInvalidArgument)
             else if has_global_scale d \<and> scale_mode m \<noteq> kNVFP4K16 then Some (Inl kInvalidArgument)
             else Some (Inr ())
      })"

definition validate_quant_metadata :: "QuantTensorMetadata \<Rightarrow> status option" where
  "validate_quant_metadata m =
     (case find_descriptor (layout m) of
        None \<Rightarrow> Some kUnsupportedFormat
      | Some d \<Rightarrow>
          (case metadata_checks d m of
             None \<Rightarrow> None
           | Some (Inl st) \<Rightarrow> Some st
           | Some (Inr _) \<Rightarrow>
               (case expected_scales m of
                  Inl st \<Rightarrow> Some st
                | Inr expected \<Rightarrow>
                    if scale_count m \<noteq> expected then Some kInvalidShape
                    else if (scale_mode m = Scale_kNone) \<noteq> (scale_encoding m = Enc_kNone)
                    then Some kInvalidArgument
                    else if zero_point_count m \<noteq> (if zero_point_mode m = Zero_kNone then 0 else expected)
                    then Some kInvalidShape
                    else Some kOk)))"

section \<open>The table is complete and consistent\<close>

lemmas descriptor_table = find_descriptor_def kDescriptors_def CanonicalQuantDescriptor.make_def

lemma find_descriptor_Some: "\<exists>d. find_descriptor l = Some d \<and> d_layout d = l \<and> d_contract_version d = 1"
  by (cases l) (simp_all add: descriptor_table)

lemma find_by_name: "find (\<lambda>d. d_name d = canonical_quant_layout_name l) kDescriptors = find_descriptor l"
  by (cases l) (simp_all add: canonical_quant_layout_name_def descriptor_table)

lemma layout_name_injective: "canonical_quant_layout_name l = canonical_quant_layout_name l' \<longleftrightarrow> l = l'"
proof
  assume "canonical_quant_layout_name l = canonical_quant_layout_name l'"
  then have "find_descriptor l = find_descriptor l'" using find_by_name [of l] find_by_name [of l'] by simp
  then show "l = l'" using find_descriptor_Some [of l] find_descriptor_Some [of l'] by auto
qed simp

lemma descriptor_block_bytes:
  "find_descriptor l = Some d \<Longrightarrow> packed_block_bytes d \<noteq> 0 \<Longrightarrow>
    0 < block_elements d \<and> packed_block_bytes d * 8 \<ge> block_elements d * element_bits d"
  by (cases l) (auto simp: descriptor_table)

section \<open>What validated metadata guarantees\<close>

lemma usz_id: "0 \<le> x \<Longrightarrow> x \<le> SIZE_MAX \<Longrightarrow> usz x = x"
  by (simp add: usz_def SIZE_MAX_def)

lemma valid_shape_iff:
  "valid_shape rows columns \<longleftrightarrow> 0 < rows \<and> 0 < columns \<and> rows * columns \<le> SIZE_MAX"
  by (auto simp: valid_shape_def le_div_iff)

lemma usz_mult_div:
  assumes "0 < rows" "0 < columns" "rows * columns \<le> SIZE_MAX" "0 < g"
  shows "usz (rows * (columns div g)) = rows * (columns div g)"
proof (rule usz_id)
  have "columns div g \<le> columns" using zdiv_mono2 [of columns 1 g] assms by simp
  then have "rows * (columns div g) \<le> rows * columns" using assms by simp
  with assms(3) show "rows * (columns div g) \<le> SIZE_MAX" by simp
  show "0 \<le> rows * (columns div g)" using assms by (simp add: pos_imp_zdiv_nonneg_iff)
qed

lemma one_le_both: "0 < (a :: int) \<Longrightarrow> 0 < b \<Longrightarrow> a * b \<le> c \<Longrightarrow> a \<le> c \<and> b \<le> c"
  by (metis dual_order.trans mult.commute mult_le_cancel_left1 order_less_le zless_imp_add1_zle add_0)


text \<open>
  The declarative reading: what a tensor's metadata must satisfy, with exact products and divisibility.
\<close>

definition scale_units :: "QuantTensorMetadata \<Rightarrow> int" where
  "scale_units m =
     (case scale_mode m of
        Scale_kNone \<Rightarrow> 0
      | kTensor \<Rightarrow> 1
      | kRow \<Rightarrow> logical_rows m
      | kChannel \<Rightarrow> logical_rows m
      | kGroup \<Rightarrow> logical_rows m * (logical_columns m div group_size m)
      | kBlock \<Rightarrow> scale_count m
      | kMicroscaleK32 \<Rightarrow> logical_rows m * (logical_columns m div 32)
      | kTurboQuantK32 \<Rightarrow> logical_rows m * (logical_columns m div 32)
      | kNVFP4K16 \<Rightarrow> logical_rows m * (logical_columns m div 16))"

definition shape_consistent :: "CanonicalQuantDescriptor \<Rightarrow> QuantTensorMetadata \<Rightarrow> bool" where
  "shape_consistent d m \<longleftrightarrow>
     contract_version m = 1 \<and> 0 < logical_rows m \<and> 0 < logical_columns m \<and>
     logical_rows m * logical_columns m \<le> SIZE_MAX \<and>
     (block_elements d \<noteq> 0 \<longrightarrow> block_elements d dvd logical_columns m) \<and>
     0 \<le> group_size m \<and> (group_size m \<noteq> 0 \<longrightarrow> group_size m dvd logical_columns m)"

definition extras_consistent :: "CanonicalQuantDescriptor \<Rightarrow> QuantTensorMetadata \<Rightarrow> bool" where
  "extras_consistent d m \<longleftrightarrow>
     f32_isfinite (global_scale m) \<and> \<not> f32_is_negative (global_scale m) \<and> 0 < scale_domain_rows m \<and>
     (act_order_count m = 0 \<or> act_order_count m = logical_columns m \<and> supports_act_order d) \<and>
     (group_index_count m = 0 \<or>
        group_index_count m = logical_columns m \<and> layout m \<in> {kInt4Symmetric, kUInt4Affine}) \<and>
     (sparse_mask_bytes m = 0 \<or> logical_columns m \<le> 8 * sparse_mask_bytes m \<and> supports_sparse_mask d) \<and>
     (if requires_centroid_table d
      then 2 \<le> value_bits m \<and> value_bits m \<le> 8 \<and> centroid_count m = 2 ^ nat (value_bits m)
      else centroid_count m = 0) \<and>
     (is_cache_layout d \<longrightarrow>
        logical_columns m \<in> {64, 128, 256} \<and>
        (let bits = (if layout m = kTurboQuantKey then key_bits m else value_bits m)
         in 2 \<le> bits \<and> bits \<le> 8)) \<and>
     (scale_2d m \<longrightarrow> layout m = kNVFP4E2M1E4M3 \<and> scale_domain_rows m \<le> 16) \<and>
     (has_global_scale d \<longrightarrow> scale_mode m = kNVFP4K16)"

definition scales_consistent :: "QuantTensorMetadata \<Rightarrow> bool" where
  "scales_consistent m \<longleftrightarrow>
     scale_count m = scale_units m \<and> (scale_mode m = kGroup \<longrightarrow> group_size m \<noteq> 0) \<and>
     (scale_mode m = kBlock \<longrightarrow> scale_count m \<noteq> 0) \<and>
     (scale_mode m = Scale_kNone \<longleftrightarrow> scale_encoding m = Enc_kNone) \<and>
     zero_point_count m = (if zero_point_mode m = Zero_kNone then 0 else scale_units m)"

definition metadata_consistent :: "QuantTensorMetadata \<Rightarrow> bool" where
  "metadata_consistent m \<longleftrightarrow>
     (case find_descriptor (layout m) of
        None \<Rightarrow> False
      | Some d \<Rightarrow> shape_consistent d m \<and> extras_consistent d m \<and> scales_consistent m)"

lemma guard_iff:
  "((if c then Some (Inl st) else e) = Some (Inr u)) = (\<not> c \<and> e = Some (Inr u))"
  by simp

lemma guard_kOk:
  "st \<noteq> kOk \<Longrightarrow> ((if c then Some (Inl st) else e) = Some (Inl kOk)) = (\<not> c \<and> e = Some (Inl kOk))"
  by simp

lemma metadata_checks_not_kOk: "metadata_checks d m \<noteq> Some (Inl kOk)"
proof -
  have "(metadata_checks d m = Some (Inl kOk)) = False"
    unfolding metadata_checks_def Let_def by (simp only: guard_kOk status.distinct not_False_eq_True
      bind_eq_Some_conv sum.distinct option.inject simp_thms)
  then show ?thesis by simp
qed

text \<open>The negated guards, one by one.\<close>

lemma metadata_guards:
  "\<not> (a \<noteq> a' \<or> \<not> b) \<longleftrightarrow> a = a' \<and> b"
  "\<not> (\<not> b \<or> b' \<or> n \<le> (0 :: int)) \<longleftrightarrow> b \<and> \<not> b' \<and> 0 < n"
  "\<not> (n \<noteq> 0 \<and> crem c n \<noteq> 0) \<longleftrightarrow> (n \<noteq> 0 \<longrightarrow> n dvd c)"
  "\<not> (n < 0 \<or> (n > 0 \<and> crem c n \<noteq> 0)) \<longleftrightarrow> 0 \<le> n \<and> (n \<noteq> 0 \<longrightarrow> n dvd c)"
  "\<not> (n \<noteq> 0 \<and> n \<noteq> c) \<longleftrightarrow> n = 0 \<or> n = c"
  "\<not> (b \<and> (n < 2 \<or> n > 8 \<or> c \<noteq> c')) \<longleftrightarrow> (b \<longrightarrow> 2 \<le> n \<and> n \<le> 8 \<and> c = c')"
  "\<not> (\<not> b \<and> n \<noteq> 0) \<longleftrightarrow> (\<not> b \<longrightarrow> n = 0)"
  using crem_eq_0_iff [of n c] by auto

lemma crem_guard: "(n \<noteq> 0 \<longrightarrow> crem c n = 0) \<longleftrightarrow> (n \<noteq> 0 \<longrightarrow> n dvd c)"
  using crem_eq_0_iff [of n c] by auto

lemma cache_guard:
  "\<not> (b \<and> (n < 2 \<or> n > 8 \<or> (c \<noteq> 64 \<and> c \<noteq> 128 \<and> c \<noteq> (256 :: int)))) \<longleftrightarrow>
    (b \<longrightarrow> c \<in> {64, 128, 256} \<and> 2 \<le> n \<and> n \<le> (8 :: int))"
  by auto

lemma sparse_guard:
  assumes "is_llong (c + 7)" "0 \<le> c"
  shows "(do { x \<leftarrow> (if s \<noteq> 0 then do { y \<leftarrow> i64 (c + 7); Some (s < usz (cdiv y 8)) } else Some False);
      if x then Some (Inl st) else e } = Some (Inr u)) = ((s = 0 \<or> c \<le> 8 * s) \<and> e = Some (Inr u))"
proof -
  have d: "0 \<le> (c + 7) div 8" "(c + 7) div 8 \<le> SIZE_MAX"
    using assms by (auto simp: is_llong_def LLONG_MAX_def SIZE_MAX_def)
  have "s < (c + 7) div 8 \<longleftrightarrow> \<not> c \<le> 8 * s" by linarith
  then show ?thesis using assms d by (simp add: i64_def usz_id)
qed

lemma metadata_checks_iff:
  assumes "is_llong (logical_columns m + 7)" "d_contract_version d = 1"
  shows "metadata_checks d m = Some (Inr ()) \<longleftrightarrow> shape_consistent d m \<and> extras_consistent d m"
proof (cases "0 < logical_columns m \<and> logical_columns m \<le> SIZE_MAX")
  case True
  then have u: "usz (logical_columns m) = logical_columns m" by (simp add: usz_id)
  have c: "0 \<le> logical_columns m" using True by simp
  show ?thesis
    unfolding metadata_checks_def Let_def guard_iff sparse_guard [OF assms(1) c] u assms(2) valid_shape_iff
      shape_consistent_def extras_consistent_def
      metadata_guards cache_guard if_bool_eq_conj simp_thms insert_iff empty_iff
    unfolding crem_guard linorder_not_le [symmetric] by satx
next
  case False
  then have "\<not> valid_shape (logical_rows m) (logical_columns m)" "\<not> shape_consistent d m"
    using one_le_both [of "logical_rows m" "logical_columns m" SIZE_MAX]
    by (auto simp: valid_shape_iff shape_consistent_def)
  then show ?thesis by (simp add: metadata_checks_def)
qed

lemma expected_scales_iff:
  assumes "shape_consistent d m"
  shows "expected_scales m = Inr e \<longleftrightarrow>
    e = scale_units m \<and> (scale_mode m = kGroup \<longrightarrow> group_size m \<noteq> 0) \<and>
    (scale_mode m = kBlock \<longrightarrow> scale_count m \<noteq> 0)"
proof -
  have s: "0 < logical_rows m" "0 < logical_columns m" "logical_rows m * logical_columns m \<le> SIZE_MAX"
    and g: "0 \<le> group_size m" "group_size m \<noteq> 0 \<longrightarrow> group_size m dvd logical_columns m"
    using assms by (simp_all add: shape_consistent_def)
  have u: "usz (logical_rows m) = logical_rows m" "usz (logical_columns m) = logical_columns m"
    using one_le_both [OF s] s by (auto intro!: usz_id)
  have ug: "usz (group_size m) = group_size m" if "group_size m \<noteq> 0"
  proof (rule usz_id)
    have "group_size m \<le> logical_columns m" using g that s by (auto intro: zdvd_imp_le)
    then show "group_size m \<le> SIZE_MAX" using one_le_both [OF s] by simp
  qed (use g in simp)
  show ?thesis
    using u ug g usz_mult_div [OF s]
    by (cases "scale_mode m") (auto simp: expected_scales_def scale_units_def Let_def)
qed

lemma validate_quant_metadata_iff:
  assumes "is_llong (logical_columns m + 7)"
  shows "validate_quant_metadata m = Some kOk \<longleftrightarrow> metadata_consistent m"
proof -
  obtain d where d: "find_descriptor (layout m) = Some d" "d_contract_version d = 1"
    using find_descriptor_Some [of "layout m"] by blast
  show ?thesis
  proof (cases "metadata_checks d m = Some (Inr ())")
    case True
    then have c: "shape_consistent d m" "extras_consistent d m"
      using metadata_checks_iff [OF assms d(2)] by simp_all
    show ?thesis
    proof (cases "expected_scales m")
      case (Inl st)
      then have "\<not> scales_consistent m"
        using expected_scales_iff [OF c(1), of "scale_units m"] by (auto simp: scales_consistent_def)
      moreover have "st \<noteq> kOk" using Inl
        by (auto simp: expected_scales_def Let_def split: QuantScaleMode.splits if_splits)
      ultimately show ?thesis
        using True Inl d(1) by (simp add: validate_quant_metadata_def metadata_consistent_def)
    next
      case (Inr e)
      then show ?thesis
        using True d(1) c expected_scales_iff [OF c(1), of e]
        by (auto simp: validate_quant_metadata_def metadata_consistent_def scales_consistent_def)
    qed
  next
    case False
    then have "\<not> (shape_consistent d m \<and> extras_consistent d m)"
      using metadata_checks_iff [OF assms d(2)] by simp
    moreover note metadata_checks_not_kOk
    ultimately show ?thesis using False d(1)
      by (auto simp: validate_quant_metadata_def metadata_consistent_def split: option.splits sum.splits)
  qed
qed

text \<open>
  C13: the validator accepts exactly the consistent metadata: the early returns, the truncating
  remainders and the wrapping \<^verbatim>\<open>size_t\<close> products decide divisibility and exact counts.
\<close>

theorem validate_quant_metadata_iff_consistent:
  assumes "is_llong (logical_columns m + 7)"
  shows "validate_quant_metadata m = Some kOk \<longleftrightarrow> metadata_consistent m"
  using assms by (rule validate_quant_metadata_iff)

text \<open>
  Without the bound, the rounding \<^verbatim>\<open>(logical_columns + 7) / 8\<close> of the sparse-mask check overflows: a
  tensor with as many columns as a \<^verbatim>\<open>long long\<close> can hold reaches it before the layout is found not to
  support a mask.
\<close>

lemma validate_quant_metadata_overflow:
  "validate_quant_metadata (default_metadata\<lparr>logical_rows := 1, logical_columns := LLONG_MAX, sparse_mask_bytes := 1\<rparr>)
     = None"
  by (simp add: validate_quant_metadata_def metadata_checks_def default_metadata_def descriptor_table
      valid_shape_def f32_isfinite_def f32_is_negative_def i64_def is_llong_def int_limits)

text \<open>A 2 by 64 int4 tensor with groups of 32.\<close>

definition demo_metadata :: QuantTensorMetadata where
  "demo_metadata = default_metadata\<lparr>logical_rows := 2, logical_columns := 64, group_size := 32,
     scale_mode := kGroup, scale_encoding := kFP32, scale_count := 4\<rparr>"

theorem validate_quant_metadata_iff_consistent_witness:
  "validate_quant_metadata demo_metadata = Some kOk \<longleftrightarrow> metadata_consistent demo_metadata"
  by (rule validate_quant_metadata_iff_consistent)
    (simp add: demo_metadata_def default_metadata_def is_llong_def int_limits)

lemma demo_metadata_valid: "metadata_consistent demo_metadata"
  by (simp add: metadata_consistent_def demo_metadata_def default_metadata_def descriptor_table
      shape_consistent_def extras_consistent_def scales_consistent_def scale_units_def
      f32_isfinite_def f32_is_negative_def int_limits)

end
