(* ===== verification/QuantImport.thy ===== *)
theory QuantImport
  imports QuantContract Fp16
begin

text \<open>
  \<^verbatim>\<open>include/quixicore_cpu/quant_import.h\<close> and the parts of \<^verbatim>\<open>kernels/quantization/quant_import_ref.cpp\<close>
  that move codes about: the canonical quantized tensor, its validation, and the importers of AWQ, GPTQ,
  AutoRound, SmoothQuant and BitNet checkpoints. A vector is a list. A vector operation that throws
  (\<^verbatim>\<open>std::bad_alloc\<close>, \<^verbatim>\<open>std::length_error\<close>) is the flag \<open>throws\<close> of the importers, which catch it.
\<close>

unbundle bit_operations_syntax

section \<open>The tensor\<close>

datatype QuantImportProvenance = kCanonical | kAWQ | kGPTQ | kAutoRound | kSmoothQuant | kBitNet

record CanonicalQuantTensor =
  metadata :: QuantTensorMetadata
  tdata :: "u8 list"
  scale_codes :: "u8 list"
  scales :: "f32 list"
  zero_points :: "f32 list"
  activation_scales :: "f32 list"
  activation_zero_points :: "int list"
  group_index :: "int list"
  act_order :: "int list"
  row_sums :: "int list"
  provenance :: QuantImportProvenance

definition default_tensor :: CanonicalQuantTensor where
  "default_tensor = \<lparr>metadata = default_metadata, tdata = [], scale_codes = [], scales = [],
     zero_points = [], activation_scales = [], activation_zero_points = [], group_index = [],
     act_order = [], row_sums = [], provenance = kCanonical\<rparr>"

definition quant_import_provenance_name :: "QuantImportProvenance \<Rightarrow> string" where
  "quant_import_provenance_name p =
     (case p of
        kCanonical \<Rightarrow> ''canonical'' | kAWQ \<Rightarrow> ''awq'' | kGPTQ \<Rightarrow> ''gptq''
      | kAutoRound \<Rightarrow> ''autoround'' | kSmoothQuant \<Rightarrow> ''smoothquant'' | kBitNet \<Rightarrow> ''bitnet'')"

section \<open>Helpers\<close>

definition kAwqReverseOrder :: "int list" where
  "kAwqReverseOrder = [0, 4, 1, 5, 2, 6, 3, 7]"

definition checked_product :: "int \<Rightarrow> int \<Rightarrow> int option" where
  "checked_product lhs rhs =
     (if lhs \<le> 0 \<or> rhs \<le> 0 then None else if lhs > SIZE_MAX div rhs then None else Some (lhs * rhs))"

definition checked_mul :: "int \<Rightarrow> int \<Rightarrow> int option" where
  "checked_mul lhs rhs =
     (if lhs \<noteq> 0 \<and> rhs > SIZE_MAX div lhs then None else Some (usz (lhs * rhs)))"

definition finite_values :: "f32 ptr \<Rightarrow> int \<Rightarrow> bool option" where
  "finite_values values n =
     (if n = 0 then Some True
      else case values of
             None \<Rightarrow> Some False
           | Some vs \<Rightarrow>
               if list_all f32_isfinite (take (nat n) vs)
               then (if n \<le> int (length vs) then Some True else None) else Some False)"

definition finite_vector :: "f32 list \<Rightarrow> bool" where
  "finite_vector vs \<longleftrightarrow> list_all f32_isfinite vs"

definition finite_nonnegative_vector :: "f32 list \<Rightarrow> bool" where
  "finite_nonnegative_vector vs \<longleftrightarrow> finite_vector vs \<and> list_all (\<lambda>v. \<not> f32_is_negative v) vs"

definition nibble_at :: "u8 list \<Rightarrow> int \<Rightarrow> u8 option" where
  "nibble_at bytes element =
     do { b \<leftarrow> rd bytes (element div 2); Some (drop_bit (nat (4 * (element mod 2))) b AND 0x0F) }"

definition put_nibble :: "u8 list \<Rightarrow> int \<Rightarrow> u8 \<Rightarrow> u8 list option" where
  "put_nibble bytes element code =
     (let shift = nat (4 * (element mod 2)); mask = push_bit shift (0x0F :: u8)
      in do { b \<leftarrow> rd bytes (element div 2);
              wr bytes (element div 2) ((b AND NOT mask) OR push_bit shift (code AND 0x0F)) })"

definition expected_data_bytes :: "QuantTensorMetadata \<Rightarrow> status + int" where
  "expected_data_bytes m =
     (let blocks = (\<lambda>elements n. case checked_mul (elements div 32) n of
                       None \<Rightarrow> Inl kInvalidShape | Some b \<Rightarrow> Inr b)
      in case checked_product (logical_rows m) (logical_columns m) of
           None \<Rightarrow> Inl kInvalidShape
         | Some elements \<Rightarrow>
             (case layout m of
                kInt4Symmetric \<Rightarrow> if odd (logical_columns m) then Inl kInvalidShape else Inr (elements div 2)
              | kUInt4Affine \<Rightarrow> if odd (logical_columns m) then Inl kInvalidShape else Inr (elements div 2)
              | kFP4E2M1 \<Rightarrow> if odd (logical_columns m) then Inl kInvalidShape else Inr (elements div 2)
              | kInt8Symmetric \<Rightarrow> Inr elements
              | kInt8Affine \<Rightarrow> Inr elements
              | kFP8E4M3FN \<Rightarrow> Inr elements
              | kFP8E5M2 \<Rightarrow> Inr elements
              | kMXFP8E4M3E8M0 \<Rightarrow> blocks elements 33
              | kMXFP4E2M1E8M0 \<Rightarrow> blocks elements 17
              | kNVFP4E2M1E4M3 \<Rightarrow> Inr (elements div 2)
              | kBitNetTernary \<Rightarrow> blocks elements 10
              | kTurboQuantKey \<Rightarrow> Inl kUnsupportedFormat
              | kTurboQuantValue \<Rightarrow> Inl kUnsupportedFormat))"

text \<open>The scan of \<^verbatim>\<open>valid_permutation\<close> with its \<open>seen\<close> vector.\<close>

fun permutation_scan :: "int \<Rightarrow> bool list \<Rightarrow> int list \<Rightarrow> bool" where
  "permutation_scan n seen [] = True"
| "permutation_scan n seen (v # vs) =
     (if v < 0 \<or> v \<ge> n \<or> seen ! nat v then False else permutation_scan n (seen[nat v := True]) vs)"

definition valid_permutation :: "int list \<Rightarrow> int \<Rightarrow> bool" where
  "valid_permutation order n =
     (if order = [] then True
      else if int (length order) \<noteq> n then False
      else permutation_scan n (replicate (nat n) False) order)"

definition initialize_metadata :: "CanonicalQuantLayout \<Rightarrow> int \<Rightarrow> int \<Rightarrow> int \<Rightarrow> CanonicalQuantTensor" where
  "initialize_metadata l rows columns g =
     default_tensor\<lparr>metadata := default_metadata\<lparr>layout := l, logical_rows := rows,
       logical_columns := columns, group_size := g\<rparr>, provenance := kCanonical\<rparr>"

section \<open>Validation of a tensor\<close>

definition scale_mode_allowed :: "QuantTensorMetadata \<Rightarrow> bool" where
  "scale_mode_allowed m =
     (let mode = scale_mode m; encoding = scale_encoding m
      in case layout m of
           kInt4Symmetric \<Rightarrow> (mode = kRow \<or> mode = kChannel \<or> mode = kGroup) \<and> encoding = kFP32
         | kUInt4Affine \<Rightarrow> (mode = kRow \<or> mode = kChannel \<or> mode = kGroup) \<and> encoding = kFP32
         | kInt8Symmetric \<Rightarrow> (mode = kRow \<or> mode = kChannel \<or> mode = kGroup) \<and> encoding = kFP32
         | kInt8Affine \<Rightarrow> (mode = kRow \<or> mode = kChannel \<or> mode = kGroup) \<and> encoding = kFP32
         | kFP8E4M3FN \<Rightarrow> mode = Scale_kNone \<or>
             encoding = kFP32 \<and> (mode = kTensor \<or> mode = kRow \<or> mode = kChannel \<or> mode = kGroup \<or> mode = kBlock)
         | kFP8E5M2 \<Rightarrow> mode = Scale_kNone \<or>
             encoding = kFP32 \<and> (mode = kTensor \<or> mode = kRow \<or> mode = kChannel \<or> mode = kGroup \<or> mode = kBlock)
         | kFP4E2M1 \<Rightarrow> (encoding = kFP16 \<or> encoding = kFP32) \<and>
             (mode = kTensor \<or> mode = kRow \<or> mode = kChannel \<or> mode = kGroup \<or> mode = kBlock)
         | kMXFP8E4M3E8M0 \<Rightarrow> mode = kMicroscaleK32 \<and> encoding = kE8M0
         | kMXFP4E2M1E8M0 \<Rightarrow> mode = kMicroscaleK32 \<and> encoding = kE8M0
         | kNVFP4E2M1E4M3 \<Rightarrow> mode = kNVFP4K16 \<and> encoding = kE4M3FN
         | kBitNetTernary \<Rightarrow> mode = kBlock \<and> encoding = kFP16
         | kTurboQuantKey \<Rightarrow> True
         | kTurboQuantValue \<Rightarrow> True)"

definition scale_tables_match :: "CanonicalQuantTensor \<Rightarrow> bool" where
  "scale_tables_match t =
     (let m = metadata t
      in if layout m \<in> {kMXFP8E4M3E8M0, kMXFP4E2M1E8M0, kBitNetTernary}
         then scales t = [] \<and> scale_codes t = []
         else if layout m = kNVFP4E2M1E4M3
         then scales t = [] \<and> int (length (scale_codes t)) = scale_count m
         else int (length (scales t)) = scale_count m \<and> scale_codes t = [])"

text \<open>The four scans over the encoded blocks, one per layout with reserved codes.\<close>

definition block_starts :: "u8 list \<Rightarrow> nat \<Rightarrow> nat list" where
  "block_starts xs width = map (\<lambda>b. b * width) [0..<(length xs + width - 1) div width]"

definition bitnet_block_ok :: "u8 list \<Rightarrow> nat \<Rightarrow> bool option" where
  "bitnet_block_ok xs block =
     do { lo \<leftarrow> rd xs (int block);
          hi \<leftarrow> rd xs (int block + 1);
          scale \<leftarrow> f16_to_float (ucast lo OR push_bit 8 (ucast hi));
          if \<not> f32_isfinite scale \<or> f32_is_negative scale then Some False
          else if in_range xs (int block + 2) 8
          then Some (list_all (\<lambda>byte. list_all (\<lambda>lane. drop_bit (2 * lane) (xs ! (block + 2 + byte)) AND 3 \<noteq> 3)
                 [0..<4]) [0..<8])
          else None }"

fun all_blocks :: "(nat \<Rightarrow> bool option) \<Rightarrow> nat list \<Rightarrow> bool option" where
  "all_blocks f [] = Some True"
| "all_blocks f (b # bs) = do { good \<leftarrow> f b; if good then all_blocks f bs else Some False }"

definition codes_allowed :: "CanonicalQuantTensor \<Rightarrow> bool option" where
  "codes_allowed t =
     (case layout (metadata t) of
        kMXFP8E4M3E8M0 \<Rightarrow> Some (list_all (\<lambda>b. tdata t ! b \<noteq> 0xFF) (block_starts (tdata t) 33))
      | kMXFP4E2M1E8M0 \<Rightarrow> Some (list_all (\<lambda>b. tdata t ! b \<noteq> 0xFF) (block_starts (tdata t) 17))
      | kNVFP4E2M1E4M3 \<Rightarrow> Some (list_all (\<lambda>c. c \<le> 0x7E) (scale_codes t))
      | kBitNetTernary \<Rightarrow> all_blocks (bitnet_block_ok (tdata t)) (block_starts (tdata t) 10)
      | _ \<Rightarrow> Some True)"

definition validate_canonical_quant_tensor :: "CanonicalQuantTensor \<Rightarrow> status option" where
  "validate_canonical_quant_tensor t =
     (let m = metadata t
      in do {
        st \<leftarrow> validate_quant_metadata m;
        if st \<noteq> kOk then Some st
        else if \<not> scale_mode_allowed m then Some kInvalidArgument
        else case expected_data_bytes m of
          Inl st \<Rightarrow> Some st
        | Inr bytes \<Rightarrow>
            if int (length (tdata t)) \<noteq> bytes then Some kInvalidShape
            else if \<not> scale_tables_match t then Some kInvalidShape
            else if int (length (zero_points t)) \<noteq> zero_point_count m \<or> int (length (group_index t)) \<noteq> group_index_count m \<or>
                    int (length (act_order t)) \<noteq> act_order_count m \<or>
                    \<not> finite_nonnegative_vector (scales t) \<or> \<not> finite_vector (zero_points t) \<or>
                    \<not> finite_vector (activation_scales t)
            then Some kInvalidShape
            else if \<not> valid_permutation (act_order t) (logical_columns m) then Some kInvalidArgument
            else if group_index t \<noteq> [] \<and>
                    \<not> list_all (\<lambda>g. 0 \<le> g \<and> g < scale_count m div logical_rows m) (group_index t)
            then Some kInvalidArgument
            else if activation_zero_points t \<noteq> [] \<and>
                    length (activation_zero_points t) \<noteq> length (activation_scales t)
            then Some kInvalidShape
            else if row_sums t \<noteq> [] \<and> int (length (row_sums t)) \<noteq> logical_rows m
            then Some kInvalidShape
            else do { good \<leftarrow> codes_allowed t; Some (if good then kOk else kInvalidArgument) }
      })"


section \<open>AWQ\<close>

record AwqU4Source =
  aw_qweight :: "u32 ptr"
  aw_qweight_words :: int
  aw_qzeros :: "u32 ptr"
  aw_qzero_words :: int
  aw_scales :: "f32 ptr"
  aw_scale_count :: int
  aw_input_features :: int
  aw_output_features :: int
  aw_group_size :: int

text \<open>A 4-bit lane of a packed word, and an integer as a \<^verbatim>\<open>float\<close>.\<close>

definition word_lane :: "u32 \<Rightarrow> int \<Rightarrow> u8" where
  "word_lane w lane = ucast (drop_bit (nat (4 * lane)) w AND 0x0F)"

definition float_of_code :: "u8 \<Rightarrow> f32" where
  "float_of_code c = word_of_nat (round_mag 23 8 (unat c) 0)"

text \<open>The codes of one output feature, then its scales and zero points.\<close>

definition awq_codes :: "u32 list \<Rightarrow> int \<Rightarrow> int \<Rightarrow> int \<Rightarrow> u8 list \<Rightarrow> u8 list flow option" where
  "awq_codes qweight n k output d =
     for_loop 0 k (\<lambda>input d. thru (do {
       word \<leftarrow> rd qweight (usz (input * (n div 8) + output div 8));
       put_nibble d (usz (output * k + input)) (word_lane word (kAwqReverseOrder ! nat (output mod 8))) })) d"

definition awq_scales :: "u32 list \<Rightarrow> f32 list \<Rightarrow> int \<Rightarrow> int \<Rightarrow> int \<Rightarrow> f32 list \<times> f32 list \<Rightarrow>
    (f32 list \<times> f32 list) flow option" where
  "awq_scales qzeros src n groups output sz =
     for_loop 0 groups (\<lambda>group (s, z). thru (do {
       word \<leftarrow> rd qzeros (usz (group * (n div 8) + output div 8));
       v \<leftarrow> rd src (usz (group * n + output));
       s' \<leftarrow> wr s (usz (output * groups + group)) v;
       z' \<leftarrow> wr z (usz (output * groups + group))
              (float_of_code (word_lane word (kAwqReverseOrder ! nat (output mod 8))));
       Some (s', z') })) sz"

definition awq_unpack :: "u32 list \<Rightarrow> u32 list \<Rightarrow> f32 list \<Rightarrow> int \<Rightarrow> int \<Rightarrow> int \<Rightarrow>
    u8 list \<times> f32 list \<times> f32 list \<Rightarrow> (u8 list \<times> f32 list \<times> f32 list) flow option" where
  "awq_unpack qweight qzeros src n k groups t =
     for_loop 0 n (\<lambda>output (d, s, z).
       andthen (awq_codes qweight n k output d) (\<lambda>d. (d, s, z))
         (\<lambda>d. andthen (awq_scales qzeros src n groups output (s, z)) (\<lambda>(s, z). (d, s, z))
           (\<lambda>(s, z). Some (Next (d, s, z))))) t"

text \<open>The end of every importer: validate the candidate, and only then replace the output.\<close>

definition commit :: "CanonicalQuantTensor \<Rightarrow> CanonicalQuantTensor \<Rightarrow> (status \<times> CanonicalQuantTensor option) option" where
  "commit candidate old =
     do { st \<leftarrow> validate_canonical_quant_tensor candidate;
          Some (if st \<noteq> kOk then (st, Some old) else (kOk, Some candidate)) }"

definition import_awq_u4 ::
  "bool \<Rightarrow> AwqU4Source \<Rightarrow> CanonicalQuantTensor option \<Rightarrow> (status \<times> CanonicalQuantTensor option) option" where
  "import_awq_u4 throws src tensor =
     (case (tensor, aw_qweight src, aw_qzeros src, aw_scales src) of
        (Some old, Some qweight, Some qzeros, Some srcs) \<Rightarrow>
          if aw_input_features src \<le> 0 \<or> aw_output_features src \<le> 0 \<or> aw_group_size src \<le> 0 \<or>
             crem (aw_input_features src) (aw_group_size src) \<noteq> 0 \<or>
             crem (aw_output_features src) 8 \<noteq> 0 \<or> crem (aw_input_features src) 2 \<noteq> 0
          then Some (kInvalidArgument, tensor)
          else
            let k = aw_input_features src; n = aw_output_features src; groups = k div aw_group_size src
            in if aw_qweight_words src \<noteq> usz (k * (n div 8)) \<or> aw_qzero_words src \<noteq> usz (groups * (n div 8)) \<or>
                  aw_scale_count src \<noteq> usz (groups * n)
               then Some (kInvalidShape, tensor)
               else do {
                 fin \<leftarrow> finite_values (aw_scales src) (aw_scale_count src);
                 if \<not> fin then Some (kInvalidShape, tensor)
                 else if throws then Some (kOutOfMemory, tensor)
                 else
                   let c = (initialize_metadata kUInt4Affine n k (aw_group_size src))\<lparr>provenance := kAWQ\<rparr>;
                       d0 = replicate (nat (usz (n * k) div 2)) 0;
                       s0 = replicate (nat (usz (n * groups))) 0
                   in do {
                     (st, (d, s, z)) \<leftarrow> finish (awq_unpack qweight qzeros srcs n k groups (d0, s0, s0));
                     commit (c\<lparr>tdata := d, scales := s, zero_points := z,
                       metadata := (metadata c)\<lparr>scale_mode := kGroup, scale_encoding := kFP32,
                         zero_point_mode := kFractional, scale_count := int (length s),
                         zero_point_count := int (length z)\<rparr>\<rparr>) old } }
      | _ \<Rightarrow> Some (kInvalidArgument, tensor))"

section \<open>GPTQ\<close>

record GptqU4Source =
  gp_qweight :: "u32 ptr"
  gp_qweight_words :: int
  gp_qzeros :: "u32 ptr"
  gp_qzero_words :: int
  gp_scales :: "f32 ptr"
  gp_scale_count :: int
  gp_group_index :: "int ptr"
  gp_group_index_count :: int
  gp_act_order :: "int ptr"
  gp_act_order_count :: int
  gp_input_features :: int
  gp_output_features :: int
  gp_group_size :: int
  gp_symmetric :: bool
  gp_v2 :: bool

text \<open>The zero point of a packed word: version 1 stores it less one.\<close>

definition gptq_zero :: "bool \<Rightarrow> u32 \<Rightarrow> int \<Rightarrow> int" where
  "gptq_zero v2 w lane =
     (let zero = uint (word_lane w lane) in if v2 then zero else (zero + 1) AND 0x0F)"

definition gptq_symmetric_code :: "int \<Rightarrow> int \<Rightarrow> u8" where
  "gptq_symmetric_code raw zero = word_of_int (clamp (raw - zero) (- 8) 7 AND 0x0F)"

definition gptq_zero_group :: "GptqU4Source \<Rightarrow> int \<Rightarrow> int option" where
  "gptq_zero_group src input =
     (if gp_group_index_count src = 0 then Some (input div gp_group_size src)
      else do { gi \<leftarrow> gp_group_index src; g \<leftarrow> rd gi input; Some (usz g) })"

definition gptq_codes :: "GptqU4Source \<Rightarrow> u32 list \<Rightarrow> u32 list \<Rightarrow> int \<Rightarrow> int \<Rightarrow> int \<Rightarrow> int \<Rightarrow>
    u8 list \<Rightarrow> u8 list flow option" where
  "gptq_codes src qweight qzeros n k groups output d =
     for_loop 0 k (\<lambda>input d. do {
       word \<leftarrow> rd qweight (usz (input div 8 * n + output));
       let raw = word_lane word (input mod 8);
       if gp_symmetric src
       then do {
         zg \<leftarrow> gptq_zero_group src input;
         if zg \<ge> groups then Some (Ret kInvalidArgument d)
         else do {
           zw \<leftarrow> rd qzeros (usz (zg * (n div 8) + output div 8));
           let zero = gptq_zero (gp_v2 src) zw (output mod 8);
           thru (put_nibble d (usz (output * k + input)) (gptq_symmetric_code (uint raw) zero)) } }
       else thru (put_nibble d (usz (output * k + input)) raw) }) d"

definition gptq_scales :: "GptqU4Source \<Rightarrow> u32 list \<Rightarrow> f32 list \<Rightarrow> int \<Rightarrow> int \<Rightarrow> int \<Rightarrow>
    f32 list \<times> f32 list \<Rightarrow> (f32 list \<times> f32 list) flow option" where
  "gptq_scales src qzeros srcs n groups output sz =
     for_loop 0 groups (\<lambda>group (s, z). thru (do {
       v \<leftarrow> rd srcs (usz (group * n + output));
       s' \<leftarrow> wr s (usz (output * groups + group)) v;
       if gp_symmetric src then Some (s', z)
       else do {
         word \<leftarrow> rd qzeros (usz (group * (n div 8) + output div 8));
         z' \<leftarrow> wr z (usz (output * groups + group))
                (float_of_code (word_of_int (gptq_zero (gp_v2 src) word (output mod 8))));
         Some (s', z') } })) sz"

definition gptq_unpack :: "GptqU4Source \<Rightarrow> u32 list \<Rightarrow> u32 list \<Rightarrow> f32 list \<Rightarrow> int \<Rightarrow> int \<Rightarrow> int \<Rightarrow>
    u8 list \<times> f32 list \<times> f32 list \<Rightarrow> (u8 list \<times> f32 list \<times> f32 list) flow option" where
  "gptq_unpack src qweight qzeros srcs n k groups t =
     for_loop 0 n (\<lambda>output (d, s, z).
       andthen (gptq_codes src qweight qzeros n k groups output d) (\<lambda>d. (d, s, z))
         (\<lambda>d. andthen (gptq_scales src qzeros srcs n groups output (s, z)) (\<lambda>(s, z). (d, s, z))
           (\<lambda>(s, z). Some (Next (d, s, z))))) t"

text \<open>An optional array of the source, copied when its count is not zero.\<close>

definition copy_optional :: "'a ptr \<Rightarrow> int \<Rightarrow> 'a list option" where
  "copy_optional source n =
     (if n = 0 then Some []
      else do { xs \<leftarrow> source; if n \<le> int (length xs) then Some (take (nat n) xs) else None })"

definition import_gptq_u4 ::
  "bool \<Rightarrow> GptqU4Source \<Rightarrow> CanonicalQuantTensor option \<Rightarrow> (status \<times> CanonicalQuantTensor option) option" where
  "import_gptq_u4 throws src tensor =
     (case (tensor, gp_qweight src, gp_qzeros src, gp_scales src) of
        (Some old, Some qweight, Some qzeros, Some srcs) \<Rightarrow>
          if gp_input_features src \<le> 0 \<or> gp_output_features src \<le> 0 \<or>
             crem (gp_input_features src) 8 \<noteq> 0 \<or> crem (gp_output_features src) 8 \<noteq> 0 \<or>
             gp_group_size src \<le> 0 \<or> crem (gp_input_features src) (gp_group_size src) \<noteq> 0
          then Some (kInvalidArgument, tensor)
          else
            let k = gp_input_features src; n = gp_output_features src; groups = k div gp_group_size src
            in if gp_qweight_words src \<noteq> usz (k div 8 * n) \<or> gp_qzero_words src \<noteq> usz (groups * (n div 8)) \<or>
                  gp_scale_count src \<noteq> usz (groups * n) \<or>
                  (gp_group_index_count src \<noteq> 0 \<and> (gp_group_index src = None \<or> gp_group_index_count src \<noteq> k)) \<or>
                  (gp_act_order_count src \<noteq> 0 \<and> (gp_act_order src = None \<or> gp_act_order_count src \<noteq> k))
               then Some (kInvalidShape, tensor)
               else do {
                 fin \<leftarrow> finite_values (gp_scales src) (gp_scale_count src);
                 if \<not> fin then Some (kInvalidShape, tensor)
                 else if throws then Some (kOutOfMemory, tensor)
                 else
                   let c = (initialize_metadata (if gp_symmetric src then kInt4Symmetric else kUInt4Affine)
                              n k (gp_group_size src))\<lparr>provenance := kGPTQ\<rparr>;
                       d0 = replicate (nat (usz (n * k) div 2)) 0;
                       s0 = replicate (nat (usz (n * groups))) 0;
                       z0 = (if gp_symmetric src then [] else replicate (nat (usz (n * groups))) 0)
                   in do {
                     (st, (d, s, z)) \<leftarrow> finish (gptq_unpack src qweight qzeros srcs n k groups (d0, s0, z0));
                     if st \<noteq> kOk then Some (st, tensor)
                     else do {
                       gi \<leftarrow> copy_optional (gp_group_index src) (gp_group_index_count src);
                       ao \<leftarrow> copy_optional (gp_act_order src) (gp_act_order_count src);
                       let m = (metadata c)\<lparr>scale_mode := kGroup, scale_encoding := kFP32,
                                 scale_count := int (length s),
                                 zero_point_mode := (if gp_symmetric src then Zero_kNone else kFractional),
                                 zero_point_count := int (length z),
                                 group_index_count := gp_group_index_count src,
                                 act_order_count := gp_act_order_count src\<rparr>;
                       commit (c\<lparr>tdata := d, scales := s, zero_points := z, group_index := gi,
                         act_order := ao, metadata := m\<rparr>) old } } }
      | _ \<Rightarrow> Some (kInvalidArgument, tensor))"

definition import_autoround_gptq_u4 ::
  "bool \<Rightarrow> GptqU4Source \<Rightarrow> CanonicalQuantTensor option \<Rightarrow> (status \<times> CanonicalQuantTensor option) option" where
  "import_autoround_gptq_u4 throws src tensor =
     do { (st, t) \<leftarrow> import_gptq_u4 throws src tensor;
          Some (st, if st = kOk then map_option (\<lambda>t. t\<lparr>provenance := kAutoRound\<rparr>) t else t) }"


section \<open>AutoRound, SmoothQuant, BitNet\<close>

record AutoRoundCanonicalSource =
  ar_metadata :: QuantTensorMetadata
  ar_data :: "u8 ptr"
  ar_data_bytes :: int
  ar_scale_codes :: "u8 ptr"
  ar_scale_code_count :: int
  ar_scales :: "f32 ptr"
  ar_scale_count :: int
  ar_zero_points :: "f32 ptr"
  ar_zero_point_count :: int
  ar_group_index :: "int ptr"
  ar_group_index_count :: int
  ar_act_order :: "int ptr"
  ar_act_order_count :: int

definition import_autoround_canonical ::
  "bool \<Rightarrow> AutoRoundCanonicalSource \<Rightarrow> CanonicalQuantTensor option \<Rightarrow>
    (status \<times> CanonicalQuantTensor option) option" where
  "import_autoround_canonical throws src tensor =
     (case tensor of
        None \<Rightarrow> Some (kInvalidArgument, None)
      | Some old \<Rightarrow>
          if (ar_data_bytes src \<noteq> 0 \<and> ar_data src = None) \<or>
             (ar_scale_code_count src \<noteq> 0 \<and> ar_scale_codes src = None) \<or>
             (ar_scale_count src \<noteq> 0 \<and> ar_scales src = None) \<or>
             (ar_zero_point_count src \<noteq> 0 \<and> ar_zero_points src = None) \<or>
             (ar_group_index_count src \<noteq> 0 \<and> ar_group_index src = None) \<or>
             (ar_act_order_count src \<noteq> 0 \<and> ar_act_order src = None)
          then Some (kInvalidArgument, tensor)
          else if scale_count (ar_metadata src) \<noteq> ar_scale_count src \<and>
                  layout (ar_metadata src) \<notin>
                    {kMXFP8E4M3E8M0, kMXFP4E2M1E8M0, kNVFP4E2M1E4M3, kBitNetTernary}
          then Some (kInvalidShape, tensor)
          else if throws then Some (kOutOfMemory, tensor)
          else do {
            d \<leftarrow> copy_optional (ar_data src) (ar_data_bytes src);
            sc \<leftarrow> copy_optional (ar_scale_codes src) (ar_scale_code_count src);
            s \<leftarrow> copy_optional (ar_scales src) (ar_scale_count src);
            z \<leftarrow> copy_optional (ar_zero_points src) (ar_zero_point_count src);
            gi \<leftarrow> copy_optional (ar_group_index src) (ar_group_index_count src);
            ao \<leftarrow> copy_optional (ar_act_order src) (ar_act_order_count src);
            commit (default_tensor\<lparr>metadata := ar_metadata src, tdata := d, scale_codes := sc, scales := s,
              zero_points := z, group_index := gi, act_order := ao, provenance := kAutoRound\<rparr>) old })"

record SmoothQuantW8A8Source =
  sq_weights :: "u8 ptr"
  sq_weight_count :: int
  sq_weight_scales :: "f32 ptr"
  sq_weight_scale_count :: int
  sq_activation_scales :: "f32 ptr"
  sq_activation_scale_count :: int
  sq_activation_zero_points :: "int ptr"
  sq_activation_zero_point_count :: int
  sq_row_sums :: "int ptr"
  sq_row_sum_count :: int
  sq_rows :: int
  sq_columns :: int

text \<open>
  The row totals of the signed weights, accumulated in an \<^verbatim>\<open>int32_t\<close>: \<^verbatim>\<open>sum += weights[...]\<close> overflows
  as \<^verbatim>\<open>int\<close> does. The weights are kept as the bytes \<^verbatim>\<open>reinterpret_cast\<close> reads.
\<close>

definition row_sum_of :: "u8 list \<Rightarrow> int \<Rightarrow> int \<Rightarrow> int flow option" where
  "row_sum_of weights columns row =
     for_loop 0 columns (\<lambda>column acc. thru (do {
       i \<leftarrow> i64 (row * columns + column);
       w \<leftarrow> rd weights i;
       i32 (acc + sint w) })) 0"

definition compute_row_sums :: "u8 list \<Rightarrow> int \<Rightarrow> int \<Rightarrow> int list \<Rightarrow> int list flow option" where
  "compute_row_sums weights rows columns totals =
     for_loop 0 rows (\<lambda>row totals.
       andthen (row_sum_of weights columns row) (\<lambda>_. totals)
         (\<lambda>acc. thru (wr totals row acc))) totals"

definition import_smoothquant_w8a8 ::
  "bool \<Rightarrow> SmoothQuantW8A8Source \<Rightarrow> CanonicalQuantTensor option \<Rightarrow>
    (status \<times> CanonicalQuantTensor option) option" where
  "import_smoothquant_w8a8 throws src tensor =
     (case (tensor, sq_weights src, sq_weight_scales src, sq_activation_scales src,
            checked_product (sq_rows src) (sq_columns src)) of
        (Some old, Some weights, Some wscales, Some ascales, Some elements) \<Rightarrow>
          if sq_weight_count src \<noteq> elements \<or> sq_weight_scale_count src \<noteq> sq_rows src \<or>
             sq_activation_scale_count src = 0 \<or>
             (sq_activation_zero_point_count src \<noteq> 0 \<and>
               (sq_activation_zero_points src = None \<or>
                sq_activation_zero_point_count src \<noteq> sq_activation_scale_count src)) \<or>
             (sq_row_sum_count src \<noteq> 0 \<and>
               (sq_row_sums src = None \<or> sq_row_sum_count src \<noteq> sq_rows src))
          then Some (kInvalidShape, tensor)
          else do {
            fw \<leftarrow> finite_values (sq_weight_scales src) (sq_weight_scale_count src);
            fa \<leftarrow> (if fw then finite_values (sq_activation_scales src) (sq_activation_scale_count src)
                   else Some False);
            if \<not> fa then Some (kInvalidShape, tensor)
            else if throws then Some (kOutOfMemory, tensor)
            else do {
              d \<leftarrow> copy_optional (sq_weights src) elements;
              s \<leftarrow> copy_optional (sq_weight_scales src) (sq_weight_scale_count src);
              a \<leftarrow> copy_optional (sq_activation_scales src) (sq_activation_scale_count src);
              az \<leftarrow> copy_optional (sq_activation_zero_points src) (sq_activation_zero_point_count src);
              rs \<leftarrow> (if sq_row_sum_count src \<noteq> 0 then copy_optional (sq_row_sums src) (sq_row_sum_count src)
                     else map_option snd (finish (compute_row_sums weights (sq_rows src) (sq_columns src)
                            (replicate (nat (sq_rows src)) 0))));
              let c = (initialize_metadata kInt8Symmetric (sq_rows src) (sq_columns src) (sq_columns src));
              commit (c\<lparr>provenance := kSmoothQuant, tdata := d, scales := s, activation_scales := a,
                activation_zero_points := az, row_sums := rs,
                metadata := (metadata c)\<lparr>scale_mode := kChannel, scale_encoding := kFP32,
                  scale_count := int (length s)\<rparr>\<rparr>) old } }
      | _ \<Rightarrow> Some (kInvalidArgument, tensor))"

record BitNetI2Source =
  bn_packed :: "u8 ptr"
  bn_packed_bytes :: int
  bn_rows :: int
  bn_columns :: int
  bn_group_size :: int

definition import_bitnet_i2_s ::
  "bool \<Rightarrow> BitNetI2Source \<Rightarrow> CanonicalQuantTensor option \<Rightarrow> (status \<times> CanonicalQuantTensor option) option" where
  "import_bitnet_i2_s throws src tensor =
     (case (tensor, bn_packed src, checked_product (bn_rows src) (bn_columns src)) of
        (Some old, Some bytes, Some elements) \<Rightarrow>
          if crem (bn_columns src) 32 \<noteq> 0 \<or> bn_group_size src \<le> 0 \<or> crem (bn_group_size src) 32 \<noteq> 0 \<or>
             crem (bn_columns src) (bn_group_size src) \<noteq> 0 \<or>
             bn_packed_bytes src \<noteq> usz (elements div 32 * 10)
          then Some (kInvalidShape, tensor)
          else if throws then Some (kOutOfMemory, tensor)
          else do {
            d \<leftarrow> copy_optional (bn_packed src) (bn_packed_bytes src);
            let c = initialize_metadata kBitNetTernary (bn_rows src) (bn_columns src) (bn_group_size src);
            commit (c\<lparr>tdata := d, provenance := kBitNet,
              metadata := (metadata c)\<lparr>scale_mode := kBlock, scale_encoding := kFP16,
                scale_count := elements div 32\<rparr>\<rparr>) old }
      | _ \<Rightarrow> Some (kInvalidArgument, tensor))"

section \<open>Nibbles\<close>

lemma nibble_shift_cases: "nat (4 * (e mod 2)) = (if even e then 0 else 4)" for e :: int
  by (simp add: even_iff_mod_2_eq_zero odd_iff_mod_2_eq_one)

definition get_nib :: "nat \<Rightarrow> u8 \<Rightarrow> u8" where
  "get_nib k b = drop_bit k b AND 0x0F"

definition set_nib :: "nat \<Rightarrow> u8 \<Rightarrow> u8 \<Rightarrow> u8" where
  "set_nib k b c = (b AND NOT (push_bit k 0x0F)) OR push_bit k (c AND 0x0F)"

lemma nib_set:
  "get_nib 0 (set_nib 0 b c) = c AND 0x0F" "get_nib 4 (set_nib 4 b c) = c AND 0x0F"
  "get_nib 4 (set_nib 0 b c) = get_nib 4 b" "get_nib 0 (set_nib 4 b c) = get_nib 0 b"
proof -
  have m: "(0x0F :: u8) = mask 4" by (simp add: mask_eq_exp_minus_1)
  show "get_nib 0 (set_nib 0 b c) = c AND 0x0F"
    unfolding get_nib_def set_nib_def m by (rule bit_word_eqI) (auto simp: bit_simps)
  show "get_nib 4 (set_nib 4 b c) = c AND 0x0F"
    unfolding get_nib_def set_nib_def m by (rule bit_word_eqI) (auto simp: bit_simps)
  show "get_nib 4 (set_nib 0 b c) = get_nib 4 b"
    unfolding get_nib_def set_nib_def m by (rule bit_word_eqI) (auto simp: bit_simps)
  show "get_nib 0 (set_nib 4 b c) = get_nib 0 b"
    unfolding get_nib_def set_nib_def m by (rule bit_word_eqI) (auto simp: bit_simps)
qed

lemma put_nibble_in:
  "put_nibble bs e c = (if in_buf bs (e div 2)
     then Some (bs[nat (e div 2) := set_nib (if even e then 0 else 4) (bs ! nat (e div 2)) c]) else None)"
  by (simp only: put_nibble_def Let_def rd_def wr_def nibble_shift_cases set_nib_def) simp

lemma nibble_at_in:
  "nibble_at bs e = (if in_buf bs (e div 2)
     then Some (get_nib (if even e then 0 else 4) (bs ! nat (e div 2))) else None)"
  by (simp only: nibble_at_def rd_def nibble_shift_cases get_nib_def) simp

lemma nibble_at_put:
  assumes p: "put_nibble bs e c = Some bs'" and e': "0 \<le> e'" "0 \<le> e"
  shows "nibble_at bs' e' = (if e' = e then Some (c AND 0x0F) else nibble_at bs e')"
proof -
  from p have i: "in_buf bs (e div 2)"
    and bs': "bs' = bs[nat (e div 2) := set_nib (if even e then 0 else 4) (bs ! nat (e div 2)) c]"
    by (simp_all add: put_nibble_in split: if_splits)
  have in': "in_buf bs' x \<longleftrightarrow> in_buf bs x" for x by (simp add: bs' in_buf_def)
  show ?thesis
  proof (cases "e' div 2 = e div 2")
    case False
    then have "nat (e div 2) \<noteq> nat (e' div 2)" using e' by (simp add: nat_eq_iff)
    then have "bs' ! nat (e' div 2) = bs ! nat (e' div 2)" by (simp add: bs')
    then show ?thesis using False in' by (auto simp: nibble_at_in)
  next
    case True
    have n: "nat (e div 2) < length bs" using i by (auto simp: in_buf_def)
    have eq: "e' = e \<longleftrightarrow> even e' = even e"
    proof
      assume "even e' = even e"
      then have "e' mod 2 = e mod 2" by (simp add: even_iff_mod_2_eq_zero) presburger
      with True show "e' = e" by (metis div_mult_mod_eq)
    qed simp
    show ?thesis
      using True i n in' eq by (cases "even e"; cases "even e'") (simp_all add: nibble_at_in bs' nib_set)
  qed
qed

lemma length_put_nibble: "put_nibble bs e c = Some bs' \<Longrightarrow> length bs' = length bs"
  by (auto simp: put_nibble_in split: if_splits)

lemma ok_put_nibble:
  assumes "0 \<le> e" "e < 2 * int (length bs)"
    and "\<And>bs'. length bs' = length bs \<Longrightarrow>
      (\<And>e'. 0 \<le> e' \<Longrightarrow> nibble_at bs' e' = (if e' = e then Some (c AND 0x0F) else nibble_at bs e')) \<Longrightarrow> Q bs'"
  shows "ok Q (put_nibble bs e c)"
proof -
  have "in_buf bs (e div 2)" using assms(1,2) by (auto simp: in_buf_def)
  then obtain bs' where p: "put_nibble bs e c = Some bs'" by (simp add: put_nibble_in)
  have "nibble_at bs' e' = (if e' = e then Some (c AND 0x0F) else nibble_at bs e')" if "0 \<le> e'" for e'
    using nibble_at_put [OF p that assms(1)] .
  then have "Q bs'" by (rule assms(3) [OF length_put_nibble [OF p]])
  with p show ?thesis by simp
qed


section \<open>Filling a matrix of nibbles or of elements row by row\<close>

definition nibbles_upto :: "int \<Rightarrow> (int \<Rightarrow> int \<Rightarrow> u8) \<Rightarrow> int \<Rightarrow> int \<Rightarrow> u8 list \<Rightarrow> bool" where
  "nibbles_upto k f r c d \<longleftrightarrow>
     (\<forall>i j. 0 \<le> i \<and> 0 \<le> j \<and> j < k \<and> (i < r \<or> i = r \<and> j < c) \<longrightarrow> nibble_at d (i * k + j) = Some (f i j))"

definition filled_upto :: "int \<Rightarrow> (int \<Rightarrow> int \<Rightarrow> 'a) \<Rightarrow> int \<Rightarrow> int \<Rightarrow> 'a list \<Rightarrow> bool" where
  "filled_upto k f r c xs \<longleftrightarrow>
     (\<forall>i j. 0 \<le> i \<and> 0 \<le> j \<and> j < k \<and> (i < r \<or> i = r \<and> j < c) \<longrightarrow> xs ! nat (i * k + j) = f i j)"

lemma nibbles_upto_row: "nibbles_upto k f r k d \<longleftrightarrow> nibbles_upto k f (r + 1) 0 d"
  unfolding nibbles_upto_def by (metis less_irrefl linorder_not_less zless_add1_eq)

lemma filled_upto_row: "filled_upto k f r k xs \<longleftrightarrow> filled_upto k f (r + 1) 0 xs"
  unfolding filled_upto_def by (metis less_irrefl linorder_not_less zless_add1_eq)

lemma nibbles_upto_put:
  assumes "nibbles_upto k f r c d" "0 \<le> r" "0 \<le> c" "c < k"
    and put: "\<And>e'. 0 \<le> e' \<Longrightarrow> nibble_at d' e' = (if e' = r * k + c then Some (f r c) else nibble_at d e')"
  shows "nibbles_upto k f r (c + 1) d'"
  unfolding nibbles_upto_def
proof (intro allI impI)
  fix i j assume ij: "0 \<le> i \<and> 0 \<le> j \<and> j < k \<and> (i < r \<or> i = r \<and> j < c + 1)"
  then have nn: "0 \<le> i * k + j" using assms by simp
  show "nibble_at d' (i * k + j) = Some (f i j)"
  proof (cases "i * k + j = r * k + c")
    case True
    then have "i = r" "j = c" using index_unique [of j k c i r] ij assms by auto
    then show ?thesis using put [OF nn] by simp
  next
    case False
    then have "i < r \<or> i = r \<and> j < c" using ij by auto
    then show ?thesis using put [OF nn] False assms(1) ij by (simp add: nibbles_upto_def)
  qed
qed

lemma filled_upto_update:
  assumes "filled_upto k f r c xs" "0 \<le> r" "0 \<le> c" "c < k" "nat (r * k + c) < length xs"
  shows "filled_upto k f r (c + 1) (xs[nat (r * k + c) := f r c])"
  unfolding filled_upto_def
proof (intro allI impI)
  fix i j assume ij: "0 \<le> i \<and> 0 \<le> j \<and> j < k \<and> (i < r \<or> i = r \<and> j < c + 1)"
  have nn: "0 \<le> i * k + j" "0 \<le> r * k + c" using assms ij by simp_all
  show "xs[nat (r * k + c) := f r c] ! nat (i * k + j) = f i j"
  proof (cases "i * k + j = r * k + c")
    case True
    then have "i = r" "j = c" using index_unique [of j k c i r] ij assms by auto
    then show ?thesis using assms(5) by simp
  next
    case False
    then have "i < r \<or> i = r \<and> j < c" using ij by auto
    moreover have "nat (i * k + j) \<noteq> nat (r * k + c)" using False nn by (simp add: nat_eq_iff)
    ultimately show ?thesis using assms(1) ij by (simp add: filled_upto_def)
  qed
qed

text \<open>A row of nibbles: the body writes nibble \<open>r * k + c\<close>.\<close>

lemma nibble_row_loop:
  assumes body: "\<And>c d. 0 \<le> c \<Longrightarrow> c < k \<Longrightarrow> body c d = thru (put_nibble d (r * k + c) (f r c))"
    and f: "\<And>c. 0 \<le> c \<Longrightarrow> c < k \<Longrightarrow> f r c AND 0x0F = f r c"
    and r: "0 \<le> r" "r < n" "0 \<le> k" and d: "n * k \<le> 2 * int (length d)" "nibbles_upto k f r 0 d"
  shows "ok (flow_post (\<lambda>d'. length d' = length d \<and> nibbles_upto k f (r + 1) 0 d') (\<lambda>_. False) (\<lambda>_ _. False))
    (for_loop 0 k body d)"
proof (rule for_loop_inv [where I = "\<lambda>c d'. length d' = length d \<and> nibbles_upto k f r c d'"])
  fix c d' assume c: "0 \<le> c" "c < k" and I: "length d' = length d \<and> nibbles_upto k f r c d'"
  note b = index_bound [OF r(1,2) c]
  show "ok (flow_post (\<lambda>d'. length d' = length d \<and> nibbles_upto k f r (c + 1) d')
      (\<lambda>d'. length d' = length d \<and> nibbles_upto k f (r + 1) 0 d') (\<lambda>_ _. False)) (body c d')"
    unfolding body [OF c] ok_thru
  proof (rule ok_put_nibble [OF b(1)])
    show "r * k + c < 2 * int (length d')" using b d(1) I by simp
    fix bs' assume "length bs' = length d'"
      and "\<And>e'. 0 \<le> e' \<Longrightarrow> nibble_at bs' e' = (if e' = r * k + c then Some (f r c AND 0x0F) else nibble_at d' e')"
    then show "flow_post (\<lambda>d'. length d' = length d \<and> nibbles_upto k f r (c + 1) d')
      (\<lambda>d'. length d' = length d \<and> nibbles_upto k f (r + 1) 0 d') (\<lambda>_ _. False) (Next bs')"
      using I nibbles_upto_put [of k f r c d' bs'] r(1) c f [OF c] by simp
  qed
qed (use r d in \<open>auto simp: nibbles_upto_row\<close>)

lemma word_lane_and: "word_lane w l AND 0x0F = word_lane w l"
proof -
  have m: "(0x0F :: u8) = mask 4" "(0x0F :: u32) = mask 4" by (simp_all add: mask_eq_exp_minus_1)
  show ?thesis unfolding word_lane_def m by (rule bit_word_eqI) (auto simp: bit_simps)
qed

lemma word_lane_less: "unat (word_lane w l) < 16"
proof -
  have "word_lane w l = word_lane w l AND (2 ^ 4 - 1)" by (simp add: word_lane_and)
  then have "unat (word_lane w l) = unat (word_lane w l) mod 2 ^ 4"
    using unat_and_mask [of "2 ^ 4 - 1 :: u8" 4 "word_lane w l"] by simp
  then have "unat (word_lane w l) = unat (word_lane w l) mod 16" by simp
  then show ?thesis by (metis mod_less_divisor zero_less_numeral)
qed

lemma float_of_code_finite: "unat c < 16 \<Longrightarrow> f32_isfinite (float_of_code c)"
proof -
  assume "unat c < 16"
  moreover have "list_all (\<lambda>n. f32_isfinite (word_of_nat (round_mag 23 8 n 0))) [0..<16]"
    by (simp add: upt_rec round_mag_def bitlen.simps emin_def inf_bits_def f32_isfinite_def)
  ultimately show ?thesis by (simp add: list_all_iff float_of_code_def)
qed

section \<open>Permutations\<close>

lemma permutation_scan_iff:
  "length seen = nat n \<Longrightarrow> permutation_scan n seen vs \<longleftrightarrow>
    distinct vs \<and> (\<forall>v \<in> set vs. 0 \<le> v \<and> v < n \<and> \<not> seen ! nat v)"
proof (induction vs arbitrary: seen)
  case (Cons v vs)
  show ?case
  proof (cases "0 \<le> v \<and> v < n")
    case True
    then have "seen[nat v := True] ! nat w \<longleftrightarrow> w = v \<or> seen ! nat w" if "0 \<le> w" "w < n" for w
      using that Cons.prems by (auto simp: nth_list_update nat_eq_iff)
    then show ?thesis using True Cons by auto
  qed auto
qed simp

text \<open>\<^verbatim>\<open>valid_permutation\<close> accepts the permutations of the columns, and the empty order.\<close>

lemma valid_permutation_iff:
  "valid_permutation order n \<longleftrightarrow> order = [] \<or> distinct order \<and> set order = {0..<n}"
proof (cases "order = []")
  case False
  have scan: "permutation_scan n (replicate (nat n) False) order \<longleftrightarrow> distinct order \<and> set order \<subseteq> {0..<n}"
    by (subst permutation_scan_iff) (auto simp: nth_replicate)
  show ?thesis
  proof
    assume v: "valid_permutation order n"
    then have l: "int (length order) = n" and d: "distinct order" "set order \<subseteq> {0..<n}"
      using False scan by (auto simp: valid_permutation_def split: if_splits)
    from d l have "card (set order) = card {0..<n}" by (simp add: distinct_card)
    with d have "set order = {0..<n}" by (intro card_subset_eq) auto
    with d show "order = [] \<or> distinct order \<and> set order = {0..<n}" by simp
  next
    assume "order = [] \<or> distinct order \<and> set order = {0..<n}"
    then have d: "distinct order" "set order = {0..<n}" using False by auto
    have "int (length order) = int (card {0..<n})" using distinct_card [OF d(1)] d(2) by simp
    moreover have "0 \<le> n" using d(2) False by (cases "n < 0") auto
    ultimately have "int (length order) = n" by simp
    then show "valid_permutation order n" using False scan d by (simp add: valid_permutation_def)
  qed
qed (simp add: valid_permutation_def)


section \<open>The AWQ importer\<close>

text \<open>An AWQ source as its format describes it: the buffers have their shapes and the sizes fit.\<close>

definition awq_source_ok :: "AwqU4Source \<Rightarrow> u32 list \<Rightarrow> u32 list \<Rightarrow> f32 list \<Rightarrow> bool" where
  "awq_source_ok src qweight qzeros srcs \<longleftrightarrow>
     (let k = aw_input_features src; n = aw_output_features src; g = aw_group_size src; groups = k div g
      in aw_qweight src = Some qweight \<and> aw_qzeros src = Some qzeros \<and> aw_scales src = Some srcs \<and>
         0 < k \<and> 0 < n \<and> 0 < g \<and> g dvd k \<and> 8 dvd n \<and> 2 dvd k \<and> n * k \<le> SIZE_MAX \<and> k + 7 \<le> LLONG_MAX \<and>
         aw_qweight_words src = k * (n div 8) \<and> int (length qweight) = k * (n div 8) \<and>
         aw_qzero_words src = groups * (n div 8) \<and> int (length qzeros) = groups * (n div 8) \<and>
         aw_scale_count src = groups * n \<and> int (length srcs) = groups * n \<and>
         finite_nonnegative_vector srcs)"

definition awq_code :: "u32 list \<Rightarrow> int \<Rightarrow> int \<Rightarrow> int \<Rightarrow> u8" where
  "awq_code ws n output input =
     word_lane (ws ! nat (input * (n div 8) + output div 8)) (kAwqReverseOrder ! nat (output mod 8))"

lemma usz_index:
  "0 \<le> i \<Longrightarrow> i < m \<Longrightarrow> 0 \<le> j \<Longrightarrow> j < n \<Longrightarrow> m * n \<le> SIZE_MAX \<Longrightarrow> usz (i * n + j) = i * n + j"
  using index_bound [of i m j n] by (simp add: usz_id)

lemma div8_bound: "0 \<le> o' \<Longrightarrow> o' < n \<Longrightarrow> 8 dvd n \<Longrightarrow> 0 \<le> o' div 8 \<and> o' div 8 < n div 8" for o' n :: int
  by (auto elim!: dvdE)

lemma mult_div_le: "0 \<le> k \<Longrightarrow> 0 \<le> n \<Longrightarrow> k * (n div 8) \<le> n * k" for k n :: int
proof -
  assume "0 \<le> k" "0 \<le> n"
  moreover have "n div 8 \<le> n" using \<open>0 \<le> n\<close> by simp
  ultimately have "k * (n div 8) \<le> k * n" by (intro mult_left_mono) auto
  then show ?thesis by (simp add: mult.commute)
qed

lemma awq_codes_row:
  assumes "0 \<le> r" "r < n" "0 < k" "8 dvd n" "n * k \<le> SIZE_MAX" "int (length qweight) = k * (n div 8)"
    and "n * k \<le> 2 * int (length d)" "nibbles_upto k (awq_code qweight n) r 0 d"
  shows "ok (flow_post (\<lambda>d'. length d' = length d \<and> nibbles_upto k (awq_code qweight n) (r + 1) 0 d')
    (\<lambda>_. False) (\<lambda>_ _. False)) (awq_codes qweight n k r d)"
  unfolding awq_codes_def
proof (rule nibble_row_loop [where n = n])
  fix c d assume c: "0 \<le> c" "c < k"
  note o8 = div8_bound [OF assms(1,2,4)]
  have "0 \<le> k" "0 \<le> n" using assms by simp_all
  from order_trans [OF mult_div_le [OF this] assms(5)] have le: "k * (n div 8) \<le> SIZE_MAX" .
  have u: "usz (c * (n div 8) + r div 8) = c * (n div 8) + r div 8"
    using usz_index [OF c _ _ le] o8 by blast
  have ib: "in_buf qweight (c * (n div 8) + r div 8)"
    using index_bound [OF c, of "r div 8" "n div 8"] o8 assms(6) by (simp add: in_buf_def)
  have v: "usz (r * k + c) = r * k + c" using usz_index [OF assms(1,2) c assms(5)] .
  show "thru (do {
       word \<leftarrow> rd qweight (usz (c * (n div 8) + r div 8));
       put_nibble d (usz (r * k + c)) (word_lane word (kAwqReverseOrder ! nat (r mod 8))) }) =
     thru (put_nibble d (r * k + c) (awq_code qweight n r c))"
    unfolding u v using ib by (simp add: rd_def awq_code_def)
qed (use assms in \<open>auto simp: awq_code_def word_lane_and\<close>)

lemma awq_scales_row:
  assumes r: "0 \<le> r" "r < n" and g: "0 < groups" "groups * n \<le> SIZE_MAX" "8 dvd n"
    and len: "int (length qzeros) = groups * (n div 8)" "int (length srcs) = groups * n"
      "int (length s) = n * groups" "int (length z) = n * groups"
    and s: "filled_upto groups (\<lambda>i j. srcs ! nat (j * n + i)) r 0 s"
    and z: "filled_upto groups (\<lambda>i j. float_of_code (awq_code qzeros n i j)) r 0 z"
  shows "ok (flow_post (\<lambda>(s', z'). length s' = length s \<and> length z' = length z \<and>
      filled_upto groups (\<lambda>i j. srcs ! nat (j * n + i)) (r + 1) 0 s' \<and>
      filled_upto groups (\<lambda>i j. float_of_code (awq_code qzeros n i j)) (r + 1) 0 z')
    (\<lambda>_. False) (\<lambda>_ _. False)) (awq_scales qzeros srcs n groups r (s, z))"
  unfolding awq_scales_def
proof (rule for_loop_inv [where I = "\<lambda>c (s', z'). length s' = length s \<and> length z' = length z \<and>
      filled_upto groups (\<lambda>i j. srcs ! nat (j * n + i)) r c s' \<and>
      filled_upto groups (\<lambda>i j. float_of_code (awq_code qzeros n i j)) r c z'"])
  fix c and t :: "f32 list \<times> f32 list" assume c: "0 \<le> c" "c < groups"
  obtain s' z' where t: "t = (s', z')" by fastforce
  assume "case t of (s', z') \<Rightarrow> length s' = length s \<and> length z' = length z \<and>
      filled_upto groups (\<lambda>i j. srcs ! nat (j * n + i)) r c s' \<and>
      filled_upto groups (\<lambda>i j. float_of_code (awq_code qzeros n i j)) r c z'"
  then have I: "length s' = length s" "length z' = length z"
      "filled_upto groups (\<lambda>i j. srcs ! nat (j * n + i)) r c s'"
      "filled_upto groups (\<lambda>i j. float_of_code (awq_code qzeros n i j)) r c z'" by (simp_all add: t)
  note o8 = div8_bound [OF r g(3)]
  have "0 \<le> groups" "0 \<le> n" "n * groups \<le> SIZE_MAX" using g r by (simp_all add: mult.commute)
  from order_trans [OF mult_div_le [OF this(1,2)] this(3)] have le: "groups * (n div 8) \<le> SIZE_MAX" .
  have u: "usz (c * (n div 8) + r div 8) = c * (n div 8) + r div 8"
    "usz (c * n + r) = c * n + r" "usz (r * groups + c) = r * groups + c"
    using usz_index [OF c _ _ le] o8 usz_index [OF c r g(2)] usz_index [OF r c] g(2)
    by (simp_all add: mult.commute)
  note b = index_bound [OF c, of "r div 8" "n div 8"] index_bound [OF c r] index_bound [OF r c]
  have ib: "in_buf qzeros (c * (n div 8) + r div 8)" "in_buf srcs (c * n + r)"
    "in_buf s' (r * groups + c)" "in_buf z' (r * groups + c)"
    using b o8 len I by (simp_all add: in_buf_def)
  have nl: "nat (r * groups + c) < length s'" "nat (r * groups + c) < length z'"
    using ib(3,4) by (auto simp: in_buf_def)
  have e: "(case t of (s, z) \<Rightarrow> thru (do {
       word \<leftarrow> rd qzeros (usz (c * (n div 8) + r div 8));
       v \<leftarrow> rd srcs (usz (c * n + r));
       s' \<leftarrow> wr s (usz (r * groups + c)) v;
       z' \<leftarrow> wr z (usz (r * groups + c))
              (float_of_code (word_lane word (kAwqReverseOrder ! nat (r mod 8))));
       Some (s', z') })) =
     Some (Next (s'[nat (r * groups + c) := srcs ! nat (c * n + r)],
       z'[nat (r * groups + c) := float_of_code (awq_code qzeros n r c)]))"
    unfolding u t using ib by (simp add: rd_def wr_def thru_def awq_code_def)
  show "ok (flow_post (\<lambda>(s', z'). length s' = length s \<and> length z' = length z \<and>
      filled_upto groups (\<lambda>i j. srcs ! nat (j * n + i)) r (c + 1) s' \<and>
      filled_upto groups (\<lambda>i j. float_of_code (awq_code qzeros n i j)) r (c + 1) z')
     (\<lambda>(s', z'). length s' = length s \<and> length z' = length z \<and>
      filled_upto groups (\<lambda>i j. srcs ! nat (j * n + i)) (r + 1) 0 s' \<and>
      filled_upto groups (\<lambda>i j. float_of_code (awq_code qzeros n i j)) (r + 1) 0 z')
     (\<lambda>_ _. False)) (case t of (s, z) \<Rightarrow> thru (do {
       word \<leftarrow> rd qzeros (usz (c * (n div 8) + r div 8));
       v \<leftarrow> rd srcs (usz (c * n + r));
       s' \<leftarrow> wr s (usz (r * groups + c)) v;
       z' \<leftarrow> wr z (usz (r * groups + c))
              (float_of_code (word_lane word (kAwqReverseOrder ! nat (r mod 8))));
       Some (s', z') }))"
    unfolding e using I nl r c filled_upto_update [OF I(3) r(1) c nl(1)] filled_upto_update [OF I(4) r(1) c nl(2)]
    by simp
qed (use g s z in \<open>auto simp: filled_upto_row\<close>)


lemma awq_unpack_ok:
  assumes n: "0 < n" "8 dvd n" "n * k \<le> SIZE_MAX" and k: "0 < k" "0 < groups" "groups \<le> k"
    and len: "int (length qweight) = k * (n div 8)" "int (length qzeros) = groups * (n div 8)"
      "int (length srcs) = groups * n"
      "n * k \<le> 2 * int (length d)" "int (length s) = n * groups" "int (length z) = n * groups"
  shows "ok (\<lambda>(st, (d', s', z')). st = kOk \<and> length d' = length d \<and> length s' = length s \<and> length z' = length z \<and>
      nibbles_upto k (awq_code qweight n) n 0 d' \<and>
      filled_upto groups (\<lambda>i j. srcs ! nat (j * n + i)) n 0 s' \<and>
      filled_upto groups (\<lambda>i j. float_of_code (awq_code qzeros n i j)) n 0 z')
    (finish (awq_unpack qweight qzeros srcs n k groups (d, s, z)))"
proof -
  define I where "I = (\<lambda>r (d', s', z'). length d' = length d \<and> length s' = length s \<and> length z' = length z \<and>
      nibbles_upto k (awq_code qweight n) r 0 d' \<and>
      filled_upto groups (\<lambda>i j. srcs ! nat (j * n + i)) r 0 s' \<and>
      filled_upto groups (\<lambda>i j. float_of_code (awq_code qzeros n i j)) r 0 z')"
  have "groups * n \<le> k * n" using k n by (intro mult_right_mono) auto
  moreover have "k * n \<le> SIZE_MAX" using n by (simp add: mult.commute)
  ultimately have gn: "groups * n \<le> SIZE_MAX" by linarith
  have "ok (flow_post (I n) (\<lambda>_. False) (\<lambda>_ _. False)) (awq_unpack qweight qzeros srcs n k groups (d, s, z))"
    unfolding awq_unpack_def
  proof (rule for_loop_inv [where I = I])
    show "I 0 (d, s, z)" by (auto simp: I_def nibbles_upto_def filled_upto_def)
    fix r t assume r: "0 \<le> r" "r < n" and It: "I r t"
    obtain d' s' z' where t: "t = (d', s', z')" by (cases t) auto
    have c: "ok (flow_post (\<lambda>d''. length d'' = length d' \<and> nibbles_upto k (awq_code qweight n) (r + 1) 0 d'')
        (\<lambda>_. False) (\<lambda>_ _. False)) (awq_codes qweight n k r d')"
      using It t n k len r by (intro awq_codes_row) (auto simp: I_def)
    have sc: "ok (flow_post (\<lambda>(s'', z''). length s'' = length s' \<and> length z'' = length z' \<and>
        filled_upto groups (\<lambda>i j. srcs ! nat (j * n + i)) (r + 1) 0 s'' \<and>
        filled_upto groups (\<lambda>i j. float_of_code (awq_code qzeros n i j)) (r + 1) 0 z'')
      (\<lambda>_. False) (\<lambda>_ _. False)) (awq_scales qzeros srcs n groups r (s', z'))"
      using It t n k len r gn by (intro awq_scales_row) (auto simp: I_def)
    show "ok (flow_post (I (r + 1)) (I n) (\<lambda>_ _. False))
      (case t of (d, s, z) \<Rightarrow>
        andthen (awq_codes qweight n k r d) (\<lambda>d. (d, s, z))
         (\<lambda>d. andthen (awq_scales qzeros srcs n groups r (s, z)) (\<lambda>(s, z). (d, s, z))
           (\<lambda>(s, z). Some (Next (d, s, z)))))"
      unfolding t prod.case
    proof (rule ok_andthen, rule ok_mono [OF c], erule flow_post_mono)
      fix d'' assume d'': "length d'' = length d' \<and> nibbles_upto k (awq_code qweight n) (r + 1) 0 d''"
      show "ok (flow_post (I (r + 1)) (I n) (\<lambda>_ _. False))
        (andthen (awq_scales qzeros srcs n groups r (s', z')) (\<lambda>(s, z). (d'', s, z))
           (\<lambda>(s, z). Some (Next (d'', s, z))))"
        by (rule ok_andthen, rule ok_mono [OF sc], erule flow_post_mono)
          (use It d'' in \<open>auto simp: I_def t\<close>)
    qed simp_all
  qed (use n in auto)
  then show ?thesis
    by (intro ok_finish) (auto simp: I_def elim!: ok_mono flow_post_mono)
qed

lemma filled_all:
  assumes "filled_upto k f n 0 xs" "int (length xs) = n * k" "0 < k" "\<And>i j. P (f i j)"
  shows "\<forall>x \<in> set xs. P x"
proof
  fix x assume "x \<in> set xs"
  then obtain t where t: "t < length xs" "x = xs ! t" by (auto simp: in_set_conv_nth)
  have b: "0 \<le> int t div k" "int t div k < n" "0 \<le> int t mod k" "int t mod k < k"
      "int t = int t div k * k + int t mod k"
    using div_mod_bound [of "int t" n k] t assms(2,3) by auto
  then have "xs ! nat (int t div k * k + int t mod k) = f (int t div k) (int t mod k)"
    using assms(1) unfolding filled_upto_def by blast
  then have "x = f (int t div k) (int t mod k)" using t b(5) by simp
  then show "P x" using assms(4) by simp
qed

lemma usz_0: "usz 0 = 0"
  by (simp add: usz_def)

lemma group_bounds:
  assumes "0 < g" "g dvd k" "0 < (k :: int)"
  shows "0 < k div g" "k div g \<le> k"
  using dvd_div_bounds assms by simp_all

lemma finite_values_Some:
  assumes "finite_nonnegative_vector vs" "int (length vs) = n"
  shows "finite_values (Some vs) n = Some True"
  using assms by (auto simp: finite_values_def finite_nonnegative_vector_def finite_vector_def)

text \<open>A u4 candidate with group scales passes validation.\<close>

lemma u4_candidate_valid:
  assumes "0 < n" "0 < k" "2 dvd k" "n * k \<le> SIZE_MAX" "k + 7 \<le> LLONG_MAX" "0 < g" "g dvd k"
    and "int (length d) = n * k div 2" "int (length s) = n * (k div g)" "length z = length s"
    and "finite_nonnegative_vector s" "finite_vector z"
  shows "validate_canonical_quant_tensor
    (let c = (initialize_metadata kUInt4Affine n k g)\<lparr>provenance := p\<rparr>
     in c\<lparr>tdata := d, scales := s, zero_points := z,
          metadata := (metadata c)\<lparr>scale_mode := kGroup, scale_encoding := kFP32,
            zero_point_mode := kFractional, scale_count := int (length s),
            zero_point_count := int (length z)\<rparr>\<rparr>) = Some kOk"
proof -
  let ?m = "default_metadata\<lparr>layout := kUInt4Affine, logical_rows := n, logical_columns := k, group_size := g,
    scale_mode := kGroup, scale_encoding := kFP32, zero_point_mode := kFractional,
    scale_count := int (length s), zero_point_count := int (length z)\<rparr>"
  have "is_llong (logical_columns ?m + 7)" using assms by (simp add: is_llong_def LLONG_MIN_def)
  moreover have "metadata_consistent ?m"
    using assms by (simp add: metadata_consistent_def descriptor_table shape_consistent_def
        extras_consistent_def scales_consistent_def scale_units_def default_metadata_def
        f32_isfinite_def f32_is_negative_def)
  ultimately have v: "validate_quant_metadata ?m = Some kOk"
    using validate_quant_metadata_iff by blast
  have "checked_product n k = Some (n * k)"
    using assms valid_shape_iff [of n k] by (auto simp: checked_product_def valid_shape_def not_less)
  then have e: "expected_data_bytes ?m = Inr (n * k div 2)"
    using assms by (simp add: expected_data_bytes_def Let_def default_metadata_def)
  have r: "scale_mode_allowed ?m" by (simp add: scale_mode_allowed_def Let_def default_metadata_def)
  show ?thesis
    using v e r assms
    by (simp add: validate_canonical_quant_tensor_def initialize_metadata_def Let_def default_tensor_def
        scale_tables_match_def codes_allowed_def valid_permutation_def default_metadata_def finite_vector_def)
qed


lemma awq_transposed:
  assumes ok: "awq_source_ok src qweight qzeros srcs"
  defines "k \<equiv> aw_input_features src" and "n \<equiv> aw_output_features src"
    and "groups \<equiv> aw_input_features src div aw_group_size src"
  shows "\<exists>t. import_awq_u4 False src (Some old) = Some (kOk, Some t) \<and>
    (\<forall>i j. 0 \<le> i \<and> i < n \<and> 0 \<le> j \<and> j < k \<longrightarrow>
       nibble_at (tdata t) (i * k + j) = Some (word_lane (qweight ! nat (j * (n div 8) + i div 8))
         (kAwqReverseOrder ! nat (i mod 8)))) \<and>
    (\<forall>i j. 0 \<le> i \<and> i < n \<and> 0 \<le> j \<and> j < groups \<longrightarrow>
       scales t ! nat (i * groups + j) = srcs ! nat (j * n + i) \<and>
       zero_points t ! nat (i * groups + j) = float_of_code (word_lane (qzeros ! nat (j * (n div 8) + i div 8))
         (kAwqReverseOrder ! nat (i mod 8))))"
proof -
  let ?g = "aw_group_size src"
  have a: "0 < k" "0 < n" "0 < ?g" "?g dvd k" "8 dvd n" "2 dvd k" "n * k \<le> SIZE_MAX" "k + 7 \<le> LLONG_MAX"
    and p: "aw_qweight src = Some qweight" "aw_qzeros src = Some qzeros" "aw_scales src = Some srcs"
    and c: "aw_qweight_words src = k * (n div 8)" "aw_qzero_words src = groups * (n div 8)"
      "aw_scale_count src = groups * n"
    and l: "int (length qweight) = k * (n div 8)" "int (length qzeros) = groups * (n div 8)"
      "int (length srcs) = groups * n"
    and fin: "finite_nonnegative_vector srcs"
    using ok by (simp_all add: awq_source_ok_def Let_def k_def n_def groups_def)
  have gk: "k div ?g = groups" by (simp add: k_def groups_def)
  have gr: "0 < groups" "groups \<le> k" using group_bounds [OF a(3,4,1)] by (simp_all add: groups_def k_def)
  have gn: "groups * n \<le> SIZE_MAX"
  proof -
    have "groups * n \<le> k * n" using gr a by (intro mult_right_mono) auto
    also have "\<dots> \<le> SIZE_MAX" using a by (simp add: mult.commute)
    finally show ?thesis .
  qed
  have pos: "0 \<le> k" "0 \<le> n" "0 \<le> groups" "n * groups \<le> SIZE_MAX"
    using a gr gn by (simp_all add: mult.commute)
  have le8: "k * (n div 8) \<le> SIZE_MAX" "groups * (n div 8) \<le> SIZE_MAX"
    using order_trans [OF mult_div_le [OF pos(1,2)] a(7)] order_trans [OF mult_div_le [OF pos(3,2)] pos(4)] by auto
  have u: "usz (k * (n div 8)) = k * (n div 8)" "usz (groups * (n div 8)) = groups * (n div 8)"
    "usz (groups * n) = groups * n" "usz (n * k) = n * k" "usz (n * groups) = n * groups"
    using le8 gn a gr by (auto intro!: usz_id simp: mult.commute)
  define d0 where "d0 = replicate (nat (n * k div 2)) (0 :: u8)"
  define s0 where "s0 = replicate (nat (n * groups)) (0 :: f32)"
  have ev: "2 * (n * k div 2) = n * k" using a(6) by simp
  have l0: "int (length d0) = n * k div 2" "int (length s0) = n * groups"
    using a gr by (simp_all add: d0_def s0_def)
  have l0': "n * k \<le> 2 * int (length d0)" using l0 ev by simp
  from awq_unpack_ok [OF a(2,5,7,1) gr l l0' l0(2) l0(2)]
  obtain d s z where run: "finish (awq_unpack qweight qzeros srcs n k groups (d0, s0, s0)) = Some (kOk, (d, s, z))"
    and lr: "length d = length d0" "length s = length s0" "length z = length s0"
    and nd: "nibbles_upto k (awq_code qweight n) n 0 d"
    and fs: "filled_upto groups (\<lambda>i j. srcs ! nat (j * n + i)) n 0 s"
    and fz: "filled_upto groups (\<lambda>i j. float_of_code (awq_code qzeros n i j)) n 0 z"
    by (auto simp: ok_def)
  have ls: "int (length s) = n * groups" "int (length z) = n * groups" using lr l0 by simp_all
  have fins: "finite_nonnegative_vector s"
  proof -
    have "\<forall>v \<in> set srcs. f32_isfinite v \<and> \<not> f32_is_negative v"
      using fin by (auto simp: finite_nonnegative_vector_def finite_vector_def list_all_iff)
    moreover have "set s \<subseteq> set srcs"
    proof
      fix x assume "x \<in> set s"
      then obtain t where t: "t < length s" "x = s ! t" by (auto simp: in_set_conv_nth)
      have b: "0 \<le> int t div groups" "int t div groups < n" "0 \<le> int t mod groups" "int t mod groups < groups"
          "int t = int t div groups * groups + int t mod groups"
        using div_mod_bound [of "int t" n groups] t ls gr by auto
      then have "s ! nat (int t div groups * groups + int t mod groups) =
          srcs ! nat (int t mod groups * n + int t div groups)"
        using fs unfolding filled_upto_def by blast
      then have "x = srcs ! nat (int t mod groups * n + int t div groups)" using t b(5) by simp
      moreover have "nat (int t mod groups * n + int t div groups) < length srcs"
        using index_bound [OF b(3,4,1,2)] l(3) by simp
      ultimately show "x \<in> set srcs" by simp
    qed
    ultimately show ?thesis by (auto simp: finite_nonnegative_vector_def finite_vector_def list_all_iff)
  qed
  have finz: "finite_vector z"
    unfolding finite_vector_def list_all_iff
    by (rule filled_all [OF fz ls(2) gr(1)]) (simp add: awq_code_def float_of_code_finite word_lane_less)
  let ?c = "(initialize_metadata kUInt4Affine n k ?g)\<lparr>provenance := kAWQ\<rparr>"
  let ?t = "?c\<lparr>tdata := d, scales := s, zero_points := z,
    metadata := (metadata ?c)\<lparr>scale_mode := kGroup, scale_encoding := kFP32, zero_point_mode := kFractional,
      scale_count := int (length s), zero_point_count := int (length z)\<rparr>\<rparr>"
  have ld: "int (length d) = n * k div 2" using lr l0 by simp
  have lsz: "length z = length s" using lr by simp
  have lsg: "int (length s) = n * (k div ?g)" using ls by (simp add: groups_def k_def)
  have v: "validate_canonical_quant_tensor ?t = Some kOk"
    using u4_candidate_valid [OF a(2,1,6,7,8,3,4) ld lsg lsz fins finz, of kAWQ] by (simp add: Let_def)
  have "import_awq_u4 False src (Some old) = Some (kOk, Some ?t)"
    unfolding import_awq_u4_def p prod.case option.case
    using a c u run v finite_values_Some [OF fin l(3)]
    by (simp add: crem_eq_0_iff Let_def commit_def d0_def s0_def gk k_def [symmetric] n_def [symmetric])
  moreover have "tdata ?t = d" "scales ?t = s" "zero_points ?t = z" by simp_all
  ultimately show ?thesis
    using nd fs fz by (intro exI [of _ ?t]) (simp add: nibbles_upto_def filled_upto_def awq_code_def)
qed

lemma awq_accepts:
  "awq_source_ok src qweight qzeros srcs \<Longrightarrow> \<exists>t. import_awq_u4 False src (Some old) = Some (kOk, Some t)"
  using awq_transposed by blast

text \<open>
  C4: importing a well-formed AWQ checkpoint succeeds and transposes it: the canonical nibble of
  output feature \<open>o\<close> and input feature \<open>i\<close> is the lane of the packed word \<open>qweight[i, o / 8]\<close> that
  \<^verbatim>\<open>AWQ_REVERSE_ORDER\<close> names, and the scale and zero point of group \<open>g\<close> are those of \<open>[g, o]\<close>.
\<close>

theorem import_awq_u4_transposes:
  assumes ok: "awq_source_ok src qweight qzeros srcs"
  defines "k \<equiv> aw_input_features src" and "n \<equiv> aw_output_features src"
    and "groups \<equiv> aw_input_features src div aw_group_size src"
  shows "\<exists>t. import_awq_u4 False src (Some old) = Some (kOk, Some t) \<and>
    (\<forall>i j. 0 \<le> i \<and> i < n \<and> 0 \<le> j \<and> j < k \<longrightarrow>
       nibble_at (tdata t) (i * k + j) = Some (word_lane (qweight ! nat (j * (n div 8) + i div 8))
         (kAwqReverseOrder ! nat (i mod 8)))) \<and>
    (\<forall>i j. 0 \<le> i \<and> i < n \<and> 0 \<le> j \<and> j < groups \<longrightarrow>
       scales t ! nat (i * groups + j) = srcs ! nat (j * n + i) \<and>
       zero_points t ! nat (i * groups + j) = float_of_code (word_lane (qzeros ! nat (j * (n div 8) + i div 8))
         (kAwqReverseOrder ! nat (i mod 8))))"
  unfolding k_def n_def groups_def by (rule awq_transposed [OF ok])


section \<open>What a validated tensor guarantees\<close>

text \<open>Bytes per elements of each layout, as a fraction.\<close>

definition data_ratio :: "CanonicalQuantLayout \<Rightarrow> int \<times> int" where
  "data_ratio l =
     (case l of
        kInt4Symmetric \<Rightarrow> (1, 2) | kUInt4Affine \<Rightarrow> (1, 2) | kFP4E2M1 \<Rightarrow> (1, 2) | kNVFP4E2M1E4M3 \<Rightarrow> (1, 2)
      | kInt8Symmetric \<Rightarrow> (1, 1) | kInt8Affine \<Rightarrow> (1, 1) | kFP8E4M3FN \<Rightarrow> (1, 1) | kFP8E5M2 \<Rightarrow> (1, 1)
      | kMXFP8E4M3E8M0 \<Rightarrow> (33, 32) | kMXFP4E2M1E8M0 \<Rightarrow> (17, 32) | kBitNetTernary \<Rightarrow> (10, 32)
      | kTurboQuantKey \<Rightarrow> (0, 1) | kTurboQuantValue \<Rightarrow> (0, 1))"

lemma checked_mul_Some: "0 \<le> a \<Longrightarrow> 0 \<le> b \<Longrightarrow> checked_mul a b = Some c \<Longrightarrow> c = a * b"
proof -
  assume a: "0 \<le> a" "0 \<le> b" and c: "checked_mul a b = Some c"
  then have "c = usz (a * b)" and le: "a = 0 \<or> b \<le> SIZE_MAX div a"
    by (auto simp: checked_mul_def split: if_splits)
  moreover have "a * b \<le> SIZE_MAX"
  proof (cases "a = 0")
    case False
    with le a show ?thesis using le_div_iff [of a b SIZE_MAX] by (simp add: mult.commute)
  qed (simp add: SIZE_MAX_def)
  ultimately show ?thesis using a by (simp add: usz_id)
qed

lemma checked_product_Some:
  "checked_product a b = Some c \<longleftrightarrow> valid_shape a b \<and> c = a * b"
  by (auto simp: checked_product_def valid_shape_def)

lemma expected_data_bytes_exact:
  assumes "metadata_consistent m" "expected_data_bytes m = Inr bytes"
  shows "bytes * snd (data_ratio (layout m)) = logical_rows m * logical_columns m * fst (data_ratio (layout m))"
proof -
  obtain d where d: "find_descriptor (layout m) = Some d" and c: "shape_consistent d m"
    using assms(1) by (auto simp: metadata_consistent_def split: option.splits)
  let ?e = "logical_rows m * logical_columns m"
  have pos: "0 \<le> ?e" using c by (auto simp: shape_consistent_def)
  have p: "checked_product (logical_rows m) (logical_columns m) = Some ?e"
    using assms(2) by (auto simp: expected_data_bytes_def checked_product_Some Let_def split: option.splits)
  have bd: "block_elements d \<noteq> 0 \<Longrightarrow> block_elements d dvd ?e" using c by (simp add: shape_consistent_def)
  have e16: "even ?e" if "layout m = kNVFP4E2M1E4M3"
    using bd d that dvd_trans [of 2 16 ?e] by (auto simp: descriptor_table)
  have e32: "32 dvd ?e" if "layout m \<in> {kMXFP8E4M3E8M0, kMXFP4E2M1E8M0, kBitNetTernary}"
    using bd d that by (auto simp: descriptor_table)
  have blocks: "b * 32 = ?e * n" if "checked_mul (?e div 32) n = Some b" "32 dvd ?e" "0 \<le> n" for b n
  proof -
    have "b = ?e div 32 * n" using checked_mul_Some [OF _ that(3,1)] pos by simp
    with that(2) show ?thesis by (metis dvd_div_mult_self mult.assoc mult.commute)
  qed
  show ?thesis
  proof (cases "layout m \<in> {kMXFP8E4M3E8M0, kMXFP4E2M1E8M0, kBitNetTernary}")
    case True
    obtain n :: int where n: "n = (if layout m = kMXFP8E4M3E8M0 then 33 else if layout m = kMXFP4E2M1E8M0 then 17 else 10)"
      by simp
    have "checked_mul (?e div 32) n = Some bytes"
      using assms(2) p True n by (auto simp: expected_data_bytes_def Let_def split: option.splits)
    from blocks [OF this e32 [OF True]] show ?thesis using True n by (auto simp: data_ratio_def)
  next
    case False
    then show ?thesis
      using assms(2) p e16
      by (cases "layout m") (auto simp: expected_data_bytes_def data_ratio_def Let_def split: if_splits)
  qed
qed

lemma validated_tensor_bounds:
  assumes "validate_canonical_quant_tensor t = Some kOk" "is_llong (logical_columns (metadata t) + 7)"
  shows "metadata_consistent (metadata t) \<and>
    int (length (tdata t)) * snd (data_ratio (layout (metadata t))) =
      logical_rows (metadata t) * logical_columns (metadata t) * fst (data_ratio (layout (metadata t))) \<and>
    (act_order t = [] \<or> distinct (act_order t) \<and> set (act_order t) = {0..<logical_columns (metadata t)}) \<and>
    (\<forall>g \<in> set (group_index t). 0 \<le> g \<and> g < scale_count (metadata t) div logical_rows (metadata t)) \<and>
    int (length (zero_points t)) = zero_point_count (metadata t)"
proof -
  have v: "validate_quant_metadata (metadata t) = Some kOk"
    using assms(1) by (auto simp: validate_canonical_quant_tensor_def Let_def split: Option.bind_splits if_splits)
  then have mc: "metadata_consistent (metadata t)"
    using validate_quant_metadata_iff [OF assms(2)] by simp
  obtain bytes where b: "expected_data_bytes (metadata t) = Inr bytes"
    and rest: "int (length (tdata t)) = bytes" "int (length (zero_points t)) = zero_point_count (metadata t)"
      "valid_permutation (act_order t) (logical_columns (metadata t))"
      "list_all (\<lambda>g. 0 \<le> g \<and> g < scale_count (metadata t) div logical_rows (metadata t)) (group_index t)"
  proof (cases "expected_data_bytes (metadata t)")
    case (Inl st)
    moreover have "st \<noteq> kOk" using Inl
      by (auto simp: expected_data_bytes_def Let_def split: option.splits CanonicalQuantLayout.splits if_splits)
    ultimately show ?thesis
      using assms(1) v by (simp add: validate_canonical_quant_tensor_def Let_def split: if_splits)
  next
    case (Inr bytes)
    show ?thesis
    proof (rule that [OF Inr])
      show "int (length (tdata t)) = bytes" "int (length (zero_points t)) = zero_point_count (metadata t)"
        "valid_permutation (act_order t) (logical_columns (metadata t))"
        using assms(1) v Inr by (simp_all add: validate_canonical_quant_tensor_def Let_def split: if_splits)
      show "list_all (\<lambda>g. 0 \<le> g \<and> g < scale_count (metadata t) div logical_rows (metadata t)) (group_index t)"
        using assms(1) v Inr
        by (cases "group_index t = []") (simp_all add: validate_canonical_quant_tensor_def Let_def split: if_splits)
    qed
  qed
  show ?thesis
    using mc rest expected_data_bytes_exact [OF mc b] valid_permutation_iff by (auto simp: list_all_iff)
qed


section \<open>Witnesses\<close>

text \<open>An AWQ matrix of 2 inputs and 8 outputs, one group.\<close>

definition demo_awq :: AwqU4Source where
  "demo_awq = \<lparr>aw_qweight = Some [0x76543210, 0xFEDCBA98], aw_qweight_words = 2, aw_qzeros = Some [0x88888888],
     aw_qzero_words = 1, aw_scales = Some (replicate 8 0x3F800000), aw_scale_count = 8,
     aw_input_features = 2, aw_output_features = 8, aw_group_size = 2\<rparr>"

lemma demo_awq_ok: "awq_source_ok demo_awq [0x76543210, 0xFEDCBA98] [0x88888888] (replicate 8 0x3F800000)"
  by (simp add: awq_source_ok_def demo_awq_def finite_nonnegative_vector_def finite_vector_def
      f32_isfinite_def f32_is_negative_def list_all_iff int_limits)

theorem import_awq_u4_transposes_witness:
  "\<exists>t. import_awq_u4 False demo_awq (Some default_tensor) = Some (kOk, Some t) \<and>
     nibble_at (tdata t) 3 = Some 0x0C"
proof -
  from import_awq_u4_transposes [OF demo_awq_ok, of default_tensor] obtain t where
    t: "import_awq_u4 False demo_awq (Some default_tensor) = Some (kOk, Some t)"
    and n: "\<forall>i j. 0 \<le> i \<and> i < 8 \<and> 0 \<le> j \<and> j < 2 \<longrightarrow>
       nibble_at (tdata t) (i * 2 + j) = Some (word_lane ([0x76543210, 0xFEDCBA98] ! nat (j * (8 div 8) + i div 8))
         (kAwqReverseOrder ! nat (i mod 8)))"
    by (auto simp: demo_awq_def)
  from n [rule_format, of 1 1] have "nibble_at (tdata t) 3 = Some 0x0C"
    by (simp add: word_lane_def kAwqReverseOrder_def)
  with t show ?thesis by blast
qed

definition demo_tensor :: CanonicalQuantTensor where
  "demo_tensor = (initialize_metadata kInt8Symmetric 1 2 2)\<lparr>tdata := [1, 255], scales := [0x3F800000],
     act_order := [], metadata := (metadata (initialize_metadata kInt8Symmetric 1 2 2))\<lparr>scale_mode := kRow,
       scale_encoding := kFP32, scale_count := 1\<rparr>\<rparr>"

lemma demo_tensor_valid: "validate_canonical_quant_tensor demo_tensor = Some kOk"
proof -
  have "validate_quant_metadata (metadata demo_tensor) = Some kOk" by code_simp
  then show ?thesis
    by (simp add: validate_canonical_quant_tensor_def Let_def)
      (simp add: demo_tensor_def initialize_metadata_def default_metadata_def default_tensor_def
        scale_mode_allowed_def expected_data_bytes_def checked_product_def scale_tables_match_def
        finite_nonnegative_vector_def finite_vector_def f32_isfinite_def f32_is_negative_def
        valid_permutation_def codes_allowed_def int_limits)
qed


section \<open>Sequences of imports\<close>

text \<open>
  A tensor object that is handed to one importer after another; each call may succeed, fail or run out of memory.
\<close>

inductive import_session :: "CanonicalQuantTensor \<Rightarrow> CanonicalQuantTensor \<Rightarrow> bool" where
  start: "import_session t t"
| awq: "import_session t u \<Longrightarrow> import_awq_u4 throws a (Some u) = Some (st, Some v) \<Longrightarrow> import_session t v"
| gptq: "import_session t u \<Longrightarrow> import_gptq_u4 throws g (Some u) = Some (st, Some v) \<Longrightarrow> import_session t v"
| autoround_gptq: "import_session t u \<Longrightarrow> import_autoround_gptq_u4 throws g (Some u) = Some (st, Some v) \<Longrightarrow>
    import_session t v"
| autoround: "import_session t u \<Longrightarrow> import_autoround_canonical throws r (Some u) = Some (st, Some v) \<Longrightarrow> import_session t v"
| smoothquant: "import_session t u \<Longrightarrow> import_smoothquant_w8a8 throws q (Some u) = Some (st, Some v) \<Longrightarrow>
    import_session t v"
| bitnet: "import_session t u \<Longrightarrow> import_bitnet_i2_s throws b (Some u) = Some (st, Some v) \<Longrightarrow> import_session t v"

text \<open>What every importer promises about its output argument.\<close>

definition committed :: "CanonicalQuantTensor \<Rightarrow> status \<Rightarrow> CanonicalQuantTensor \<Rightarrow> bool" where
  "committed old st new \<longleftrightarrow>
     (if st = kOk then validate_canonical_quant_tensor new = Some kOk \<or> new = old else new = old)"

definition commits :: "CanonicalQuantTensor \<Rightarrow> (status \<times> CanonicalQuantTensor option) option \<Rightarrow> bool" where
  "commits old m \<longleftrightarrow> (\<forall>st new. m = Some (st, Some new) \<longrightarrow> committed old st new)"

lemma commits_commit: "commits old (commit c old)"
  by (auto simp: commits_def commit_def committed_def split: Option.bind_splits if_splits)

lemma commits_keep: "commits old (Some (st, Some old))"
  by (simp add: commits_def committed_def)

lemma commits_bind: "(\<And>x. commits old (k x)) \<Longrightarrow> commits old (m \<bind> k)"
  by (cases m) (simp_all add: commits_def)

lemma commits_if: "commits old m \<Longrightarrow> commits old n \<Longrightarrow> commits old (if b then m else n)"
  by simp

lemma commits_option: "commits old m \<Longrightarrow> (\<And>x. commits old (k x)) \<Longrightarrow> commits old (case v of None \<Rightarrow> m | Some x \<Rightarrow> k x)"
  by (cases v) simp_all

lemma commits_prod: "(\<And>x y. commits old (k x y)) \<Longrightarrow> commits old (case p of (x, y) \<Rightarrow> k x y)"
  by (cases p) simp

lemmas commits_intros = commits_commit commits_keep commits_if commits_bind commits_option commits_prod

lemma awq_commits: "commits old (import_awq_u4 throws src (Some old))"
  unfolding import_awq_u4_def Let_def prod.case option.case by (intro commits_intros)

lemma gptq_commits: "commits old (import_gptq_u4 throws src (Some old))"
  unfolding import_gptq_u4_def Let_def prod.case option.case by (intro commits_intros)

lemma autoround_canonical_commits: "commits old (import_autoround_canonical throws src (Some old))"
  unfolding import_autoround_canonical_def Let_def option.case by (intro commits_intros)

lemma smoothquant_commits: "commits old (import_smoothquant_w8a8 throws src (Some old))"
  unfolding import_smoothquant_w8a8_def Let_def prod.case option.case by (intro commits_intros)

lemma bitnet_commits: "commits old (import_bitnet_i2_s throws src (Some old))"
  unfolding import_bitnet_i2_s_def Let_def prod.case option.case by (intro commits_intros)

lemma validate_provenance [simp]:
  "validate_canonical_quant_tensor (t\<lparr>provenance := p\<rparr>) = validate_canonical_quant_tensor t"
  by (cases t) (simp only: validate_canonical_quant_tensor_def scale_tables_match_def codes_allowed_def CanonicalQuantTensor.simps)

lemma commits_valid:
  "commits old m \<Longrightarrow> m = Some (st, Some new) \<Longrightarrow> validate_canonical_quant_tensor old = Some kOk \<Longrightarrow>
    validate_canonical_quant_tensor new = Some kOk"
  by (auto simp: commits_def committed_def split: if_splits)

lemma autoround_gptq_valid:
  assumes "import_autoround_gptq_u4 throws src (Some old) = Some (st, Some new)"
    and "validate_canonical_quant_tensor old = Some kOk"
  shows "validate_canonical_quant_tensor new = Some kOk"
proof -
  obtain mid where "import_gptq_u4 throws src (Some old) = Some (st, Some mid)" "new = mid \<or> new = mid\<lparr>provenance := kAutoRound\<rparr>"
    using assms(1) by (auto simp: import_autoround_gptq_u4_def split: Option.bind_splits if_splits)
  then show ?thesis using commits_valid [OF gptq_commits _ assms(2)] by auto
qed

text \<open>
  C27: well-formedness is an invariant of the tensor type: a tensor that passes validation still passes it after any sequence of
  calls of the importers on it, whether they succeed, reject their source or run out of memory.
\<close>

theorem imports_keep_tensor_valid:
  assumes "import_session t u" "validate_canonical_quant_tensor t = Some kOk"
  shows "validate_canonical_quant_tensor u = Some kOk"
  using assms
proof induction
  case start
  then show ?case .
next
  case awq
  then show ?case using commits_valid [OF awq_commits] by blast
next
  case gptq
  then show ?case using commits_valid [OF gptq_commits] by blast
next
  case autoround_gptq
  then show ?case using autoround_gptq_valid by blast
next
  case autoround
  then show ?case using commits_valid [OF autoround_canonical_commits] by blast
next
  case smoothquant
  then show ?case using commits_valid [OF smoothquant_commits] by blast
next
  case bitnet
  then show ?case using commits_valid [OF bitnet_commits] by blast
qed

lemma imports_keep_tensor_valid_witness:
  "\<exists>u. import_awq_u4 False demo_awq (Some demo_tensor) = Some (kOk, Some u) \<and> validate_canonical_quant_tensor u = Some kOk"
proof -
  obtain u where u: "import_awq_u4 False demo_awq (Some demo_tensor) = Some (kOk, Some u)"
    using awq_accepts [OF demo_awq_ok] by blast
  then have "import_session demo_tensor u" by (rule import_session.awq [OF import_session.start])
  from imports_keep_tensor_valid [OF this demo_tensor_valid] u show ?thesis by blast
qed

end
