(* ===== verification/CpuFeatures.thy ===== *)
theory CpuFeatures
  imports Word_Lemmas
begin

text \<open>
  \<^verbatim>\<open>include/quixicore_cpu/cpu_features.h\<close>, \<^verbatim>\<open>src/runtime/cpu_features*.cpp\<close> and \<^verbatim>\<open>src/backend.cpp\<close>:
  what the executing machine is found to support. The answers of the machine and of its operating
  system are parameters: \<open>cpuid\<close> (leaf and subleaf to the four registers), \<open>xgetbv0\<close>, the
  \<^verbatim>\<open>sysctl\<close>, \<^verbatim>\<open>getauxval\<close> and \<^verbatim>\<open>IsProcessorFeaturePresent\<close> queries, and the target macros.
\<close>

unbundle bit_operations_syntax

section \<open>Features\<close>

record CpuFeatures =
  fma :: bool
  f16c :: bool
  avx2 :: bool
  avx512f :: bool
  avx512bw :: bool
  avx512vl :: bool
  avx512dq :: bool
  avx512_vnni :: bool
  amx_tile :: bool
  amx_int8 :: bool
  amx_bf16 :: bool
  neon :: bool
  fp16 :: bool
  dotprod :: bool
  i8mm :: bool
  sve :: bool
  sve2 :: bool
  sme :: bool
  sme2 :: bool

definition no_features :: CpuFeatures where
  "no_features = \<lparr>fma = False, f16c = False, avx2 = False, avx512f = False, avx512bw = False,
     avx512vl = False, avx512dq = False, avx512_vnni = False, amx_tile = False, amx_int8 = False,
     amx_bf16 = False, neon = False, fp16 = False, dotprod = False, i8mm = False, sve = False,
     sve2 = False, sme = False, sme2 = False\<rparr>"

record FeatureHint =
  h_name :: string
  available :: bool
  h_source :: string

definition runtime_feature_hints :: "CpuFeatures \<Rightarrow> FeatureHint list" where
  "runtime_feature_hints f =
     map (\<lambda>(n, a). \<lparr>h_name = n, available = a, h_source = ''runtime detection''\<rparr>)
       [(''fma'', fma f), (''f16c'', f16c f), (''avx2'', avx2 f), (''avx512f'', avx512f f),
        (''avx512bw'', avx512bw f), (''avx512vl'', avx512vl f), (''avx512dq'', avx512dq f),
        (''avx512_vnni'', avx512_vnni f), (''amx_tile'', amx_tile f), (''amx_int8'', amx_int8 f),
        (''amx_bf16'', amx_bf16 f), (''neon'', neon f), (''arm_fp16'', fp16 f),
        (''arm_dotprod'', dotprod f), (''arm_i8mm'', i8mm f), (''sve'', sve f), (''sve2'', sve2 f),
        (''sme'', sme f), (''sme2'', sme2 f)]"

section \<open>x86-64\<close>

record CpuidRegs =
  eax :: u32
  ebx :: u32
  ecx :: u32
  edx :: u32

definition cpu_bit :: "u32 \<Rightarrow> nat \<Rightarrow> bool" where
  "cpu_bit v index \<longleftrightarrow> drop_bit index v AND 1 \<noteq> 0"

definition kXcr0Avx :: u64 where "kXcr0Avx = 0x6"
definition kXcr0Avx512 :: u64 where "kXcr0Avx512 = 0xE6"
definition kXcr0Amx :: u64 where "kXcr0Amx = 0x60000"

definition detect_x86_64 :: "(u32 \<Rightarrow> u32 \<Rightarrow> CpuidRegs) \<Rightarrow> u64 \<Rightarrow> CpuFeatures" where
  "detect_x86_64 cpuid xgetbv0 =
     (let leaf0 = cpuid 0 0
      in if eax leaf0 < 1 then no_features
         else
           let leaf1 = cpuid 1 0;
               xcr0 = (if cpu_bit (ecx leaf1) 27 then xgetbv0 else 0);
               os_avx = (xcr0 AND kXcr0Avx = kXcr0Avx);
               os_avx512 = (xcr0 AND kXcr0Avx512 = kXcr0Avx512);
               os_amx = (xcr0 AND kXcr0Amx = kXcr0Amx);
               f = no_features\<lparr>fma := os_avx \<and> cpu_bit (ecx leaf1) 12,
                     f16c := os_avx \<and> cpu_bit (ecx leaf1) 29\<rparr>
           in if eax leaf0 < 7 then f
              else
                let leaf7 = cpuid 7 0; f512 = (os_avx512 \<and> cpu_bit (ebx leaf7) 16)
                in f\<lparr>avx2 := os_avx \<and> cpu_bit (ebx leaf7) 5,
                     avx512f := f512,
                     avx512dq := f512 \<and> cpu_bit (ebx leaf7) 17,
                     avx512bw := f512 \<and> cpu_bit (ebx leaf7) 30,
                     avx512vl := f512 \<and> cpu_bit (ebx leaf7) 31,
                     avx512_vnni := f512 \<and> cpu_bit (ecx leaf7) 11,
                     amx_bf16 := os_amx \<and> cpu_bit (edx leaf7) 22,
                     amx_tile := os_amx \<and> cpu_bit (edx leaf7) 24,
                     amx_int8 := os_amx \<and> cpu_bit (edx leaf7) 25\<rparr>)"

section \<open>AArch64\<close>

text \<open>
  The three operating systems: the value of a \<^verbatim>\<open>sysctl\<close> key (absent: \<open>None\<close>); the two auxiliary
  vectors with the masks the libc headers define (a macro a header lacks is \<open>None\<close>); the processor
  feature queries the SDK names (\<open>None\<close> when it does not).
\<close>

record HwcapMacros =
  HWCAP_ASIMDDP :: "u64 option"
  HWCAP_ASIMDHP :: "u64 option"
  HWCAP_SVE :: "u64 option"
  HWCAP2_SVE2 :: "u64 option"
  HWCAP2_I8MM :: "u64 option"
  HWCAP2_SME :: "u64 option"
  HWCAP2_SME2 :: "u64 option"

datatype aarch64_os =
    Apple "string \<Rightarrow> int option"
  | Linux HwcapMacros u64 u64
  | Windows "string \<Rightarrow> bool option"
  | Other_os

definition sysctl_flag :: "(string \<Rightarrow> int option) \<Rightarrow> string \<Rightarrow> bool" where
  "sysctl_flag sysctl name = (case sysctl name of None \<Rightarrow> False | Some v \<Rightarrow> v \<noteq> 0)"

definition hwcap_flag :: "u64 \<Rightarrow> u64 option \<Rightarrow> bool" where
  "hwcap_flag hwcap macro = (case macro of None \<Rightarrow> False | Some m \<Rightarrow> hwcap AND m \<noteq> 0)"

definition detect_aarch64 :: "aarch64_os \<Rightarrow> CpuFeatures" where
  "detect_aarch64 os =
     (let f = no_features\<lparr>neon := True\<rparr>
      in case os of
           Apple sysctl \<Rightarrow>
             f\<lparr>fp16 := sysctl_flag sysctl ''hw.optional.arm.FEAT_FP16'',
               dotprod := sysctl_flag sysctl ''hw.optional.arm.FEAT_DotProd'',
               i8mm := sysctl_flag sysctl ''hw.optional.arm.FEAT_I8MM'',
               sve := sysctl_flag sysctl ''hw.optional.arm.FEAT_SVE'',
               sme := sysctl_flag sysctl ''hw.optional.arm.FEAT_SME'',
               sme2 := sysctl_flag sysctl ''hw.optional.arm.FEAT_SME2''\<rparr>
         | Linux m hwcap hwcap2 \<Rightarrow>
             f\<lparr>dotprod := hwcap_flag hwcap (HWCAP_ASIMDDP m),
               fp16 := hwcap_flag hwcap (HWCAP_ASIMDHP m),
               sve := hwcap_flag hwcap (HWCAP_SVE m),
               sve2 := hwcap_flag hwcap2 (HWCAP2_SVE2 m),
               i8mm := hwcap_flag hwcap2 (HWCAP2_I8MM m),
               sme := hwcap_flag hwcap2 (HWCAP2_SME m),
               sme2 := hwcap_flag hwcap2 (HWCAP2_SME2 m)\<rparr>
         | Windows present \<Rightarrow>
             let q = (\<lambda>name. present name = Some True)
             in f\<lparr>fp16 := q ''PF_ARM_V82_FP16_INSTRUCTIONS_AVAILABLE'',
                  dotprod := q ''PF_ARM_V82_DP_INSTRUCTIONS_AVAILABLE'',
                  sve := q ''PF_ARM_SVE_INSTRUCTIONS_AVAILABLE'',
                  sve2 := q ''PF_ARM_SVE2_INSTRUCTIONS_AVAILABLE'',
                  i8mm := q ''PF_ARM_SVE_I8MM_INSTRUCTIONS_AVAILABLE''\<rparr>
         | Other_os \<Rightarrow> f)"

text \<open>The machine a build targets; any other architecture reports nothing.\<close>

datatype machine =
    X86_64 "u32 \<Rightarrow> u32 \<Rightarrow> CpuidRegs" u64
  | AArch64 aarch64_os
  | Other_machine

definition detect_cpu_features :: "machine \<Rightarrow> CpuFeatures" where
  "detect_cpu_features m =
     (case m of
        X86_64 cpuid xgetbv0 \<Rightarrow> detect_x86_64 cpuid xgetbv0
      | AArch64 os \<Rightarrow> detect_aarch64 os
      | Other_machine \<Rightarrow> no_features)"

section \<open>The backend's metadata\<close>

definition kSupportedKernelFamilies :: "string list" where
  "kSupportedKernelFamilies =
     [''norms'', ''softmax'', ''activations'', ''causal_attention'', ''paged_attention'', ''mla_decode'',
      ''quant_gemv'', ''quant_gemm'', ''quantized_lm_head'', ''sampling'', ''beam_search'',
      ''speculative_decode'', ''mamba_ssd'', ''moe_routing'', ''grouped_moe_gemm'', ''optimizers'']"

definition is_kernel_family_supported :: "string \<Rightarrow> bool" where
  "is_kernel_family_supported family = List.member kSupportedKernelFamilies family"

record BackendMetadata =
  backend :: string
  b_name :: string
  repo :: string
  umbrella :: string
  contract :: string
  b_status :: string
  targets :: "string list"
  integrations :: "string list"

definition backend_metadata :: BackendMetadata where
  "backend_metadata = \<lparr>backend = ''cpu'', b_name = ''QuixiCore CPU'', repo = ''QuixiAI/QuixiCore-CPU'',
     umbrella = ''QuixiAI/QuixiCore'', contract = ''v0.1'', b_status = ''active'',
     targets = [''x86_64'', ''aarch64''], integrations = [''SIMD'', ''threading'']\<rparr>"

section \<open>What detection guarantees\<close>

text \<open>
  The dependencies the dispatch layer relies on: an AVX-512 extension comes with AVX-512F, and no
  vector feature is reported whose register state the operating system does not save.
\<close>

definition features_closed :: "CpuFeatures \<Rightarrow> bool" where
  "features_closed f \<longleftrightarrow>
     (avx512bw f \<or> avx512vl f \<or> avx512dq f \<or> avx512_vnni f \<longrightarrow> avx512f f) \<and>
     (fma f \<or> f16c f \<or> avx2 f \<or> avx512f f \<or> amx_tile f \<or> amx_int8 f \<or> amx_bf16 f \<longrightarrow>
        \<not> neon f \<and> \<not> fp16 f \<and> \<not> dotprod f \<and> \<not> i8mm f \<and> \<not> sve f \<and> \<not> sve2 f \<and> \<not> sme f \<and> \<not> sme2 f) \<and>
     (fp16 f \<or> dotprod f \<or> i8mm f \<or> sve f \<or> sve2 f \<or> sme f \<or> sme2 f \<longrightarrow> neon f)"

lemma no_features_closed: "features_closed no_features"
  by (simp add: features_closed_def no_features_def)

lemma detect_aarch64_closed: "features_closed (detect_aarch64 os)"
  by (cases os) (auto simp: detect_aarch64_def features_closed_def no_features_def Let_def)

lemma detect_x86_64_closed: "features_closed (detect_x86_64 cpuid xgetbv0)"
  by (auto simp: detect_x86_64_def features_closed_def no_features_def Let_def)

text \<open>
  The detected features are closed under the dependencies, on every machine: AVX-512 extensions
  imply AVX-512F, and features of the two architectures never mix.
\<close>

theorem detected_features_closed: "features_closed (detect_cpu_features m)"
  by (cases m) (simp_all add: detect_cpu_features_def detect_x86_64_closed detect_aarch64_closed no_features_closed)


text \<open>A machine with AVX2 and FMA, and the same with FMA masked.\<close>

definition demo_cpuid :: "bool \<Rightarrow> u32 \<Rightarrow> u32 \<Rightarrow> CpuidRegs" where
  "demo_cpuid with_fma leaf subleaf =
     (if leaf = 0 then \<lparr>eax = 7, ebx = 0, ecx = 0, edx = 0\<rparr>
      else if leaf = 1 then \<lparr>eax = 0, ebx = 0, ecx = (if with_fma then 0x08001000 else 0x08000000), edx = 0\<rparr>
      else \<lparr>eax = 0, ebx = 0x20, ecx = 0, edx = 0\<rparr>)"

lemma demo_detect:
  "detect_x86_64 (demo_cpuid b) 0x6 = no_features\<lparr>fma := b, avx2 := True\<rparr>"
  by (cases b) (simp_all add: detect_x86_64_def demo_cpuid_def cpu_bit_def kXcr0Avx_def kXcr0Avx512_def
      kXcr0Amx_def no_features_def)


end
