(* ===== verification/GgufFormat.thy ===== *)
theory GgufFormat
  imports CPU_Prelude
begin

text \<open>
  The quantized weight and activation formats of \<^verbatim>\<open>include/quixicore_cpu/qgemv.h\<close> with their block
  geometry (\<^verbatim>\<open>gguf_format_info\<close> of \<^verbatim>\<open>kernels/quantization/gguf_ref.cpp\<close>), and the sizes of packed
  matrices as \<^verbatim>\<open>src/dispatch/qgemv.cpp\<close> validates and computes them.
\<close>

datatype QuantFormat =
    kQ8_0 | kQ4_0 | kQ4_1 | kQ5_0 | kQ5_1 | kU4B8 | kU4 | kHQQ | kFP8E4M3 | kFP8E5M2 | kFP8Block | kFP8Raw
  | kFP4E2M1 | kMXFP8 | kNVFP4 | kMXFP4 | kMXFP6E3M2 | kMXFP6E2M3 | kBitnet | kQ2_K | kQ3_K | kQ4_K | kQ5_K
  | kQ6_K | kIQ4_NL | kIQ4_XS | kIQ2_XXS | kIQ2_XS | kIQ3_XXS | kIQ1_S | kTQ2_0 | kQ1_0 | kQ2_0 | kIQ3_S
  | kIQ2_S | kIQ1_M | kTQ1_0

datatype QuantActivationFormat = kQ8_0_activation | kQ8_1_activation | kQ8_K_activation

text \<open>Elements per block and bytes per block.\<close>

fun gguf_format_info :: "QuantFormat \<Rightarrow> int \<times> int" where
  "gguf_format_info kQ1_0 = (128, 18)"
| "gguf_format_info kQ2_0 = (64, 18)"
| "gguf_format_info kQ8_0 = (32, 34)"
| "gguf_format_info kQ4_0 = (32, 18)"
| "gguf_format_info kQ4_1 = (32, 20)"
| "gguf_format_info kQ5_0 = (32, 22)"
| "gguf_format_info kQ5_1 = (32, 24)"
| "gguf_format_info kU4B8 = (128, 66)"
| "gguf_format_info kU4 = (128, 68)"
| "gguf_format_info kHQQ = (64, 36)"
| "gguf_format_info kFP8E4M3 = (32, 34)"
| "gguf_format_info kFP8E5M2 = (32, 34)"
| "gguf_format_info kFP8Block = (128, 130)"
| "gguf_format_info kFP8Raw = (128, 128)"
| "gguf_format_info kFP4E2M1 = (32, 18)"
| "gguf_format_info kMXFP8 = (32, 33)"
| "gguf_format_info kNVFP4 = (64, 36)"
| "gguf_format_info kMXFP4 = (32, 17)"
| "gguf_format_info kMXFP6E3M2 = (32, 25)"
| "gguf_format_info kMXFP6E2M3 = (32, 25)"
| "gguf_format_info kBitnet = (32, 10)"
| "gguf_format_info kQ2_K = (256, 84)"
| "gguf_format_info kQ3_K = (256, 110)"
| "gguf_format_info kQ4_K = (256, 144)"
| "gguf_format_info kQ5_K = (256, 176)"
| "gguf_format_info kQ6_K = (256, 210)"
| "gguf_format_info kIQ4_NL = (32, 18)"
| "gguf_format_info kIQ4_XS = (256, 136)"
| "gguf_format_info kIQ2_XXS = (256, 66)"
| "gguf_format_info kIQ2_XS = (256, 74)"
| "gguf_format_info kIQ3_XXS = (256, 98)"
| "gguf_format_info kIQ3_S = (256, 110)"
| "gguf_format_info kIQ2_S = (256, 82)"
| "gguf_format_info kIQ1_S = (256, 50)"
| "gguf_format_info kIQ1_M = (256, 56)"
| "gguf_format_info kTQ1_0 = (256, 54)"
| "gguf_format_info kTQ2_0 = (256, 66)"

text \<open>The three activation blocks: a half scale and 32 codes; two halves and 32 codes; a float scale,
  256 codes and 16 \<^verbatim>\<open>int16\<close> sums.\<close>

fun activation_format_info :: "QuantActivationFormat \<Rightarrow> int \<times> int" where
  "activation_format_info kQ8_0_activation = (32, 34)"
| "activation_format_info kQ8_1_activation = (32, 36)"
| "activation_format_info kQ8_K_activation = (256, 292)"

definition block_size :: "QuantFormat \<Rightarrow> int" where "block_size f = fst (gguf_format_info f)"
definition block_bytes :: "QuantFormat \<Rightarrow> int" where "block_bytes f = snd (gguf_format_info f)"

lemma block_size_pos [simp]: "0 < block_size f" "0 < block_bytes f" "block_size f \<le> 256" "block_bytes f \<le> 210"
  by (cases f; simp add: block_size_def block_bytes_def)+

text \<open>\<^verbatim>\<open>size_t\<close> products, here by their exact value: \<open>checked_size_mul\<close> fails where the product would wrap.\<close>

definition checked_size_mul :: "int \<Rightarrow> int \<Rightarrow> int option" where
  "checked_size_mul a b = (if a \<noteq> 0 \<and> b > SIZE_MAX div a then None else Some (a * b))"

text \<open>\<^verbatim>\<open>validate\<close>: the guards are evaluated left to right, so no division is by zero.\<close>

definition validate_block :: "int \<Rightarrow> int \<Rightarrow> int \<Rightarrow> status" where
  "validate_block sz n k =
     (if n \<le> 0 \<or> k \<le> 0 \<or> crem k sz \<noteq> 0 then kInvalidShape
      else if n > LLONG_MAX div k \<or> n > LLONG_MAX div (k div sz) then kInvalidShape
      else kOk)"

definition validate :: "QuantFormat \<Rightarrow> int \<Rightarrow> int \<Rightarrow> status" where
  "validate f n k = validate_block (block_size f) n k"

definition packed_size :: "QuantFormat \<Rightarrow> int \<Rightarrow> int \<Rightarrow> status \<times> int option" where
  "packed_size f n k =
     (case checked_size_mul n (k div block_size f) of
        None \<Rightarrow> (kInvalidShape, None)
      | Some blocks \<Rightarrow>
          (case checked_size_mul blocks (block_bytes f) of
             None \<Rightarrow> (kInvalidShape, None)
           | Some bytes \<Rightarrow> (kOk, Some bytes)))"

text \<open>The output pointer: \<open>has_size\<close> is whether it is not null.\<close>

definition qgemv_packed_size :: "QuantFormat \<Rightarrow> int \<Rightarrow> int \<Rightarrow> bool \<Rightarrow> status \<times> int option" where
  "qgemv_packed_size f n k has_size =
     (if validate f n k \<noteq> kOk then (validate f n k, None)
      else if \<not> has_size then (kInvalidArgument, None)
      else packed_size f n k)"

definition validate_activation :: "QuantActivationFormat \<Rightarrow> int \<Rightarrow> int \<Rightarrow> status" where
  "validate_activation f n k = validate_block (fst (activation_format_info f)) n k"

definition activation_packed_size :: "QuantActivationFormat \<Rightarrow> int \<Rightarrow> int \<Rightarrow> status \<times> int option" where
  "activation_packed_size f n k =
     (case checked_size_mul n (k div fst (activation_format_info f)) of
        None \<Rightarrow> (kInvalidShape, None)
      | Some blocks \<Rightarrow>
          (case checked_size_mul blocks (snd (activation_format_info f)) of
             None \<Rightarrow> (kInvalidShape, None)
           | Some bytes \<Rightarrow> (kOk, Some bytes)))"

definition quant_activation_packed_size ::
  "QuantActivationFormat \<Rightarrow> int \<Rightarrow> int \<Rightarrow> bool \<Rightarrow> status \<times> int option" where
  "quant_activation_packed_size f n k has_size =
     (if validate_activation f n k \<noteq> kOk then (validate_activation f n k, None)
      else if \<not> has_size then (kInvalidArgument, None)
      else activation_packed_size f n k)"

section \<open>The sizes are exact\<close>

lemma checked_size_mul_Some:
  "0 \<le> a \<Longrightarrow> checked_size_mul a b = Some c \<longleftrightarrow> c = a * b \<and> (a = 0 \<or> a * b \<le> SIZE_MAX)"
  using le_div_iff [of a b SIZE_MAX]
  by (cases "a = 0") (auto simp: checked_size_mul_def not_less mult.commute)

lemma validate_kOk:
  "validate f n k = kOk \<longleftrightarrow>
    0 < n \<and> 0 < k \<and> block_size f dvd k \<and> n * k \<le> LLONG_MAX"
proof (cases "0 < n \<and> 0 < k \<and> block_size f dvd k")
  case True
  then have n: "0 < n" and k: "0 < k" and d: "block_size f dvd k" by auto
  note b = dvd_div_bounds [OF block_size_pos(1) k d]
  have "n * (k div block_size f) \<le> n * k" using n b by (intro mult_left_mono) auto
  then have "n * k \<le> LLONG_MAX \<Longrightarrow> n * (k div block_size f) \<le> LLONG_MAX" by linarith
  then show ?thesis
    using n k d le_div_iff [OF k, of n LLONG_MAX] le_div_iff [OF b(1), of n LLONG_MAX] block_size_pos(1) [of f]
    by (auto simp: validate_def validate_block_def crem_eq_0_iff)
next
  case False
  then show ?thesis
    using block_size_pos(1) [of f] by (auto simp: validate_def validate_block_def crem_eq_0_iff)
qed

lemma qgemv_packed_size_exact':
  "qgemv_packed_size f n k True = (kOk, Some bytes) \<longleftrightarrow>
     0 < n \<and> 0 < k \<and> block_size f dvd k \<and> n * k \<le> LLONG_MAX \<and>
     bytes = n * (k div block_size f) * block_bytes f \<and> bytes \<le> SIZE_MAX"
proof (cases "validate f n k = kOk")
  case True
  then have v: "0 < n" "0 < k" "block_size f dvd k" "n * k \<le> LLONG_MAX" by (simp_all add: validate_kOk)
  let ?b = "n * (k div block_size f)"
  note b = dvd_div_bounds [OF block_size_pos(1) v(2,3)]
  have "?b \<le> n * k" using v b by (intro mult_left_mono) auto
  then have le: "?b \<le> SIZE_MAX" using v(4) by (simp add: int_limits)
  have pos: "0 < ?b" using v b by simp
  have c: "checked_size_mul n (k div block_size f) = Some ?b" using le v(1) by (simp add: checked_size_mul_Some)
  show ?thesis
    using True v pos c checked_size_mul_Some [of ?b "block_bytes f"]
    by (auto simp: qgemv_packed_size_def packed_size_def split: option.splits)
qed (auto simp: qgemv_packed_size_def validate_kOk)

text \<open>
  \<^verbatim>\<open>qgemv_packed_size\<close> answers \<^verbatim>\<open>kOk\<close> exactly for a positive shape of whole blocks whose element
  count fits a \<^verbatim>\<open>long long\<close> and whose byte count fits a \<^verbatim>\<open>size_t\<close>, and then with the exact byte count.
\<close>

theorem qgemv_packed_size_exact:
  "qgemv_packed_size f n k True = (kOk, Some bytes) \<longleftrightarrow>
     0 < n \<and> 0 < k \<and> block_size f dvd k \<and> n * k \<le> LLONG_MAX \<and>
     bytes = n * (k div block_size f) * block_bytes f \<and> bytes \<le> SIZE_MAX"
  by (rule qgemv_packed_size_exact')

end
