(* ===== verification/Dispatch.thy ===== *)
theory Dispatch
  imports CpuFeatures GgufFormat
begin

text \<open>
  The dispatch tables of \<^verbatim>\<open>src/dispatch/\<close>: a kernel family lists its variants slowest first, each with a
  predicate on the detected features; an environment variable may force one by name; otherwise the
  last supported one wins. Which variants are compiled in is the \<open>build\<close>, one flag per macro.
\<close>

section \<open>Resolution\<close>

record variant =
  v_name :: string
  supported :: "CpuFeatures \<Rightarrow> bool"
  automatic :: bool

text \<open>The first variant of the forced name that is supported.\<close>

definition forced_variant :: "variant list \<Rightarrow> CpuFeatures \<Rightarrow> string option \<Rightarrow> variant option" where
  "forced_variant vs f forced =
     (case forced of None \<Rightarrow> None | Some name \<Rightarrow> find (\<lambda>v. v_name v = name \<and> supported v f) vs)"

definition best_variant :: "variant list \<Rightarrow> CpuFeatures \<Rightarrow> variant" where
  "best_variant vs f = foldl (\<lambda>best v. if automatic v \<and> supported v f then v else best) (hd vs) vs"

definition resolve :: "variant list \<Rightarrow> CpuFeatures \<Rightarrow> string option \<Rightarrow> variant" where
  "resolve vs f forced =
     (case forced_variant vs f forced of Some v \<Rightarrow> v | None \<Rightarrow> best_variant vs f)"

section \<open>The tables\<close>

record build =
  on_aarch64 :: bool
  have_gguf_avx2 :: bool
  have_gguf_avx512 :: bool
  have_int8_avx2 :: bool
  have_int8_dotprod :: bool
  have_int8_avx512_vnni :: bool
  have_int8_i8mm :: bool
  have_w8a32_avx2 :: bool
  have_w8a32_avx512 :: bool
  have_lowbit_avx2 :: bool
  have_lowbit_dotprod :: bool
  have_lowbit_i8mm :: bool
  have_lowbit_avx512_vnni :: bool
  have_qgemv_dotprod :: bool

definition ref_variant :: variant where
  "ref_variant = \<lparr>v_name = ''ref'', supported = \<lambda>_. True, automatic = True\<rparr>"

definition entry :: "bool \<Rightarrow> string \<Rightarrow> (CpuFeatures \<Rightarrow> bool) \<Rightarrow> variant list" where
  "entry present name p = (if present then [\<lparr>v_name = name, supported = p, automatic = True\<rparr>] else [])"

definition avx512_base :: "CpuFeatures \<Rightarrow> bool" where
  "avx512_base f \<longleftrightarrow> avx512f f \<and> avx512bw f \<and> avx512vl f \<and> avx512dq f"

definition qgemv_gguf_variants :: "build \<Rightarrow> variant list" where
  "qgemv_gguf_variants b =
     [ref_variant, \<lparr>v_name = ''blocked_ref'', supported = \<lambda>_. True, automatic = False\<rparr>] @
     entry (on_aarch64 b) ''neon'' neon @
     entry (have_gguf_avx2 b) ''avx2'' avx2 @
     (if have_gguf_avx512 b then [\<lparr>v_name = ''avx512'', supported = avx512_base, automatic = False\<rparr>] else [])"

definition qgemv_q8_0_variants :: "build \<Rightarrow> variant list" where
  "qgemv_q8_0_variants b = [ref_variant] @ entry (on_aarch64 b) ''neon'' neon"

definition rms_norm_variants :: "build \<Rightarrow> variant list" where
  "rms_norm_variants b = [ref_variant] @ entry (on_aarch64 b) ''neon'' neon"

definition int8_gemm_variants :: "build \<Rightarrow> variant list" where
  "int8_gemm_variants b =
     [ref_variant] @ entry (have_int8_avx2 b) ''avx2'' avx2 @
     entry (have_int8_dotprod b) ''dotprod'' dotprod @
     entry (have_int8_avx512_vnni b) ''avx512_vnni'' (\<lambda>f. avx512_base f \<and> avx512_vnni f) @
     entry (have_int8_i8mm b) ''i8mm'' i8mm"

definition w8a32_variants :: "build \<Rightarrow> variant list" where
  "w8a32_variants b =
     [ref_variant] @ entry (on_aarch64 b) ''neon'' neon @
     entry (have_w8a32_avx2 b) ''avx2'' (\<lambda>f. avx2 f \<and> fma f) @
     entry (have_w8a32_avx512 b) ''avx512'' avx512_base"

definition lowbit_w8a8_variants :: "build \<Rightarrow> variant list" where
  "lowbit_w8a8_variants b =
     [ref_variant] @ entry (have_lowbit_avx2 b) ''avx2'' avx2 @
     entry (have_lowbit_dotprod b) ''dotprod'' dotprod @
     entry (have_lowbit_i8mm b) ''i8mm'' i8mm @
     entry (have_lowbit_avx512_vnni b) ''avx512_vnni'' (\<lambda>f. avx512_base f \<and> avx512_vnni f)"

definition qgemv_w8a8_variants :: "build \<Rightarrow> variant list" where
  "qgemv_w8a8_variants b = [ref_variant] @ entry (have_qgemv_dotprod b) ''dotprod'' dotprod"

section \<open>The names the library reports\<close>

text \<open>\<open>env\<close> is \<^verbatim>\<open>std::getenv\<close>.\<close>

definition qgemv_variant :: "build \<Rightarrow> CpuFeatures \<Rightarrow> (string \<Rightarrow> string option) \<Rightarrow> QuantFormat \<Rightarrow> string" where
  "qgemv_variant b f env format =
     (if format = kQ8_0
      then v_name (resolve (qgemv_q8_0_variants b) f (env ''QUIXICORE_CPU_QGEMV_VARIANT''))
      else let name = v_name (resolve (qgemv_gguf_variants b) f (env ''QUIXICORE_CPU_GGUF_GEMV_VARIANT''))
           in if format = kQ4_0 \<and> name = ''ref'' then ''q4_0_ref'' else name)"

definition qgemv_w8a8_variant :: "build \<Rightarrow> CpuFeatures \<Rightarrow> (string \<Rightarrow> string option) \<Rightarrow> QuantFormat \<Rightarrow> string" where
  "qgemv_w8a8_variant b f env format =
     (if format = kQ8_0 \<or> format = kQ4_0
      then v_name (resolve (qgemv_w8a8_variants b) f (env ''QUIXICORE_CPU_QGEMV_W8A8_VARIANT''))
      else ''unsupported'')"

text \<open>
  The integer GEMMs run the scalar anchor instead of the resolved variant when the contraction is too
  long for 32-bit accumulators.
\<close>

definition int8_gemm_kernel :: "build \<Rightarrow> CpuFeatures \<Rightarrow> (string \<Rightarrow> string option) \<Rightarrow> int \<Rightarrow> variant" where
  "int8_gemm_kernel b f env k =
     (let v = resolve (int8_gemm_variants b) f (env ''QUIXICORE_CPU_INT8_GEMM_VARIANT'')
      in if k > 131000 then ref_variant else v)"

definition lowbit_w8a8_kernel :: "build \<Rightarrow> CpuFeatures \<Rightarrow> (string \<Rightarrow> string option) \<Rightarrow> int \<Rightarrow> variant" where
  "lowbit_w8a8_kernel b f env k =
     (let v = resolve (lowbit_w8a8_variants b) f (env ''QUIXICORE_CPU_LOWBIT_W8A8_VARIANT'')
      in if k > 131000 then ref_variant else v)"

section \<open>Every table resolves to a supported variant\<close>

locale variant_table =
  fixes table :: "build \<Rightarrow> variant list"
  assumes head: "\<exists>vs. table b = ref_variant # vs"
begin

lemma best_supported: "best_variant (table b) f \<in> set (table b) \<and> supported (best_variant (table b) f) f"
proof -
  obtain vs where t: "table b = ref_variant # vs" using head by blast
  have "foldl (\<lambda>best v. if automatic v \<and> supported v f then v else best) v0 us \<in> insert v0 (set us) \<and>
      supported (foldl (\<lambda>best v. if automatic v \<and> supported v f then v else best) v0 us) f"
    if "supported v0 f" for v0 us
    using that by (induction us arbitrary: v0) (auto split: if_splits)
  from this [of ref_variant "table b"] show ?thesis by (simp add: best_variant_def t ref_variant_def)
qed

lemma resolve_supported: "resolve (table b) f forced \<in> set (table b) \<and> supported (resolve (table b) f forced) f"
proof (cases "forced_variant (table b) f forced")
  case None
  then show ?thesis using best_supported by (simp add: resolve_def)
next
  case (Some v)
  then have "v \<in> set (table b) \<and> supported v f"
    by (auto simp: forced_variant_def find_Some_iff split: option.splits)
  with Some show ?thesis by (simp add: resolve_def)
qed

lemma best_is_last:
  assumes "v \<in> set (table b)" "automatic v" "supported v f"
  shows "\<exists>us vs. table b = us @ best_variant (table b) f # vs \<and> (\<forall>w \<in> set vs. \<not> (automatic w \<and> supported w f))"
proof -
  have "\<exists>us' vs. us = us' @ foldl (\<lambda>best v. if automatic v \<and> supported v f then v else best) v0 us # vs \<and>
      (\<forall>w \<in> set vs. \<not> (automatic w \<and> supported w f))"
    if "v \<in> set us" for v0 us
    using that
  proof (induction us rule: rev_induct)
    case (snoc u us)
    show ?case
    proof (cases "automatic u \<and> supported u f")
      case True
      then show ?thesis by (intro exI [of _ us] exI [of _ "[]"]) simp
    next
      case False
      with snoc.prems assms(2,3) have "v \<in> set us" by auto
      from snoc.IH [OF this] obtain us' vs where
        "us = us' @ foldl (\<lambda>best v. if automatic v \<and> supported v f then v else best) v0 us # vs"
        "\<forall>w \<in> set vs. \<not> (automatic w \<and> supported w f)" by blast
      then have one: "us @ [u] = us' @ foldl (\<lambda>best v. if automatic v \<and> supported v f then v else best) v0 us # (vs @ [u])"
        "\<forall>w \<in> set (vs @ [u]). \<not> (automatic w \<and> supported w f)" using False by auto
      have two: "foldl (\<lambda>best v. if automatic v \<and> supported v f then v else best) v0 (us @ [u]) =
          foldl (\<lambda>best v. if automatic v \<and> supported v f then v else best) v0 us" using False by auto
      show ?thesis by (intro exI conjI, subst two) (rule one)+
    qed
  qed simp
  from this [OF assms(1), of "hd (table b)"] show ?thesis unfolding best_variant_def .
qed

end

interpretation gguf: variant_table qgemv_gguf_variants
  by unfold_locales (simp add: qgemv_gguf_variants_def)
interpretation q8_0: variant_table qgemv_q8_0_variants
  by unfold_locales (simp add: qgemv_q8_0_variants_def)
interpretation rms: variant_table rms_norm_variants
  by unfold_locales (simp add: rms_norm_variants_def)
interpretation int8: variant_table int8_gemm_variants
  by unfold_locales (simp add: int8_gemm_variants_def)
interpretation w8a32: variant_table w8a32_variants
  by unfold_locales (simp add: w8a32_variants_def)
interpretation lowbit: variant_table lowbit_w8a8_variants
  by unfold_locales (simp add: lowbit_w8a8_variants_def)
interpretation w8a8: variant_table qgemv_w8a8_variants
  by unfold_locales (simp add: qgemv_w8a8_variants_def)

lemmas variant_tables = qgemv_gguf_variants_def qgemv_q8_0_variants_def rms_norm_variants_def
  int8_gemm_variants_def w8a32_variants_def lowbit_w8a8_variants_def qgemv_w8a8_variants_def

definition demo_build :: build where
  "demo_build = \<lparr>on_aarch64 = False, have_gguf_avx2 = True, have_gguf_avx512 = True, have_int8_avx2 = True,
     have_int8_dotprod = False, have_int8_avx512_vnni = True, have_int8_i8mm = False, have_w8a32_avx2 = True,
     have_w8a32_avx512 = True, have_lowbit_avx2 = True, have_lowbit_dotprod = False, have_lowbit_i8mm = False,
     have_lowbit_avx512_vnni = True, have_qgemv_dotprod = False\<rparr>"



text \<open>
  The AVX2 translation units are compiled with FMA and use it, yet the predicate of the GGUF variant
  asks for AVX2 only: on a machine that reports AVX2 with FMA masked off the default choice is a kernel
  whose instructions the machine lacks. The W8A32 table asks for both.
\<close>

lemma gguf_avx2_without_fma:
  assumes "have_gguf_avx2 b" "\<not> on_aarch64 b"
  defines "f \<equiv> detect_cpu_features (X86_64 (demo_cpuid False) 0x6)"
  shows "v_name (resolve (qgemv_gguf_variants b) f None) = ''avx2''" "\<not> fma f"
    "v_name (resolve (w8a32_variants b) f None) = ''ref''"
  using assms(1,2)
  by (simp_all add: f_def detect_cpu_features_def demo_detect resolve_def forced_variant_def best_variant_def
      qgemv_gguf_variants_def w8a32_variants_def entry_def ref_variant_def no_features_def avx512_base_def)

text \<open>
  \<^verbatim>\<open>qgemv.h\<close> documents \<^verbatim>\<open>QUIXICORE_CPU_QGEMV_VARIANT\<close> as the variable that forces a variant of \<^verbatim>\<open>qgemv\<close>;
  the code consults it for \<^verbatim>\<open>q8_0\<close> only.
\<close>

lemma qgemv_variable_ignored:
  assumes "format \<noteq> kQ8_0"
  shows "qgemv_variant b f (env(''QUIXICORE_CPU_QGEMV_VARIANT'' := forced)) format = qgemv_variant b f env format"
  using assms by (simp add: qgemv_variant_def)

text \<open>
  C17: the anchor switch keeps the 32-bit accumulators exact: up to the switch-over length no sum of
  products of two signed bytes leaves the \<^verbatim>\<open>int32\<close> range.
\<close>

theorem int8_accumulator_exact:
  assumes "int8_gemm_kernel b f env (int (length ps)) \<noteq> ref_variant"
    and "\<forall>(x, y) \<in> set ps. - 128 \<le> x \<and> x \<le> 127 \<and> - 128 \<le> y \<and> y \<le> (127 :: int)"
  shows "\<bar>\<Sum>(x, y) \<leftarrow> ps. x * y\<bar> \<le> INT_MAX"
proof -
  have k: "int (length ps) \<le> 131000"
    using assms(1) by (auto simp: int8_gemm_kernel_def Let_def split: if_splits)
  have prod: "\<bar>x * y\<bar> \<le> 16384" if "- 128 \<le> x" "x \<le> 127" "- 128 \<le> y" "y \<le> 127" for x y :: int
  proof -
    have "\<bar>x\<bar> \<le> 128" "\<bar>y\<bar> \<le> 128" using that by auto
    then have "\<bar>x\<bar> * \<bar>y\<bar> \<le> 128 * 128" by (intro mult_mono) auto
    then show ?thesis by (simp add: abs_mult)
  qed
  have "\<bar>\<Sum>(x, y) \<leftarrow> ps. x * y\<bar> \<le> 16384 * int (length ps)"
    using assms(2)
  proof (induction ps)
    case (Cons p ps)
    obtain x y where p: "p = (x, y)" by fastforce
    have "\<bar>x * y\<bar> \<le> 16384" using Cons.prems prod by (auto simp: p)
    moreover have "\<bar>\<Sum>(x, y) \<leftarrow> ps. x * y\<bar> \<le> 16384 * int (length ps)" using Cons by simp
    ultimately show ?case unfolding p by simp
  qed simp
  also have "\<dots> \<le> 16384 * 131000" using k by simp
  finally show ?thesis by (simp add: INT_MAX_def)
qed

theorem int8_accumulator_exact_witness:
  "\<bar>\<Sum>(x, y) \<leftarrow> [(- 128, - 128), (127, - 128 :: int)]. x * y\<bar> \<le> INT_MAX"
proof (rule int8_accumulator_exact)
  have "v_name (int8_gemm_kernel demo_build (no_features\<lparr>avx2 := True\<rparr>) (\<lambda>_. None) 2) = ''avx2''"
    by (simp add: int8_gemm_kernel_def int8_gemm_variants_def demo_build_def resolve_def forced_variant_def
        best_variant_def entry_def ref_variant_def no_features_def avx512_base_def)
  then show "int8_gemm_kernel demo_build (no_features\<lparr>avx2 := True\<rparr>) (\<lambda>_. None)
      (int (length [(- 128, - 128), (127, - 128 :: int)])) \<noteq> ref_variant"
    by (auto simp: ref_variant_def)
qed simp

end
