(* ===== verification/PackedWeights.thy ===== *)
theory PackedWeights
  imports QuantImport Dispatch
begin

text \<open>
  \<^verbatim>\<open>include/quixicore_cpu/packed_weights.h\<close> and \<^verbatim>\<open>src/memory/packed_weights.cpp\<close>: weights prepared
  once for a row-panel kernel. The owner keeps the contract bytes and a 64-byte-aligned panel that
  orders the blocks by \<open>[row panel, block, lane]\<close>; a canonical tensor's side tables follow the panel.
  \<open>throws\<close> is an allocation that throws inside the \<^verbatim>\<open>try\<close> block, \<open>elapsed\<close> what the clock measured.
\<close>

section \<open>Enumerations\<close>

datatype CpuPanelLayout = kAuto | kPortableRows1 | kNeonRows4 | kAvx2Rows8 | kAvx512Rows16

datatype CpuPreparedIsa =
    kPortable | kNeon | kDotProd | kI8MM | kSVE | kSME | kAvx2 | kAvx512 | kAvx512VNNI | kAMX

definition row_tile :: "CpuPanelLayout \<Rightarrow> int" where
  "row_tile l =
     (case l of kPortableRows1 \<Rightarrow> 1 | kNeonRows4 \<Rightarrow> 4 | kAvx2Rows8 \<Rightarrow> 8 | kAvx512Rows16 \<Rightarrow> 16 | kAuto \<Rightarrow> 0)"

definition automatic_layout :: "CpuFeatures \<Rightarrow> CpuPanelLayout" where
  "automatic_layout f =
     (if avx512f f \<and> avx512bw f \<and> avx512vl f \<and> avx512dq f then kAvx512Rows16
      else if avx2 f then kAvx2Rows8
      else if neon f then kNeonRows4
      else kPortableRows1)"

definition required_isa :: "CpuPanelLayout \<Rightarrow> CpuPreparedIsa" where
  "required_isa l =
     (case l of
        kAuto \<Rightarrow> kPortable | kPortableRows1 \<Rightarrow> kPortable | kNeonRows4 \<Rightarrow> kNeon
      | kAvx2Rows8 \<Rightarrow> kAvx2 | kAvx512Rows16 \<Rightarrow> kAvx512)"

definition cpu_panel_layout_name :: "CpuPanelLayout \<Rightarrow> string" where
  "cpu_panel_layout_name l =
     (case l of
        kAuto \<Rightarrow> ''auto'' | kPortableRows1 \<Rightarrow> ''portable_rows1'' | kNeonRows4 \<Rightarrow> ''neon_rows4''
      | kAvx2Rows8 \<Rightarrow> ''avx2_rows8'' | kAvx512Rows16 \<Rightarrow> ''avx512_rows16'')"

definition cpu_prepared_isa_name :: "CpuPreparedIsa \<Rightarrow> string" where
  "cpu_prepared_isa_name i =
     (case i of
        kPortable \<Rightarrow> ''portable'' | kNeon \<Rightarrow> ''neon'' | kDotProd \<Rightarrow> ''dotprod'' | kI8MM \<Rightarrow> ''i8mm''
      | kSVE \<Rightarrow> ''sve'' | kSME \<Rightarrow> ''sme'' | kAvx2 \<Rightarrow> ''avx2'' | kAvx512 \<Rightarrow> ''avx512''
      | kAvx512VNNI \<Rightarrow> ''avx512_vnni'' | kAMX \<Rightarrow> ''amx'')"

section \<open>The prepared object\<close>

record CpuPackedWeightsInfo =
  i_format :: QuantFormat
  i_canonical_layout :: CanonicalQuantLayout
  i_quant_metadata :: QuantTensorMetadata
  i_has_canonical_layout :: bool
  i_layout :: CpuPanelLayout
  i_rows :: int
  i_columns :: int
  i_row_tile :: int
  i_block_size :: int
  i_blocks_per_row :: int
  i_block_bytes :: int
  i_contract_bytes :: int
  i_panel_bytes :: int
  i_prepared_version :: int
  i_required_isa :: CpuPreparedIsa
  i_column_tile :: int
  i_panel_alignment :: int
  scale_table_offset :: int
  scale_code_table_offset :: int
  zero_point_table_offset :: int
  row_sum_table_offset :: int
  group_index_offset :: int
  act_order_offset :: int
  activation_scale_offset :: int
  activation_zero_point_offset :: int
  lut_offset :: int
  logical_bytes :: int
  prepared_bytes :: int
  memory_amplification :: f64
  preparation_ns :: u64

definition default_info :: CpuPackedWeightsInfo where
  "default_info = \<lparr>i_format = kQ8_0, i_canonical_layout = kInt4Symmetric, i_quant_metadata = default_metadata,
     i_has_canonical_layout = False, i_layout = kPortableRows1, i_rows = 0, i_columns = 0, i_row_tile = 0,
     i_block_size = 0, i_blocks_per_row = 0, i_block_bytes = 0, i_contract_bytes = 0, i_panel_bytes = 0,
     i_prepared_version = 0, i_required_isa = kPortable, i_column_tile = 0, i_panel_alignment = 0,
     scale_table_offset = SIZE_MAX, scale_code_table_offset = SIZE_MAX, zero_point_table_offset = SIZE_MAX,
     row_sum_table_offset = SIZE_MAX, group_index_offset = SIZE_MAX, act_order_offset = SIZE_MAX,
     activation_scale_offset = SIZE_MAX, activation_zero_point_offset = SIZE_MAX, lut_offset = SIZE_MAX,
     logical_bytes = 0, prepared_bytes = 0, memory_amplification = 0, preparation_ns = 0\<rparr>"

record packed =
  p_info :: CpuPackedWeightsInfo
  p_contract :: "u8 list"
  p_panel :: "u8 list"

text \<open>\<^verbatim>\<open>impl_\<close>: null until a preparation succeeded.\<close>

type_synonym packed_weights = "packed option"

definition reset_weights :: "packed_weights \<Rightarrow> packed_weights" where "reset_weights w = None"
definition ready :: "packed_weights \<Rightarrow> bool" where "ready w \<longleftrightarrow> w \<noteq> None"

definition weights_info :: "packed_weights \<Rightarrow> CpuPackedWeightsInfo" where
  "weights_info w = (case w of None \<Rightarrow> default_info | Some p \<Rightarrow> p_info p)"

definition contract_data :: "packed_weights \<Rightarrow> u8 ptr" where "contract_data w = map_option p_contract w"
definition panel_data :: "packed_weights \<Rightarrow> u8 ptr" where "panel_data w = map_option p_panel w"

section \<open>Checked sizes\<close>

definition checked_add :: "int \<Rightarrow> int \<Rightarrow> int option" where
  "checked_add lhs rhs = (if rhs > SIZE_MAX - lhs then None else Some (lhs + rhs))"

definition align_up :: "int \<Rightarrow> int \<Rightarrow> int option" where
  "align_up v alignment =
     (let remainder = v mod alignment
      in if remainder = 0 then Some v else checked_add v (alignment - remainder))"

definition canonical_block_geometry :: "QuantTensorMetadata \<Rightarrow> (int \<times> int) option" where
  "canonical_block_geometry m =
     (let elements = (if group_size m > 0 then group_size m else logical_columns m);
          nibbles = (if elements > 0 \<and> even elements then Some (elements, elements div 2) else None);
          bytes = (if elements > 0 then Some (elements, elements) else None)
      in case layout m of
           kInt4Symmetric \<Rightarrow> nibbles | kUInt4Affine \<Rightarrow> nibbles | CanonicalQuantLayout.kFP4E2M1 \<Rightarrow> nibbles
         | kInt8Symmetric \<Rightarrow> bytes | kInt8Affine \<Rightarrow> bytes | kFP8E4M3FN \<Rightarrow> bytes
         | CanonicalQuantLayout.kFP8E5M2 \<Rightarrow> bytes
         | kMXFP8E4M3E8M0 \<Rightarrow> Some (32, 33) | kMXFP4E2M1E8M0 \<Rightarrow> Some (32, 17)
         | kNVFP4E2M1E4M3 \<Rightarrow> Some (16, 8) | kBitNetTernary \<Rightarrow> Some (32, 10)
         | kTurboQuantKey \<Rightarrow> None | kTurboQuantValue \<Rightarrow> None)"

text \<open>A table is its element width and its elements as bytes.\<close>

type_synonym table = "int \<times> u8 list list"

definition le32 :: "u32 \<Rightarrow> u8 list" where
  "le32 w = [ucast w, ucast (drop_bit 8 w), ucast (drop_bit 16 w), ucast (drop_bit 24 w)]"

definition add_table_size :: "int \<Rightarrow> int \<Rightarrow> int \<Rightarrow> int option" where
  "add_table_size width n sofar =
     (if n = 0 then Some sofar
      else do {
        off \<leftarrow> align_up sofar width;
        bytes \<leftarrow> checked_size_mul n width;
        checked_add off bytes })"

fun add_tables :: "(int \<times> int) list \<Rightarrow> int \<Rightarrow> int option" where
  "add_tables [] sofar = Some sofar"
| "add_tables ((width, n) # ts) sofar = do { t \<leftarrow> add_table_size width n sofar; add_tables ts t }"

fun add_logical :: "(int \<times> int) list \<Rightarrow> int \<Rightarrow> int option" where
  "add_logical [] sofar = Some sofar"
| "add_logical ((width, n) # ts) sofar =
     do { bytes \<leftarrow> checked_size_mul n width; t \<leftarrow> checked_add sofar bytes; add_logical ts t }"

text \<open>
  \<^verbatim>\<open>copy_table\<close>: the recorded offset stays \<open>SIZE_MAX\<close> for an empty table; a failed alignment would leave
  the offset at zero.
\<close>

definition copy_table :: "table \<Rightarrow> u8 list \<Rightarrow> int \<Rightarrow> (u8 list \<times> int \<times> int) option" where
  "copy_table t dst cursor =
     (case t of (width, xs) \<Rightarrow>
        if xs = [] then Some (dst, cursor, SIZE_MAX)
        else
          let aligned = (case align_up cursor width of None \<Rightarrow> 0 | Some a \<Rightarrow> a);
              bytes = int (length xs) * width
          in do { dst' \<leftarrow> copy_n (concat xs) 0 bytes dst aligned; Some (dst', usz (aligned + bytes), aligned) })"

fun copy_tables :: "table list \<Rightarrow> u8 list \<Rightarrow> int \<Rightarrow> (u8 list \<times> int \<times> int list) option" where
  "copy_tables [] dst cursor = Some (dst, cursor, [])"
| "copy_tables (t # ts) dst cursor =
     do { (dst', cursor', off) \<leftarrow> copy_table t dst cursor;
          (dst'', cursor'', offs) \<leftarrow> copy_tables ts dst' cursor';
          Some (dst'', cursor'', off # offs) }"

section \<open>The panel\<close>

definition panel_count :: "int \<Rightarrow> int \<Rightarrow> int" where
  "panel_count rows tile = rows div tile + (if rows mod tile \<noteq> 0 then 1 else 0)"

definition panel_size :: "int \<Rightarrow> int \<Rightarrow> int \<Rightarrow> int \<Rightarrow> int option" where
  "panel_size panels bpr tile bbytes =
     do { a \<leftarrow> checked_size_mul panels bpr; b \<leftarrow> checked_size_mul a tile; checked_size_mul b bbytes }"

text \<open>The three nested loops that reorder the blocks.\<close>

definition copy_lane :: "u8 list \<Rightarrow> int \<Rightarrow> int \<Rightarrow> int \<Rightarrow> int \<Rightarrow> int \<Rightarrow> int \<Rightarrow> int \<Rightarrow> u8 list \<Rightarrow> u8 list flow option" where
  "copy_lane src rows bpr tile bbytes panel block lane dst =
     (let row = panel * tile + lane
      in if row \<ge> rows then Some (Next dst)
         else thru (copy_n src ((row * bpr + block) * bbytes) bbytes
                dst (((panel * bpr + block) * tile + lane) * bbytes)))"

definition copy_panels :: "u8 list \<Rightarrow> int \<Rightarrow> int \<Rightarrow> int \<Rightarrow> int \<Rightarrow> int \<Rightarrow> u8 list \<Rightarrow> u8 list flow option" where
  "copy_panels src rows panels bpr tile bbytes dst =
     for_loop 0 panels (\<lambda>panel. for_loop 0 bpr (\<lambda>block. for_loop 0 tile (\<lambda>lane.
       copy_lane src rows bpr tile bbytes panel block lane))) dst"

section \<open>Preparation\<close>

definition size_ratio :: "int \<Rightarrow> int \<Rightarrow> f64" where
  "size_ratio a b = (if b = 0 then 0
     else word_of_nat (div_mag 52 11 (round_mag 52 11 (nat a) 0) (round_mag 52 11 (nat b) 0)))"

definition resolved_layout :: "CpuFeatures \<Rightarrow> CpuPanelLayout \<Rightarrow> CpuPanelLayout" where
  "resolved_layout f l = (if l = kAuto then automatic_layout f else l)"

definition prepare_format ::
  "CpuFeatures \<Rightarrow> bool \<Rightarrow> u64 \<Rightarrow> QuantFormat \<Rightarrow> u8 ptr \<Rightarrow> int \<Rightarrow> int \<Rightarrow> CpuPanelLayout \<Rightarrow> packed_weights \<Rightarrow>
    (status \<times> packed_weights) option" where
  "prepare_format f throws elapsed format contract_packed rows columns req w =
     (case contract_packed of
        None \<Rightarrow> Some (kInvalidArgument, w)
      | Some source \<Rightarrow>
          let lay = resolved_layout f req; tile = row_tile lay
          in if tile = 0 then Some (kInvalidArgument, w)
             else case qgemv_packed_size format rows columns True of
               (st, None) \<Rightarrow> Some (st, w)
             | (_, Some contract_bytes) \<Rightarrow>
                 let bsize = block_size format; bbytes = block_bytes format;
                     bpr = columns div bsize; panels = panel_count rows tile
                 in case panel_size panels bpr tile bbytes of
                      None \<Rightarrow> Some (kInvalidShape, w)
                    | Some panel_bytes \<Rightarrow>
                        if throws then Some (kOutOfMemory, w)
                        else if contract_bytes > int (length source) then None
                        else do {
                          (st, panel) \<leftarrow> finish (copy_panels source rows panels bpr tile bbytes
                                          (replicate (nat panel_bytes) 0));
                          Some (kOk, Some \<lparr>p_info = default_info\<lparr>i_format := format, i_layout := lay,
                              i_rows := rows, i_columns := columns, i_row_tile := tile, i_block_size := bsize,
                              i_blocks_per_row := bpr, i_block_bytes := bbytes, i_contract_bytes := contract_bytes,
                              i_panel_bytes := panel_bytes, i_prepared_version := 1,
                              i_required_isa := required_isa lay, i_column_tile := bsize,
                              i_panel_alignment := 64, prepared_bytes := panel_bytes,
                              memory_amplification := size_ratio panel_bytes contract_bytes,
                              preparation_ns := elapsed\<rparr>,
                            p_contract = take (nat contract_bytes) source, p_panel = panel\<rparr>) })"

text \<open>The side tables of a tensor in the order they are laid out; an \<^verbatim>\<open>int\<close> is four bytes.\<close>

definition tensor_tables :: "CanonicalQuantTensor \<Rightarrow> table list" where
  "tensor_tables t =
     [(1, map (\<lambda>c. [c]) (scale_codes t)), (4, map le32 (scales t)), (4, map le32 (zero_points t)),
      (4, map le32 (activation_scales t)), (4, map (le32 \<circ> word_of_int) (activation_zero_points t)),
      (4, map (le32 \<circ> word_of_int) (group_index t)), (4, map (le32 \<circ> word_of_int) (act_order t)),
      (4, map (le32 \<circ> word_of_int) (row_sums t))]"

definition table_counts :: "table list \<Rightarrow> (int \<times> int) list" where
  "table_counts ts = map (\<lambda>(width, xs). (width, int (length xs))) ts"

definition record_offsets :: "int list \<Rightarrow> CpuPackedWeightsInfo \<Rightarrow> CpuPackedWeightsInfo" where
  "record_offsets offs i = i\<lparr>scale_code_table_offset := offs ! 0, scale_table_offset := offs ! 1,
     zero_point_table_offset := offs ! 2, activation_scale_offset := offs ! 3,
     activation_zero_point_offset := offs ! 4, group_index_offset := offs ! 5, act_order_offset := offs ! 6,
     row_sum_table_offset := offs ! 7\<rparr>"

definition prepare_tensor ::
  "CpuFeatures \<Rightarrow> bool \<Rightarrow> u64 \<Rightarrow> CanonicalQuantTensor \<Rightarrow> CpuPanelLayout \<Rightarrow> packed_weights \<Rightarrow>
    (status \<times> packed_weights) option" where
  "prepare_tensor f throws elapsed t req w =
     do { vst \<leftarrow> validate_canonical_quant_tensor t;
          if vst \<noteq> kOk then Some (vst, w)
          else
            let lay = resolved_layout f req; tile = row_tile lay; m = metadata t;
                rows = logical_rows m; columns = logical_columns m
            in if tile = 0 then Some (kInvalidArgument, w)
               else case canonical_block_geometry m of
                 None \<Rightarrow> Some (kUnsupportedFormat, w)
               | Some (elements, bbytes) \<Rightarrow>
                   if crem columns elements \<noteq> 0 then Some (kUnsupportedFormat, w)
                   else
                     let bpr = columns div elements; panels = panel_count rows tile; tabs = tensor_tables t
                     in case panel_size panels bpr tile bbytes of
                          None \<Rightarrow> Some (kInvalidShape, w)
                        | Some panel_bytes \<Rightarrow>
                            (case (add_tables (table_counts tabs) panel_bytes,
                                   add_logical (table_counts tabs) (int (length (tdata t)))) of
                               (Some prepared, Some logical) \<Rightarrow>
                                 if throws then Some (kOutOfMemory, w)
                                 else do {
                                   (st, panel) \<leftarrow> finish (copy_panels (tdata t) rows panels bpr tile bbytes
                                                   (replicate (nat prepared) 0));
                                   (panel', cursor, offs) \<leftarrow> copy_tables tabs panel panel_bytes;
                                   Some (kOk, Some \<lparr>p_info = record_offsets offs (default_info\<lparr>
                                       i_canonical_layout := layout m, i_quant_metadata := m,
                                       i_has_canonical_layout := True, i_layout := lay, i_rows := rows,
                                       i_columns := columns, i_row_tile := tile, i_block_size := elements,
                                       i_blocks_per_row := bpr, i_block_bytes := bbytes,
                                       i_contract_bytes := int (length (tdata t)), i_panel_bytes := panel_bytes,
                                       i_prepared_version := 2, i_required_isa := required_isa lay,
                                       i_column_tile := elements, i_panel_alignment := 64,
                                       logical_bytes := logical, prepared_bytes := prepared,
                                       memory_amplification := size_ratio prepared logical,
                                       preparation_ns := elapsed\<rparr>),
                                     p_contract = tdata t, p_panel = panel'\<rparr>) }
                             | _ \<Rightarrow> Some (kInvalidShape, w)) }"


section \<open>The panel is a permutation of the blocks\<close>

text \<open>
  Destination blocks are visited in order. Destination block \<open>d\<close> belongs to row \<open>row_of d\<close> and block
  column \<open>block_of d\<close>; \<open>panel_upto d dst\<close> says the blocks before \<open>d\<close> hold their source bytes, padding
  lanes and everything after are zero.
\<close>

definition row_of :: "int \<Rightarrow> int \<Rightarrow> int \<Rightarrow> int" where
  "row_of bpr tile d = d div tile div bpr * tile + d mod tile"

definition block_of :: "int \<Rightarrow> int \<Rightarrow> int \<Rightarrow> int" where
  "block_of bpr tile d = d div tile mod bpr"

definition panel_upto :: "u8 list \<Rightarrow> int \<Rightarrow> int \<Rightarrow> int \<Rightarrow> int \<Rightarrow> int \<Rightarrow> int \<Rightarrow> u8 list \<Rightarrow> bool" where
  "panel_upto src rows bpr tile bbytes nd d dst \<longleftrightarrow>
     (\<forall>e b. 0 \<le> e \<and> e < nd \<and> 0 \<le> b \<and> b < bbytes \<longrightarrow>
        dst ! nat (e * bbytes + b) =
          (if e < d \<and> row_of bpr tile e < rows
           then src ! nat ((row_of bpr tile e * bpr + block_of bpr tile e) * bbytes + b) else 0))"

lemma lane_index:
  assumes "0 \<le> lane" "lane < tile" "0 \<le> block" "block < bpr"
  shows "row_of bpr tile ((panel * bpr + block) * tile + lane) = panel * tile + lane"
    "block_of bpr tile ((panel * bpr + block) * tile + lane) = block"
proof -
  have "((panel * bpr + block) * tile + lane) div tile = panel * bpr + block"
    "((panel * bpr + block) * tile + lane) mod tile = lane"
    using assms by (simp_all add: add.commute [of "_ * tile"])
  moreover have "(panel * bpr + block) div bpr = panel" "(panel * bpr + block) mod bpr = block"
    using assms by (simp_all add: add.commute [of "_ * bpr"])
  ultimately show "row_of bpr tile ((panel * bpr + block) * tile + lane) = panel * tile + lane"
    "block_of bpr tile ((panel * bpr + block) * tile + lane) = block"
    by (simp_all add: row_of_def block_of_def)
qed

lemma copy_lane_ok:
  assumes l: "0 \<le> lane" "lane < tile" and b: "0 \<le> block" "block < bpr" and p: "0 \<le> panel" "panel < panels"
    and sz: "0 < bbytes" "rows * bpr * bbytes \<le> int (length src)"
      "panels * bpr * tile * bbytes \<le> int (length dst)"
    and I: "panel_upto src rows bpr tile bbytes (panels * bpr * tile) ((panel * bpr + block) * tile + lane) dst"
  shows "ok (\<lambda>r. \<exists>dst'. r = Next dst' \<and> length dst' = length dst \<and>
      drop (nat (panels * bpr * tile * bbytes)) dst' = drop (nat (panels * bpr * tile * bbytes)) dst \<and>
      panel_upto src rows bpr tile bbytes (panels * bpr * tile) ((panel * bpr + block) * tile + (lane + 1)) dst')
    (copy_lane src rows bpr tile bbytes panel block lane dst)"
proof -
  let ?d = "(panel * bpr + block) * tile + lane"
  let ?row = "panel * tile + lane"
  note li = lane_index [OF l b, of panel]
  have pb: "0 \<le> panel * bpr + block" "panel * bpr + block < panels * bpr" using index_bound [OF p b] by auto
  have d: "0 \<le> ?d" "?d < panels * bpr * tile" using index_bound [OF pb l] by auto
  have succ: "?d + 1 = (panel * bpr + block) * tile + (lane + 1)" by simp
  show ?thesis
  proof (cases "?row \<ge> rows")
    case True
    have "panel_upto src rows bpr tile bbytes (panels * bpr * tile) (?d + 1) dst"
      unfolding panel_upto_def
    proof (intro allI impI)
      fix e c assume e: "0 \<le> e \<and> e < panels * bpr * tile \<and> 0 \<le> c \<and> c < bbytes"
      have "e < ?d + 1 \<and> row_of bpr tile e < rows \<longleftrightarrow> e < ?d \<and> row_of bpr tile e < rows"
        using True li(1) by (cases "e = ?d") auto
      then show "dst ! nat (e * bbytes + c) = (if e < ?d + 1 \<and> row_of bpr tile e < rows
           then src ! nat ((row_of bpr tile e * bpr + block_of bpr tile e) * bbytes + c) else 0)"
        using I e by (simp add: panel_upto_def)
    qed
    then show ?thesis using True by (simp add: copy_lane_def succ)
  next
    case False
    have r0: "0 \<le> ?row" using p l by simp
    have sb: "0 \<le> ?row * bpr + block" "?row * bpr + block < rows * bpr"
      using index_bound [OF r0 _ b, of rows] False by auto
    let ?s = "(?row * bpr + block) * bbytes"
    have sr: "0 \<le> ?s" "?s + bbytes \<le> int (length src)"
      using row_bound [OF sb, of bbytes] sz by auto
    have dr: "0 \<le> ?d * bbytes" "?d * bbytes + bbytes \<le> panels * bpr * tile * bbytes"
      using row_bound [OF d, of bbytes] sz by auto
    let ?dst = "splice dst (nat (?d * bbytes)) (take (nat bbytes) (drop (nat ?s) src))"
    have c: "copy_n src ?s bbytes dst (?d * bbytes) = Some ?dst"
      using sr dr sz by (simp add: copy_n_def in_range_def)
    have len: "length (take (nat bbytes) (drop (nat ?s) src)) = nat bbytes" using sr sz(1) by simp
    have fits: "nat (?d * bbytes) + nat bbytes \<le> length dst" using dr sz by simp
    have ld: "length ?dst = length dst" using len fits by (subst length_splice) simp_all
    have tail: "drop (nat (panels * bpr * tile * bbytes)) ?dst = drop (nat (panels * bpr * tile * bbytes)) dst"
    proof (rule nth_equalityI)
      fix i assume "i < length (drop (nat (panels * bpr * tile * bbytes)) ?dst)"
      then have i: "nat (panels * bpr * tile * bbytes) + i < length dst" using ld by simp
      have "\<not> nat (panels * bpr * tile * bbytes) + i < nat (?d * bbytes) + nat bbytes" using dr sz by linarith
      then show "drop (nat (panels * bpr * tile * bbytes)) ?dst ! i = drop (nat (panels * bpr * tile * bbytes)) dst ! i"
        using i fits by (simp add: nth_splice len ld del: length_take)
    qed (simp add: ld)
    have "panel_upto src rows bpr tile bbytes (panels * bpr * tile) (?d + 1) ?dst"
      unfolding panel_upto_def
    proof (intro allI impI)
      fix e c assume e: "0 \<le> e \<and> e < panels * bpr * tile \<and> 0 \<le> c \<and> c < bbytes"
      note ei = index_bound [of e "panels * bpr * tile" c bbytes]
      have ib: "nat (e * bbytes + c) < length dst" using ei e sz by (simp add: nat_less_iff)
      show "?dst ! nat (e * bbytes + c) = (if e < ?d + 1 \<and> row_of bpr tile e < rows
           then src ! nat ((row_of bpr tile e * bpr + block_of bpr tile e) * bbytes + c) else 0)"
      proof (cases "e = ?d")
        case True
        have "nat (?d * bbytes) \<le> nat (e * bbytes + c)" "nat (e * bbytes + c) < nat (?d * bbytes) + nat bbytes"
          "nat (e * bbytes + c) - nat (?d * bbytes) = nat c"
          using e True dr(1) by (simp_all add: nat_add_distrib)
        then have "?dst ! nat (e * bbytes + c) = take (nat bbytes) (drop (nat ?s) src) ! nat c"
          using nth_splice [OF _ ib, of "nat (?d * bbytes)"] fits len by simp
        also have "\<dots> = src ! nat (?s + c)"
        proof -
          have "nat ?s \<le> length src" using sr sz(1) by linarith
          then show ?thesis using e sr(1) by (simp add: nat_add_distrib)
        qed
        finally show ?thesis using True li False by simp
      next
        case F: False
        have "\<not> (nat (?d * bbytes) \<le> nat (e * bbytes + c) \<and> nat (e * bbytes + c) < nat (?d * bbytes) + nat bbytes)"
        proof
          assume "nat (?d * bbytes) \<le> nat (e * bbytes + c) \<and> nat (e * bbytes + c) < nat (?d * bbytes) + nat bbytes"
          moreover have "0 \<le> e * bbytes + c" using ei(1) e by blast
          ultimately have a: "?d * bbytes \<le> e * bbytes + c" "e * bbytes + c < ?d * bbytes + bbytes"
            using dr(1) sz(1) by linarith+
          let ?x = "e * bbytes + c - ?d * bbytes"
          have "e * bbytes + c = ?d * bbytes + ?x" by simp
          then have "e = ?d" using index_unique [of c bbytes ?x e ?d] e a by auto
          with F show False by simp
        qed
        then have "?dst ! nat (e * bbytes + c) = dst ! nat (e * bbytes + c)"
          using nth_splice [OF _ ib, of "nat (?d * bbytes)"] fits len by auto
        moreover have "e < ?d + 1 \<longleftrightarrow> e < ?d" using F by auto
        ultimately show ?thesis using I e by (simp add: panel_upto_def)
      qed
    qed
    then show ?thesis using False c ld tail by (simp add: copy_lane_def succ thru_def)
  qed
qed


lemma copy_panels_ok:
  assumes sz: "0 < bbytes" "0 < tile" "0 < bpr" "0 \<le> panels" "rows * bpr * bbytes \<le> int (length src)"
    and dst: "panels * bpr * tile * bbytes \<le> int m" and z: "dst = replicate m 0"
  shows "ok (\<lambda>(st, dst'). st = kOk \<and> length dst' = m \<and>
      drop (nat (panels * bpr * tile * bbytes)) dst' = drop (nat (panels * bpr * tile * bbytes)) dst \<and>
      panel_upto src rows bpr tile bbytes (panels * bpr * tile) (panels * bpr * tile) dst')
    (finish (copy_panels src rows panels bpr tile bbytes dst))"
proof -
  define J where "J = (\<lambda>d dst'. length dst' = m \<and>
      drop (nat (panels * bpr * tile * bbytes)) dst' = drop (nat (panels * bpr * tile * bbytes)) dst \<and>
      panel_upto src rows bpr tile bbytes (panels * bpr * tile) d dst')"
  have lane: "ok (flow_post (J ((panel * bpr + block + 1) * tile)) (\<lambda>_. False) (\<lambda>_ _. False))
      (for_loop 0 tile (copy_lane src rows bpr tile bbytes panel block) t)"
    if "0 \<le> block" "block < bpr" "0 \<le> panel" "panel < panels" "J ((panel * bpr + block) * tile) t"
    for panel block t
  proof (rule for_loop_inv [where I = "\<lambda>lane. J ((panel * bpr + block) * tile + lane)"])
    fix lane u assume lane: "0 \<le> lane" "lane < tile" and Ju: "J ((panel * bpr + block) * tile + lane) u"
    from copy_lane_ok [OF lane that(1-4) sz(1,5), of u] Ju dst
    have "ok (\<lambda>r. \<exists>dst'. r = Next dst' \<and> length dst' = length u \<and>
      drop (nat (panels * bpr * tile * bbytes)) dst' = drop (nat (panels * bpr * tile * bbytes)) u \<and>
      panel_upto src rows bpr tile bbytes (panels * bpr * tile) ((panel * bpr + block) * tile + (lane + 1)) dst')
    (copy_lane src rows bpr tile bbytes panel block lane u)"
      by (simp add: J_def)
    then show "ok (flow_post (J ((panel * bpr + block) * tile + (lane + 1))) (J ((panel * bpr + block + 1) * tile))
        (\<lambda>_ _. False)) (copy_lane src rows bpr tile bbytes panel block lane u)"
      by (rule ok_mono) (use Ju in \<open>auto simp: J_def\<close>)
  qed (use sz that in \<open>auto simp: distrib_right\<close>)
  have block: "ok (flow_post (J ((panel + 1) * bpr * tile)) (\<lambda>_. False) (\<lambda>_ _. False))
      (for_loop 0 bpr (\<lambda>block. for_loop 0 tile (copy_lane src rows bpr tile bbytes panel block)) t)"
    if "0 \<le> panel" "panel < panels" "J (panel * bpr * tile) t" for panel t
  proof (rule for_loop_inv [where I = "\<lambda>block. J ((panel * bpr + block) * tile)"])
    fix block u assume "0 \<le> block" "block < bpr" "J ((panel * bpr + block) * tile) u"
    from lane [OF this(1,2) that(1,2) this(3)]
    show "ok (flow_post (J ((panel * bpr + (block + 1)) * tile)) (J ((panel + 1) * bpr * tile)) (\<lambda>_ _. False))
      (for_loop 0 tile (copy_lane src rows bpr tile bbytes panel block) u)"
      by (auto simp: add.assoc elim!: ok_mono flow_post_mono)
  qed (use sz that in \<open>auto simp: distrib_right\<close>)
  have "ok (flow_post (J (panels * bpr * tile)) (\<lambda>_. False) (\<lambda>_ _. False))
      (copy_panels src rows panels bpr tile bbytes dst)"
    unfolding copy_panels_def
  proof (rule for_loop_inv [where I = "\<lambda>panel. J (panel * bpr * tile)"])
    have "dst ! nat (e * bbytes + b) = 0"
      if "0 \<le> e" "e < panels * bpr * tile" "0 \<le> b" "b < bbytes" for e b
      using index_bound [OF that] dst unfolding z by (simp add: nat_less_iff)
    then show "J (0 * bpr * tile) dst" by (simp add: J_def panel_upto_def z)
    fix panel t assume "0 \<le> panel" "panel < panels" "J (panel * bpr * tile) t"
    from block [OF this]
    show "ok (flow_post (J ((panel + 1) * bpr * tile)) (J (panels * bpr * tile)) (\<lambda>_ _. False))
      (for_loop 0 bpr (\<lambda>block. for_loop 0 tile (copy_lane src rows bpr tile bbytes panel block)) t)"
      by (auto elim!: ok_mono flow_post_mono)
  qed (use sz in auto)
  then show ?thesis
    by (intro ok_finish) (auto simp: J_def elim!: ok_mono flow_post_mono)
qed

lemma panel_count_bounds:
  assumes "0 < rows" "0 < tile"
  shows "0 < panel_count rows tile" "rows \<le> panel_count rows tile * tile" "panel_count rows tile \<le> rows"
proof -
  obtain q m where q: "q = rows div tile" and m: "m = rows mod tile" by simp
  have r: "rows = q * tile + m" using q m by simp
  have b: "0 \<le> m" "m < tile" "0 \<le> q" using assms q m by (auto simp: pos_imp_zdiv_nonneg_iff)
  have c: "panel_count rows tile = q + (if m \<noteq> 0 then 1 else 0)" by (simp add: panel_count_def q m)
  have le: "q \<le> q * tile" using b(3) assms(2) by (simp add: mult_le_cancel_left1)
  have "m = 0 \<Longrightarrow> 0 < q"
  proof (rule ccontr)
    assume "m = 0" "\<not> 0 < q"
    with b(3) have "q = 0" by simp
    with r \<open>m = 0\<close> assms(1) show False by simp
  qed
  then show "0 < panel_count rows tile" using b(3) by (cases "m = 0") (auto simp: c)
  show "rows \<le> panel_count rows tile * tile"
    unfolding c using r b by (cases "m = 0") (simp_all add: distrib_right)
  show "panel_count rows tile \<le> rows" unfolding c using r b le by (cases "m = 0") simp_all
qed

lemma panel_size_Some:
  assumes "panel_size panels bpr tile bbytes = Some s" "0 < panels" "0 < bpr" "0 < tile" "0 < bbytes"
  shows "s = panels * bpr * tile * bbytes" "s \<le> SIZE_MAX"
proof -
  from assms obtain a b where "checked_size_mul panels bpr = Some a" "checked_size_mul a tile = Some b"
    "checked_size_mul b bbytes = Some s" by (auto simp: panel_size_def bind_eq_Some_conv)
  with assms have "a = panels * bpr" "b = a * tile" "s = b * bbytes \<and> s \<le> SIZE_MAX"
    by (auto simp: checked_size_mul_Some)
  then show "s = panels * bpr * tile * bbytes" "s \<le> SIZE_MAX" by auto
qed

text \<open>Reading the panel back block by block.\<close>

lemma panel_block:
  assumes "panel_upto src rows bpr tile bbytes (panels * bpr * tile) (panels * bpr * tile) dst"
    and "0 \<le> row" "row < panels * tile" "0 < tile" "0 \<le> block" "block < bpr" "0 \<le> b" "b < bbytes"
  shows "dst ! nat (((row div tile * bpr + block) * tile + row mod tile) * bbytes + b) =
    (if row < rows then src ! nat ((row * bpr + block) * bbytes + b) else 0)"
proof -
  let ?e = "(row div tile * bpr + block) * tile + row mod tile"
  have m: "0 \<le> row mod tile" "row mod tile < tile" "0 \<le> row div tile" "row div tile < panels"
    using div_mod_bound [OF assms(2,3,4)] by auto
  have e: "0 \<le> ?e" "?e < panels * bpr * tile"
    using index_bound [OF index_bound [OF m(3,4) assms(5,6)] m(1,2)] by auto
  have r: "row div tile * tile + row mod tile = row" by simp
  show ?thesis
    using assms(1,7,8) e lane_index [OF m(1,2) assms(5,6), of "row div tile"] r
    by (simp add: panel_upto_def)
qed


section \<open>The side tables\<close>

lemma align_up_Some:
  assumes "align_up v w = Some a" "0 \<le> v" "0 < w"
  shows "v \<le> a" "w dvd a" "a \<le> max v SIZE_MAX"
proof -
  have m: "0 \<le> v mod w" "v mod w < w" using assms by auto
  have d: "w dvd v + (w - v mod w)" by (metis add.commute diff_add_eq dvd_add dvd_minus_mod dvd_refl)
  show "v \<le> a" "w dvd a" "a \<le> max v SIZE_MAX"
    using assms(1) m d by (auto simp: align_up_def checked_add_def Let_def split: if_splits)
qed

lemma add_table_size_Some:
  assumes "add_table_size w n v = Some v'" "0 \<le> v" "0 < w" "0 \<le> n"
  shows "n = 0 \<and> v' = v \<or>
    (\<exists>a. align_up v w = Some a \<and> v \<le> a \<and> w dvd a \<and> v' = a + n * w \<and> v' \<le> SIZE_MAX \<and> v \<le> v')"
proof (cases "n = 0")
  case False
  with assms(1) obtain a b where a: "align_up v w = Some a" "checked_size_mul n w = Some b" "checked_add a b = Some v'"
    by (auto simp: add_table_size_def bind_eq_Some_conv)
  note al = align_up_Some [OF a(1) assms(2,3)]
  have "b = n * w" using a(2) assms(4) by (simp add: checked_size_mul_Some)
  moreover have "v' = a + b" "v' \<le> SIZE_MAX" using a(3) by (auto simp: checked_add_def split: if_splits)
  moreover have "0 \<le> n * w" using assms by simp
  ultimately show ?thesis using a(1) al by auto
qed (use assms in \<open>simp add: add_table_size_def\<close>)

lemma length_concat_uniform: "\<forall>x \<in> set xs. int (length x) = w \<Longrightarrow> int (length (concat xs)) = int (length xs) * w"
  by (induction xs) (auto simp: distrib_right)

text \<open>What a table's region of the buffer holds.\<close>

definition table_at :: "u8 list \<Rightarrow> table \<Rightarrow> int \<Rightarrow> bool" where
  "table_at dst t off \<longleftrightarrow>
     (case t of (w, xs) \<Rightarrow>
        if xs = [] then off = SIZE_MAX
        else 0 \<le> off \<and> w dvd off \<and> off + int (length xs) * w \<le> int (length dst) \<and>
             take (length (concat xs)) (drop (nat off) dst) = concat xs)"

lemma copy_table_ok:
  assumes s: "add_table_size w (int (length xs)) v = Some v'" and v: "0 \<le> v" "0 < w"
    and u: "\<forall>x \<in> set xs. int (length x) = w" and d: "v' \<le> int (length dst)"
  shows "\<exists>dst' off. copy_table (w, xs) dst v = Some (dst', v', off) \<and> length dst' = length dst \<and>
    take (nat v) dst' = take (nat v) dst \<and> table_at (take (nat v') dst') (w, xs) off \<and> v \<le> v' \<and>
    (xs \<noteq> [] \<longrightarrow> v \<le> off \<and> off + int (length xs) * w = v')"
proof (cases "xs = []")
  case True
  then show ?thesis using s by (simp add: copy_table_def add_table_size_def table_at_def)
next
  case False
  let ?n = "int (length xs)"
  from add_table_size_Some [OF s v] False obtain a where
    a: "align_up v w = Some a" "v \<le> a" "w dvd a" "v' = a + ?n * w" "v' \<le> SIZE_MAX" "v \<le> v'" by auto
  have L: "int (length (concat xs)) = ?n * w" using length_concat_uniform [OF u] .
  have pos: "0 < ?n * w" using False v by simp
  let ?dst = "splice dst (nat a) (concat xs)"
  have fits: "nat a + length (concat xs) \<le> length dst" using a L d v by linarith
  have c: "copy_n (concat xs) 0 (?n * w) dst a = Some ?dst"
    using L pos a d v by (simp add: copy_n_def in_range_def)
  have ld: "length ?dst = length dst" using fits by simp
  have tk: "take (nat v) ?dst = take (nat v) dst"
    using a(2) v fits by (simp add: splice_def min_def)
  have nv: "nat v' = nat a + length (concat xs)" using a L v pos by linarith
  have at: "take (length (concat xs)) (drop (nat a) (take (nat v') ?dst)) = concat xs"
    using fits by (simp add: nv splice_def drop_take)
  have "table_at (take (nat v') ?dst) (w, xs) a"
    using False a v L at ld fits nv d by (simp add: table_at_def min_def)
  moreover have "usz v' = v'" using a v pos by (intro usz_id) auto
  ultimately show ?thesis using False c ld tk a by (simp add: copy_table_def)
qed

lemma table_at_extend:
  assumes "table_at (take (nat v) dst) t off" "take (nat v) dst' = take (nat v) dst" "length dst' = length dst"
    "v \<le> v'" "0 \<le> v" "v' \<le> int (length dst)"
  shows "table_at (take (nat v') dst') t off"
proof (cases t)
  case (Pair w xs)
  show ?thesis
  proof (cases "xs = []")
    case False
    let ?L = "length (concat xs)"
    have o: "0 \<le> off" "w dvd off" "off + int (length xs) * w \<le> int (length (take (nat v) dst))"
      "take ?L (drop (nat off) (take (nat v) dst)) = concat xs"
      using assms(1) False by (simp_all add: table_at_def Pair)
    have "length (take ?L (drop (nat off) (take (nat v) dst))) = ?L" using o(4) by simp
    then have "?L \<le> nat v - nat off" by (simp add: min_def split: if_splits)
    then have le: "nat off + ?L \<le> nat v \<or> ?L = 0" by linarith
    have "take ?L (drop (nat off) (take (nat v) dst)) = take ?L (drop (nat off) (take (nat v) dst'))"
      using assms(2) by simp
    also have "\<dots> = take ?L (drop (nat off) (take (nat v') dst'))"
    proof (cases "?L = 0")
      case False
      with le have "nat off + ?L \<le> nat v" by blast
      moreover have "nat v \<le> nat v'" using assms(4) by simp
      ultimately have "?L \<le> nat v - nat off" "?L \<le> nat v' - nat off" by linarith+
      then show ?thesis by (simp only: drop_take take_take min.absorb1)
    qed (simp only: take0 list.size)
    finally show ?thesis using o False assms by (simp add: table_at_def Pair)
  qed (use assms in \<open>simp add: table_at_def Pair\<close>)
qed

definition uniform_table :: "table \<Rightarrow> bool" where
  "uniform_table t \<longleftrightarrow> 0 < fst t \<and> (\<forall>x \<in> set (snd t). int (length x) = fst t)"

lemma copy_tables_ok:
  assumes "add_tables (table_counts ts) v = Some v'" "0 \<le> v" "\<forall>t \<in> set ts. uniform_table t"
    "v' \<le> int (length dst)"
  shows "\<exists>dst' offs. copy_tables ts dst v = Some (dst', v', offs) \<and> length dst' = length dst \<and> v \<le> v' \<and>
    take (nat v) dst' = take (nat v) dst \<and> length offs = length ts \<and>
    (\<forall>i < length ts. table_at (take (nat v') dst') (ts ! i) (offs ! i) \<and> (snd (ts ! i) \<noteq> [] \<longrightarrow> v \<le> offs ! i))"
  using assms
proof (induction ts arbitrary: v dst)
  case Nil
  then show ?case by (simp add: table_counts_def)
next
  case (Cons t ts)
  obtain w xs where t: "t = (w, xs)" by fastforce
  from Cons.prems(1) obtain v1 where s: "add_table_size w (int (length xs)) v = Some v1"
    and rest: "add_tables (table_counts ts) v1 = Some v'"
    by (auto simp: table_counts_def t bind_eq_Some_conv)
  have u: "0 < w" "\<forall>x \<in> set xs. int (length x) = w" using Cons.prems(3) by (auto simp: uniform_table_def t)
  have v1: "v \<le> v1" using add_table_size_Some [OF s Cons.prems(2) u(1)] by auto
  have v1': "0 \<le> v1" using v1 Cons.prems(2) by simp
  have mono: "v1 \<le> v'"
  proof -
    have "add_tables cs x = Some y \<Longrightarrow> 0 \<le> x \<Longrightarrow> \<forall>(w, n) \<in> set cs. 0 < w \<and> 0 \<le> n \<Longrightarrow> x \<le> y" for cs x y
    proof (induction cs x rule: add_tables.induct)
      case (2 width n cs x)
      then obtain z where z: "add_table_size width n x = Some z" "add_tables cs z = Some y"
        by (auto simp: bind_eq_Some_conv)
      have "x \<le> z" using add_table_size_Some [OF z(1)] 2 by auto
      moreover have "z \<le> y" using 2 z \<open>x \<le> z\<close> by auto
      ultimately show ?case by simp
    qed simp
    from this [OF rest v1'] show ?thesis
      using Cons.prems(3) by (auto simp: table_counts_def uniform_table_def case_prod_beta)
  qed
  obtain d1 off where c: "copy_table (w, xs) dst v = Some (d1, v1, off)" "length d1 = length dst"
    "take (nat v) d1 = take (nat v) dst" "table_at (take (nat v1) d1) (w, xs) off" "xs \<noteq> [] \<longrightarrow> v \<le> off"
    using copy_table_ok [OF s Cons.prems(2) u(1) u(2), of dst] mono Cons.prems(4) by auto
  obtain d2 offs where r: "copy_tables ts d1 v1 = Some (d2, v', offs)" "length d2 = length d1" "v1 \<le> v'"
    "take (nat v1) d2 = take (nat v1) d1" "length offs = length ts"
    "\<forall>i < length ts. table_at (take (nat v') d2) (ts ! i) (offs ! i) \<and> (snd (ts ! i) \<noteq> [] \<longrightarrow> v1 \<le> offs ! i)"
    using Cons.IH [OF rest v1', of d1] Cons.prems(3,4) c(2) by auto
  have tk: "take (nat v) d2 = take (nat v) dst"
  proof -
    have "take (nat v) (take (nat v1) d2) = take (nat v) (take (nat v1) d1)" using r(4) by simp
    moreover have "nat v \<le> nat v1" using v1 by simp
    ultimately show ?thesis using c(3) by (simp add: min.absorb1)
  qed
  have at: "table_at (take (nat v') d2) (w, xs) off"
    using table_at_extend [OF c(4) r(4) r(2) r(3) v1'] Cons.prems(4) c(2) by simp
  have "table_at (take (nat v') d2) ((t # ts) ! i) ((off # offs) ! i) \<and>
      (snd ((t # ts) ! i) \<noteq> [] \<longrightarrow> v \<le> (off # offs) ! i)" if "i < length (t # ts)" for i
    using that at c(5) r(6) v1 by (cases i) (auto simp: t)
  then show ?case using c(1) r tk v1 c(2) by (simp add: t)
qed


section \<open>What a preparation guarantees\<close>

lemma row_tile_pos: "lay \<noteq> kAuto \<Longrightarrow> 0 < row_tile lay" "row_tile lay = 0 \<longleftrightarrow> lay = kAuto"
  by (cases lay; simp add: row_tile_def)+

lemma resolved_layout_not_auto: "resolved_layout f l \<noteq> kAuto"
  by (simp add: resolved_layout_def automatic_layout_def)

text \<open>A size query that succeeds gives the exact byte count of a positive shape.\<close>

lemma packed_size_facts:
  assumes "qgemv_packed_size fmt rows columns True = (st, Some bytes)"
  shows "0 < rows" "0 < columns" "0 < columns div block_size fmt"
    "bytes = rows * (columns div block_size fmt) * block_bytes fmt" "bytes \<le> SIZE_MAX"
proof -
  have "st = kOk" using assms
    by (auto simp: qgemv_packed_size_def packed_size_def split: if_splits option.splits)
  then have "qgemv_packed_size fmt rows columns True = (kOk, Some bytes)" using assms by simp
  from this [unfolded qgemv_packed_size_exact']
  have v: "0 < rows" "0 < columns" "block_size fmt dvd columns"
    "bytes = rows * (columns div block_size fmt) * block_bytes fmt" "bytes \<le> SIZE_MAX" by auto
  then show "0 < rows" "0 < columns" "bytes = rows * (columns div block_size fmt) * block_bytes fmt"
    "bytes \<le> SIZE_MAX" by auto
  show "0 < columns div block_size fmt" using dvd_div_bounds [OF block_size_pos(1) v(2,3)] by simp
qed

text \<open>
  C3: a panel is the packed matrix in another order: after a successful preparation, byte \<open>b\<close> of block
  \<open>j\<close> of row \<open>i\<close> is at lane \<open>i mod tile\<close> of panel \<open>i div tile\<close>, and the lanes that pad the last panel
  are zero.
\<close>

theorem prepared_panel_holds_every_block:
  assumes src: "int (length source) = rows * (columns div block_size fmt) * block_bytes fmt"
    and ok: "prepare_format f False elapsed fmt (Some source) rows columns req w = Some (kOk, w')"
  defines "bpr \<equiv> columns div block_size fmt" and "bb \<equiv> block_bytes fmt"
    and "tile \<equiv> row_tile (resolved_layout f req)"
  shows "\<exists>p. w' = Some p \<and> p_contract p = source \<and>
    int (length (p_panel p)) = panel_count rows tile * bpr * tile * bb \<and>
    (\<forall>i j b. 0 \<le> i \<and> i < panel_count rows tile * tile \<and> 0 \<le> j \<and> j < bpr \<and> 0 \<le> b \<and> b < bb \<longrightarrow>
       p_panel p ! nat (((i div tile * bpr + j) * tile + i mod tile) * bb + b) =
         (if i < rows then source ! nat ((i * bpr + j) * bb + b) else 0))"
proof -
  have tile: "0 < tile" using row_tile_pos(1) [OF resolved_layout_not_auto] by (simp add: tile_def)
  obtain st bytes where q: "qgemv_packed_size fmt rows columns True = (st, Some bytes)"
    using ok tile by (auto simp: prepare_format_def Let_def tile_def qgemv_packed_size_def packed_size_def
        split: if_splits option.splits)
  note qf = packed_size_facts [OF q]
  have pos: "0 < rows" "0 < bpr" "0 < bb" using qf by (simp_all add: bpr_def bb_def)
  obtain sz where s: "panel_size (panel_count rows tile) bpr tile bb = Some sz"
    using ok q tile by (auto simp: prepare_format_def Let_def tile_def bpr_def bb_def split: option.splits)
  note pc = panel_count_bounds [OF pos(1) tile(1)]
  note se = panel_size_Some [OF s pc(1) pos(2) tile(1) pos(3)]
  have szpos: "0 \<le> sz" using se(1) pc(1) pos tile by simp
  have srclen: "rows * bpr * bb \<le> int (length source)" "bytes = int (length source)"
    using src qf(4) by (simp_all add: bpr_def bb_def)
  from copy_panels_ok [OF pos(3) tile(1) pos(2) _ srclen(1) _ refl, of "panel_count rows tile" "nat sz"]
  obtain dst where run: "finish (copy_panels source rows (panel_count rows tile) bpr tile bb (replicate (nat sz) 0)) =
      Some (kOk, dst)" and len: "length dst = nat sz"
    and up: "panel_upto source rows bpr tile bb (panel_count rows tile * bpr * tile)
      (panel_count rows tile * bpr * tile) dst"
    using pc se szpos by (auto simp: ok_def)
  have w: "\<exists>p. w' = Some p \<and> p_contract p = take (nat bytes) source \<and> p_panel p = dst"
    using ok q tile s run srclen
    by (auto simp: prepare_format_def Let_def tile_def bpr_def bb_def)
  then show ?thesis
    using len se szpos srclen panel_block [OF up] tile by (auto simp: ac_simps)
qed


lemma geometry_ratio:
  assumes "canonical_block_geometry m = Some (e, bb)"
  shows "0 < e" "0 < bb" "e * fst (data_ratio (layout m)) = bb * snd (data_ratio (layout m))"
  using assms
  by (auto simp: canonical_block_geometry_def data_ratio_def Let_def
      split: CanonicalQuantLayout.splits if_splits)

lemma tensor_tables_uniform: "\<forall>t \<in> set (tensor_tables x). uniform_table t"
  by (auto simp: tensor_tables_def uniform_table_def le32_def)

text \<open>The offsets a prepared tensor records, in the order of its tables.\<close>

definition recorded_offsets :: "CpuPackedWeightsInfo \<Rightarrow> int list" where
  "recorded_offsets i = [scale_code_table_offset i, scale_table_offset i, zero_point_table_offset i,
     activation_scale_offset i, activation_zero_point_offset i, group_index_offset i, act_order_offset i,
     row_sum_table_offset i]"

lemma recorded_record: "length offs = 8 \<Longrightarrow> recorded_offsets (record_offsets offs i) = offs"
  by (rule nth_equalityI) (auto simp: recorded_offsets_def record_offsets_def less_Suc_eq numeral_eq_Suc)


section \<open>Witnesses\<close>

text \<open>Three rows of one \<^verbatim>\<open>q4_0\<close> block each, prepared for panels of four rows.\<close>

definition demo_source :: "u8 list" where
  "demo_source = map word_of_nat [0..<54]"

theorem prepared_panel_holds_every_block_witness:
  "\<exists>p. prepare_format no_features False 0 kQ4_0 (Some demo_source) 3 32 kNeonRows4 None = Some (kOk, Some p) \<and>
     p_panel p ! nat (2 * 18 + 5) = demo_source ! nat (2 * 18 + 5)"
proof -
  have l: "int (length demo_source) = 3 * (32 div block_size kQ4_0) * block_bytes kQ4_0"
    by (simp add: demo_source_def block_size_def block_bytes_def)
  have q: "qgemv_packed_size kQ4_0 3 32 True = (kOk, Some 54)"
    by (simp add: qgemv_packed_size_exact' block_size_def block_bytes_def int_limits)
  have s: "panel_size 1 1 4 18 = Some 72" by (simp add: panel_size_def checked_size_mul_def int_limits)
  obtain dst where run: "finish (copy_panels demo_source 3 1 1 4 18 (replicate 72 0)) = Some (kOk, dst)"
    using copy_panels_ok [of 18 4 1 1 3 demo_source 72 "replicate 72 0"] l
    by (auto simp: ok_def block_size_def block_bytes_def)
  have "\<exists>w. prepare_format no_features False 0 kQ4_0 (Some demo_source) 3 32 kNeonRows4 None = Some (kOk, w)"
    using q s run l
    by (simp add: prepare_format_def Let_def resolved_layout_def row_tile_def block_size_def block_bytes_def
        panel_count_def)
  then obtain w where w: "prepare_format no_features False 0 kQ4_0 (Some demo_source) 3 32 kNeonRows4 None = Some (kOk, w)"
    by blast
  from prepared_panel_holds_every_block [OF l w] obtain p where "w = Some p"
    and p: "\<forall>i j b. 0 \<le> i \<and> i < 4 \<and> 0 \<le> j \<and> j < 1 \<and> 0 \<le> b \<and> b < 18 \<longrightarrow>
       p_panel p ! nat (((i div 4 * 1 + j) * 4 + i mod 4) * 18 + b) =
         (if i < 3 then demo_source ! nat ((i * 1 + j) * 18 + b) else 0)"
    by (auto simp: resolved_layout_def row_tile_def block_size_def block_bytes_def panel_count_def)
  from p [rule_format, of 2 0 5] have "p_panel p ! nat (2 * 18 + 5) = demo_source ! nat (2 * 18 + 5)" by simp
  with w \<open>w = Some p\<close> show ?thesis by blast
qed


end
