(* ===== verification/Kernel_Loops.thy ===== *)
theory Kernel_Loops
  imports ThreadPool Validation
begin

text \<open>
  The two loops of the element-moving kernels, over the items of a range in order and over the items of
  a parallel region in the order the pool runs them, with one rule each; and rows of row-major buffers.
\<close>

text \<open>\<^verbatim>\<open>static_cast<int>\<close> of a \<^verbatim>\<open>long long\<close>.\<close>

definition narrow_int :: "int \<Rightarrow> int" where
  "narrow_int x = (x + 2147483648) mod 4294967296 - 2147483648"

lemma narrow_int_id: "INT_MIN \<le> x \<Longrightarrow> x \<le> INT_MAX \<Longrightarrow> narrow_int x = x"
  by (simp add: narrow_int_def int_limits)

section \<open>Loops without early exits\<close>

text \<open>The items of a list in turn; \<open>None\<close> as soon as one of them is undefined.\<close>

fun each :: "int list \<Rightarrow> (int \<Rightarrow> 's \<Rightarrow> 's option) \<Rightarrow> 's \<Rightarrow> 's option" where
  "each [] body s = Some s"
| "each (i # is) body s = do { t \<leftarrow> body i s; each is body t }"

text \<open>\<^verbatim>\<open>for (i = lo; i < hi; ++i) body\<close>\<close>

definition loop :: "int \<Rightarrow> int \<Rightarrow> (int \<Rightarrow> 's \<Rightarrow> 's option) \<Rightarrow> 's \<Rightarrow> 's option" where
  "loop lo hi body = each [lo..hi - 1] body"

text \<open>
  \<^verbatim>\<open>parallel_ranges(n, min_per_chunk, [&](begin, end, worker) { for (i = begin; i < end; ++i) body })\<close> where
  \<open>cs\<close> are the calls the pool makes, in the order in which they run.
\<close>

definition call_items :: "call list \<Rightarrow> int list" where
  "call_items cs = concat (map (\<lambda>(b, e, w). [b..e - 1]) cs)"

definition parallel_ranges :: "call list \<Rightarrow> (int \<Rightarrow> 's \<Rightarrow> 's option) \<Rightarrow> 's \<Rightarrow> 's option" where
  "parallel_ranges cs body = each (call_items cs) body"

lemma each_append: "each (xs @ ys) body s = do { t \<leftarrow> each xs body s; each ys body t }"
  by (induction xs arbitrary: s) (auto split: bind_splits)

lemma each_inv:
  assumes "distinct is" "I {} s"
    and "\<And>i D t. i \<in> set is \<Longrightarrow> i \<notin> D \<Longrightarrow> D \<subseteq> set is \<Longrightarrow> I D t \<Longrightarrow> ok (I (insert i D)) (body i t)"
  shows "ok (I (set is)) (each is body s)"
proof -
  have "ok (I (D \<union> set js)) (each js body t)"
    if "I D t" "D \<inter> set js = {}" "distinct js" "D \<union> set js \<subseteq> set is" for js D t
    using that
  proof (induction js arbitrary: D t)
    case (Cons j js)
    have "ok (I (insert j D)) (body j t)"
      by (rule assms(3)) (use Cons.prems in auto)
    moreover have "ok (I (insert j D \<union> set js)) (each js body u)" if "I (insert j D) u" for u
      by (rule Cons.IH [OF that]) (use Cons.prems in auto)
    ultimately show ?case by (auto simp: ok_bind ok_def)
  qed simp
  from this [of "{}" s "is"] assms(1,2) show ?thesis by simp
qed

lemma loop_empty [simp]: "hi \<le> lo \<Longrightarrow> loop lo hi body s = Some s"
  by (simp add: loop_def)

lemma loop_step: "lo < hi \<Longrightarrow> loop lo hi body s = do { t \<leftarrow> body lo s; loop (lo + 1) hi body t }"
  by (simp add: loop_def upto_rec1)

text \<open>The loop rule: an invariant indexed by the counter.\<close>

lemma loop_inv:
  assumes "lo \<le> hi" "I lo s" "\<And>i t. lo \<le> i \<Longrightarrow> i < hi \<Longrightarrow> I i t \<Longrightarrow> ok (I (i + 1)) (body i t)"
  shows "ok (I hi) (loop lo hi body s)"
  using assms
proof (induction "nat (hi - lo)" arbitrary: lo s)
  case (Suc n)
  have lt: "lo < hi" using Suc.hyps(2) by simp
  have "ok (I (lo + 1)) (body lo s)" using Suc.prems lt by simp
  moreover have "ok (I hi) (loop (lo + 1) hi body t)" if "I (lo + 1) t" for t
    by (rule Suc.hyps(1)) (use Suc.hyps(2) Suc.prems(3) lt that in auto)
  ultimately show ?case by (auto simp: loop_step [OF lt] ok_bind ok_def)
qed auto

text \<open>\<^verbatim>\<open>for (i = lo; i < hi; i += step)\<close>: the values the counter takes.\<close>

definition strided :: "int \<Rightarrow> int \<Rightarrow> int \<Rightarrow> int list" where
  "strided lo hi step = map (\<lambda>k. lo + k * step) [0..cdiv (hi - lo + step - 1) step - 1]"

lemma each_map: "each (map f is) body = each is (\<lambda>i. body (f i))"
proof (induction "is")
  case (Cons i "is")
  show ?case by (rule ext) (simp add: Cons.IH)
qed (simp add: fun_eq_iff)

lemma each_strided:
  assumes "0 < step" "lo \<le> hi"
  shows "each (strided lo hi step) body s = loop 0 ((hi - lo + step - 1) div step) (\<lambda>k. body (lo + k * step)) s"
  using assms by (simp add: strided_def each_map loop_def)

text \<open>The rule of a parallel region: an invariant indexed by the set of items done so far.\<close>

lemma count_list_distinct: "distinct xs \<Longrightarrow> count_list xs x = (if x \<in> set xs then 1 else 0)"
  by (induction xs) auto

lemma count_call_items: "count_list (call_items cs) x = length (filter (in_call x) cs)"
proof (induction cs)
  case (Cons c cs)
  obtain b e w where c: "c = (b, e, w)" by (cases c)
  have "count_list [b..e - 1] x = (if b \<le> x \<and> x < e then 1 else 0)"
    by (simp add: count_list_distinct)
  then show ?case using Cons by (simp add: call_items_def c in_call_def)
qed (simp add: call_items_def)

lemma distinct_if_count: "(\<And>x. count_list xs x \<le> 1) \<Longrightarrow> distinct xs"
proof (induction xs)
  case (Cons a xs)
  have "count_list xs x \<le> 1" for x using Cons.prems [of x] by (simp split: if_splits)
  then have "distinct xs" by (rule Cons.IH)
  moreover have "a \<notin> set xs" using Cons.prems [of a] by (simp add: count_list_0_iff [symmetric])
  ultimately show ?case by simp
qed simp

lemma region_items:
  assumes "region_calls n cs"
  shows "distinct (call_items cs)" "set (call_items cs) = {0..<n}"
proof -
  have c: "count_list (call_items cs) x = (if 0 \<le> x \<and> x < n then 1 else 0)" for x
  proof (cases "0 \<le> x \<and> x < n")
    case True
    then show ?thesis using region_calls_once [OF assms] by (simp add: count_call_items)
  next
    case False
    then have "filter (in_call x) cs = []"
      using region_calls_inside [OF assms] by (auto simp: filter_empty_conv)
    then show ?thesis using False by (simp add: count_call_items)
  qed
  show "distinct (call_items cs)" by (rule distinct_if_count) (simp add: c)
  have mem: "x \<in> set (call_items cs) \<longleftrightarrow> 0 \<le> x \<and> x < n" for x
  proof -
    have "x \<in> set (call_items cs) \<longleftrightarrow> count_list (call_items cs) x \<noteq> 0" by (simp only: count_list_0_iff) simp
    also have "\<dots> \<longleftrightarrow> 0 \<le> x \<and> x < n" by (simp only: c) simp
    finally show ?thesis .
  qed
  show "set (call_items cs) = {0..<n}" by (rule set_eqI) (simp only: mem atLeastLessThan_iff)
qed

lemma parallel_ranges_inv:
  assumes "region_calls n cs" "I {} s"
    and "\<And>i D t. 0 \<le> i \<Longrightarrow> i < n \<Longrightarrow> i \<notin> D \<Longrightarrow> D \<subseteq> {0..<n} \<Longrightarrow> I D t \<Longrightarrow> ok (I (insert i D)) (body i t)"
  shows "ok (I {0..<n}) (parallel_ranges cs body s)"
  using each_inv [of "call_items cs" I s body] region_items [OF assms(1)] assms(2,3)
  by (simp add: parallel_ranges_def)

text \<open>One thread, or a call from inside a region, runs everything in one call.\<close>

lemma region_inline: "0 < n \<Longrightarrow> region_calls n [(0, n, 0)]"
  unfolding region_calls_def
  by (intro disjI1 exI [of _ True]) (simp add: run_inline_def)

section \<open>Rows\<close>

text \<open>Row \<open>i\<close> of a row-major buffer with rows of \<open>w\<close> elements.\<close>

definition row :: "int \<Rightarrow> 'a list \<Rightarrow> int \<Rightarrow> 'a list" where
  "row w xs i = take (nat w) (drop (nat (i * w)) xs)"

lemma row_end:
  assumes "0 \<le> i" "i < n" "0 \<le> w" "n * w \<le> int (length xs)"
  shows "nat (i * w) + nat w \<le> length xs"
proof -
  have "i * w + w \<le> int (length xs)" using row_bound(2) [of i n w] assms by simp
  then show ?thesis using assms(1,3) by (simp add: nat_add_distrib [symmetric] nat_le_iff)
qed

lemma length_row [simp]:
  "0 \<le> i \<Longrightarrow> i < n \<Longrightarrow> 0 \<le> w \<Longrightarrow> n * w \<le> int (length xs) \<Longrightarrow> length (row w xs i) = nat w"
  using row_end [of i n w xs] by (simp add: row_def)

lemma nth_row:
  assumes "0 \<le> i" "i < n" "0 \<le> j" "j < w" "n * w \<le> int (length xs)"
  shows "row w xs i ! nat j = xs ! nat (i * w + j)"
proof -
  have "nat (i * w) + nat w \<le> length xs" using assms by (intro row_end) auto
  then have "row w xs i ! nat j = xs ! (nat (i * w) + nat j)" using assms by (simp add: row_def)
  also have "nat (i * w) + nat j = nat (i * w + j)" using assms by (simp add: nat_add_distrib)
  finally show ?thesis .
qed

lemma copy_row:
  assumes "0 \<le> i" "i < m" "0 \<le> j" "j < n" "0 < w" "m * w \<le> int (length src)" "n * w \<le> int (length dst)"
  shows "copy_n src (i * w) w dst (j * w) = Some (splice dst (nat (j * w)) (row w src i))"
  using row_bound [of i m w] row_bound [of j n w] assms
  by (simp add: copy_n_def in_range_def row_def)

lemma row_splice:
  assumes "0 \<le> j" "j < n" "0 \<le> k" "k < n" "n * w \<le> int (length dst)" "int (length ys) = w"
  shows "row w (splice dst (nat (j * w)) ys) k = (if k = j then ys else row w dst k)"
proof (cases "k = j")
  case True
  have "nat (j * w) + length ys \<le> length dst" using row_end [of j n w dst] assms by (simp add: nat_eq_iff)
  then show ?thesis using True assms(6) by (simp add: row_def splice_def)
next
  case False
  have e: "nat (j * w) + length ys \<le> length dst" "nat (k * w) + nat w \<le> length dst" "nat w = length ys"
    using row_end [of j n w dst] row_end [of k n w dst] assms by auto
  show ?thesis
  proof (rule nth_equalityI)
    show "length (row w (splice dst (nat (j * w)) ys) k) = length (if k = j then ys else row w dst k)"
      using e False by (simp add: row_def)
  next
    fix t assume "t < length (row w (splice dst (nat (j * w)) ys) k)"
    then have t: "t < nat w" using e by (simp add: row_def)
    have p: "nat (k * w) + t = nat (k * w + int t)" using assms by (simp add: nat_add_distrib)
    have "\<not> (nat (j * w) \<le> nat (k * w) + t \<and> nat (k * w) + t < nat (j * w) + length ys)"
    proof
      assume a: "nat (j * w) \<le> nat (k * w) + t \<and> nat (k * w) + t < nat (j * w) + length ys"
      have "0 \<le> j * w" "0 \<le> k * w" using assms by auto
      then have "k * w + int t = j * w + (k * w + int t - j * w)" "0 \<le> k * w + int t - j * w"
        "k * w + int t - j * w < w" using a e assms(6) by auto
      moreover have "int t < w" using t by (simp add: zless_nat_eq_int_zless)
      ultimately show False
        using index_unique(1) [of "int t" w "k * w + int t - j * w" k j] False by simp
    qed
    then show "row w (splice dst (nat (j * w)) ys) k ! t = (if k = j then ys else row w dst k) ! t"
      using e t False nth_splice [OF e(1), of "nat (k * w) + t"] by (simp add: row_def if_not_P)
  qed
qed

lemma length_splice_row:
  assumes "0 \<le> j" "j < n" "n * w \<le> int (length dst)" "int (length ys) = w"
  shows "length (splice dst (nat (j * w)) ys) = length dst"
  using row_end [of j n w dst] assms by (intro length_splice) (simp add: nat_eq_iff)

text \<open>Copying a row: defined, of the same length, and only that row changes.\<close>

lemma copy_row_effect:
  assumes "0 \<le> i" "i < m" "0 \<le> j" "j < n" "0 < w" "m * w \<le> int (length src)" "n * w \<le> int (length dst)"
  obtains dst' where "copy_n src (i * w) w dst (j * w) = Some dst'" "length dst' = length dst"
    "\<And>k. 0 \<le> k \<Longrightarrow> k < n \<Longrightarrow> row w dst' k = (if k = j then row w src i else row w dst k)"
proof -
  have l: "int (length (row w src i)) = w" using length_row [of i m w src] assms by simp
  show thesis
    using that [OF copy_row [OF assms] length_splice_row [OF assms(3,4,7) l] row_splice [OF assms(3,4) _ _ assms(7) l]] .
qed

lemma row_take:
  assumes "0 \<le> i" "i < n" "0 \<le> w"
  shows "row w (take (nat (n * w)) xs) i = row w xs i"
proof -
  have "i * w + w \<le> n * w" "0 \<le> i * w" using row_bound [of i n w] assms by auto
  then have "nat w \<le> nat (n * w) - nat (i * w)" by simp
  then show ?thesis by (simp add: row_def drop_take min_absorb1)
qed

text \<open>A buffer of whole rows is its rows.\<close>

lemma rows_eqI:
  assumes "0 < w" "0 \<le> n" "int (length xs) = n * w" "int (length ys) = n * w"
    and "\<And>i. 0 \<le> i \<Longrightarrow> i < n \<Longrightarrow> row w xs i = row w ys i"
  shows "xs = ys"
proof (rule nth_equalityI)
  show "length xs = length ys" using assms by simp
  fix t assume "t < length xs"
  then have t: "0 \<le> int t" "int t < n * w" using assms by auto
  note d = div_mod_bound [OF t assms(1)]
  have "xs ! t = row w xs (int t div w) ! nat (int t mod w)"
    using nth_row [OF d(1,2,3,4), of xs] d(5) assms(3) by simp
  also have "\<dots> = row w ys (int t div w) ! nat (int t mod w)" using assms(5) [OF d(1,2)] by simp
  also have "\<dots> = ys ! t" using nth_row [OF d(1,2,3,4), of ys] d(5) assms(4) by simp
  finally show "xs ! t = ys ! t" .
qed

section \<open>Validation scans and last writers\<close>

text \<open>\<^verbatim>\<open>for (i : is) if (!p(i)) return error;\<close> as the value whether the loop runs to its end.\<close>

fun all_of :: "int list \<Rightarrow> (int \<Rightarrow> bool option) \<Rightarrow> bool option" where
  "all_of [] p = Some True"
| "all_of (i # is) p = do { good \<leftarrow> p i; if good then all_of is p else Some False }"

lemma all_of_total:
  "(\<And>i. i \<in> set is \<Longrightarrow> p i = Some (q i)) \<Longrightarrow> all_of is p = Some (\<forall>i \<in> set is. q i)"
  by (induction "is") auto

lemma index_scan:
  assumes "items \<le> int (length ix)"
  shows "all_of [0..items - 1] (\<lambda>item. do { i \<leftarrow> rd ix item; Some (P i) }) =
    Some (\<forall>i. 0 \<le> i \<and> i < items \<longrightarrow> P (ix ! nat i))"
proof -
  have "all_of [0..items - 1] (\<lambda>item. do { i \<leftarrow> rd ix item; Some (P i) }) =
      Some (\<forall>i \<in> set [0..items - 1]. P (ix ! nat i))"
    by (rule all_of_total) (use assms in \<open>auto simp: rd_def in_buf_def\<close>)
  also have "(\<forall>i \<in> set [0..items - 1]. P (ix ! nat i)) = (\<forall>i. 0 \<le> i \<and> i < items \<longrightarrow> P (ix ! nat i))"
    by auto
  finally show ?thesis .
qed

text \<open>The last item before \<open>n\<close> that satisfies a predicate: the one whose write survives a serial loop.\<close>

definition last_where :: "(int \<Rightarrow> bool) \<Rightarrow> int \<Rightarrow> int option" where
  "last_where p n = find p (rev [0..n - 1])"

lemma last_where_0 [simp]: "n \<le> 0 \<Longrightarrow> last_where p n = None"
  by (simp add: last_where_def)

lemma last_where_step: "0 \<le> n \<Longrightarrow> last_where p (n + 1) = (if p n then Some n else last_where p n)"
proof -
  assume "0 \<le> n"
  then have "[0..n] = [0..n - 1] @ [n]" using upto_rec2 [of 0 n] by simp
  then show ?thesis by (simp add: last_where_def)
qed

lemma find_SomeD: "find p xs = Some x \<Longrightarrow> x \<in> set xs \<and> p x"
  by (induction xs) (auto split: if_splits)

lemma last_where_SomeD: "last_where p n = Some i \<Longrightarrow> 0 \<le> i \<and> i < n \<and> p i"
  by (auto simp: last_where_def dest!: find_SomeD)

lemma last_where_unique:
  assumes "0 \<le> i" "i < n" "p i" "\<And>j. 0 \<le> j \<Longrightarrow> j < n \<Longrightarrow> p j \<Longrightarrow> j = i"
  shows "last_where p n = Some i"
proof (cases "last_where p n")
  case None
  then have "\<not> p i" using assms(1,2) by (simp add: last_where_def find_None_iff)
  with assms(3) show ?thesis by simp
next
  case (Some j)
  with last_where_SomeD [OF Some] assms(4) show ?thesis by auto
qed

lemma last_where_None_iff: "last_where p n = None \<longleftrightarrow> (\<forall>i. 0 \<le> i \<and> i < n \<longrightarrow> \<not> p i)"
  by (auto simp: last_where_def find_None_iff)

text \<open>
  The buffer after the first \<open>i\<close> writes of a serial loop that copies \<open>ys j\<close> to row \<open>d j\<close> for the items
  \<open>j\<close> that are active.
\<close>

definition rows_after ::
  "int \<Rightarrow> int \<Rightarrow> 'a list \<Rightarrow> (int \<Rightarrow> bool) \<Rightarrow> (int \<Rightarrow> int) \<Rightarrow> (int \<Rightarrow> 'a list) \<Rightarrow> int \<Rightarrow> 'a list \<Rightarrow> bool" where
  "rows_after w m dst0 act d ys i dst \<longleftrightarrow> length dst = length dst0 \<and>
     (\<forall>k. 0 \<le> k \<and> k < m \<longrightarrow> row w dst k =
        (case last_where (\<lambda>j. act j \<and> d j = k) i of None \<Rightarrow> row w dst0 k | Some j \<Rightarrow> ys j))"

lemma rows_after_0: "rows_after w m dst act d ys 0 dst"
  by (simp add: rows_after_def)

lemma rows_after_skip:
  "0 \<le> i \<Longrightarrow> rows_after w m dst0 act d ys i dst \<Longrightarrow> \<not> act i \<Longrightarrow> rows_after w m dst0 act d ys (i + 1) dst"
  by (simp add: rows_after_def last_where_step)

lemma rows_after_write:
  assumes "0 \<le> i" "rows_after w m dst0 act d ys i dst" "act i" "0 \<le> d i" "d i < m"
    and "m * w \<le> int (length dst0)" "int (length (ys i)) = w"
  shows "rows_after w m dst0 act d ys (i + 1) (splice dst (nat (d i * w)) (ys i))"
proof -
  have len: "m * w \<le> int (length dst)" using assms(2,6) by (simp add: rows_after_def)
  show ?thesis
    unfolding rows_after_def
  proof (intro conjI allI impI)
    show "length (splice dst (nat (d i * w)) (ys i)) = length dst0"
      using length_splice_row [OF assms(4,5) len assms(7)] assms(2) by (simp add: rows_after_def)
  next
    fix k assume k: "0 \<le> k \<and> k < m"
    then have "row w (splice dst (nat (d i * w)) (ys i)) k = (if k = d i then ys i else row w dst k)"
      using row_splice [OF assms(4,5) _ _ len assms(7), of k] by simp
    then show "row w (splice dst (nat (d i * w)) (ys i)) k =
        (case last_where (\<lambda>j. act j \<and> d j = k) (i + 1) of None \<Rightarrow> row w dst0 k | Some j \<Rightarrow> ys j)"
      using assms(1-3) k by (simp add: last_where_step rows_after_def)
  qed
qed

section \<open>Updating a row in place\<close>

lemma fill_row_effect:
  assumes "0 \<le> j" "j < n" "0 < w" "n * w \<le> int (length dst)"
  obtains dst' where "fill_n dst (j * w) w v = Some dst'" "length dst' = length dst"
    "\<And>k. 0 \<le> k \<Longrightarrow> k < n \<Longrightarrow> row w dst' k = (if k = j then replicate (nat w) v else row w dst k)"
proof -
  have "fill_n dst (j * w) w v = Some (splice dst (nat (j * w)) (replicate (nat w) v))"
    using row_bound [of j n w] assms by (simp add: fill_n_def in_range_def)
  moreover have "int (length (replicate (nat w) v)) = w" using assms(3) by simp
  ultimately show thesis
    using that length_splice_row [OF assms(1,2,4)] row_splice [OF assms(1,2) _ _ assms(4)] by blast
qed

text \<open>A loop over the elements of row \<open>t\<close> that replaces each of them.\<close>

lemma row_map_loop:
  assumes "0 \<le> t" "t < n" "0 \<le> w" "n * w \<le> int (length dst)"
    and body: "\<And>f d. 0 \<le> f \<Longrightarrow> f < w \<Longrightarrow> length d = length dst \<Longrightarrow>
      body f d = Some (d[nat (t * w + f) := g f (d ! nat (t * w + f))])"
  obtains dst' where "loop 0 w body dst = Some dst'" "length dst' = length dst"
    "row w dst' t = map (\<lambda>f. g (int f) (row w dst t ! f)) [0..<nat w]"
    "\<And>k. 0 \<le> k \<Longrightarrow> k < n \<Longrightarrow> k \<noteq> t \<Longrightarrow> row w dst' k = row w dst k"
proof -
  let ?upto = "\<lambda>f d. length d = length dst \<and>
    (\<forall>i < length dst. d ! i =
      (if nat (t * w) \<le> i \<and> i < nat (t * w + f) then g (int i - t * w) (dst ! i) else dst ! i))"
  have b: "0 \<le> t * w" "t * w + w \<le> int (length dst)" using row_bound [of t n w] assms by auto
  have "ok (?upto w) (loop 0 w body dst)"
  proof (rule loop_inv [where I = ?upto])
    fix f d assume f: "0 \<le> f" "f < w" and I: "?upto f d"
    have len: "length d = length dst" using I by simp
    have old: "d ! nat (t * w + f) = dst ! nat (t * w + f)" using I f b by simp
    have i: "int (nat (t * w + f)) - t * w = f" using f b by simp
    have le: "nat (t * w) \<le> nat (t * w + f)" "nat (t * w + f) < nat (t * w + (f + 1))"
      using f b by (auto intro: nat_mono simp: nat_less_eq_zless)
    have "?upto (f + 1) (d[nat (t * w + f) := g f (d ! nat (t * w + f))])"
    proof (intro conjI allI impI)
      fix k assume k: "k < length dst"
      show "d[nat (t * w + f) := g f (d ! nat (t * w + f))] ! k =
          (if nat (t * w) \<le> k \<and> k < nat (t * w + (f + 1)) then g (int k - t * w) (dst ! k) else dst ! k)"
      proof (cases "k = nat (t * w + f)")
        case True
        then show ?thesis using k len old i le by simp
      next
        case False
        then have "k < nat (t * w + (f + 1)) \<longleftrightarrow> k < nat (t * w + f)" using f b by linarith
        then show ?thesis using False k I by simp
      qed
    qed (simp add: len)
    then show "ok (?upto (f + 1)) (body f d)" unfolding body [OF f len] ok_Some .
  qed (use assms(3) in auto)
  then obtain dst' where l: "loop 0 w body dst = Some dst'" and u: "?upto w dst'" by (auto simp: ok_def)
  have len: "length dst' = length dst" using u by simp
  have el: "dst' ! nat (k * w + f) = (if k = t then g f (dst ! nat (k * w + f)) else dst ! nat (k * w + f))"
    if k: "0 \<le> k" "k < n" and f: "0 \<le> f" "f < w" for k f
  proof -
    have i: "0 \<le> k * w + f" "k * w + f < n * w" using index_bound [OF k f] by auto
    have "nat (t * w) \<le> nat (k * w + f) \<and> nat (k * w + f) < nat (t * w + w) \<longleftrightarrow> k = t"
    proof
      assume "nat (t * w) \<le> nat (k * w + f) \<and> nat (k * w + f) < nat (t * w + w)"
      then have "0 \<le> k * w + f - t * w" "k * w + f - t * w < w" using i b by auto
      then show "k = t" using index_unique(1) [OF f, of "k * w + f - t * w" k t] by simp
    qed (use f i b in simp)
    then show ?thesis using u i assms(4) by auto
  qed
  have rows: "row w dst' k = (if k = t then map (\<lambda>f. g (int f) (row w dst t ! f)) [0..<nat w] else row w dst k)"
    if k: "0 \<le> k" "k < n" for k
  proof (rule nth_equalityI)
    show "length (row w dst' k) =
        length (if k = t then map (\<lambda>f. g (int f) (row w dst t ! f)) [0..<nat w] else row w dst k)"
      using k assms len by simp
  next
    fix m assume "m < length (row w dst' k)"
    then have m: "0 \<le> int m" "int m < w" using k assms len length_row [of k n w dst'] by auto
    have "row w dst' k ! m = dst' ! nat (k * w + int m)"
      using nth_row [OF k m, of dst'] assms(4) len by simp
    also have "\<dots> = (if k = t then g (int m) (row w dst k ! m) else row w dst k ! m)"
      using el [OF k m] nth_row [OF k m assms(4)] by (cases "k = t") simp_all
    finally show "row w dst' k ! m =
        (if k = t then map (\<lambda>f. g (int f) (row w dst t ! f)) [0..<nat w] else row w dst k) ! m"
      using m by auto
  qed
  show thesis using that [OF l len] rows assms(1,2) by auto
qed

section \<open>Loops that always run to their end\<close>

lemma flow_nextE:
  assumes "ok (flow_post N (\<lambda>_. False) (\<lambda>_ _. False)) m"
  obtains s where "m = Some (Next s)" "N s"
proof -
  obtain f where "m = Some f" "flow_post N (\<lambda>_. False) (\<lambda>_ _. False) f" using assms by (auto simp: ok_def)
  then show thesis using that by (cases f) auto
qed

lemma rd_at: "0 \<le> i \<Longrightarrow> i < int (length xs) \<Longrightarrow> rd xs i = Some (xs ! nat i)"
  by (simp add: rd_def in_buf_def)

lemma wr_at: "0 \<le> i \<Longrightarrow> i < int (length xs) \<Longrightarrow> wr xs i v = Some (xs[nat i := v])"
  by (simp add: wr_def in_buf_def)

lemma i32_at: "INT_MIN \<le> i \<Longrightarrow> i \<le> INT_MAX \<Longrightarrow> i32 i = Some i"
  by (simp add: i32_def is_int_def)

lemma i64_at: "LLONG_MIN \<le> i \<Longrightarrow> i \<le> LLONG_MAX \<Longrightarrow> i64 i = Some i"
  by (simp add: i64_def is_llong_def)

text \<open>Nothing outside a part of a buffer changes.\<close>

definition outside_same :: "int \<Rightarrow> int \<Rightarrow> 'a list \<Rightarrow> 'a list \<Rightarrow> bool" where
  "outside_same base n xs ys \<longleftrightarrow> length ys = length xs \<and>
     (\<forall>i < length xs. int i < base \<or> base + n \<le> int i \<longrightarrow> ys ! i = xs ! i)"

lemma outside_same_refl [simp]: "outside_same base n xs xs"
  by (simp add: outside_same_def)

lemma outside_same_length: "outside_same base n xs ys \<Longrightarrow> length ys = length xs"
  by (simp add: outside_same_def)

lemma outside_same_trans: "outside_same base n xs ys \<Longrightarrow> outside_same base n ys zs \<Longrightarrow> outside_same base n xs zs"
  by (simp add: outside_same_def)

lemma outside_same_update:
  "0 \<le> base \<Longrightarrow> 0 \<le> q \<Longrightarrow> q < n \<Longrightarrow> outside_same base n xs (xs[nat (base + q) := v])"
  by (auto simp: outside_same_def nth_list_update)

lemma nth_update_at:
  assumes "0 \<le> base" "0 \<le> q" "base + q < int (length xs)" "0 \<le> i"
  shows "xs[nat (base + q) := v] ! nat (base + i) = (if i = q then v else xs ! nat (base + i))"
  using assms by (auto simp: nth_list_update nat_eq_iff)

text \<open>Another row is outside.\<close>

lemma outside_same_row:
  assumes "outside_same (r * n) n xs ys" "q \<noteq> r" "0 \<le> q" "0 \<le> j" "j < n" "q * n + n \<le> int (length xs)"
  shows "ys ! nat (q * n + j) = xs ! nat (q * n + j)"
proof -
  have "\<not> (r * n \<le> q * n + j \<and> q * n + j < r * n + n)"
  proof
    assume "r * n \<le> q * n + j \<and> q * n + j < r * n + n"
    then show False using index_unique(1) [of j n "q * n + j - r * n" q r] assms by simp
  qed
  moreover have z: "0 \<le> q * n" using assms by simp
  then have "0 \<le> q * n + j" using assms(4) by simp
  ultimately have "int (nat (q * n + j)) < r * n \<or> r * n + n \<le> int (nat (q * n + j))"
      by auto
  moreover have "nat (q * n + j) < length xs" using assms z by (simp add: nat_less_iff)
  ultimately show ?thesis using assms(1) unfolding outside_same_def by blast
qed

lemma fill_outside:
  assumes "0 \<le> base" "0 < n" "base + n \<le> int (length xs)"
  obtains ys where "fill_n xs base n v = Some ys" "outside_same base n xs ys"
    "\<And>q. 0 \<le> q \<Longrightarrow> q < n \<Longrightarrow> ys ! nat (base + q) = v"
proof -
  let ?ys = "splice xs (nat base) (replicate (nat n) v)"
  have le: "nat base + length (replicate (nat n) v) \<le> length xs" using assms by simp
  have "fill_n xs base n v = Some ?ys" using assms by (simp add: fill_n_def in_range_def)
  moreover have "outside_same base n xs ?ys"
    using nth_splice [OF le] length_splice [OF le] assms by (auto simp: outside_same_def)
  moreover have "?ys ! nat (base + q) = v" if "0 \<le> q" "q < n" for q
    using nth_splice [OF le, of "nat (base + q)"] assms that
    by (simp add: nat_diff_distrib' [symmetric] nat_less_iff nat_mono)
  ultimately show thesis by (rule that)
qed

end
