(* ===== verification/KvCache.thy ===== *)
theory KvCache
  imports Kernel_Loops
begin

text \<open>
  \<^verbatim>\<open>kernels/serving/serving_ref.cpp\<close> and the block operations of
  \<^verbatim>\<open>kernels/serving/kv_cache_extended_ref.cpp\<close>: embedding lookup, scatter and gather of cache rows, the
  block copies of beam search and the remapping of its block tables. The element type is arbitrary: these
  kernels move elements and never look at them. Buffers passed together do not overlap. A failing
  allocation of a temporary vector leaves by an exception and is not modelled.
\<close>

section \<open>Rows by index\<close>

definition embedding_lookup ::
  "call list \<Rightarrow> 'a ptr \<Rightarrow> int ptr \<Rightarrow> 'a ptr \<Rightarrow> int \<Rightarrow> int \<Rightarrow> int \<Rightarrow> (status \<times> 'a ptr) option" where
  "embedding_lookup cs table ids out vocab items dim =
     (if \<not> (valid_product [vocab, dim] \<and> valid_product [items, dim]) then Some (kInvalidShape, out)
      else case (table, ids, out) of
        (Some tb, Some ix, Some dst) \<Rightarrow> do {
          good \<leftarrow> all_of [0..items - 1] (\<lambda>item. do { id \<leftarrow> rd ix item; Some (\<not> (id < 0 \<or> id \<ge> vocab)) });
          if \<not> good then Some (kInvalidArgument, out)
          else do {
            dst' \<leftarrow> parallel_ranges cs (\<lambda>item dst. do {
                id \<leftarrow> rd ix item; copy_n tb (id * dim) dim dst (item * dim) }) dst;
            Some (kOk, Some dst') } }
      | _ \<Rightarrow> Some (kInvalidArgument, out))"

definition kv_cache_scatter ::
  "'a ptr \<Rightarrow> 'a ptr \<Rightarrow> int ptr \<Rightarrow> int \<Rightarrow> int \<Rightarrow> int \<Rightarrow> (status \<times> 'a ptr) option" where
  "kv_cache_scatter cache src slots max_slots items row_width =
     (if \<not> (valid_product [max_slots, row_width] \<and> valid_product [items, row_width])
      then Some (kInvalidShape, cache)
      else case (cache, src, slots) of
        (Some dst, Some from, Some sl) \<Rightarrow> do {
          good \<leftarrow> all_of [0..items - 1] (\<lambda>item. do { s \<leftarrow> rd sl item; Some (\<not> s \<ge> max_slots) });
          if \<not> good then Some (kInvalidArgument, cache)
          else do {
            dst' \<leftarrow> loop 0 items (\<lambda>item dst. do {
                s \<leftarrow> rd sl item;
                if s < 0 then Some dst
                else copy_n from (item * row_width) row_width dst (s * row_width) }) dst;
            Some (kOk, Some dst') } }
      | _ \<Rightarrow> Some (kInvalidArgument, cache))"

definition kv_cache_gather ::
  "call list \<Rightarrow> 'a ptr \<Rightarrow> int ptr \<Rightarrow> 'a ptr \<Rightarrow> int \<Rightarrow> int \<Rightarrow> int \<Rightarrow> (status \<times> 'a ptr) option" where
  "kv_cache_gather cs cache indices out max_slots items row_width =
     (if \<not> (valid_product [max_slots, row_width] \<and> valid_product [items, row_width])
      then Some (kInvalidShape, out)
      else case (cache, indices, out) of
        (Some from, Some ix, Some dst) \<Rightarrow> do {
          good \<leftarrow> all_of [0..items - 1] (\<lambda>item. do { i \<leftarrow> rd ix item; Some (\<not> (i < 0 \<or> i \<ge> max_slots)) });
          if \<not> good then Some (kInvalidArgument, out)
          else do {
            dst' \<leftarrow> parallel_ranges cs (\<lambda>item dst. do {
                i \<leftarrow> rd ix item; copy_n from (i * row_width) row_width dst (item * row_width) }) dst;
            Some (kOk, Some dst') } }
      | _ \<Rightarrow> Some (kInvalidArgument, out))"

section \<open>Blocks\<close>

text \<open>Both caches are copied first, so every pair reads the state before the call.\<close>

definition copy_pair ::
  "'a list \<Rightarrow> 'a list \<Rightarrow> int list \<Rightarrow> int \<Rightarrow> int \<Rightarrow> int \<Rightarrow> 'a list \<times> 'a list \<Rightarrow> ('a list \<times> 'a list) flow option" where
  "copy_pair key_source value_source pairs block_count elements pair s =
     do { source \<leftarrow> rd pairs (2 * pair);
          destination \<leftarrow> rd pairs (2 * pair + 1);
          if source < 0 \<or> destination < 0 then Some (Next s)
          else if source \<ge> block_count \<or> destination \<ge> block_count then Some (Ret kInvalidArgument s)
          else do {
            key' \<leftarrow> copy_n key_source (source * elements) elements (fst s) (destination * elements);
            value' \<leftarrow> copy_n value_source (source * elements) elements (snd s) (destination * elements);
            Some (Next (key', value')) } }"

definition kv_cache_copy_blocks ::
  "'a ptr \<Rightarrow> 'a ptr \<Rightarrow> int ptr \<Rightarrow> int \<Rightarrow> int \<Rightarrow> int \<Rightarrow> (status \<times> 'a ptr \<times> 'a ptr) option" where
  "kv_cache_copy_blocks key_cache value_cache block_pairs pair_count block_count elements =
     (if \<not> valid_product [block_count, elements] \<or> pair_count < 0
      then Some (kInvalidShape, key_cache, value_cache)
      else case (key_cache, value_cache, block_pairs) of
        (Some key, Some val, Some pairs) \<Rightarrow>
          if \<not> (in_range key 0 (block_count * elements) \<and> in_range val 0 (block_count * elements)) then None
          else do {
            (st, key', val') \<leftarrow> finish (for_loop 0 pair_count (copy_pair
               (take (nat (block_count * elements)) key) (take (nat (block_count * elements)) val)
               pairs block_count elements) (key, val));
            Some (st, Some key', Some val') }
      | _ \<Rightarrow> Some (kInvalidArgument, key_cache, value_cache))"

text \<open>One entry of the table of pairs: the parent's block and the beam's own, or an inactive pair.\<close>

definition beam_pair ::
  "int list \<Rightarrow> int \<Rightarrow> int \<Rightarrow> int \<Rightarrow> int \<Rightarrow> int \<Rightarrow> int \<Rightarrow> int \<Rightarrow> int list \<Rightarrow> int list option" where
  "beam_pair block_table beam_width max_blocks request beam parent used_blocks column pairs =
     do { let global_beam = request * beam_width + beam;
          let pair = global_beam * max_blocks + column;
          (source, destination) \<leftarrow>
            (if parent \<noteq> beam \<and> column < used_blocks
             then do {
               source \<leftarrow> rd block_table ((request * beam_width + parent) * max_blocks + column);
               destination \<leftarrow> rd block_table (global_beam * max_blocks + column);
               Some (if source < 0 \<or> destination < 0 then (- 1, - 1) else (source, destination)) }
             else Some (- 1, - 1));
          pairs \<leftarrow> wr pairs (2 * pair) source;
          wr pairs (2 * pair + 1) destination }"

definition beam_step ::
  "int list \<Rightarrow> int list \<Rightarrow> int list \<Rightarrow> int \<Rightarrow> int \<Rightarrow> int \<Rightarrow> int \<Rightarrow> int \<Rightarrow> int list \<Rightarrow> int list flow option" where
  "beam_step parents table lens beam_width max_blocks bsize request beam pairs =
     do { let global_beam = request * beam_width + beam;
          parent \<leftarrow> rd parents global_beam;
          if parent < 0 \<or> parent \<ge> beam_width then Some (Ret kInvalidArgument pairs)
          else do {
            len \<leftarrow> rd lens global_beam;
            if len < 0 then Some (Ret kInvalidArgument pairs)
            else do {
              up \<leftarrow> i32 (len + bsize);
              let used_blocks = cdiv (up - 1) bsize;
              thru (loop 0 max_blocks
                (beam_pair table beam_width max_blocks request beam parent used_blocks) pairs) } } }"

definition beam_build_copy_pairs ::
  "int ptr \<Rightarrow> int ptr \<Rightarrow> int ptr \<Rightarrow> int ptr \<Rightarrow> int \<Rightarrow> int \<Rightarrow> int \<Rightarrow> int \<Rightarrow> (status \<times> int ptr) option" where
  "beam_build_copy_pairs parent_beam block_table sequence_lengths block_pairs batch beam_width max_blocks bsize =
     (if \<not> valid_product [batch, beam_width, max_blocks] \<or> bsize \<le> 0 then Some (kInvalidShape, block_pairs)
      else case (parent_beam, block_table, sequence_lengths, block_pairs) of
        (Some parents, Some table, Some lens, Some pairs) \<Rightarrow> do {
          (st, pairs') \<leftarrow> finish (for_loop 0 batch (\<lambda>request. for_loop 0 beam_width
             (beam_step parents table lens beam_width max_blocks bsize request)) pairs);
          Some (st, Some pairs') }
      | _ \<Rightarrow> Some (kInvalidArgument, block_pairs))"

definition beam_remap_block_table ::
  "int ptr \<Rightarrow> int ptr \<Rightarrow> int ptr \<Rightarrow> int \<Rightarrow> int \<Rightarrow> int \<Rightarrow> (status \<times> int ptr) option" where
  "beam_remap_block_table block_table parent_beam remapped batch beam_width max_blocks =
     (if \<not> valid_product [batch, beam_width, max_blocks] then Some (kInvalidShape, remapped)
      else case (block_table, parent_beam, remapped) of
        (Some table, Some parents, Some out) \<Rightarrow>
          if \<not> in_range table 0 (batch * beam_width * max_blocks) then None
          else do {
            (st, out') \<leftarrow> finish (for_loop 0 batch (\<lambda>request. for_loop 0 beam_width (\<lambda>beam out. do {
                parent \<leftarrow> rd parents (request * beam_width + beam);
                if parent < 0 \<or> parent \<ge> beam_width then Some (Ret kInvalidArgument out)
                else thru (copy_n (take (nat (batch * beam_width * max_blocks)) table)
                       ((request * beam_width + parent) * max_blocks) max_blocks
                       out ((request * beam_width + beam) * max_blocks)) })) out);
            Some (st, Some out') }
      | _ \<Rightarrow> Some (kInvalidArgument, remapped))"

section \<open>Gathering and scattering rows\<close>

lemma lookup_region:
  assumes "region_calls items cs" "0 < items" "0 < w" "int (length ix) \<ge> items"
    and "m * w \<le> int (length src)" "int (length dst) = items * w"
    and "\<And>i. 0 \<le> i \<Longrightarrow> i < items \<Longrightarrow> 0 \<le> ix ! nat i \<and> ix ! nat i < m"
  shows "\<exists>dst'. parallel_ranges cs (\<lambda>item dst. do { i \<leftarrow> rd ix item; copy_n src (i * w) w dst (item * w) }) dst =
      Some dst' \<and> length dst' = length dst \<and>
      (\<forall>i. 0 \<le> i \<and> i < items \<longrightarrow> row w dst' i = row w src (ix ! nat i))"
proof -
  define I where "I D (d :: 'a list) \<longleftrightarrow> length d = length dst \<and> (\<forall>i \<in> D. row w d i = row w src (ix ! nat i))"
    for D d
  have "ok (I {0..<items}) (parallel_ranges cs
      (\<lambda>item dst. do { i \<leftarrow> rd ix item; copy_n src (i * w) w dst (item * w) }) dst)"
  proof (rule parallel_ranges_inv [OF assms(1)])
    fix i D t
    assume i: "0 \<le> i" "i < items" "i \<notin> D" "D \<subseteq> {0..<items}" and I: "I D t"
    note b = assms(7) [OF i(1,2)]
    have len: "items * w \<le> int (length t)" using I assms(6) by (simp add: I_def)
    have r: "rd ix i = Some (ix ! nat i)" using i assms(4) by (simp add: rd_def in_buf_def)
    obtain t' where t': "copy_n src (ix ! nat i * w) w t (i * w) = Some t'" "length t' = length t"
      "\<And>k. 0 \<le> k \<Longrightarrow> k < items \<Longrightarrow> row w t' k = (if k = i then row w src (ix ! nat i) else row w t k)"
      by (rule copy_row_effect [of "ix ! nat i" m i items w src t]) (use b i assms(3,5) len in auto)
    have "I (insert i D) t'" using I t'(2,3) i by (auto simp: I_def subset_iff)
    then show "ok (I (insert i D)) (do { j \<leftarrow> rd ix i; copy_n src (j * w) w t (i * w) })"
      by (simp add: r t')
  qed (simp add: I_def)
  then show ?thesis by (auto simp: ok_def I_def)
qed

lemma kv_cache_gather_rows:
  assumes "valid_product [m, w]" "valid_product [n, w]" "region_calls n cs"
    and "m * w \<le> int (length cache)" "n \<le> int (length ix)" "int (length out) = n * w"
    and "\<And>i. 0 \<le> i \<Longrightarrow> i < n \<Longrightarrow> 0 \<le> ix ! nat i \<and> ix ! nat i < m"
  shows "\<exists>out'. kv_cache_gather cs (Some cache) (Some ix) (Some out) m n w = Some (kOk, Some out') \<and>
    length out' = length out \<and> (\<forall>i. 0 \<le> i \<and> i < n \<longrightarrow> row w out' i = row w cache (ix ! nat i))"
proof -
  have pos: "0 < n" "0 < w" using assms(2) by auto
  have g: "all_of [0..n - 1] (\<lambda>item. do { i \<leftarrow> rd ix item; Some (\<not> (i < 0 \<or> i \<ge> m)) }) = Some True"
    using index_scan [OF assms(5), of "\<lambda>i. \<not> (i < 0 \<or> i \<ge> m)"] assms(7) by force
  show ?thesis
    using lookup_region [OF assms(3) pos assms(5,4,6,7)] assms(1,2) g
    by (auto simp: kv_cache_gather_def)
qed

lemma kv_cache_scatter_rows:
  assumes "valid_product [m, w]" "valid_product [n, w]"
    and "m * w \<le> int (length cache)" "n * w \<le> int (length src)" "n \<le> int (length slots)"
    and "\<And>i. 0 \<le> i \<Longrightarrow> i < n \<Longrightarrow> slots ! nat i < m"
  shows "\<exists>cache'. kv_cache_scatter (Some cache) (Some src) (Some slots) m n w = Some (kOk, Some cache') \<and>
    rows_after w m cache (\<lambda>i. 0 \<le> slots ! nat i) (\<lambda>i. slots ! nat i) (row w src) n cache'"
proof -
  let ?I = "rows_after w m cache (\<lambda>i. 0 \<le> slots ! nat i) (\<lambda>i. slots ! nat i) (row w src)"
  have pos: "0 < n" "0 < w" using assms(2) by auto
  have g: "all_of [0..n - 1] (\<lambda>item. do { s \<leftarrow> rd slots item; Some (\<not> s \<ge> m) }) = Some True"
    using index_scan [OF assms(5), of "\<lambda>s. \<not> s \<ge> m"] assms(6) by force
  have "ok (?I n) (loop 0 n (\<lambda>item dst. do { s \<leftarrow> rd slots item;
      if s < 0 then Some dst else copy_n src (item * w) w dst (s * w) }) cache)"
  proof (rule loop_inv [where I = ?I])
    fix i t assume i: "0 \<le> i" "i < n" and I: "?I i t"
    have r: "rd slots i = Some (slots ! nat i)" using i assms(5) by (simp add: rd_def in_buf_def)
    show "ok (?I (i + 1)) (do { s \<leftarrow> rd slots i;
        if s < 0 then Some t else copy_n src (i * w) w t (s * w) })"
    proof (cases "0 \<le> slots ! nat i")
      case True
      have len: "m * w \<le> int (length t)" using I assms(3) by (simp add: rows_after_def)
      have c: "copy_n src (i * w) w t (slots ! nat i * w) =
          Some (splice t (nat (slots ! nat i * w)) (row w src i))"
        by (rule copy_row [where m = n and n = m]) (use i True assms(4,6) pos len in auto)
      have "int (length (row w src i)) = w" using length_row [of i n w src] i pos assms(4) by simp
      from rows_after_write [OF i(1) I True True assms(6) [OF i] assms(3) this]
      show ?thesis using True by (simp add: r c)
    next
      case False
      then show ?thesis using rows_after_skip [OF i(1) I] by (simp add: r)
    qed
  qed (use pos in \<open>simp_all add: rows_after_0\<close>)
  then show ?thesis using assms(1,2) g by (auto simp: kv_cache_scatter_def ok_def)
qed



section \<open>Copying blocks\<close>

lemma copy_blocks_rows:
  assumes "valid_product [bc, e]" "0 \<le> pc"
    and "bc * e \<le> int (length key)" "bc * e \<le> int (length val)" "2 * pc \<le> int (length pairs)"
    and pairs: "\<And>p. 0 \<le> p \<Longrightarrow> p < pc \<Longrightarrow> pairs ! nat (2 * p) < bc \<and> pairs ! nat (2 * p + 1) < bc"
  defines "act \<equiv> \<lambda>p. 0 \<le> pairs ! nat (2 * p) \<and> 0 \<le> pairs ! nat (2 * p + 1)"
    and "d \<equiv> \<lambda>p. pairs ! nat (2 * p + 1)"
  shows "\<exists>key' val'. kv_cache_copy_blocks (Some key) (Some val) (Some pairs) pc bc e =
      Some (kOk, Some key', Some val') \<and>
    rows_after e bc key act d (\<lambda>p. row e key (pairs ! nat (2 * p))) pc key' \<and>
    rows_after e bc val act d (\<lambda>p. row e val (pairs ! nat (2 * p))) pc val'"
proof -
  let ?K = "rows_after e bc key act d (\<lambda>p. row e key (pairs ! nat (2 * p)))"
  let ?V = "rows_after e bc val act d (\<lambda>p. row e val (pairs ! nat (2 * p)))"
  have pos: "0 < bc" "0 < e" using assms(1) by auto
  let ?ks = "take (nat (bc * e)) key" and ?vs = "take (nat (bc * e)) val"
  have step: "ok (flow_post (\<lambda>s. ?K (p + 1) (fst s) \<and> ?V (p + 1) (snd s)) (\<lambda>s. ?K pc (fst s) \<and> ?V pc (snd s)) (\<lambda>_ _. False))
      (copy_pair ?ks ?vs pairs bc e p s)"
    if p: "0 \<le> p" "p < pc" and I: "?K p (fst s) \<and> ?V p (snd s)" for p s
  proof -
    have r: "rd pairs (2 * p) = Some (pairs ! nat (2 * p))" "rd pairs (2 * p + 1) = Some (d p)"
      using p assms(5) by (simp_all add: rd_def in_buf_def d_def)
    note b = pairs [OF p]
    show ?thesis
    proof (cases "act p")
      case False
      then have n: "pairs ! nat (2 * p) < 0 \<or> d p < 0" by (auto simp: act_def d_def)
      have "?K (p + 1) (fst s)" "?V (p + 1) (snd s)"
        using I False p(1) rows_after_skip [of p e bc key act d "\<lambda>p. row e key (pairs ! nat (2 * p))" "fst s"]
          rows_after_skip [of p e bc val act d "\<lambda>p. row e val (pairs ! nat (2 * p))" "snd s"]
        by simp_all
      then show ?thesis by (simp add: copy_pair_def r n)
    next
      case True
      then have a: "0 \<le> pairs ! nat (2 * p)" "0 \<le> d p" "d p < bc" using b by (auto simp: act_def d_def)
      have one: "\<exists>t'. copy_n (take (nat (bc * e)) xs) (pairs ! nat (2 * p) * e) e t (d p * e) = Some t' \<and>
          rows_after e bc xs act d (\<lambda>p. row e xs (pairs ! nat (2 * p))) (p + 1) t'"
        if J: "rows_after e bc xs act d (\<lambda>p. row e xs (pairs ! nat (2 * p))) p t"
          and len: "bc * e \<le> int (length xs)" for xs t :: "'a list"
      proof -
        have rt: "row e (take (nat (bc * e)) xs) (pairs ! nat (2 * p)) = row e xs (pairs ! nat (2 * p))"
          using a b pos by (intro row_take) auto
        have "copy_n (take (nat (bc * e)) xs) (pairs ! nat (2 * p) * e) e t (d p * e) =
            Some (splice t (nat (d p * e)) (row e (take (nat (bc * e)) xs) (pairs ! nat (2 * p))))"
          by (rule copy_row [where m = bc and n = bc]) (use a b pos len J in \<open>auto simp: rows_after_def\<close>)
        moreover have "int (length (row e xs (pairs ! nat (2 * p)))) = e"
          using length_row [of "pairs ! nat (2 * p)" bc e xs] a b pos len by simp
        from rows_after_write [OF p(1) J True a(2,3) len this]
        have "rows_after e bc xs act d (\<lambda>p. row e xs (pairs ! nat (2 * p))) (p + 1)
            (splice t (nat (d p * e)) (row e xs (pairs ! nat (2 * p))))" .
        ultimately show ?thesis by (simp only: rt) blast
      qed
      obtain k' v' where "copy_n ?ks (pairs ! nat (2 * p) * e) e (fst s) (d p * e) = Some k'" "?K (p + 1) k'"
        "copy_n ?vs (pairs ! nat (2 * p) * e) e (snd s) (d p * e) = Some v'" "?V (p + 1) v'"
        using one [of key "fst s"] one [of val "snd s"] I assms(3,4) by blast
      then show ?thesis using a b by (simp add: copy_pair_def r d_def)
    qed
  qed
  have "ok (flow_post (\<lambda>s. ?K pc (fst s) \<and> ?V pc (snd s)) (\<lambda>_. False) (\<lambda>_ _. False))
      (for_loop 0 pc (copy_pair ?ks ?vs pairs bc e) (key, val))"
    by (rule for_loop_inv [where I = "\<lambda>p s. ?K p (fst s) \<and> ?V p (snd s)"])
      (use assms(2) step in \<open>simp_all add: rows_after_0\<close>)
  then have "ok (\<lambda>(st, s). st = kOk \<and> ?K pc (fst s) \<and> ?V pc (snd s))
      (finish (for_loop 0 pc (copy_pair ?ks ?vs pairs bc e) (key, val)))"
    by (intro ok_finish) (auto elim!: ok_mono flow_post_mono)
  then show ?thesis using assms(1-4)
    by (auto simp: kv_cache_copy_blocks_def ok_def in_range_def)
qed

section \<open>Forking beams\<close>

text \<open>The pair beam \<open>g\<close> wants for block column \<open>c\<close>: its parent's block and its own, unless it is its own parent.\<close>

definition beam_entry :: "int list \<Rightarrow> int list \<Rightarrow> int list \<Rightarrow> int \<Rightarrow> int \<Rightarrow> int \<Rightarrow> int \<Rightarrow> int \<Rightarrow> int \<times> int" where
  "beam_entry parents table lens bw mb bsize g c =
     (let parent = parents ! nat g;
          source = table ! nat ((g div bw * bw + parent) * mb + c);
          destination = table ! nat (g * mb + c)
      in if parent \<noteq> g mod bw \<and> c < (lens ! nat g + bsize - 1) div bsize \<and> 0 \<le> source \<and> 0 \<le> destination
         then (source, destination) else (- 1, - 1))"

definition pairs_upto :: "(int \<Rightarrow> int \<times> int) \<Rightarrow> nat \<Rightarrow> int \<Rightarrow> int list \<Rightarrow> bool" where
  "pairs_upto f len n pairs \<longleftrightarrow> length pairs = len \<and>
     (\<forall>p. 0 \<le> p \<and> p < n \<longrightarrow> pairs ! nat (2 * p) = fst (f p) \<and> pairs ! nat (2 * p + 1) = snd (f p))"

lemma pairs_upto_write:
  assumes "pairs_upto f len n pairs" "0 \<le> n" "2 * n + 2 \<le> int len"
  shows "do { pairs \<leftarrow> wr pairs (2 * n) (fst (f n)); wr pairs (2 * n + 1) (snd (f n)) } =
      Some (pairs[nat (2 * n) := fst (f n), nat (2 * n + 1) := snd (f n)])"
    "pairs_upto f len (n + 1) (pairs[nat (2 * n) := fst (f n), nat (2 * n + 1) := snd (f n)])"
proof -
  show "do { pairs \<leftarrow> wr pairs (2 * n) (fst (f n)); wr pairs (2 * n + 1) (snd (f n)) } =
      Some (pairs[nat (2 * n) := fst (f n), nat (2 * n + 1) := snd (f n)])"
    using assms by (simp add: wr_def in_buf_def pairs_upto_def)
  have ne: "nat (2 * p) \<noteq> nat (2 * n)" "nat (2 * p) \<noteq> nat (2 * n + 1)" "nat (2 * p + 1) \<noteq> nat (2 * n)"
    "nat (2 * p + 1) \<noteq> nat (2 * n + 1)" if "0 \<le> p" "p < n" for p
    using that by (auto simp: eq_nat_nat_iff)
  have "pairs[nat (2 * n) := fst (f n), nat (2 * n + 1) := snd (f n)] ! nat (2 * p) = fst (f p) \<and>
      pairs[nat (2 * n) := fst (f n), nat (2 * n + 1) := snd (f n)] ! nat (2 * p + 1) = snd (f p)"
    if p: "0 \<le> p" "p < n + 1" for p
  proof (cases "p = n")
    case True
    have "nat (2 * n) \<noteq> nat (2 * n + 1)" using assms(2) by (simp add: eq_nat_nat_iff)
    then show ?thesis using True assms by (simp add: pairs_upto_def)
  next
    case False
    then show ?thesis using p ne [of p] assms(1) by (simp add: pairs_upto_def)
  qed
  then show "pairs_upto f len (n + 1) (pairs[nat (2 * n) := fst (f n), nat (2 * n + 1) := snd (f n)])"
    using assms(1) by (auto simp: pairs_upto_def)
qed

lemma beam_build_pairs:
  assumes "valid_product [batch, bw, mb]" "0 < bsize"
    and "batch * bw \<le> int (length parents)" "batch * bw \<le> int (length lens)"
    and "batch * bw * mb \<le> int (length table)" "2 * (batch * bw * mb) \<le> int (length pairs)"
    and parents: "\<And>g. 0 \<le> g \<Longrightarrow> g < batch * bw \<Longrightarrow> 0 \<le> parents ! nat g \<and> parents ! nat g < bw"
    and lens: "\<And>g. 0 \<le> g \<Longrightarrow> g < batch * bw \<Longrightarrow> 0 \<le> lens ! nat g \<and> lens ! nat g + bsize \<le> INT_MAX"
  shows "\<exists>pairs'. beam_build_copy_pairs (Some parents) (Some table) (Some lens) (Some pairs) batch bw mb bsize =
      Some (kOk, Some pairs') \<and>
    pairs_upto (\<lambda>p. beam_entry parents table lens bw mb bsize (p div mb) (p mod mb)) (length pairs)
      (batch * bw * mb) pairs'"
proof -
  let ?f = "\<lambda>p. beam_entry parents table lens bw mb bsize (p div mb) (p mod mb)"
  let ?I = "pairs_upto ?f (length pairs)"
  have pos: "0 < batch" "0 < bw" "0 < mb" using assms(1) by auto
  have column: "ok (?I ((r * bw + b) * mb + (c + 1)))
      (beam_pair table bw mb r b (parents ! nat (r * bw + b)) ((lens ! nat (r * bw + b) + bsize - 1) div bsize) c ps)"
    if r: "0 \<le> r" "r < batch" and b: "0 \<le> b" "b < bw" and c: "0 \<le> c" "c < mb"
      and I: "?I ((r * bw + b) * mb + c) ps" for r b c ps
  proof -
    define g where "g = r * bw + b"
    have g: "0 \<le> g" "g < batch * bw" "g div bw = r" "g mod bw = b"
      using index_bound [OF r b] b by (simp_all add: g_def)
    define p where "p = g * mb + c"
    have p: "0 \<le> p" "p < batch * bw * mb" "p div mb = g" "p mod mb = c"
      using index_bound [OF g(1,2) c] c by (simp_all add: p_def)
    note par = parents [OF g(1,2)]
    have "0 \<le> r * bw + parents ! nat g" "r * bw + parents ! nat g < batch * bw"
      using index_bound [OF r, of "parents ! nat g" bw] par by auto
    from index_bound [OF this c]
    have src: "in_buf table ((r * bw + parents ! nat g) * mb + c)" using assms(5) by (simp add: in_buf_def)
    have dst: "in_buf table (g * mb + c)" using p assms(5) by (simp add: in_buf_def p_def)
    have pp: "2 * (g * mb) + 2 * c = 2 * p" "g * mb + c = p" by (simp_all add: p_def)
    have e: "beam_pair table bw mb r b (parents ! nat g) ((lens ! nat g + bsize - 1) div bsize) c ps =
        do { ps \<leftarrow> wr ps (2 * p) (fst (?f p)); wr ps (2 * p + 1) (snd (?f p)) }"
      using src dst by (auto simp: beam_pair_def beam_entry_def rd_def Let_def p g g_def [symmetric] pp)
    have "2 * p + 2 \<le> int (length pairs)" using p assms(6) by simp
    from pairs_upto_write [OF _ p(1) this, of ?f ps] I
    have w: "do { ps \<leftarrow> wr ps (2 * p) (fst (?f p)); wr ps (2 * p + 1) (snd (?f p)) } =
        Some (ps[nat (2 * p) := fst (?f p), nat (2 * p + 1) := snd (?f p)])"
      "?I (p + 1) (ps[nat (2 * p) := fst (?f p), nat (2 * p + 1) := snd (?f p)])"
      by (simp_all only: p_def g_def)
    have "(r * bw + b) * mb + (c + 1) = p + 1" by (simp add: p_def g_def)
    then show ?thesis unfolding g_def [symmetric] e by (simp only: w ok_Some)
  qed
  have beam: "ok (flow_post (?I ((r * bw + (b + 1)) * mb)) (?I ((r * bw + bw) * mb)) (\<lambda>_ _. False)) (beam_step parents table lens bw mb bsize r b ps)"
    if r: "0 \<le> r" "r < batch" and b: "0 \<le> b" "b < bw" and I: "?I ((r * bw + b) * mb) ps" for r b ps
  proof -
    have g: "0 \<le> r * bw + b" "r * bw + b < batch * bw" using index_bound [OF r b] by auto
    have rds: "rd parents (r * bw + b) = Some (parents ! nat (r * bw + b))"
      "rd lens (r * bw + b) = Some (lens ! nat (r * bw + b))"
      using g assms(3,4) by (simp_all add: rd_def in_buf_def)
    have up: "i32 (lens ! nat (r * bw + b) + bsize) = Some (lens ! nat (r * bw + b) + bsize)"
      "cdiv (lens ! nat (r * bw + b) + bsize - 1) bsize = (lens ! nat (r * bw + b) + bsize - 1) div bsize"
      using lens [OF g] assms(2) by (simp_all add: i32_def is_int_def INT_MIN_def)
    have "ok (?I ((r * bw + b) * mb + mb)) (loop 0 mb (beam_pair table bw mb r b (parents ! nat (r * bw + b))
        ((lens ! nat (r * bw + b) + bsize - 1) div bsize)) ps)"
      by (rule loop_inv [where I = "\<lambda>c. ?I ((r * bw + b) * mb + c)"]) (use pos I column [OF r b] in auto)
    moreover have "(r * bw + b) * mb + mb = (r * bw + (b + 1)) * mb" by (simp add: distrib_right)
    ultimately show ?thesis using parents [OF g] lens [OF g] by (simp add: beam_step_def rds up ok_thru Let_def not_le)
  qed
  have "ok (\<lambda>(st, ps). st = kOk \<and> ?I (batch * bw * mb) ps) (finish (for_loop 0 batch (\<lambda>r. for_loop 0 bw (beam_step parents table lens bw mb bsize r)) pairs))"
  proof (rule ok_finish, rule ok_mono [OF for_loop_inv [where I = "\<lambda>r. ?I (r * bw * mb)" and N = "?I (batch * bw * mb)"
        and R = "\<lambda>_ _. False"]])
    fix r ps assume r: "0 \<le> r" "r < batch" and I: "?I (r * bw * mb) ps"
    have "ok (flow_post (?I ((r * bw + bw) * mb)) (\<lambda>_. False) (\<lambda>_ _. False)) (for_loop 0 bw (beam_step parents table lens bw mb bsize r) ps)"
      by (rule for_loop_inv [where I = "\<lambda>b. ?I ((r * bw + b) * mb)"]) (use pos I beam [OF r] in auto)
    moreover have "(r * bw + bw) * mb = (r + 1) * bw * mb" by (simp add: distrib_right)
    ultimately show "ok (flow_post (?I ((r + 1) * bw * mb)) (?I (batch * bw * mb)) (\<lambda>_ _. False))
      (for_loop 0 bw (beam_step parents table lens bw mb bsize r) ps)"
      by (auto elim!: ok_mono flow_post_mono)
  qed (use pos in \<open>auto simp: pairs_upto_def elim!: flow_post_mono\<close>)
  then show ?thesis using assms(1,2) by (auto simp: beam_build_copy_pairs_def ok_def)
qed

lemma beam_entry_active:
  assumes "0 \<le> fst (beam_entry parents table lens bw mb bsize g c)"
  shows "snd (beam_entry parents table lens bw mb bsize g c) = table ! nat (g * mb + c)"
    "0 \<le> table ! nat (g * mb + c)"
  using assms by (auto simp: beam_entry_def Let_def split: if_splits)

lemma if_either: "(if P then a else b) = a \<or> (if P then a else b) = b"
  by simp

lemma beam_entry_bound:
  assumes "0 < bc" "\<forall>b \<in> set table. b < bc" "0 < bw" "0 < mb" "batch * bw * mb \<le> int (length table)"
    and "0 \<le> g" "g < batch * bw" "0 \<le> c" "c < mb" "0 \<le> parents ! nat g" "parents ! nat g < bw"
  shows "fst (beam_entry parents table lens bw mb bsize g c) < bc"
    "snd (beam_entry parents table lens bw mb bsize g c) < bc"
proof -
  have d: "0 \<le> g div bw" "g div bw < batch" using div_mod_bound [of g batch bw] assms by auto
  have i: "0 \<le> g div bw * bw + parents ! nat g" "g div bw * bw + parents ! nat g < batch * bw"
    using index_bound [OF d, of "parents ! nat g" bw] assms by auto
  have "table ! nat k < bc" if "0 \<le> k" "k < batch * bw * mb" for k
  proof -
    have "nat k < length table" using that assms(5) by simp
    then show ?thesis using assms(2) by (simp add: nth_mem)
  qed
  note s = this [OF index_bound [OF i assms(8,9)]] and d = this [OF index_bound [OF assms(6-9)]]
  have "beam_entry parents table lens bw mb bsize g c =
      (table ! nat ((g div bw * bw + parents ! nat g) * mb + c), table ! nat (g * mb + c)) \<or>
    beam_entry parents table lens bw mb bsize g c = (- 1, - 1)"
    unfolding beam_entry_def Let_def by (rule if_either)
  then show "fst (beam_entry parents table lens bw mb bsize g c) < bc"
    "snd (beam_entry parents table lens bw mb bsize g c) < bc"
    by (elim disjE; simp only: fst_conv snd_conv s d; use assms(1) in simp)+
qed

lemma distinct_filter_nth:
  assumes "distinct (filter P xs)" "i < length xs" "j < length xs" "xs ! i = xs ! j" "P (xs ! i)"
  shows "i = j"
  using assms
proof (induction xs arbitrary: i j)
  case (Cons a xs)
  have d: "distinct (filter P xs)" using Cons.prems(1) by (simp split: if_splits)
  have a: "P a \<Longrightarrow> xs ! k = a \<Longrightarrow> k < length xs \<Longrightarrow> False" for k
    using Cons.prems(1) nth_mem [of k xs] by simp
  show ?case
  proof (cases i; cases j)
    fix i' j' assume ij: "i = Suc i'" "j = Suc j'"
    with Cons.IH [OF d, of i' j'] Cons.prems show "i = j" by simp
  qed (use Cons.prems a in \<open>simp_all; metis\<close>)+
qed simp

lemma less_ceil_div: "0 < (b :: int) \<Longrightarrow> c < (n + b - 1) div b \<longleftrightarrow> c * b < n"
  using le_div_iff [of b "c + 1" "n + b - 1"] by (auto simp: distrib_right)

text \<open>
  C20: forking beams copies the caches: when every block has one owner, building the pairs from the beams'
  parents and running the block copies leaves in each used block of a beam that changed parent exactly the
  parent's keys and values from before the call, also when beams swap parents.
\<close>

theorem beam_fork_copies_parent_blocks:
  assumes shapes: "valid_product [batch, bw, mb]" "valid_product [bc, e]" "0 < bsize"
    and buffers: "batch * bw \<le> int (length parents)" "batch * bw \<le> int (length lens)"
      "int (length table) = batch * bw * mb" "2 * (batch * bw * mb) \<le> int (length pairs)"
      "bc * e \<le> int (length key)" "bc * e \<le> int (length val)"
    and parents: "\<forall>g. 0 \<le> g \<and> g < batch * bw \<longrightarrow> 0 \<le> parents ! nat g \<and> parents ! nat g < bw"
    and lens: "\<forall>g. 0 \<le> g \<and> g < batch * bw \<longrightarrow> 0 \<le> lens ! nat g \<and> lens ! nat g + bsize \<le> INT_MAX"
    and blocks: "\<forall>b \<in> set table. b < bc" "distinct (filter (\<lambda>b. 0 \<le> b) table)"
  shows "\<exists>pairs' key' val'.
    beam_build_copy_pairs (Some parents) (Some table) (Some lens) (Some pairs) batch bw mb bsize =
      Some (kOk, Some pairs') \<and>
    kv_cache_copy_blocks (Some key) (Some val) (Some pairs') (batch * bw * mb) bc e =
      Some (kOk, Some key', Some val') \<and>
    (\<forall>request beam column. 0 \<le> request \<and> request < batch \<and> 0 \<le> beam \<and> beam < bw \<and> 0 \<le> column \<and> column < mb \<longrightarrow>
      (let g = request * bw + beam; parent = parents ! nat g;
           source = table ! nat ((request * bw + parent) * mb + column);
           destination = table ! nat (g * mb + column)
       in parent \<noteq> beam \<and> column * bsize < lens ! nat g \<and> 0 \<le> source \<and> 0 \<le> destination \<longrightarrow>
          row e key' destination = row e key source \<and> row e val' destination = row e val source))"
proof -
  let ?N = "batch * bw * mb"
  let ?f = "\<lambda>p. beam_entry parents table lens bw mb bsize (p div mb) (p mod mb)"
  have pos: "0 < batch" "0 < bw" "0 < mb" "0 < bc" using shapes by auto
  have "?N \<le> int (length table)" using buffers(3) by simp
  from beam_build_pairs [OF shapes(1,3) buffers(1,2) this buffers(4)] parents lens
  obtain pairs' where build: "beam_build_copy_pairs (Some parents) (Some table) (Some lens) (Some pairs) batch bw mb bsize =
      Some (kOk, Some pairs')" and up: "pairs_upto ?f (length pairs) ?N pairs'" by blast
  have P: "pairs' ! nat (2 * p) = fst (?f p)" "pairs' ! nat (2 * p + 1) = snd (?f p)" if "0 \<le> p" "p < ?N" for p
    using up that by (simp_all add: pairs_upto_def)
  have b: "fst (?f p) < bc \<and> snd (?f p) < bc" if p: "0 \<le> p" "p < ?N" for p
  proof -
    note d = div_mod_bound [OF p pos(3)]
    show ?thesis
      using beam_entry_bound [OF pos(4) blocks(1) pos(2,3) _ d(1-4), of parents] buffers(3) d parents by simp
  qed
  have "0 \<le> ?N" using pos by simp
  have "2 * ?N \<le> int (length pairs')" using up buffers(4) by (simp add: pairs_upto_def)
  from copy_blocks_rows [OF shapes(2) \<open>0 \<le> ?N\<close> buffers(5,6) this] b P
  obtain key' val' where copy: "kv_cache_copy_blocks (Some key) (Some val) (Some pairs') ?N bc e =
      Some (kOk, Some key', Some val')"
    and K: "rows_after e bc key (\<lambda>p. 0 \<le> pairs' ! nat (2 * p) \<and> 0 \<le> pairs' ! nat (2 * p + 1))
        (\<lambda>p. pairs' ! nat (2 * p + 1)) (\<lambda>p. row e key (pairs' ! nat (2 * p))) ?N key'"
    and V: "rows_after e bc val (\<lambda>p. 0 \<le> pairs' ! nat (2 * p) \<and> 0 \<le> pairs' ! nat (2 * p + 1))
        (\<lambda>p. pairs' ! nat (2 * p + 1)) (\<lambda>p. row e val (pairs' ! nat (2 * p))) ?N val'" by force
  have "row e key' d = row e key s \<and> row e val' d = row e val s"
    if r: "0 \<le> r" "r < batch" "0 \<le> bm" "bm < bw" "0 \<le> c" "c < mb"
      and g: "g = r * bw + bm" and s: "s = table ! nat ((r * bw + parents ! nat g) * mb + c)"
      and d: "d = table ! nat (g * mb + c)"
      and act: "parents ! nat g \<noteq> bm" "c * bsize < lens ! nat g" "0 \<le> s" "0 \<le> d" for r bm c g s d
  proof -
    define p where "p = g * mb + c"
    have gb: "0 \<le> g" "g < batch * bw" "g div bw = r" "g mod bw = bm"
      using index_bound [of r batch bm bw] r by (simp_all add: g)
    have p: "0 \<le> p" "p < ?N" "p div mb = g" "p mod mb = c"
      using index_bound [OF gb(1,2) r(5,6)] r by (simp_all add: p_def)
    have fp: "?f p = (s, d)"
      using act gb s d less_ceil_div [OF shapes(3), of c "lens ! nat g"] by (simp add: p beam_entry_def Let_def)
    have "last_where (\<lambda>q. (0 \<le> pairs' ! nat (2 * q) \<and> 0 \<le> pairs' ! nat (2 * q + 1)) \<and> pairs' ! nat (2 * q + 1) = d) ?N
        = Some p"
    proof (rule last_where_unique [OF p(1,2)])
      show "(0 \<le> pairs' ! nat (2 * p) \<and> 0 \<le> pairs' ! nat (2 * p + 1)) \<and> pairs' ! nat (2 * p + 1) = d"
        using P [OF p(1,2)] fp act by simp
    next
      fix q assume q: "0 \<le> q" "q < ?N"
        and a: "(0 \<le> pairs' ! nat (2 * q) \<and> 0 \<le> pairs' ! nat (2 * q + 1)) \<and> pairs' ! nat (2 * q + 1) = d"
      have "q div mb * mb + q mod mb = q" by simp
      then have "table ! nat q = d" using beam_entry_active(1) [of parents table lens bw mb bsize "q div mb" "q mod mb"]
          a P [OF q] by simp
      then have "nat q = nat p"
        using distinct_filter_nth [OF blocks(2), of "nat q" "nat p"] q p act(4) d buffers(3) by (simp add: p_def [symmetric])
      then show "q = p" using q p by simp
    qed
    moreover have "0 \<le> d \<and> d < bc" using b [OF p(1,2)] fp act by simp
    ultimately show ?thesis using K V P [OF p(1,2)] fp by (simp add: rows_after_def)
  qed
  then show ?thesis using build copy unfolding Let_def by blast
qed

text \<open>Two beams that swap: each ends up with the other's keys.\<close>

theorem beam_fork_copies_parent_blocks_witness:
  "\<exists>pairs' key' val'.
    beam_build_copy_pairs (Some [1, 0]) (Some [0, 1]) (Some [5, 5]) (Some [7, 7, 7, 7]) 1 2 1 16 =
      Some (kOk, Some pairs') \<and>
    kv_cache_copy_blocks (Some [10, 20]) (Some [30, 40 :: int]) (Some pairs') 2 2 1 =
      Some (kOk, Some key', Some val') \<and>
    row 1 key' 0 = [20] \<and> row 1 key' 1 = [10] \<and> row 1 val' 0 = [40] \<and> row 1 val' 1 = [30]"
proof -
  have two: "(0 \<le> g \<and> g < 1 * 2) = (g = 0 \<or> g = 1)" for g :: int by auto
  have "\<forall>g. 0 \<le> g \<and> g < 1 * 2 \<longrightarrow> 0 \<le> [1, 0 :: int] ! nat g \<and> [1, 0 :: int] ! nat g < 2"
    "\<forall>g. 0 \<le> g \<and> g < 1 * 2 \<longrightarrow> 0 \<le> [5, 5 :: int] ! nat g \<and> [5, 5 :: int] ! nat g + 16 \<le> INT_MAX"
    unfolding two by (auto simp: INT_MAX_def)
  from beam_fork_copies_parent_blocks [of 1 2 1 2 1 16 _ _ "[0, 1]" "[7, 7, 7, 7]" "[10, 20]" "[30, 40 :: int]", OF _ _ _ _ _ _ _ _ _ this]
  obtain pairs' key' val' where
    r: "beam_build_copy_pairs (Some [1, 0]) (Some [0, 1]) (Some [5, 5]) (Some [7, 7, 7, 7]) 1 2 1 16 = Some (kOk, Some pairs')"
    "kv_cache_copy_blocks (Some [10, 20]) (Some [30, 40 :: int]) (Some pairs') 2 2 1 = Some (kOk, Some key', Some val')"
    and f: "\<forall>request beam column. 0 \<le> request \<and> request < 1 \<and> 0 \<le> beam \<and> beam < 2 \<and> 0 \<le> column \<and> column < 1 \<longrightarrow>
      (let g = request * 2 + beam; parent = [1, 0 :: int] ! nat g;
           source = [0, 1 :: int] ! nat ((request * 2 + parent) * 1 + column);
           destination = [0, 1] ! nat (g * 1 + column)
       in parent \<noteq> beam \<and> column * 16 < [5, 5] ! nat g \<and> 0 \<le> source \<and> 0 \<le> destination \<longrightarrow>
          row 1 key' destination = row 1 [10, 20] source \<and> row 1 val' destination = row 1 [30, 40] source)"
    by (auto simp: LLONG_MAX_def)
  from f [rule_format, of 0 0 0] f [rule_format, of 0 1 0] r show ?thesis by (auto simp: row_def)
qed

end
