(* ===== verification/Moe.thy ===== *)
theory Moe
  imports Kernel_Loops
begin

text \<open>
  The routing bookkeeping of \<^verbatim>\<open>kernels/moe/moe_extended_ref.cpp\<close>: the stable expert-major permutation of the
  routes, its padded tile schedule, the alignment of routes to LoRA adapters, and the row movers on either
  side of the expert kernels. Float elements are of an arbitrary type; \<open>madd a w x\<close> stands for the compiled
  \<^verbatim>\<open>a += w * x\<close> (with or without a fused multiply-add) and \<open>add\<close> for \<^verbatim>\<open>+=\<close>.
\<close>

section \<open>The code\<close>

subsection \<open>\<^verbatim>\<open>moe_permute\<close>\<close>

definition count_route :: "int list \<Rightarrow> int \<Rightarrow> int \<Rightarrow> int list \<Rightarrow> int list flow option" where
  "count_route ids experts r counts =
     do { e \<leftarrow> rd ids r;
          if e < 0 \<or> e \<ge> experts then Some (Ret kInvalidArgument counts)
          else thru (do { c \<leftarrow> rd counts e; c' \<leftarrow> i32 (c + 1); wr counts e c' }) }"

definition next_offset :: "int list \<Rightarrow> int \<Rightarrow> int list \<Rightarrow> int list option" where
  "next_offset counts e offs =
     do { a \<leftarrow> rd offs e; c \<leftarrow> rd counts e; s \<leftarrow> i32 (a + c); wr offs (e + 1) s }"

definition place_route ::
  "int list \<Rightarrow> int \<Rightarrow> int \<Rightarrow> int list \<times> int list \<times> int list \<Rightarrow> (int list \<times> int list \<times> int list) option" where
  "place_route ids top_k r s =
     (case s of (cursor, srt, places) \<Rightarrow>
        do { e \<leftarrow> rd ids r;
             destination \<leftarrow> rd cursor e;
             c \<leftarrow> i32 (destination + 1);
             cursor \<leftarrow> wr cursor e c;
             srt \<leftarrow> wr srt destination (narrow_int (cdiv r top_k));
             places \<leftarrow> wr places r destination;
             Some (cursor, srt, places) })"

definition moe_permute ::
  "int ptr \<Rightarrow> int ptr \<Rightarrow> int ptr \<Rightarrow> int ptr \<Rightarrow> int \<Rightarrow> int \<Rightarrow> int \<Rightarrow> (status \<times> int ptr \<times> int ptr \<times> int ptr) option" where
  "moe_permute expert_ids sorted_rows offsets places tokens experts top_k =
     (if \<not> valid_product [tokens, experts] \<or> top_k \<le> 0 \<or> \<not> valid_product [tokens, top_k]
      then Some (kInvalidShape, sorted_rows, offsets, places)
      else case (expert_ids, sorted_rows, offsets, places) of
        (Some ids, Some srt0, Some offs0, Some places0) \<Rightarrow> do {
          let routes = tokens * top_k;
          (st, counts) \<leftarrow> finish (for_loop 0 routes (count_route ids experts) (replicate (nat experts) 0));
          if st \<noteq> kOk then Some (st, sorted_rows, offsets, places)
          else do {
            offs \<leftarrow> wr offs0 0 0;
            offs \<leftarrow> loop 0 experts (next_offset counts) offs;
            (cursor, srt', places') \<leftarrow> loop 0 routes (place_route ids top_k) (take (nat experts) offs, srt0, places0);
            Some (kOk, Some srt', Some offs, Some places') } }
      | _ \<Rightarrow> Some (kInvalidArgument, sorted_rows, offsets, places))"

subsection \<open>\<^verbatim>\<open>moe_pad_schedule\<close>\<close>

text \<open>Every expert's rows are padded to whole tiles of \<open>tile\<close> rows.\<close>

definition pad_expert :: "int list \<Rightarrow> int \<Rightarrow> int \<Rightarrow> int list \<Rightarrow> int list flow option" where
  "pad_expert offs tile e padded =
     do { a \<leftarrow> rd offs e;
          b \<leftarrow> rd offs (e + 1);
          if a > b then Some (Ret kInvalidArgument padded)
          else thru (do {
            c \<leftarrow> i32 (b - a);
            up \<leftarrow> i32 (c + tile);
            p \<leftarrow> rd padded e;
            s \<leftarrow> i32 (p + cdiv (up - 1) tile * tile);
            wr padded (e + 1) s }) }"

definition schedule_route :: "int list \<Rightarrow> int \<Rightarrow> int \<Rightarrow> int \<Rightarrow> int list \<Rightarrow> int list option" where
  "schedule_route srt first padded_first route gather =
     do { d \<leftarrow> i32 (padded_first + route);
          destination \<leftarrow> i32 (d - first);
          v \<leftarrow> rd srt route;
          wr gather destination v }"

definition schedule_tile :: "int \<Rightarrow> int \<Rightarrow> int \<Rightarrow> int list \<Rightarrow> int list option" where
  "schedule_tile tile e r tiles =
     do { tiles \<leftarrow> wr tiles (cdiv r tile) (narrow_int e); _ \<leftarrow> i32 (r + tile); Some tiles }"

definition schedule_expert ::
  "int list \<Rightarrow> int list \<Rightarrow> int list \<Rightarrow> int \<Rightarrow> int \<Rightarrow> int list \<times> int list \<Rightarrow> (int list \<times> int list) option" where
  "schedule_expert srt offs padded tile e s =
     do { a \<leftarrow> rd offs e; b \<leftarrow> rd offs (e + 1);
          pa \<leftarrow> rd padded e; pb \<leftarrow> rd padded (e + 1);
          gather \<leftarrow> loop a b (schedule_route srt a pa) (snd s);
          tiles \<leftarrow> each (strided pa pb tile) (schedule_tile tile e) (fst s);
          Some (tiles, gather) }"

text \<open>\<^verbatim>\<open>std::upper_bound\<close> on a sorted range: the first position whose value is greater.\<close>

definition upper_bound :: "int list \<Rightarrow> int \<Rightarrow> int" where
  "upper_bound xs v = int (length (takeWhile (\<lambda>x. \<not> v < x) xs))"

definition pad_route ::
  "int list \<Rightarrow> int list \<Rightarrow> int list \<Rightarrow> int \<Rightarrow> int \<Rightarrow> int \<Rightarrow> int list \<Rightarrow> int list flow option" where
  "pad_route places offs padded experts routes route places_padded =
     do { compact \<leftarrow> rd places route;
          if compact < 0 \<or> compact \<ge> routes then Some (Ret kInvalidArgument places_padded)
          else thru (do {
            let e = upper_bound (take (nat (experts + 1)) offs) compact - 1;
            p \<leftarrow> rd padded e;
            d \<leftarrow> i32 (p + compact);
            a \<leftarrow> rd offs e;
            v \<leftarrow> i32 (d - a);
            wr places_padded route v }) }"

definition moe_pad_schedule ::
  "int ptr \<Rightarrow> int ptr \<Rightarrow> int ptr \<Rightarrow> int ptr \<Rightarrow> int ptr \<Rightarrow> int ptr \<Rightarrow> int ptr \<Rightarrow> int \<Rightarrow> int \<Rightarrow> int \<Rightarrow> int \<Rightarrow>
    (status \<times> int ptr \<times> int ptr \<times> int ptr \<times> int ptr) option" where
  "moe_pad_schedule sorted_rows offsets place_of expert_of_tile gather_rows place_padded padded_offsets
      tokens experts top_k tile =
     (if \<not> valid_product [tokens, experts, top_k] \<or> tile \<le> 0
      then Some (kInvalidShape, expert_of_tile, gather_rows, place_padded, padded_offsets)
      else case (sorted_rows, offsets, place_of, expert_of_tile, gather_rows, place_padded, padded_offsets) of
        (Some srt, Some offs, Some places, Some tiles, Some gather, Some pp, Some po) \<Rightarrow> do {
          let routes = tokens * top_k;
          o0 \<leftarrow> rd offs 0;
          ok0 \<leftarrow> (if o0 \<noteq> 0 then Some False else do { n \<leftarrow> rd offs experts; Some (n = routes) });
          if \<not> ok0 then Some (kInvalidArgument, expert_of_tile, gather_rows, place_padded, padded_offsets)
          else do {
            po \<leftarrow> wr po 0 0;
            (st, po) \<leftarrow> finish (for_loop 0 experts (pad_expert offs tile) po);
            if st \<noteq> kOk then Some (st, expert_of_tile, gather_rows, place_padded, Some po)
            else do {
              rows \<leftarrow> rd po experts;
              gather \<leftarrow> fill_n gather 0 rows (- 1);
              (tiles, gather) \<leftarrow> loop 0 experts (schedule_expert srt offs po tile) (tiles, gather);
              (st, pp) \<leftarrow> finish (for_loop 0 routes (pad_route places offs po experts routes) pp);
              Some (st, Some tiles, Some gather, Some pp, Some po) } } }
      | _ \<Rightarrow> Some (kInvalidArgument, expert_of_tile, gather_rows, place_padded, padded_offsets))"

subsection \<open>Moving rows to the experts and back\<close>

definition moe_gather ::
  "'f \<Rightarrow> call list \<Rightarrow> 'f ptr \<Rightarrow> int ptr \<Rightarrow> 'f ptr \<Rightarrow> int \<Rightarrow> int \<Rightarrow> int \<Rightarrow> (status \<times> 'f ptr) option" where
  "moe_gather zero cs x gather_rows out tokens gathered dim =
     (if \<not> (valid_product [tokens, dim] \<and> valid_product [gathered, dim]) then Some (kInvalidShape, out)
      else case (x, gather_rows, out) of
        (Some src, Some rows, Some dst) \<Rightarrow> do {
          good \<leftarrow> all_of [0..gathered - 1] (\<lambda>r. do { g \<leftarrow> rd rows r; Some (\<not> (g < - 1 \<or> g \<ge> tokens)) });
          if \<not> good then Some (kInvalidArgument, out)
          else do {
            dst' \<leftarrow> parallel_ranges cs (\<lambda>r dst. do {
                g \<leftarrow> rd rows r;
                if g < 0 then fill_n dst (r * dim) dim zero else copy_n src (g * dim) dim dst (r * dim) }) dst;
            Some (kOk, Some dst') } }
      | _ \<Rightarrow> Some (kInvalidArgument, out))"

definition finalize_feature ::
  "('f \<Rightarrow> 'f \<Rightarrow> 'f \<Rightarrow> 'f) \<Rightarrow> 'f list \<Rightarrow> 'f \<Rightarrow> int \<Rightarrow> int \<Rightarrow> int \<Rightarrow> int \<Rightarrow> 'f list \<Rightarrow> 'f list option" where
  "finalize_feature madd src w t p dim f dst =
     do { a \<leftarrow> rd dst (t * dim + f); v \<leftarrow> rd src (p * dim + f); wr dst (t * dim + f) (madd a w v) }"

definition finalize_token ::
  "'f \<Rightarrow> ('f \<Rightarrow> 'f \<Rightarrow> 'f \<Rightarrow> 'f) \<Rightarrow> 'f list \<Rightarrow> int list \<Rightarrow> 'f list \<Rightarrow> int \<Rightarrow> int \<Rightarrow> int \<Rightarrow> 'f list \<Rightarrow> 'f list option" where
  "finalize_token zero madd src places weights top_k dim t dst =
     do { dst \<leftarrow> fill_n dst (t * dim) dim zero;
          loop 0 top_k (\<lambda>rank dst. do {
              p \<leftarrow> rd places (t * top_k + rank);
              loop 0 dim (\<lambda>f dst. do {
                  w \<leftarrow> rd weights (t * top_k + rank);
                  finalize_feature madd src w t p dim f dst }) dst }) dst }"

definition moe_finalize ::
  "'f \<Rightarrow> ('f \<Rightarrow> 'f \<Rightarrow> 'f \<Rightarrow> 'f) \<Rightarrow> call list \<Rightarrow> 'f ptr \<Rightarrow> int ptr \<Rightarrow> 'f ptr \<Rightarrow> 'f ptr \<Rightarrow> int \<Rightarrow> int \<Rightarrow> int \<Rightarrow>
    (status \<times> 'f ptr) option" where
  "moe_finalize zero madd cs expert_out place_of expert_weights out tokens top_k dim =
     (if \<not> valid_product [tokens, top_k, dim] then Some (kInvalidShape, out)
      else case (expert_out, place_of, expert_weights, out) of
        (Some src, Some places, Some weights, Some dst) \<Rightarrow> do {
          let routes = tokens * top_k;
          good \<leftarrow> all_of [0..routes - 1] (\<lambda>r. do { p \<leftarrow> rd places r; Some (\<not> (p < 0 \<or> p \<ge> routes)) });
          if \<not> good then Some (kInvalidArgument, out)
          else do {
            dst' \<leftarrow> parallel_ranges cs (finalize_token zero madd src places weights top_k dim) dst;
            Some (kOk, Some dst') } }
      | _ \<Rightarrow> Some (kInvalidArgument, out))"

definition moe_gather_backward ::
  "'f \<Rightarrow> ('f \<Rightarrow> 'f \<Rightarrow> 'f) \<Rightarrow> 'f ptr \<Rightarrow> int ptr \<Rightarrow> 'f ptr \<Rightarrow> int \<Rightarrow> int \<Rightarrow> int \<Rightarrow> (status \<times> 'f ptr) option" where
  "moe_gather_backward zero add grad_gathered gather_rows grad_input tokens gathered dim =
     (if \<not> (valid_product [tokens, dim] \<and> valid_product [gathered, dim]) then Some (kInvalidShape, grad_input)
      else case (grad_gathered, gather_rows, grad_input) of
        (Some grad, Some rows, Some dst) \<Rightarrow> do {
          dst \<leftarrow> fill_n dst 0 (tokens * dim) zero;
          (st, dst') \<leftarrow> finish (for_loop 0 gathered (\<lambda>r dst. do {
              g \<leftarrow> rd rows r;
              if g < 0 then Some (Next dst)
              else if g \<ge> tokens then Some (Ret kInvalidArgument dst)
              else thru (loop 0 dim (\<lambda>i dst. do {
                  a \<leftarrow> rd dst (g * dim + i); v \<leftarrow> rd grad (r * dim + i); wr dst (g * dim + i) (add a v) }) dst) }) dst);
          Some (st, Some dst') }
      | _ \<Rightarrow> Some (kInvalidArgument, grad_input))"

section \<open>Counting\<close>

definition cnt :: "(int \<Rightarrow> bool) \<Rightarrow> int \<Rightarrow> int" where
  "cnt P n = int (card {r. 0 \<le> r \<and> r < n \<and> P r})"

lemma cnt_finite [simp]: "finite {r :: int. 0 \<le> r \<and> r < n \<and> P r}"
  by (rule finite_subset [of _ "{0..<n}"]) auto

lemma cnt_0 [simp]: "n \<le> 0 \<Longrightarrow> cnt P n = 0"
proof -
  assume "n \<le> 0"
  then have e: "{r. 0 \<le> r \<and> r < n \<and> P r} = {}" by auto
  show ?thesis unfolding cnt_def e by simp
qed

lemma cnt_step: "0 \<le> n \<Longrightarrow> cnt P (n + 1) = cnt P n + (if P n then 1 else 0)"
proof -
  assume n: "0 \<le> n"
  have "{r. 0 \<le> r \<and> r < n + 1 \<and> P r} = (if P n then insert n {r. 0 \<le> r \<and> r < n \<and> P r} else {r. 0 \<le> r \<and> r < n \<and> P r})"
    using n by (auto simp: less_le zless_add1_eq)
  then show ?thesis by (simp add: cnt_def)
qed

lemma cnt_nonneg [simp]: "0 \<le> cnt P n"
  by (simp add: cnt_def)

lemma cnt_mono: "m \<le> n \<Longrightarrow> (\<And>r. 0 \<le> r \<Longrightarrow> r < m \<Longrightarrow> P r \<Longrightarrow> Q r) \<Longrightarrow> cnt P m \<le> cnt Q n"
  unfolding cnt_def by (intro of_nat_mono card_mono) auto

lemma cnt_strict:
  assumes "m \<le> n" "\<And>r. 0 \<le> r \<Longrightarrow> r < m \<Longrightarrow> P r \<Longrightarrow> Q r" "0 \<le> k" "k < n" "Q k" "\<not> (k < m \<and> P k)"
  shows "cnt P m < cnt Q n"
proof -
  have "{r. 0 \<le> r \<and> r < m \<and> P r} \<subset> {r. 0 \<le> r \<and> r < n \<and> Q r}" using assms by auto
  then show ?thesis unfolding cnt_def by (simp add: psubset_card_mono)
qed

lemma cnt_disj:
  assumes "\<And>r. 0 \<le> r \<Longrightarrow> r < n \<Longrightarrow> \<not> (P r \<and> Q r)"
  shows "cnt (\<lambda>r. P r \<or> Q r) n = cnt P n + cnt Q n"
proof -
  have "{r. 0 \<le> r \<and> r < n \<and> (P r \<or> Q r)} = {r. 0 \<le> r \<and> r < n \<and> P r} \<union> {r. 0 \<le> r \<and> r < n \<and> Q r}" by auto
  moreover have "{r. 0 \<le> r \<and> r < n \<and> P r} \<inter> {r. 0 \<le> r \<and> r < n \<and> Q r} = {}" using assms by auto
  ultimately show ?thesis by (simp add: cnt_def card_Un_disjoint)
qed

lemma cnt_cong: "(\<And>r. 0 \<le> r \<Longrightarrow> r < n \<Longrightarrow> P r = Q r) \<Longrightarrow> cnt P n = cnt Q n"
  unfolding cnt_def by (metis (no_types, lifting))

lemma cnt_true: "0 \<le> n \<Longrightarrow> cnt (\<lambda>_. True) n = n"
proof -
  assume "0 \<le> n"
  have "{r. 0 \<le> r \<and> r < n \<and> True} = {0..<n}" by auto
  then show ?thesis using \<open>0 \<le> n\<close> by (simp add: cnt_def)
qed

section \<open>The stable permutation\<close>

text \<open>
  With \<open>E r\<close> the expert of route \<open>r\<close> among \<open>n\<close> routes: the routes of smaller experts, and the place of a
  route among all of them ordered by expert first and route second.
\<close>

definition first_of :: "(int \<Rightarrow> int) \<Rightarrow> int \<Rightarrow> int \<Rightarrow> int" where
  "first_of E n e = cnt (\<lambda>q. E q < e) n"

definition place :: "(int \<Rightarrow> int) \<Rightarrow> int \<Rightarrow> int \<Rightarrow> int" where
  "place E n r = first_of E n (E r) + cnt (\<lambda>q. E q = E r) r"

lemma first_of_step: "first_of E n (e + 1) = first_of E n e + cnt (\<lambda>q. E q = e) n"
proof -
  have "first_of E n (e + 1) = cnt (\<lambda>q. E q < e \<or> E q = e) n"
    unfolding first_of_def by (rule cnt_cong) auto
  also have "\<dots> = first_of E n e + cnt (\<lambda>q. E q = e) n" unfolding first_of_def by (rule cnt_disj) simp
  finally show ?thesis .
qed

lemma place_rank:
  assumes "0 \<le> r" "r < n"
  shows "place E n r = cnt (\<lambda>q. E q < E r \<or> E q = E r \<and> q < r) n"
proof -
  have "cnt (\<lambda>q. E q = E r) r = cnt (\<lambda>q. E q = E r \<and> q < r) n"
  proof -
    have "{q. 0 \<le> q \<and> q < r \<and> E q = E r} = {q. 0 \<le> q \<and> q < n \<and> E q = E r \<and> q < r}" using assms by auto
    then show ?thesis by (simp add: cnt_def)
  qed
  moreover have "cnt (\<lambda>q. E q < E r \<or> E q = E r \<and> q < r) n = first_of E n (E r) + cnt (\<lambda>q. E q = E r \<and> q < r) n"
    unfolding first_of_def by (rule cnt_disj) simp
  ultimately show ?thesis by (simp add: place_def)
qed

lemma place_less:
  assumes "0 \<le> r" "r < n" "0 \<le> q" "q < n" "E r < E q \<or> E r = E q \<and> r < q"
  shows "place E n r < place E n q"
  unfolding place_rank [OF assms(1,2)] place_rank [OF assms(3,4)]
  by (rule cnt_strict [of n n _ _ r]) (use assms in auto)

lemma place_inj:
  assumes "0 \<le> r" "r < n" "0 \<le> q" "q < n" "place E n r = place E n q"
  shows "r = q"
proof (rule ccontr)
  assume "r \<noteq> q"
  then have "(E r < E q \<or> E r = E q \<and> r < q) \<or> (E q < E r \<or> E q = E r \<and> q < r)" by linarith
  then show False using place_less [OF assms(1-4), of E] place_less [OF assms(3,4,1,2), of E] assms(5) by auto
qed

lemma place_bounds:
  assumes "0 \<le> r" "r < n"
  shows "first_of E n (E r) \<le> place E n r" "place E n r < first_of E n (E r + 1)"
    "0 \<le> place E n r" "place E n r < n"
proof -
  show "first_of E n (E r) \<le> place E n r" by (simp add: place_def)
  have "cnt (\<lambda>q. E q = E r) r < cnt (\<lambda>q. E q = E r) n"
    by (rule cnt_strict [of r n _ _ r]) (use assms in auto)
  then show "place E n r < first_of E n (E r + 1)" by (simp add: place_def first_of_step)
  show "0 \<le> place E n r" by (simp add: place_def first_of_def)
  have "place E n r < cnt (\<lambda>_. True) n"
    unfolding place_rank [OF assms] by (rule cnt_strict [of n n _ _ r]) (use assms in auto)
  then show "place E n r < n" using assms by (simp add: cnt_true)
qed

lemma cnt_none: "(\<And>r. 0 \<le> r \<Longrightarrow> r < n \<Longrightarrow> \<not> P r) \<Longrightarrow> cnt P n = 0"
proof -
  assume "\<And>r. 0 \<le> r \<Longrightarrow> r < n \<Longrightarrow> \<not> P r"
  then have "cnt P n = cnt (\<lambda>_. False) n" by (intro cnt_cong) auto
  also have "\<dots> = 0" by (simp add: cnt_def)
  finally show ?thesis .
qed

lemma cnt_le: "0 \<le> n \<Longrightarrow> cnt P n \<le> n"
  using cnt_mono [of n n P "\<lambda>_. True"] by (simp add: cnt_true)

lemma count_routes:
  fixes ids experts
  defines "E \<equiv> \<lambda>r. ids ! nat r"
  assumes n: "0 \<le> n" "n \<le> INT_MAX" "n \<le> int (length ids)"
    and E: "\<And>r. 0 \<le> r \<Longrightarrow> r < n \<Longrightarrow> 0 \<le> E r \<and> E r < experts"
  shows "\<exists>counts. finish (for_loop 0 n (count_route ids experts) (replicate (nat experts) 0)) = Some (kOk, counts) \<and>
    length counts = nat experts \<and> (\<forall>e. 0 \<le> e \<and> e < experts \<longrightarrow> counts ! nat e = cnt (\<lambda>q. E q = e) n)"
proof -
  let ?I = "\<lambda>r (cs :: int list). length cs = nat experts \<and>
    (\<forall>e. 0 \<le> e \<and> e < experts \<longrightarrow> cs ! nat e = cnt (\<lambda>q. E q = e) r)"
  have "ok (flow_post (?I n) (\<lambda>_. False) (\<lambda>_ _. False))
      (for_loop 0 n (count_route ids experts) (replicate (nat experts) 0))"
  proof (rule for_loop_inv [where I = ?I])
    fix r cs assume r: "0 \<le> r" "r < n" and I: "?I r cs"
    note e = E [OF r]
    have rd: "rd ids r = Some (E r)" using r n(3) by (simp add: rd_def in_buf_def E_def)
    have c: "rd cs (E r) = Some (cnt (\<lambda>q. E q = E r) r)" using I e by (simp add: rd_def in_buf_def)
    have i: "i32 (cnt (\<lambda>q. E q = E r) r + 1) = Some (cnt (\<lambda>q. E q = E r) r + 1)"
      using cnt_le [OF r(1), of "\<lambda>q. E q = E r"] cnt_nonneg [of "\<lambda>q. E q = E r" r] r n(2)
      by (simp add: i32_def is_int_def INT_MIN_def)
    have w: "wr cs (E r) v = Some (cs[nat (E r) := v])" for v using I e by (simp add: wr_def in_buf_def)
    have "?I (r + 1) (cs[nat (E r) := cnt (\<lambda>q. E q = E r) r + 1])"
    proof (intro conjI allI impI)
      fix x assume x: "0 \<le> x \<and> x < experts"
      show "cs[nat (E r) := cnt (\<lambda>q. E q = E r) r + 1] ! nat x = cnt (\<lambda>q. E q = x) (r + 1)"
      proof (cases "x = E r")
        case True
        then show ?thesis using I e r by (simp add: cnt_step)
      next
        case False
        then have "nat x \<noteq> nat (E r)" using x e by auto
        then show ?thesis using I x r False by (simp add: cnt_step)
      qed
    qed (use I in simp)
    then show "ok (flow_post (?I (r + 1)) (?I n) (\<lambda>_ _. False)) (count_route ids experts r cs)"
      using e by (simp add: count_route_def rd c i w thru_def)
  qed (use n in auto)
  then show ?thesis by (auto simp: ok_def finish_def split: flow.splits)
qed

lemma next_offsets:
  assumes n: "0 \<le> n" "n \<le> INT_MAX" and experts: "0 < experts" "experts < int (length offs)"
    and E: "\<And>r. 0 \<le> r \<Longrightarrow> r < n \<Longrightarrow> 0 \<le> E r \<and> E r < experts"
    and counts: "length counts = nat experts"
      "\<And>e. 0 \<le> e \<Longrightarrow> e < experts \<Longrightarrow> counts ! nat e = cnt (\<lambda>q. E q = e) n"
    and first: "offs ! 0 = 0"
  shows "\<exists>offs'. loop 0 experts (next_offset counts) offs = Some offs' \<and> length offs' = length offs \<and>
    (\<forall>e. 0 \<le> e \<and> e \<le> experts \<longrightarrow> offs' ! nat e = first_of E n e)"
proof -
  let ?I = "\<lambda>e os. length os = length offs \<and> (\<forall>i. 0 \<le> i \<and> i \<le> e \<longrightarrow> os ! nat i = first_of E n i)"
  have z: "first_of E n 0 = 0" unfolding first_of_def by (rule cnt_none) (use E in force)
  have "ok (?I experts) (loop 0 experts (next_offset counts) offs)"
  proof (rule loop_inv [where I = ?I])
    have "i = 0" if "0 \<le> i \<and> i \<le> 0" for i :: int using that by simp
    then show "?I 0 offs" using first z by auto
  next
    fix e os assume e: "0 \<le> e" "e < experts" and I: "?I e os"
    have r: "rd os e = Some (first_of E n e)" "rd counts e = Some (cnt (\<lambda>q. E q = e) n)"
      using I e experts counts by (simp_all add: rd_def in_buf_def)
    have s: "first_of E n e + cnt (\<lambda>q. E q = e) n = first_of E n (e + 1)" by (simp add: first_of_step)
    have "0 \<le> first_of E n (e + 1) \<and> first_of E n (e + 1) \<le> INT_MAX"
      using cnt_le [OF n(1), of "\<lambda>q. E q < e + 1"] n(2) by (simp add: first_of_def)
    then have i: "i32 (first_of E n (e + 1)) = Some (first_of E n (e + 1))"
      by (simp add: i32_def is_int_def INT_MIN_def)
    have w: "wr os (e + 1) (first_of E n (e + 1)) = Some (os[nat (e + 1) := first_of E n (e + 1)])"
      using I e experts by (simp add: wr_def in_buf_def)
    have "?I (e + 1) (os[nat (e + 1) := first_of E n (e + 1)])"
    proof (intro conjI allI impI)
      fix i assume i: "0 \<le> i \<and> i \<le> e + 1"
      show "os[nat (e + 1) := first_of E n (e + 1)] ! nat i = first_of E n i"
      proof (cases "i = e + 1")
        case True
        have "nat (e + 1) < length os" using I e experts by simp
        then show ?thesis using True by simp
      next
        case False
        then have "nat (e + 1) \<noteq> nat i" using i e by auto
        then show ?thesis using I i False by simp
      qed
    qed (use I in simp)
    then show "ok (?I (e + 1)) (next_offset counts e os)" by (simp add: next_offset_def r s i w)
  qed (use experts in auto)
  then show ?thesis by (auto simp: ok_def)
qed

lemma place_routes:
  fixes ids k
  defines "E \<equiv> \<lambda>r. ids ! nat r"
  assumes n: "0 \<le> n" "n \<le> INT_MAX" "n \<le> int (length ids)" and k: "0 < k"
    and E: "\<And>r. 0 \<le> r \<Longrightarrow> r < n \<Longrightarrow> 0 \<le> E r \<and> E r < experts"
    and cursor: "int (length cursor) = experts"
      "\<And>e. 0 \<le> e \<Longrightarrow> e < experts \<Longrightarrow> cursor ! nat e = first_of E n e"
    and len: "n \<le> int (length srt)" "n \<le> int (length places)"
  shows "\<exists>cursor' srt' places'. loop 0 n (place_route ids k) (cursor, srt, places) = Some (cursor', srt', places') \<and>
    length srt' = length srt \<and> length places' = length places \<and>
    (\<forall>r. 0 \<le> r \<and> r < n \<longrightarrow> places' ! nat r = place E n r \<and> srt' ! nat (place E n r) = r div k)"
proof -
  let ?I = "\<lambda>r (s :: int list \<times> int list \<times> int list). case s of (c, ss, ps) \<Rightarrow>
    length c = length cursor \<and> length ss = length srt \<and> length ps = length places \<and>
    (\<forall>e. 0 \<le> e \<and> e < experts \<longrightarrow> c ! nat e = first_of E n e + cnt (\<lambda>q. E q = e) r) \<and>
    (\<forall>q. 0 \<le> q \<and> q < r \<longrightarrow> ps ! nat q = place E n q \<and> ss ! nat (place E n q) = q div k)"
  have "ok (?I n) (loop 0 n (place_route ids k) (cursor, srt, places))"
  proof (rule loop_inv [where I = ?I])
    fix r s assume r: "0 \<le> r" "r < n" and I: "?I r s"
    obtain c ss ps where s: "s = (c, ss, ps)" by (cases s)
    note e = E [OF r] and p = place_bounds [OF r, of E]
    have I': "length c = length cursor" "length ss = length srt" "length ps = length places"
      "\<And>e. 0 \<le> e \<Longrightarrow> e < experts \<Longrightarrow> c ! nat e = first_of E n e + cnt (\<lambda>q. E q = e) r"
      "\<And>q. 0 \<le> q \<Longrightarrow> q < r \<Longrightarrow> ps ! nat q = place E n q \<and> ss ! nat (place E n q) = q div k"
      using I by (simp_all add: s)
    have rds: "rd ids r = Some (E r)" "rd c (E r) = Some (place E n r)"
      using r n(3) e I'(1,4) cursor(1) by (simp_all add: rd_def in_buf_def E_def place_def)
    have i: "i32 (place E n r + 1) = Some (place E n r + 1)"
      using p n(2) by (simp add: i32_def is_int_def INT_MIN_def)
    have "0 \<le> r div k" "r div k \<le> r" using r k zdiv_mono2 [of r 1 k] by (simp_all add: pos_imp_zdiv_nonneg_iff)
    then have nr: "narrow_int (cdiv r k) = r div k"
      using r k n(2) by (simp add: narrow_int_id INT_MIN_def)
    have w: "wr c (E r) (place E n r + 1) = Some (c[nat (E r) := place E n r + 1])"
      "wr ss (place E n r) (r div k) = Some (ss[nat (place E n r) := r div k])"
      "wr ps r (place E n r) = Some (ps[nat r := place E n r])"
      using I'(1-3) e p r cursor(1) len by (simp_all add: wr_def in_buf_def)
    have step: "place_route ids k r s = Some (c[nat (E r) := place E n r + 1], ss[nat (place E n r) := r div k],
        ps[nat r := place E n r])"
      by (simp add: s place_route_def rds i nr w del: cdiv_nonneg)
    have "?I (r + 1) (c[nat (E r) := place E n r + 1], ss[nat (place E n r) := r div k], ps[nat r := place E n r])"
      unfolding prod.case
    proof (intro conjI allI impI)
      fix x assume x: "0 \<le> x \<and> x < experts"
      show "c[nat (E r) := place E n r + 1] ! nat x = first_of E n x + cnt (\<lambda>q. E q = x) (r + 1)"
      proof (cases "x = E r")
        case True
        have "nat (E r) < length c" using I'(1) e cursor(1) by linarith
        then show ?thesis using True r by (simp add: cnt_step place_def)
      next
        case False
        then have "nat x \<noteq> nat (E r)" using x e by auto
        then show ?thesis using I'(4) [of x] x r False by (simp add: cnt_step)
      qed
    next
      fix q assume q: "0 \<le> q \<and> q < r + 1"
      have "q = r \<or> nat q \<noteq> nat r" using q r by auto
      then show "ps[nat r := place E n r] ! nat q = place E n q"
        using I'(3) I'(5) [of q] q r len(2) by (cases "q = r") auto
      show "ss[nat (place E n r) := r div k] ! nat (place E n q) = q div k"
      proof (cases "q = r")
        case True
        have "nat (place E n r) < length ss" using p(3,4) I'(2) len(1) by linarith
        then show ?thesis using True by simp
      next
        case False
        then have q': "0 \<le> q" "q < r" "q < n" using q r by auto
        have "place E n q \<noteq> place E n r" using place_inj [OF q'(1,3) r, of E] False by blast
        then have "nat (place E n q) \<noteq> nat (place E n r)"
          using place_bounds(3) [OF q'(1,3), of E] p(3) by (simp add: eq_nat_nat_iff)
        then show ?thesis using I'(5) [OF q'(1,2)] by simp
      qed
    qed (simp_all add: I')
    then show "ok (?I (r + 1)) (place_route ids k r s)" unfolding step ok_Some .
  qed (use n cursor in auto)
  then show ?thesis by (auto simp: ok_def)
qed

text \<open>What the permutation of \<open>n\<close> routes over \<open>experts\<close> experts has to be.\<close>

definition permuted :: "(int \<Rightarrow> int) \<Rightarrow> int \<Rightarrow> int \<Rightarrow> int \<Rightarrow> int list \<Rightarrow> int list \<Rightarrow> int list \<Rightarrow> bool" where
  "permuted E k n experts srt offs places \<longleftrightarrow>
     offs ! 0 = 0 \<and> offs ! nat experts = n \<and>
     (\<forall>e. 0 \<le> e \<and> e < experts \<longrightarrow> offs ! nat e \<le> offs ! nat (e + 1)) \<and>
     (\<forall>r. 0 \<le> r \<and> r < n \<longrightarrow> 0 \<le> places ! nat r \<and> places ! nat r < n \<and>
        offs ! nat (E r) \<le> places ! nat r \<and> places ! nat r < offs ! nat (E r + 1) \<and>
        srt ! nat (places ! nat r) = r div k) \<and>
     (\<forall>r q. 0 \<le> r \<and> r < q \<and> q < n \<longrightarrow>
        (if E r \<le> E q then places ! nat r < places ! nat q else places ! nat q < places ! nat r))"

lemma moe_permute_places:
  fixes ids
  defines "E \<equiv> \<lambda>r. ids ! nat r"
  assumes shape: "valid_product [tokens, experts]" "0 < k" "valid_product [tokens, k]" "tokens * k \<le> INT_MAX"
    and len: "tokens * k \<le> int (length ids)" "tokens * k \<le> int (length srt)" "experts < int (length offs)"
      "tokens * k \<le> int (length places)"
    and E: "\<And>r. 0 \<le> r \<Longrightarrow> r < tokens * k \<Longrightarrow> 0 \<le> E r \<and> E r < experts"
  shows "\<exists>srt' offs' places'. moe_permute (Some ids) (Some srt) (Some offs) (Some places) tokens experts k =
      Some (kOk, Some srt', Some offs', Some places') \<and>
    length srt' = length srt \<and> length offs' = length offs \<and> length places' = length places \<and>
    (\<forall>e. 0 \<le> e \<and> e \<le> experts \<longrightarrow> offs' ! nat e = first_of E (tokens * k) e) \<and>
    (\<forall>r. 0 \<le> r \<and> r < tokens * k \<longrightarrow> places' ! nat r = place E (tokens * k) r \<and>
       srt' ! nat (place E (tokens * k) r) = r div k)"
proof -
  let ?n = "tokens * k"
  have n: "0 \<le> ?n" "0 < experts" using shape by auto
  obtain counts where c: "finish (for_loop 0 ?n (count_route ids experts) (replicate (nat experts) 0)) = Some (kOk, counts)"
    "length counts = nat experts" "\<And>e. 0 \<le> e \<Longrightarrow> e < experts \<Longrightarrow> counts ! nat e = cnt (\<lambda>q. E q = e) ?n"
    using count_routes [OF n(1) shape(4) len(1), of experts] E unfolding E_def by blast
  have ne: "offs \<noteq> []" using n(2) len(3) by (cases offs) auto
  have w: "wr offs 0 0 = Some (offs[0 := 0])" using ne by (simp add: wr_def in_buf_def)
  have l0: "experts < int (length (offs[0 := 0]))" "offs[0 := 0] ! 0 = 0"
    using ne len(3) by simp_all
  obtain offs' where o: "loop 0 experts (next_offset counts) (offs[0 := 0]) = Some offs'" "length offs' = length offs"
    "\<And>e. 0 \<le> e \<Longrightarrow> e \<le> experts \<Longrightarrow> offs' ! nat e = first_of E ?n e"
    using next_offsets [OF n(1) shape(4) n(2) l0(1) E c(2,3) l0(2)] by auto
  have cur: "int (length (take (nat experts) offs')) = experts" using o(2) len(3) n(2) by (simp add: min_def)
  obtain cursor' srt' places' where p: "loop 0 ?n (place_route ids k) (take (nat experts) offs', srt, places) =
      Some (cursor', srt', places')" "length srt' = length srt" "length places' = length places"
    "\<And>r. 0 \<le> r \<Longrightarrow> r < ?n \<Longrightarrow> places' ! nat r = place E ?n r \<and> srt' ! nat (place E ?n r) = r div k"
    using place_routes [OF n(1) shape(4) len(1) shape(2), of experts "take (nat experts) offs'" srt places]
      E cur o(3) len(2,4) unfolding E_def by auto
  have "moe_permute (Some ids) (Some srt) (Some offs) (Some places) tokens experts k =
      Some (kOk, Some srt', Some offs', Some places')"
    using shape c(1) w o(1) p(1) by (simp add: moe_permute_def Let_def)
  then show ?thesis using p(2-4) o(2,3) by blast
qed

text \<open>
  C21: the routes are sorted by expert, stably: every route gets its own place, inside the range of its
  expert, routes of one expert keep their order, and the sorted list holds the token of each route there.
\<close>

theorem moe_permute_sorts_stably:
  assumes "valid_product [tokens, experts]" "0 < k" "valid_product [tokens, k]" "tokens * k \<le> INT_MAX"
    and "tokens * k \<le> int (length ids)" "tokens * k \<le> int (length srt)" "experts < int (length offs)"
      "tokens * k \<le> int (length places)"
    and "\<forall>r. 0 \<le> r \<and> r < tokens * k \<longrightarrow> 0 \<le> ids ! nat r \<and> ids ! nat r < experts"
  shows "\<exists>srt' offs' places'. moe_permute (Some ids) (Some srt) (Some offs) (Some places) tokens experts k =
      Some (kOk, Some srt', Some offs', Some places') \<and>
    permuted (\<lambda>r. ids ! nat r) k (tokens * k) experts srt' offs' places'"
proof -
  let ?E = "\<lambda>r. ids ! nat r" and ?n = "tokens * k"
  have E: "0 \<le> ids ! nat r \<and> ids ! nat r < experts" if "0 \<le> r" "r < ?n" for r using assms(9) that by blast
  obtain srt' offs' places' where m: "moe_permute (Some ids) (Some srt) (Some offs) (Some places) tokens experts k =
      Some (kOk, Some srt', Some offs', Some places')"
    and o: "\<And>e. 0 \<le> e \<Longrightarrow> e \<le> experts \<Longrightarrow> offs' ! nat e = first_of ?E ?n e"
    and p: "\<And>r. 0 \<le> r \<Longrightarrow> r < ?n \<Longrightarrow> places' ! nat r = place ?E ?n r \<and> srt' ! nat (place ?E ?n r) = r div k"
    using moe_permute_places [OF assms(1-8) E] by blast
  have "0 < experts" "0 \<le> ?n" using assms(1,3) by auto
  have "first_of ?E ?n 0 = 0" unfolding first_of_def by (rule cnt_none) (use E in force)
  moreover have "first_of ?E ?n experts = cnt (\<lambda>_. True) ?n" unfolding first_of_def by (rule cnt_cong) (use E in auto)
  ultimately have "offs' ! 0 = 0" "offs' ! nat experts = ?n"
    using o [of 0] o [of experts] \<open>0 < experts\<close> \<open>0 \<le> ?n\<close> by (simp_all add: cnt_true)
  moreover have "offs' ! nat e \<le> offs' ! nat (e + 1)" if "0 \<le> e" "e < experts" for e
    using o [of e] o [of "e + 1"] that by (simp add: first_of_step)
  moreover have "0 \<le> places' ! nat r \<and> places' ! nat r < ?n \<and> offs' ! nat (?E r) \<le> places' ! nat r \<and>
      places' ! nat r < offs' ! nat (?E r + 1) \<and> srt' ! nat (places' ! nat r) = r div k" if "0 \<le> r" "r < ?n" for r
    using place_bounds [OF that, of ?E] p [OF that] E [OF that] o [of "?E r"] o [of "?E r + 1"] by simp
  moreover have "if ?E r \<le> ?E q then places' ! nat r < places' ! nat q else places' ! nat q < places' ! nat r"
    if "0 \<le> r" "r < q" "q < ?n" for r q
  proof -
    have "?E r < ?E q \<or> ?E r = ?E q \<or> ?E q < ?E r" by linarith
    then show ?thesis
      using place_less [of r ?n q ?E] place_less [of q ?n r ?E] p [of r] p [of q] that by (elim disjE) simp_all
  qed
  ultimately have "permuted ?E k ?n experts srt' offs' places'" unfolding permuted_def by blast
  with m show ?thesis by blast
qed

theorem moe_permute_sorts_stably_witness:
  "\<exists>srt' offs' places'. moe_permute (Some [1, 0, 1, 1]) (Some [9, 9, 9, 9]) (Some [9, 9, 9]) (Some [9, 9, 9, 9]) 2 2 2 =
      Some (kOk, Some srt', Some offs', Some places') \<and>
    permuted (\<lambda>r. [1, 0, 1, 1] ! nat r) 2 4 2 srt' offs' places'"
proof -
  have four: "(0 \<le> r \<and> r < 2 * 2) = (r = 0 \<or> r = 1 \<or> r = 2 \<or> r = 3)" for r :: int by auto
  have "\<forall>r. 0 \<le> r \<and> r < 2 * 2 \<longrightarrow> 0 \<le> [1, 0, 1, 1 :: int] ! nat r \<and> [1, 0, 1, 1 :: int] ! nat r < 2"
    unfolding four by auto
  then show ?thesis
    using moe_permute_sorts_stably [of 2 2 2 "[1, 0, 1, 1]" "[9, 9, 9, 9]" "[9, 9, 9]" "[9, 9, 9, 9]"]
    by (simp add: int_limits)
qed

section \<open>The padded schedule\<close>

fun padded_first :: "int list \<Rightarrow> int \<Rightarrow> nat \<Rightarrow> int" where
  "padded_first offs tile 0 = 0"
| "padded_first offs tile (Suc e) =
     padded_first offs tile e + (offs ! Suc e - offs ! e + tile - 1) div tile * tile"

lemma ceil_tile:
  fixes c t :: int
  assumes "0 < t"
  shows "c \<le> (c + t - 1) div t * t" "(c + t - 1) div t * t \<le> c + t - 1" "0 \<le> c \<Longrightarrow> 0 \<le> (c + t - 1) div t * t"
proof -
  have "(c + t - 1) mod t < t" "0 \<le> (c + t - 1) mod t" using assms by simp_all
  then show "c \<le> (c + t - 1) div t * t" "(c + t - 1) div t * t \<le> c + t - 1"
    by (simp_all add: minus_mod_eq_div_mult [symmetric])
  then show "0 \<le> c \<Longrightarrow> 0 \<le> (c + t - 1) div t * t" by linarith
qed

text \<open>Offsets of \<open>experts\<close> experts: from zero, never decreasing, ending at \<open>n\<close>.\<close>

definition offsets_ok :: "int list \<Rightarrow> int \<Rightarrow> int \<Rightarrow> bool" where
  "offsets_ok offs experts n \<longleftrightarrow> experts < int (length offs) \<and> offs ! 0 = 0 \<and> offs ! nat experts = n \<and>
     (\<forall>e. 0 \<le> e \<and> e < experts \<longrightarrow> offs ! nat e \<le> offs ! nat (e + 1))"

lemma offsets_step: "offsets_ok offs experts n \<Longrightarrow> int e < experts \<Longrightarrow> offs ! e \<le> offs ! Suc e"
  unfolding offsets_ok_def by (metis of_nat_0_le_iff nat_int Suc_eq_plus1 of_nat_1 of_nat_add)

lemma offsets_mono: "offsets_ok offs experts n \<Longrightarrow> i \<le> j \<Longrightarrow> int j \<le> experts \<Longrightarrow> offs ! i \<le> offs ! j"
proof (induction j)
  case (Suc j)
  then show ?case using offsets_step [of offs experts n j] by (cases "i = Suc j") auto
qed simp

lemma padded_dvd: "tile dvd padded_first offs tile e"
  by (induction e) auto

lemma padded_step:
  assumes "offsets_ok offs experts n" "0 < tile" "int e < experts"
  shows "padded_first offs tile e + (offs ! Suc e - offs ! e) \<le> padded_first offs tile (Suc e)"
    "padded_first offs tile (Suc e) \<le> padded_first offs tile e + (offs ! Suc e - offs ! e) + tile - 1"
    "padded_first offs tile e \<le> padded_first offs tile (Suc e)"
  using ceil_tile [OF assms(2), of "offs ! Suc e - offs ! e"] offsets_step [OF assms(1,3)] by auto

lemma padded_bounds:
  assumes "offsets_ok offs experts n" "0 < tile" "int e \<le> experts"
  shows "0 \<le> padded_first offs tile e" "padded_first offs tile e \<le> offs ! e + int e * tile"
proof -
  have "0 \<le> padded_first offs tile e \<and> padded_first offs tile e \<le> offs ! e + int e * tile"
    using assms(3)
  proof (induction e)
    case 0
    then show ?case using assms(1) by (simp add: offsets_ok_def)
  next
    case (Suc e)
    then show ?case using padded_step [OF assms(1,2), of e] by (simp del: padded_first.simps add: distrib_right)
  qed
  then show "0 \<le> padded_first offs tile e" "padded_first offs tile e \<le> offs ! e + int e * tile" by auto
qed

lemma padded_mono:
  assumes "offsets_ok offs experts n" "0 < tile"
  shows "i \<le> j \<Longrightarrow> int j \<le> experts \<Longrightarrow> padded_first offs tile i \<le> padded_first offs tile j"
proof (induction j)
  case (Suc j)
  then show ?case using padded_step(3) [OF assms, of j] by (cases "i = Suc j") (auto simp del: padded_first.simps)
qed simp

lemma padded_le_total:
  assumes "offsets_ok offs experts n" "0 < tile" "int e \<le> experts"
  shows "padded_first offs tile e \<le> n + experts * tile"
proof -
  have e: "0 \<le> experts" using assms(3) by linarith
  then have i: "e \<le> nat experts" "int (nat experts) \<le> experts" using assms(3) by auto
  have "padded_first offs tile e \<le> padded_first offs tile (nat experts)" by (rule padded_mono [OF assms(1,2) i])
  also have "\<dots> \<le> offs ! nat experts + int (nat experts) * tile" by (rule padded_bounds(2) [OF assms(1,2) i(2)])
  finally show ?thesis using assms(1) e by (simp add: offsets_ok_def)
qed

text \<open>The padded offsets the code computes.\<close>

lemma pad_experts:
  assumes offs: "offsets_ok offs experts n" and tile: "0 < tile" and n: "0 \<le> experts" "n + experts * tile + tile \<le> INT_MAX"
    and po: "experts < int (length po)" "po ! 0 = 0"
  shows "\<exists>po'. finish (for_loop 0 experts (pad_expert offs tile) po) = Some (kOk, po') \<and> length po' = length po \<and>
    (\<forall>e. int e \<le> experts \<longrightarrow> po' ! e = padded_first offs tile e)"
proof -
  let ?P = "padded_first offs tile"
  let ?I = "\<lambda>e ps. length ps = length po \<and> (\<forall>i. int i \<le> e \<longrightarrow> ps ! i = ?P i)"
  have "ok (flow_post (?I experts) (\<lambda>_. False) (\<lambda>_ _. False)) (for_loop 0 experts (pad_expert offs tile) po)"
  proof (rule for_loop_inv [where I = ?I])
    fix e ps assume e: "0 \<le> e" "e < experts" and I: "?I e ps"
    define m where "m = nat e"
    have m: "e = int m" "nat (int m + 1) = Suc m" using e by (simp_all add: m_def)
    have me: "int m < experts" "int (Suc m) \<le> experts" using e m by auto
    have len: "experts < int (length offs)" using offs by (simp add: offsets_ok_def)
    have rds: "rd offs (int m) = Some (offs ! m)" "rd offs (int m + 1) = Some (offs ! Suc m)" "rd ps (int m) = Some (?P m)"
      using e m I po(1) len by (simp_all add: rd_def in_buf_def)
    note st = offsets_step [OF offs me(1)]
    have "offs ! 0 \<le> offs ! m" "offs ! Suc m \<le> offs ! nat experts"
      using offsets_mono [OF offs, of 0 m] offsets_mono [OF offs, of "Suc m" "nat experts"] me n(1) by auto
    then have ob: "0 \<le> offs ! m" "offs ! Suc m \<le> n" using offs by (auto simp: offsets_ok_def)
    have ex: "0 \<le> experts * tile" using n(1) tile by simp
    have i: "i32 (offs ! Suc m - offs ! m) = Some (offs ! Suc m - offs ! m)"
      "i32 (offs ! Suc m - offs ! m + tile) = Some (offs ! Suc m - offs ! m + tile)"
      using st ob n(2) tile ex by (simp_all add: i32_def is_int_def INT_MIN_def)
    have cd: "cdiv (offs ! Suc m - offs ! m + tile - 1) tile = (offs ! Suc m - offs ! m + tile - 1) div tile"
      using st tile by simp
    have s: "?P m + (offs ! Suc m - offs ! m + tile - 1) div tile * tile = ?P (Suc m)" by simp
    have i': "i32 (?P (Suc m)) = Some (?P (Suc m))"
      using padded_bounds(1) [OF offs tile me(2)] padded_le_total [OF offs tile me(2)] n(2) tile
      by (simp add: i32_def is_int_def INT_MIN_def del: padded_first.simps)
    have w: "wr ps (int m + 1) v = Some (ps[Suc m := v])" for v using I e m po(1) by (simp add: wr_def in_buf_def)
    have "?I (e + 1) (ps[Suc m := ?P (Suc m)])"
    proof (intro conjI allI impI)
      fix i assume "int i \<le> e + 1"
      then consider "i = Suc m" | "i \<noteq> Suc m" "int i \<le> e" using m by linarith
      then show "ps[Suc m := ?P (Suc m)] ! i = ?P i"
        using I e m po(1) by cases (simp_all del: padded_first.simps)
    qed (use I in simp)
    then show "ok (flow_post (?I (e + 1)) (?I experts) (\<lambda>_ _. False)) (pad_expert offs tile e ps)"
      using st unfolding pad_expert_def m(1) by (simp add: rds i cd s i' w thru_def del: padded_first.simps)
  qed (use n po in auto)
  then show ?thesis by (auto simp: ok_def finish_def split: flow.splits)
qed

text \<open>Copying the routes of one expert, and marking its tiles.\<close>

lemma schedule_routes:
  assumes "0 \<le> a" "a \<le> b" "b \<le> int (length srt)" "0 \<le> pa" "pa + (b - a) \<le> int (length g)" "pa + b \<le> INT_MAX"
  shows "\<exists>g'. loop a b (schedule_route srt a pa) g = Some g' \<and> length g' = length g \<and>
    (\<forall>i < length g. g' ! i = (if pa \<le> int i \<and> int i < pa + (b - a) then srt ! nat (int i - pa + a) else g ! i))"
proof -
  let ?I = "\<lambda>r h. length h = length g \<and>
    (\<forall>i < length g. h ! i = (if pa \<le> int i \<and> int i < pa + (r - a) then srt ! nat (int i - pa + a) else g ! i))"
  have "ok (?I b) (loop a b (schedule_route srt a pa) g)"
  proof (rule loop_inv [where I = ?I])
    fix r h assume r: "a \<le> r" "r < b" and I: "?I r h"
    have e: "i32 (pa + r) = Some (pa + r)" "i32 (pa + r - a) = Some (pa + r - a)" "rd srt r = Some (srt ! nat r)"
      "wr h (pa + r - a) v = Some (h[nat (pa + r - a) := v])" for v
      using r assms I by (simp_all add: i32_def is_int_def INT_MIN_def rd_def in_buf_def wr_def)
    have "?I (r + 1) (h[nat (pa + r - a) := srt ! nat r])"
    proof (intro conjI allI impI)
      fix i assume i: "i < length g"
      show "h[nat (pa + r - a) := srt ! nat r] ! i =
          (if pa \<le> int i \<and> int i < pa + (r + 1 - a) then srt ! nat (int i - pa + a) else g ! i)"
      proof (cases "i = nat (pa + r - a)")
        case True
        then show ?thesis using I i r assms(1,4) by simp
      next
        case False
        then have "(pa \<le> int i \<and> int i < pa + (r + 1 - a)) = (pa \<le> int i \<and> int i < pa + (r - a))"
          using r assms(4) by auto
        then show ?thesis using False I i by simp
      qed
    qed (use I in simp)
    then show "ok (?I (r + 1)) (schedule_route srt a pa r h)" by (simp add: schedule_route_def e)
  qed (use assms in auto)
  then show ?thesis by (auto simp: ok_def)
qed

lemma schedule_tiles:
  assumes t: "0 < t" and p: "0 \<le> pa" "pa \<le> pb" "t dvd pa" "t dvd pb" "pb \<le> int (length tiles) * t" "pb + t \<le> INT_MAX"
    and e: "0 \<le> e" "e \<le> INT_MAX"
  shows "\<exists>tiles'. each (strided pa pb t) (schedule_tile t e) tiles = Some tiles' \<and> length tiles' = length tiles \<and>
    (\<forall>i < length tiles. tiles' ! i = (if pa \<le> int i * t \<and> int i * t < pb then e else tiles ! i))"
proof -
  define u v where "u = pa div t" and "v = pb div t"
  have u: "pa = u * t" and v: "pb = v * t" using p(3,4) by (simp_all add: u_def v_def)
  have uv: "0 \<le> u" "u \<le> v" "v \<le> int (length tiles)"
    using p(1,2,5) t by (simp_all add: u v zero_le_mult_iff mult_le_cancel_right)
  have "(pb - pa + t - 1) div t = v - u"
  proof -
    have "pb - pa + t - 1 = (t - 1) + (v - u) * t" by (simp add: u v left_diff_distrib)
    also have "\<dots> div t = v - u + (t - 1) div t" using t by simp
    finally show ?thesis using t by simp
  qed
  then have l: "each (strided pa pb t) (schedule_tile t e) tiles =
      loop 0 (v - u) (\<lambda>k. schedule_tile t e (pa + k * t)) tiles"
    using each_strided [OF t p(2)] by simp
  let ?I = "\<lambda>k h. length h = length tiles \<and> (\<forall>i < length tiles. h ! i = (if u \<le> int i \<and> int i < u + k then e else tiles ! i))"
  have "ok (?I (v - u)) (loop 0 (v - u) (\<lambda>k. schedule_tile t e (pa + k * t)) tiles)"
  proof (rule loop_inv [where I = ?I])
    fix k h assume k: "0 \<le> k" "k < v - u" and I: "?I k h"
    have r: "pa + k * t = (u + k) * t" by (simp add: u distrib_right)
    have "(u + k) * t \<le> v * t" using k t by (intro mult_right_mono) auto
    then have m: "0 \<le> (u + k) * t" "(u + k) * t \<le> pb" using uv(1) k t by (simp_all add: v)
    have c: "cdiv ((u + k) * t) t = u + k" using m t by simp
    have i: "i32 ((u + k) * t + t) = Some ((u + k) * t + t)" using m p(6) t by (simp add: i32_def is_int_def INT_MIN_def)
    have w: "wr h (u + k) (narrow_int e) = Some (h[nat (u + k) := e])"
      using uv k I e by (simp add: wr_def in_buf_def narrow_int_id INT_MIN_def)
    have "?I (k + 1) (h[nat (u + k) := e])"
    proof (intro conjI allI impI)
      fix i assume i: "i < length tiles"
      show "h[nat (u + k) := e] ! i = (if u \<le> int i \<and> int i < u + (k + 1) then e else tiles ! i)"
      proof (cases "i = nat (u + k)")
        case True
        then show ?thesis using I i uv(1) k(1) by simp
      next
        case False
        then have "(u \<le> int i \<and> int i < u + (k + 1)) = (u \<le> int i \<and> int i < u + k)" using uv(1) k by auto
        then show ?thesis using False I i by simp
      qed
    qed (use I in simp)
    then show "ok (?I (k + 1)) (schedule_tile t e (pa + k * t) h)"
      unfolding r by (simp add: schedule_tile_def c w i)
  qed (use uv in auto)
  then obtain tiles' where "loop 0 (v - u) (\<lambda>k. schedule_tile t e (pa + k * t)) tiles = Some tiles'" "?I (v - u) tiles'"
    by (auto simp: ok_def)
  moreover have "(pa \<le> int i * t \<and> int i * t < pb) = (u \<le> int i \<and> int i < v)" for i
    using t by (simp add: u v mult_le_cancel_right mult_less_cancel_right)
  ultimately show ?thesis unfolding l by auto
qed

text \<open>
  After the experts before \<open>e\<close>: their routes are at the front of their padded ranges, the rest of these
  ranges and everything after is \<open>-1\<close>, and their tiles carry their number.
\<close>

definition scheduled :: "int list \<Rightarrow> int list \<Rightarrow> int \<Rightarrow> int \<Rightarrow> nat \<Rightarrow> int list \<Rightarrow> int list \<Rightarrow> bool" where
  "scheduled srt offs tile rows e tiles gather \<longleftrightarrow>
     (\<forall>m < e. \<forall>j. 0 \<le> j \<and> j < padded_first offs tile (Suc m) - padded_first offs tile m \<longrightarrow>
        gather ! nat (padded_first offs tile m + j) =
          (if j < offs ! Suc m - offs ! m then srt ! nat (offs ! m + j) else - 1)) \<and>
     (\<forall>i. padded_first offs tile e \<le> i \<and> i < rows \<longrightarrow> gather ! nat i = - 1) \<and>
     (\<forall>m < e. \<forall>i. padded_first offs tile m \<le> i * tile \<and> i * tile < padded_first offs tile (Suc m) \<longrightarrow>
        tiles ! nat i = int m)"

lemma schedule_one:
  assumes offs: "offsets_ok offs experts n" and tile: "0 < tile" and total: "2 * n + experts * tile + tile \<le> INT_MAX" "experts \<le> INT_MAX"
    and m: "int m < experts" and srt: "n \<le> int (length srt)"
    and po: "experts < int (length po)" "\<And>e. int e \<le> experts \<Longrightarrow> po ! e = padded_first offs tile e"
    and len: "rows = padded_first offs tile (nat experts)" "rows \<le> int (length gather)" "rows \<le> int (length tiles) * tile"
    and I: "scheduled srt offs tile rows m tiles gather"
  shows "\<exists>tiles' gather'. schedule_expert srt offs po tile (int m) (tiles, gather) = Some (tiles', gather') \<and>
    length tiles' = length tiles \<and> length gather' = length gather \<and>
    scheduled srt offs tile rows (Suc m) tiles' gather'"
proof -
  let ?P = "padded_first offs tile"
  have em: "int (Suc m) \<le> experts" "int m \<le> experts" "0 \<le> experts" using m by auto
  note st = padded_step [OF offs tile m] and os = offsets_step [OF offs m]
  have ends: "offs ! 0 \<le> offs ! m" "offs ! Suc m \<le> offs ! nat experts" "?P (Suc m) \<le> rows" "0 \<le> ?P m"
    using offsets_mono [OF offs, of 0 m] offsets_mono [OF offs, of "Suc m" "nat experts"]
      padded_mono [OF offs tile, of "Suc m" "nat experts"] padded_bounds(1) [OF offs tile em(2)] em len(1) by auto
  then have ob: "0 \<le> offs ! m" "offs ! Suc m \<le> n" using offs em by (auto simp: offsets_ok_def)
  have tot: "?P (Suc m) \<le> n + experts * tile" by (rule padded_le_total [OF offs tile em(1)])
  have "0 \<le> n" using ob os by linarith
  then have pm: "?P m + offs ! Suc m \<le> INT_MAX"
    using padded_le_total [OF offs tile em(2)] ob total(1) tile by linarith
  have len_o: "experts < int (length offs)" using offs by (simp add: offsets_ok_def)
  have rds: "rd offs (int m) = Some (offs ! m)" "rd offs (int m + 1) = Some (offs ! Suc m)"
    "rd po (int m) = Some (?P m)" "rd po (int m + 1) = Some (?P (Suc m))"
    using m len_o po(1) po(2) [of m] po(2) [of "Suc m"] em
    by (simp_all add: rd_def in_buf_def nat_add_distrib del: padded_first.simps)
  obtain gather' where g: "loop (offs ! m) (offs ! Suc m) (schedule_route srt (offs ! m) (?P m)) gather = Some gather'"
    "length gather' = length gather"
    "\<And>i. i < length gather \<Longrightarrow> gather' ! i = (if ?P m \<le> int i \<and> int i < ?P m + (offs ! Suc m - offs ! m)
        then srt ! nat (int i - ?P m + offs ! m) else gather ! i)"
    using schedule_routes [of "offs ! m" "offs ! Suc m" srt "?P m" gather] ob os srt ends(3,4) st(1) len(2) pm by auto
  obtain tiles' where t: "each (strided (?P m) (?P (Suc m)) tile) (schedule_tile tile (int m)) tiles = Some tiles'"
    "length tiles' = length tiles"
    "\<And>i. i < length tiles \<Longrightarrow> tiles' ! i = (if ?P m \<le> int i * tile \<and> int i * tile < ?P (Suc m) then int m else tiles ! i)"
  proof -
    have "int m \<le> INT_MAX" "?P (Suc m) + tile \<le> INT_MAX" "?P (Suc m) \<le> int (length tiles) * tile"
      using m total tot ends(3) len(3) \<open>0 \<le> n\<close> by linarith+
    then show thesis
      using schedule_tiles [OF tile ends(4) st(3) padded_dvd padded_dvd, of tiles "int m"] that by auto
  qed
  have e: "schedule_expert srt offs po tile (int m) (tiles, gather) = Some (tiles', gather')"
    by (simp add: schedule_expert_def rds g(1) t(1) del: padded_first.simps)
  have earlier: "0 \<le> ?P k" "?P (Suc k) \<le> rows" "k = m \<or> ?P (Suc k) \<le> ?P m" if k: "k < Suc m" for k
  proof -
    show "0 \<le> ?P k" by (rule padded_bounds(1) [OF offs tile]) (use k em in linarith)
    have "?P (Suc k) \<le> ?P (Suc m)" by (rule padded_mono [OF offs tile]) (use k em in linarith)+
    then show "?P (Suc k) \<le> rows" using ends(3) by (rule order_trans)
    show "k = m \<or> ?P (Suc k) \<le> ?P m"
    proof (cases "k = m")
      case False
      then have "Suc k \<le> m" using k by simp
      then show ?thesis using padded_mono [OF offs tile _ em(2)] by blast
    qed simp
  qed
  have "gather' ! nat (?P k + j) = (if j < offs ! Suc k - offs ! k then srt ! nat (offs ! k + j) else - 1)"
    if k: "k < Suc m" and j: "0 \<le> j" "j < ?P (Suc k) - ?P k" for k j
  proof -
    have Pk: "0 \<le> ?P k" "?P k + j < rows" "k = m \<or> ?P (Suc k) \<le> ?P m"
      using earlier [OF k] j by linarith+
    have in_g: "nat (?P k + j) < length gather" "int (nat (?P k + j)) = ?P k + j" using Pk j len(2) by linarith+
    show ?thesis
    proof (cases "k = m")
      case True
      have "gather ! nat (?P m + j) = - 1" using I Pk j True by (simp add: scheduled_def)
      then show ?thesis using g(3) [OF in_g(1)] in_g(2) j True by (simp add: add.commute)
    next
      case False
      then have "\<not> ?P m \<le> int (nat (?P k + j))" using Pk(3) j in_g(2) by linarith
      then show ?thesis using g(3) [OF in_g(1)] I k False j by (simp add: scheduled_def)
    qed
  qed
  moreover have "gather' ! nat i = - 1" if i: "?P (Suc m) \<le> i" "i < rows" for i
  proof -
    have "nat i < length gather" "int (nat i) = i" using i ends(4) st(3) len(2) by linarith+
    then show ?thesis using g(3) [of "nat i"] I i st(1,3) by (simp add: scheduled_def)
  qed
  moreover have "tiles' ! nat i = int k"
    if k: "k < Suc m" and i: "?P k \<le> i * tile" "i * tile < ?P (Suc k)" for k i
  proof -
    note Pk = earlier [OF k]
    have "0 \<le> i * tile" "i * tile < int (length tiles) * tile" using i Pk len(3) by linarith+
    then have i0: "0 \<le> i" "i < int (length tiles)" using tile by (simp_all add: zero_le_mult_iff mult_less_cancel_right)
    then have "nat i < length tiles" "int (nat i) = i" by auto
    moreover have "k \<noteq> m \<Longrightarrow> \<not> ?P m \<le> i * tile" using Pk(3) i by linarith
    ultimately show ?thesis using t(3) [of "nat i"] I k i by (cases "k = m") (simp_all add: scheduled_def)
  qed
  ultimately have "scheduled srt offs tile rows (Suc m) tiles' gather'" unfolding scheduled_def by blast
  then show ?thesis using e t(2) g(2) by blast
qed

lemma schedule_all:
  assumes offs: "offsets_ok offs experts n" and tile: "0 < tile" and total: "2 * n + experts * tile + tile \<le> INT_MAX" "experts \<le> INT_MAX"
    and experts: "0 \<le> experts" and srt: "n \<le> int (length srt)"
    and po: "experts < int (length po)" "\<And>e. int e \<le> experts \<Longrightarrow> po ! e = padded_first offs tile e"
    and len: "rows = padded_first offs tile (nat experts)" "rows \<le> int (length gather)" "rows \<le> int (length tiles) * tile"
    and fill: "\<And>i. 0 \<le> i \<Longrightarrow> i < rows \<Longrightarrow> gather ! nat i = - 1"
  shows "\<exists>tiles' gather'. loop 0 experts (schedule_expert srt offs po tile) (tiles, gather) = Some (tiles', gather') \<and>
    scheduled srt offs tile rows (nat experts) tiles' gather'"
proof -
  let ?I = "\<lambda>e s. length (fst s) = length tiles \<and> length (snd s) = length gather \<and>
    scheduled srt offs tile rows (nat e) (fst s) (snd s)"
  have "ok (?I experts) (loop 0 experts (schedule_expert srt offs po tile) (tiles, gather))"
  proof (rule loop_inv [where I = ?I])
    fix e s assume e: "0 \<le> e" "e < experts" and I: "?I e s"
    have m: "int (nat e) < experts" "nat (e + 1) = Suc (nat e)" "int (nat e) = e" using e by auto
    have l: "rows \<le> int (length (snd s))" "rows \<le> int (length (fst s)) * tile" using I len(2,3) by auto
    have "scheduled srt offs tile rows (nat e) (fst s) (snd s)" using I by simp
    from schedule_one [OF offs tile total m(1) srt po len(1) l this]
    obtain t' g' where "schedule_expert srt offs po tile (int (nat e)) (fst s, snd s) = Some (t', g')"
      "length t' = length (fst s)" "length g' = length (snd s)" "scheduled srt offs tile rows (Suc (nat e)) t' g'" by blast
    then show "ok (?I (e + 1)) (schedule_expert srt offs po tile e s)" using I m by simp
  qed (use experts fill in \<open>auto simp: scheduled_def\<close>)
  then show ?thesis by (auto simp: ok_def)
qed

lemma upper_bound_offsets:
  assumes "offsets_ok offs experts n" "int e < experts" "offs ! e \<le> c" "c < offs ! Suc e"
  shows "upper_bound (take (nat (experts + 1)) offs) c = int (Suc e)"
proof -
  have len: "experts < int (length offs)" using assms(1) by (simp add: offsets_ok_def)
  then have l: "Suc e < length (take (nat (experts + 1)) offs)" using assms(2) by simp
  have "takeWhile (\<lambda>x. \<not> c < x) (take (nat (experts + 1)) offs) = take (Suc e) (take (nat (experts + 1)) offs)"
  proof (rule takeWhile_eq_take_P_nth)
    fix i assume i: "i < Suc e" "i < length (take (nat (experts + 1)) offs)"
    have "offs ! i \<le> offs ! e" using offsets_mono [OF assms(1), of i e] i(1) assms(2) by simp
    then show "\<not> c < take (nat (experts + 1)) offs ! i" using i assms(3) by simp
  qed (use assms(2,4) in simp)
  then show ?thesis using l by (simp add: upper_bound_def)
qed

lemma pad_routes:
  assumes offs: "offsets_ok offs experts n" and tile: "0 < tile" and total: "2 * n + experts * tile + tile \<le> INT_MAX"
    and n: "0 \<le> n" "n \<le> int (length places)" "n \<le> int (length pp)"
    and po: "experts < int (length po)" "\<And>e. int e \<le> experts \<Longrightarrow> po ! e = padded_first offs tile e"
    and E: "\<And>r. 0 \<le> r \<Longrightarrow> r < n \<Longrightarrow> 0 \<le> E r \<and> E r < experts"
    and places: "\<And>r. 0 \<le> r \<Longrightarrow> r < n \<Longrightarrow> 0 \<le> places ! nat r \<and> places ! nat r < n \<and>
      offs ! nat (E r) \<le> places ! nat r \<and> places ! nat r < offs ! nat (E r + 1)"
  shows "\<exists>pp'. finish (for_loop 0 n (pad_route places offs po experts n) pp) = Some (kOk, pp') \<and>
    (\<forall>r. 0 \<le> r \<and> r < n \<longrightarrow>
       pp' ! nat r = padded_first offs tile (nat (E r)) + (places ! nat r - offs ! nat (E r)))"
proof -
  let ?v = "\<lambda>r. padded_first offs tile (nat (E r)) + (places ! nat r - offs ! nat (E r))"
  let ?I = "\<lambda>r ps. length ps = length pp \<and> (\<forall>q. 0 \<le> q \<and> q < r \<longrightarrow> ps ! nat q = ?v q)"
  have "ok (flow_post (?I n) (\<lambda>_. False) (\<lambda>_ _. False)) (for_loop 0 n (pad_route places offs po experts n) pp)"
  proof (rule for_loop_inv [where I = ?I])
    fix r ps assume r: "0 \<le> r" "r < n" and I: "?I r ps"
    note e = E [OF r] and p = places [OF r]
    define m where "m = nat (E r)"
    have m: "int m = E r" "nat (E r + 1) = Suc m" "int m < experts" "int m \<le> experts" using e by (auto simp: m_def)
    have p': "offs ! m \<le> places ! nat r" "places ! nat r < offs ! Suc m" using p m(2) by (auto simp: m_def)
    have ub: "upper_bound (take (nat (experts + 1)) offs) (places ! nat r) = int (Suc m)"
      by (rule upper_bound_offsets [OF offs m(3) p'])
    have len: "experts < int (length offs)" using offs by (simp add: offsets_ok_def)
    have rds: "rd places r = Some (places ! nat r)" "rd po (int m) = Some (padded_first offs tile m)"
      "rd offs (int m) = Some (offs ! m)"
      using r n m(3) len po(1) po(2) [OF m(4)] by (simp_all add: rd_def in_buf_def)
    have "offs ! 0 \<le> offs ! m" using offsets_mono [OF offs, of 0 m] m by simp
    then have o0: "0 \<le> offs ! m" using offs by (simp add: offsets_ok_def)
    have P: "0 \<le> padded_first offs tile m" "padded_first offs tile m \<le> n + experts * tile"
      using padded_bounds(1) [OF offs tile m(4)] padded_le_total [OF offs tile m(4)] by auto
    have i: "i32 (padded_first offs tile m + places ! nat r) = Some (padded_first offs tile m + places ! nat r)"
      "i32 (padded_first offs tile m + places ! nat r - offs ! m) =
        Some (padded_first offs tile m + places ! nat r - offs ! m)"
      using P p p' o0 total tile by (simp_all add: i32_def is_int_def INT_MIN_def)
    have w: "wr ps r v = Some (ps[nat r := v])" for v using r n I by (simp add: wr_def in_buf_def)
    have "?I (r + 1) (ps[nat r := ?v r])"
    proof (intro conjI allI impI)
      fix q assume q: "0 \<le> q \<and> q < r + 1"
      show "ps[nat r := ?v r] ! nat q = ?v q"
      proof (cases "q = r")
        case True
        have "nat r < length ps" using I r n by simp
        then show ?thesis using True by simp
      next
        case False
        then have "nat q \<noteq> nat r" using q r by auto
        then show ?thesis using I q False by simp
      qed
    qed (use I in simp)
    moreover have "?v r = padded_first offs tile m + places ! nat r - offs ! m" by (simp add: m_def)
    ultimately show "ok (flow_post (?I (r + 1)) (?I n) (\<lambda>_ _. False)) (pad_route places offs po experts n r ps)"
      using p by (simp add: pad_route_def rds ub i w thru_def)
  qed (use n in auto)
  then show ?thesis by (auto simp: ok_def finish_def split: flow.splits)
qed

text \<open>
  C22: the padded schedule feeds whole tiles to single experts: after a stable permutation of the routes,
  each route has a row of its own in the padded layout that gathers its token, the tile of that row belongs
  to the route's expert, and every expert's range starts on a tile boundary.
\<close>

theorem moe_pad_schedule_tiles:
  assumes shape: "valid_product [tokens, experts, k]" "0 < tile" "2 * (tokens * k) + experts * tile + tile \<le> INT_MAX"
      "experts \<le> INT_MAX"
    and perm: "permuted E k (tokens * k) experts srt offs places"
    and E: "\<forall>r. 0 \<le> r \<and> r < tokens * k \<longrightarrow> 0 \<le> E r \<and> E r < experts"
    and len: "experts < int (length offs)" "tokens * k \<le> int (length srt)" "tokens * k \<le> int (length places)"
      "tokens * k + experts * tile \<le> int (length tiles) * tile" "tokens * k + experts * tile \<le> int (length gather)"
      "tokens * k \<le> int (length pp)" "experts < int (length po)"
  shows "\<exists>tiles' gather' pp' po'.
    moe_pad_schedule (Some srt) (Some offs) (Some places) (Some tiles) (Some gather) (Some pp) (Some po)
      tokens experts k tile = Some (kOk, Some tiles', Some gather', Some pp', Some po') \<and>
    (\<forall>r. 0 \<le> r \<and> r < tokens * k \<longrightarrow> 0 \<le> pp' ! nat r \<and> pp' ! nat r < po' ! nat experts \<and>
       gather' ! nat (pp' ! nat r) = r div k \<and> tiles' ! nat (pp' ! nat r div tile) = E r) \<and>
    (\<forall>e. 0 \<le> e \<and> e \<le> experts \<longrightarrow> tile dvd po' ! nat e)"
proof -
  let ?n = "tokens * k" and ?P = "padded_first offs tile"
  have pos: "0 < experts" "0 < k" "0 \<le> ?n" using shape(1) by auto
  have offs: "offsets_ok offs experts ?n" using perm len(1) by (simp add: permuted_def offsets_ok_def)
  have pl: "0 \<le> places ! nat r \<and> places ! nat r < ?n \<and> offs ! nat (E r) \<le> places ! nat r \<and>
      places ! nat r < offs ! nat (E r + 1)" "srt ! nat (places ! nat r) = r div k" if "0 \<le> r" "r < ?n" for r
    using perm that by (auto simp: permuted_def)
  have po0: "experts < int (length (po[0 := 0]))" "po[0 := 0] ! 0 = 0" using len(7) pos by (cases po; auto)+
  have tot: "?n + experts * tile + tile \<le> INT_MAX" using shape(3) pos by linarith
  obtain po' where po: "finish (for_loop 0 experts (pad_expert offs tile) (po[0 := 0])) = Some (kOk, po')"
    "length po' = length po" "\<And>e. int e \<le> experts \<Longrightarrow> po' ! e = ?P e"
    using pad_experts [OF offs shape(2) _ tot po0] pos by auto
  define rows where "rows = ?P (nat experts)"
  have rb: "0 \<le> rows" "rows \<le> ?n + experts * tile"
    using padded_bounds(1) [OF offs shape(2), of "nat experts"] padded_le_total [OF offs shape(2), of "nat experts"] pos
    by (auto simp: rows_def)
  define gather0 where "gather0 = splice gather 0 (replicate (nat rows) (- 1))"
  have g0: "fill_n gather 0 rows (- 1) = Some gather0" "length gather0 = length gather"
    "\<And>i. 0 \<le> i \<Longrightarrow> i < rows \<Longrightarrow> gather0 ! nat i = - 1"
  proof -
    have "nat rows \<le> length gather" using rb len(5) by linarith
    then show "fill_n gather 0 rows (- 1) = Some gather0" "length gather0 = length gather"
      by (simp_all add: fill_n_def in_range_def gather0_def splice_def)
    fix i assume "0 \<le> i" "i < rows"
    then show "gather0 ! nat i = - 1" by (simp add: gather0_def splice_def nth_append)
  qed
  have lpo: "experts < int (length po')" using po(2) len(7) by simp
  have l: "rows \<le> int (length gather0)" "rows \<le> int (length tiles) * tile" using rb len(4,5) g0(2) by auto
  obtain tiles' gather' where s: "loop 0 experts (schedule_expert srt offs po' tile) (tiles, gather0) = Some (tiles', gather')"
    and sch: "scheduled srt offs tile rows (nat experts) tiles' gather'"
    using schedule_all [OF offs shape(2-4) _ len(2) lpo po(3) rows_def l g0(3)] pos by auto
  obtain pp' where pp: "finish (for_loop 0 ?n (pad_route places offs po' experts ?n) pp) = Some (kOk, pp')"
    "\<And>r. 0 \<le> r \<Longrightarrow> r < ?n \<Longrightarrow> pp' ! nat r = ?P (nat (E r)) + (places ! nat r - offs ! nat (E r))"
    using pad_routes [OF offs shape(2,3) pos(3) len(3,6) lpo po(3), of E] E pl(1) by auto
  have run: "moe_pad_schedule (Some srt) (Some offs) (Some places) (Some tiles) (Some gather) (Some pp) (Some po)
      tokens experts k tile = Some (kOk, Some tiles', Some gather', Some pp', Some po')"
  proof -
    have "offs \<noteq> []" "po \<noteq> []" using len(1,7) pos by auto
    then have "rd offs 0 = Some 0" "rd offs experts = Some ?n" "wr po 0 0 = Some (po[0 := 0])" "rd po' experts = Some rows"
      using offs len(1,7) pos lpo po(3) [of "nat experts"] by (simp_all add: rd_def wr_def in_buf_def offsets_ok_def rows_def)
    then show ?thesis using shape(1,2) po(1) g0(1) s pp(1) by (simp add: moe_pad_schedule_def Let_def)
  qed
  have "0 \<le> pp' ! nat r \<and> pp' ! nat r < po' ! nat experts \<and> gather' ! nat (pp' ! nat r) = r div k \<and>
      tiles' ! nat (pp' ! nat r div tile) = E r" if r: "0 \<le> r" "r < ?n" for r
  proof -
    define m j where "m = nat (E r)" and "j = places ! nat r - offs ! nat (E r)"
    have m: "int m = E r" "nat (E r + 1) = Suc m" "m < nat experts" "int m < experts" "int (Suc m) \<le> experts"
      using E r pos by (auto simp: m_def)
    have j: "0 \<le> j" "j < offs ! Suc m - offs ! m" "offs ! m + j = places ! nat r"
      using pl(1) [OF r] m(2) by (auto simp: j_def m_def)
    have v: "pp' ! nat r = ?P m + j" using pp(2) [OF r] by (simp add: m_def j_def)
    note st = padded_step [OF offs shape(2) m(4)]
    have jb: "j < ?P (Suc m) - ?P m" using j st(1) by linarith
    have P0: "0 \<le> ?P m" "?P (Suc m) \<le> rows"
      using padded_bounds(1) [OF offs shape(2), of m] padded_mono [OF offs shape(2), of "Suc m" "nat experts"] m
      by (auto simp: rows_def simp del: padded_first.simps)
    have "gather' ! nat (?P m + j) = srt ! nat (offs ! m + j)"
      using sch m(3) j(1,2) jb by (simp add: scheduled_def del: padded_first.simps)
    then have g: "gather' ! nat (pp' ! nat r) = r div k" using j(3) pl(2) [OF r] v by simp
    obtain u w where u: "?P m = tile * u" and w: "?P (Suc m) = tile * w"
      using padded_dvd [of tile offs m] padded_dvd [of tile offs "Suc m"] by (auto elim!: dvdE simp del: padded_first.simps)
    define x where "x = (?P m + j) div tile"
    have x: "x * tile \<le> ?P m + j" "?P m + j < x * tile + tile"
    proof -
      have "(?P m + j) mod tile < tile" "0 \<le> (?P m + j) mod tile" using shape(2) by auto
      then show "x * tile \<le> ?P m + j" "?P m + j < x * tile + tile"
        unfolding x_def by (simp_all add: minus_mod_eq_div_mult [symmetric])
    qed
    have "tile * u < tile * (x + 1)" using x(2) j(1) u by (simp add: distrib_left mult.commute)
    then have "u \<le> x" using shape(2) by (simp add: mult_less_cancel_left)
    then have "tile * u \<le> tile * x" using shape(2) by simp
    then have "?P m \<le> x * tile" using u by (simp add: mult.commute)
    moreover have "x * tile < ?P (Suc m)" using x(1) jb by linarith
    ultimately have "tiles' ! nat x = E r" using sch m(1,3) by (simp add: scheduled_def del: padded_first.simps)
    moreover have "po' ! nat experts = rows" using po(3) [of "nat experts"] pos by (simp add: rows_def)
    ultimately show ?thesis using g v P0 j(1) jb by (simp add: x_def del: padded_first.simps)
  qed
  moreover have "tile dvd po' ! nat e" if "0 \<le> e" "e \<le> experts" for e
    using po(3) [of "nat e"] padded_dvd that by simp
  ultimately show ?thesis using run by blast
qed

lemma demo_permuted: "permuted (\<lambda>r. [1, 0] ! nat r) 1 (2 * 1) 2 [1, 0] [0, 1, 2] [1, 0]"
proof -
  have two: "(0 \<le> r \<and> r < 2) = (r = 0 \<or> r = 1)" "(0 \<le> r \<and> r < q \<and> q < 2) = (r = 0 \<and> q = 1)" for r q :: int
    by auto
  show ?thesis unfolding permuted_def by (simp add: two numeral_2_eq_2)
qed

theorem moe_pad_schedule_tiles_witness:
  "\<exists>tiles' gather' pp' po'.
    moe_pad_schedule (Some [1, 0]) (Some [0, 1, 2]) (Some [1, 0]) (Some [7, 7, 7]) (Some [9, 9, 9, 9, 9, 9])
      (Some [8, 8]) (Some [6, 6, 6]) 2 2 1 2 = Some (kOk, Some tiles', Some gather', Some pp', Some po') \<and>
    gather' ! nat (pp' ! 0) = 0 \<and> tiles' ! nat (pp' ! 0 div 2) = 1 \<and> gather' ! nat (pp' ! 1) = 1 \<and>
    tiles' ! nat (pp' ! 1 div 2) = 0"
proof -
  have two: "(0 \<le> r \<and> r < 2 * 1) = (r = 0 \<or> r = 1)" for r :: int by auto
  have "\<forall>r. 0 \<le> r \<and> r < 2 * 1 \<longrightarrow> 0 \<le> [1, 0 :: int] ! nat r \<and> [1, 0 :: int] ! nat r < 2"
    unfolding two by auto
  from moe_pad_schedule_tiles [OF _ _ _ _ demo_permuted this, of 2 "[7, 7, 7]" "[9, 9, 9, 9, 9, 9]" "[8, 8]" "[6, 6, 6]"]
  obtain tiles' gather' pp' po' where r: "moe_pad_schedule (Some [1, 0]) (Some [0, 1, 2]) (Some [1, 0]) (Some [7, 7, 7])
      (Some [9, 9, 9, 9, 9, 9]) (Some [8, 8]) (Some [6, 6, 6]) 2 2 1 2 = Some (kOk, Some tiles', Some gather', Some pp', Some po')"
    and f: "\<forall>r. 0 \<le> r \<and> r < 2 * 1 \<longrightarrow> 0 \<le> pp' ! nat r \<and> pp' ! nat r < po' ! nat 2 \<and>
       gather' ! nat (pp' ! nat r) = r div 1 \<and> tiles' ! nat (pp' ! nat r div 2) = [1, 0] ! nat r"
    by (auto simp: int_limits)
  from f [rule_format, of 0] f [rule_format, of 1] r show ?thesis by auto
qed

section \<open>Rows to the experts and back\<close>

text \<open>One output row of \<^verbatim>\<open>moe_finalize\<close>: the weighted rows of the token's routes, added in rank order.\<close>

definition weighted_sum ::
  "'f \<Rightarrow> ('f \<Rightarrow> 'f \<Rightarrow> 'f \<Rightarrow> 'f) \<Rightarrow> (int \<Rightarrow> 'f) \<Rightarrow> (int \<Rightarrow> 'f list) \<Rightarrow> int \<Rightarrow> int \<Rightarrow> 'f list" where
  "weighted_sum zero madd w rows n dim =
     foldl (\<lambda>acc r. map2 (\<lambda>a v. madd a (w r) v) acc (rows r)) (replicate (nat dim) zero) [0..n - 1]"

lemma weighted_sum_step:
  "0 \<le> n \<Longrightarrow> weighted_sum zero madd w rows (n + 1) dim =
     map2 (\<lambda>a v. madd a (w n) v) (weighted_sum zero madd w rows n dim) (rows n)"
  using upto_rec2 [of 0 n] by (simp add: weighted_sum_def)

lemma length_weighted_sum:
  "0 \<le> n \<Longrightarrow> (\<And>r. 0 \<le> r \<Longrightarrow> r < n \<Longrightarrow> length (rows r) = nat dim) \<Longrightarrow>
     length (weighted_sum zero madd w rows n dim) = nat dim"
proof (induction "nat n" arbitrary: n)
  case 0
  then show ?case by (simp add: weighted_sum_def)
next
  case (Suc m)
  then have "0 \<le> n - 1" "m = nat (n - 1)" by auto
  then show ?case using Suc weighted_sum_step [of "n - 1" zero madd w rows dim] by simp
qed

lemma finalize_token_row:
  assumes t: "0 \<le> t" "t < tokens" and pos: "0 < k" "0 < dim"
    and len: "tokens * k * dim \<le> int (length src)" "tokens * k \<le> int (length places)" "tokens * k \<le> int (length weights)"
      "tokens * dim \<le> int (length dst)"
    and places: "\<And>r. 0 \<le> r \<Longrightarrow> r < tokens * k \<Longrightarrow> 0 \<le> places ! nat r \<and> places ! nat r < tokens * k"
  shows "\<exists>dst'. finalize_token zero madd src places weights k dim t dst = Some dst' \<and> length dst' = length dst \<and>
    (\<forall>i. 0 \<le> i \<and> i < tokens \<longrightarrow> row dim dst' i = (if i = t
       then weighted_sum zero madd (\<lambda>r. weights ! nat (t * k + r)) (\<lambda>r. row dim src (places ! nat (t * k + r))) k dim
       else row dim dst i))"
proof -
  let ?w = "\<lambda>r. weights ! nat (t * k + r)" and ?p = "\<lambda>r. places ! nat (t * k + r)"
  let ?S = "\<lambda>n. weighted_sum zero madd ?w (\<lambda>r. row dim src (?p r)) n dim"
  obtain d0 where d0: "fill_n dst (t * dim) dim zero = Some d0" "length d0 = length dst"
    "\<And>i. 0 \<le> i \<Longrightarrow> i < tokens \<Longrightarrow> row dim d0 i = (if i = t then replicate (nat dim) zero else row dim dst i)"
    by (rule fill_row_effect [OF t pos(2) len(4), of zero]) blast
  let ?I = "\<lambda>r d. length d = length dst \<and> (\<forall>i. 0 \<le> i \<and> i < tokens \<longrightarrow> row dim d i = (if i = t then ?S r else row dim dst i))"
  have rt: "0 \<le> t * k + r" "t * k + r < tokens * k" if "0 \<le> r" "r < k" for r using index_bound [OF t that] by auto
  have "ok (?I k) (loop 0 k (\<lambda>rank dst. do {
              p \<leftarrow> rd places (t * k + rank);
              loop 0 dim (\<lambda>f dst. do {
                  w \<leftarrow> rd weights (t * k + rank);
                  finalize_feature madd src w t p dim f dst }) dst }) d0)"
  proof (rule loop_inv [where I = ?I])
    show "?I 0 d0" using d0 by (simp add: weighted_sum_def)
  next
    fix r d assume r: "0 \<le> r" "r < k" and I: "?I r d"
    note b = rt [OF r] and p = places [OF rt [OF r]]
    have rds: "rd places (t * k + r) = Some (?p r)" "rd weights (t * k + r) = Some (?w r)"
      using b len(2,3) by (simp_all add: rd_def in_buf_def)
    have ld: "tokens * dim \<le> int (length d)" using I len(4) by simp
    have body: "do { w \<leftarrow> rd weights (t * k + r); finalize_feature madd src w t (?p r) dim f e } =
        Some (e[nat (t * dim + f) := madd (e ! nat (t * dim + f)) (?w r) (src ! nat (?p r * dim + f))])"
      if f: "0 \<le> f" "f < dim" and e: "length e = length d" for f e
    proof -
      have "in_buf e (t * dim + f)" "in_buf src (?p r * dim + f)"
        using index_bound [OF t f] index_bound [OF p [THEN conjunct1] p [THEN conjunct2] f] ld e len(1)
        by (simp_all add: in_buf_def)
      then show ?thesis unfolding rds(2) by (simp add: finalize_feature_def rd_def wr_def)
    qed
    obtain d' where d': "loop 0 dim (\<lambda>f dst. do { w \<leftarrow> rd weights (t * k + r); finalize_feature madd src w t (?p r) dim f dst }) d = Some d'"
      "length d' = length d"
      "row dim d' t = map (\<lambda>f. madd (row dim d t ! f) (?w r) (src ! nat (?p r * dim + int f))) [0..<nat dim]"
      "\<And>i. 0 \<le> i \<Longrightarrow> i < tokens \<Longrightarrow> i \<noteq> t \<Longrightarrow> row dim d' i = row dim d i"
      by (rule row_map_loop [where g = "\<lambda>f a. madd a (?w r) (src ! nat (?p r * dim + f))", OF t _ ld body])
        (use pos in auto)
    have lr: "length (row dim src (?p q)) = nat dim" if "0 \<le> q" "q < k" for q
      using length_row [of "?p q" "tokens * k" dim src] places [OF rt [OF that]] pos len(1) by simp
    have "row dim d' t = ?S (r + 1)"
    proof -
      have "row dim d t = ?S r" using I t by simp
      moreover have "length (?S r) = nat dim" by (rule length_weighted_sum [OF r(1)]) (use lr r in simp)
      moreover have "src ! nat (?p r * dim + int f) = row dim src (?p r) ! f" if "f < nat dim" for f
        using nth_row [of "?p r" "tokens * k" "int f" dim src] p pos len(1) that by simp
      ultimately show ?thesis unfolding weighted_sum_step [OF r(1)] d'(3)
        by (intro nth_equalityI) (simp_all add: lr [OF r])
    qed
    then have "?I (r + 1) d'" using d'(2,4) I by auto
    then show "ok (?I (r + 1)) (do { p \<leftarrow> rd places (t * k + r);
        loop 0 dim (\<lambda>f dst. do { w \<leftarrow> rd weights (t * k + r); finalize_feature madd src w t p dim f dst }) d })"
      by (simp add: rds(1) d'(1))
  qed (use pos in auto)
  then show ?thesis by (auto simp: finalize_token_def d0(1) ok_def)
qed

lemma moe_gather_rows:
  assumes shape: "valid_product [m, w]" "valid_product [n, w]" and region: "region_calls n cs"
    and len: "m * w \<le> int (length x)" "n \<le> int (length rows)" "n * w \<le> int (length out)"
    and rows: "\<And>r. 0 \<le> r \<Longrightarrow> r < n \<Longrightarrow> - 1 \<le> rows ! nat r \<and> rows ! nat r < m"
  shows "\<exists>out'. moe_gather zero cs (Some x) (Some rows) (Some out) m n w = Some (kOk, Some out') \<and>
    length out' = length out \<and>
    (\<forall>r. 0 \<le> r \<and> r < n \<longrightarrow> row w out' r =
       (if rows ! nat r < 0 then replicate (nat w) zero else row w x (rows ! nat r)))"
proof -
  have pos: "0 < n" "0 < w" using shape(2) by auto
  let ?v = "\<lambda>r. if rows ! nat r < 0 then replicate (nat w) zero else row w x (rows ! nat r)"
  let ?body = "\<lambda>r dst. do { g \<leftarrow> rd rows r;
      if g < 0 then fill_n dst (r * w) w zero else copy_n x (g * w) w dst (r * w) }"
  let ?I = "\<lambda>D d. length d = length out \<and> (\<forall>r \<in> D. row w d r = ?v r)"
  have "\<forall>r. 0 \<le> r \<and> r < n \<longrightarrow> \<not> (rows ! nat r < - 1 \<or> rows ! nat r \<ge> m)" using rows by force
  with index_scan [OF len(2), of "\<lambda>g. \<not> (g < - 1 \<or> g \<ge> m)"]
  have g: "all_of [0..n - 1] (\<lambda>r. do { g \<leftarrow> rd rows r; Some (\<not> (g < - 1 \<or> g \<ge> m)) }) = Some True" by simp
  have "ok (?I {0..<n}) (parallel_ranges cs ?body out)"
  proof (rule parallel_ranges_inv [OF region])
    fix r D d assume r: "0 \<le> r" "r < n" "r \<notin> D" "D \<subseteq> {0..<n}" and I: "?I D d"
    have ld: "n * w \<le> int (length d)" using I len(3) by simp
    have rr: "rd rows r = Some (rows ! nat r)" using r len(2) by (simp add: rd_def in_buf_def)
    have "\<exists>d'. ?body r d = Some d' \<and> length d' = length d \<and>
        (\<forall>k. 0 \<le> k \<and> k < n \<longrightarrow> row w d' k = (if k = r then ?v r else row w d k))"
    proof (cases "rows ! nat r < 0")
      case True
      obtain d' where "fill_n d (r * w) w zero = Some d'" "length d' = length d"
        "\<And>k. 0 \<le> k \<Longrightarrow> k < n \<Longrightarrow> row w d' k = (if k = r then replicate (nat w) zero else row w d k)"
        by (rule fill_row_effect [OF r(1,2) pos(2) ld, of zero]) blast
      then show ?thesis using True by (simp add: rr)
    next
      case False
      then have b: "0 \<le> rows ! nat r" "rows ! nat r < m" using rows [OF r(1,2)] by auto
      obtain d' where "copy_n x (rows ! nat r * w) w d (r * w) = Some d'" "length d' = length d"
        "\<And>k. 0 \<le> k \<Longrightarrow> k < n \<Longrightarrow> row w d' k = (if k = r then row w x (rows ! nat r) else row w d k)"
        by (rule copy_row_effect [OF b r(1,2) pos(2) len(1) ld]) blast
      then show ?thesis using False by (simp add: rr)
    qed
    then show "ok (?I (insert r D)) (?body r d)" using I r by (auto simp: subset_iff)
  qed simp
  then show ?thesis using shape g by (auto simp: moe_gather_def ok_def)
qed

lemma moe_finalize_rows:
  assumes shape: "valid_product [tokens, k, dim]" and region: "region_calls tokens cs"
    and len: "tokens * k * dim \<le> int (length src)" "tokens * k \<le> int (length places)" "tokens * k \<le> int (length weights)"
      "tokens * dim \<le> int (length out)"
    and places: "\<And>r. 0 \<le> r \<Longrightarrow> r < tokens * k \<Longrightarrow> 0 \<le> places ! nat r \<and> places ! nat r < tokens * k"
  shows "\<exists>out'. moe_finalize zero madd cs (Some src) (Some places) (Some weights) (Some out) tokens k dim =
      Some (kOk, Some out') \<and> length out' = length out \<and>
    (\<forall>t. 0 \<le> t \<and> t < tokens \<longrightarrow> row dim out' t =
       weighted_sum zero madd (\<lambda>r. weights ! nat (t * k + r)) (\<lambda>r. row dim src (places ! nat (t * k + r))) k dim)"
proof -
  have pos: "0 < k" "0 < dim" using shape by auto
  let ?v = "\<lambda>t. weighted_sum zero madd (\<lambda>r. weights ! nat (t * k + r)) (\<lambda>r. row dim src (places ! nat (t * k + r))) k dim"
  let ?I = "\<lambda>D d. length d = length out \<and> (\<forall>t \<in> D. row dim d t = ?v t)"
  have "\<forall>r. 0 \<le> r \<and> r < tokens * k \<longrightarrow> \<not> (places ! nat r < 0 \<or> places ! nat r \<ge> tokens * k)" using places by force
  with index_scan [OF len(2), of "\<lambda>p. \<not> (p < 0 \<or> p \<ge> tokens * k)"]
  have g: "all_of [0..tokens * k - 1] (\<lambda>r. do { p \<leftarrow> rd places r; Some (\<not> (p < 0 \<or> p \<ge> tokens * k)) }) = Some True"
    by simp
  have "ok (?I {0..<tokens}) (parallel_ranges cs (finalize_token zero madd src places weights k dim) out)"
  proof (rule parallel_ranges_inv [OF region])
    fix t D d assume t: "0 \<le> t" "t < tokens" "t \<notin> D" "D \<subseteq> {0..<tokens}" and I: "?I D d"
    have ld: "tokens * dim \<le> int (length d)" using I len(4) by simp
    from finalize_token_row [OF t(1,2) pos len(1-3) ld places, of zero madd] I t
    show "ok (?I (insert t D)) (finalize_token zero madd src places weights k dim t d)"
      by (fastforce simp: ok_def subset_iff)
  qed simp
  then show ?thesis using shape g by (auto simp: moe_finalize_def ok_def Let_def)
qed

text \<open>
  C23: the mixture-of-experts layer, end to end: sorting the routes, gathering their tokens, running every
  expert \<open>e\<close> as a row function \<open>F e\<close> over its range and finalising gives each token the weighted sum of
  \<open>F\<close> of its experts, in rank order, for every float arithmetic and every schedule of the pool.
\<close>

theorem moe_layer_computes_weighted_expert_sum:
  assumes shape: "valid_product [tokens, experts]" "valid_product [tokens, k]" "valid_product [tokens, k, dim]"
      "valid_product [tokens, dim]" "tokens * k \<le> INT_MAX"
    and regions: "region_calls (tokens * k) cs" "region_calls tokens cs'"
    and len: "tokens * k \<le> int (length ids)" "int (length srt) = tokens * k" "experts < int (length offs)"
      "tokens * k \<le> int (length places)" "tokens * dim \<le> int (length x)" "tokens * k * dim \<le> int (length gathered)"
      "tokens * k \<le> int (length weights)" "tokens * dim \<le> int (length out)"
    and ids: "\<forall>r. 0 \<le> r \<and> r < tokens * k \<longrightarrow> 0 \<le> ids ! nat r \<and> ids ! nat r < experts"
  shows "\<exists>srt' offs' places' gathered'.
    moe_permute (Some ids) (Some srt) (Some offs) (Some places) tokens experts k =
      Some (kOk, Some srt', Some offs', Some places') \<and>
    moe_gather zero cs (Some x) (Some srt') (Some gathered) tokens (tokens * k) dim = Some (kOk, Some gathered') \<and>
    (\<forall>eout. tokens * k * dim \<le> int (length eout) \<and>
       (\<forall>e p. 0 \<le> e \<and> e < experts \<and> offs' ! nat e \<le> p \<and> p < offs' ! nat (e + 1) \<longrightarrow>
          row dim eout p = F e (row dim gathered' p)) \<longrightarrow>
       (\<exists>out'. moe_finalize zero madd cs' (Some eout) (Some places') (Some weights) (Some out) tokens k dim =
            Some (kOk, Some out') \<and>
          (\<forall>t. 0 \<le> t \<and> t < tokens \<longrightarrow> row dim out' t =
             weighted_sum zero madd (\<lambda>r. weights ! nat (t * k + r)) (\<lambda>r. F (ids ! nat (t * k + r)) (row dim x t)) k dim)))"
proof -
  let ?n = "tokens * k" and ?E = "\<lambda>r. ids ! nat r"
  have pos: "0 < tokens" "0 < k" "0 < dim" "0 < ?n" using shape by auto
  have E: "0 \<le> ?E r \<and> ?E r < experts" if "0 \<le> r" "r < ?n" for r using ids that by blast
  have ls: "?n \<le> int (length srt)" using len(2) by simp
  obtain srt' offs' places' where m: "moe_permute (Some ids) (Some srt) (Some offs) (Some places) tokens experts k =
      Some (kOk, Some srt', Some offs', Some places')"
    and l: "length srt' = length srt" "length places' = length places"
    and o: "\<And>e. 0 \<le> e \<Longrightarrow> e \<le> experts \<Longrightarrow> offs' ! nat e = first_of ?E ?n e"
    and p: "\<And>r. 0 \<le> r \<Longrightarrow> r < ?n \<Longrightarrow> places' ! nat r = place ?E ?n r \<and> srt' ! nat (place ?E ?n r) = r div k"
    using moe_permute_places [OF shape(1) pos(2) shape(2,5) len(1) ls len(3,4) E] by blast
  have full: "\<exists>r. 0 \<le> r \<and> r < ?n \<and> q = place ?E ?n r" if q: "0 \<le> q" "q < ?n" for q
  proof -
    have "place ?E ?n ` {0..<?n} \<subseteq> {0..<?n}" using place_bounds(3,4) [of _ ?n ?E] by auto
    moreover have "inj_on (place ?E ?n) {0..<?n}" by (rule inj_onI) (use place_inj in auto)
    ultimately have "place ?E ?n ` {0..<?n} = {0..<?n}" by (intro endo_inj_surj) auto
    then have "q \<in> place ?E ?n ` {0..<?n}" using q by simp
    then show ?thesis by auto
  qed
  have rows: "- 1 \<le> srt' ! nat q \<and> srt' ! nat q < tokens" if q: "0 \<le> q" "q < ?n" for q
  proof -
    obtain r where r: "0 \<le> r" "r < ?n" "q = place ?E ?n r" using full [OF q] by blast
    then show ?thesis using p [OF r(1,2)] div_mod_bound(1,2) [OF r(1,2) pos(2)] by simp
  qed
  have nd: "valid_product [?n, dim]" using shape(3) pos by simp
  have lsrt: "?n \<le> int (length srt')" using l(1) len(2) by simp
  obtain gathered' where g: "moe_gather zero cs (Some x) (Some srt') (Some gathered) tokens ?n dim = Some (kOk, Some gathered')"
    and gr: "\<And>q. 0 \<le> q \<Longrightarrow> q < ?n \<Longrightarrow> row dim gathered' q =
        (if srt' ! nat q < 0 then replicate (nat dim) zero else row dim x (srt' ! nat q))"
    using moe_gather_rows [OF shape(4) nd regions(1) len(5) lsrt len(6) rows, of zero] by blast
  have fin: "\<exists>out'. moe_finalize zero madd cs' (Some eout) (Some places') (Some weights) (Some out) tokens k dim =
            Some (kOk, Some out') \<and>
          (\<forall>t. 0 \<le> t \<and> t < tokens \<longrightarrow> row dim out' t =
             weighted_sum zero madd (\<lambda>r. weights ! nat (t * k + r)) (\<lambda>r. F (ids ! nat (t * k + r)) (row dim x t)) k dim)"
    if eout: "?n * dim \<le> int (length eout)"
      and F: "\<forall>e p. 0 \<le> e \<and> e < experts \<and> offs' ! nat e \<le> p \<and> p < offs' ! nat (e + 1) \<longrightarrow>
          row dim eout p = F e (row dim gathered' p)" for eout
  proof -
    have lp: "?n \<le> int (length places')" using l(2) len(4) by simp
    have pb: "0 \<le> places' ! nat r \<and> places' ! nat r < ?n" if "0 \<le> r" "r < ?n" for r
      using p [OF that] place_bounds(3,4) [OF that, of ?E] by simp
    have one: "row dim eout (places' ! nat r) = F (?E r) (row dim x (r div k))" if r: "0 \<le> r" "r < ?n" for r
    proof -
      have "row dim eout (places' ! nat r) = F (?E r) (row dim gathered' (places' ! nat r))"
        using F [rule_format, of "?E r" "places' ! nat r"] E [OF r] o [of "?E r"] o [of "?E r + 1"]
          place_bounds(1,2) [OF r, of ?E] p [OF r] by simp
      also have "row dim gathered' (places' ! nat r) = row dim x (r div k)"
        using gr pb [OF r] p [OF r] div_mod_bound(1) [OF r pos(2)] by simp
      finally show ?thesis .
    qed
    obtain out' where f: "moe_finalize zero madd cs' (Some eout) (Some places') (Some weights) (Some out) tokens k dim =
        Some (kOk, Some out')"
      and fr: "\<And>t. 0 \<le> t \<Longrightarrow> t < tokens \<Longrightarrow> row dim out' t =
         weighted_sum zero madd (\<lambda>r. weights ! nat (t * k + r)) (\<lambda>r. row dim eout (places' ! nat (t * k + r))) k dim"
      using moe_finalize_rows [OF shape(3) regions(2) eout lp len(7,8) pb, of zero madd] by blast
    have "row dim out' t =
        weighted_sum zero madd (\<lambda>r. weights ! nat (t * k + r)) (\<lambda>r. F (ids ! nat (t * k + r)) (row dim x t)) k dim"
      if t: "0 \<le> t" "t < tokens" for t
    proof -
      have "row dim eout (places' ! nat (t * k + r)) = F (ids ! nat (t * k + r)) (row dim x t)"
        if r: "r \<in> set [0..k - 1]" for r
      proof -
        have b: "0 \<le> r" "r < k" using r by auto
        have "(t * k + r) div k = t" using b pos by simp
        then show ?thesis using one [OF index_bound [OF t b]] by simp
      qed
      then show ?thesis unfolding fr [OF t] weighted_sum_def by (intro foldl_cong refl) simp
    qed
    with f show ?thesis by blast
  qed
  show ?thesis
    by (intro exI conjI, rule m, rule g, intro allI impI, elim conjE, rule fin)
qed

text \<open>Two tokens, the first routed to expert 1 and the second to expert 0, which add 100 and nothing.\<close>

theorem moe_layer_computes_weighted_expert_sum_witness:
  "moe_permute (Some [1, 0]) (Some [9, 9]) (Some [9, 9, 9]) (Some [9, 9]) 2 2 1 =
     Some (kOk, Some [1, 0], Some [0, 1, 2], Some [1, 0]) \<and>
   moe_gather 0 [(0, 2, 0)] (Some [10, 20 :: int]) (Some [1, 0]) (Some [0, 0]) 2 (2 * 1) 1 = Some (kOk, Some [20, 10]) \<and>
   (\<exists>out'. moe_finalize 0 (\<lambda>a w v. a + w * v) [(0, 2, 0)] (Some [20, 110]) (Some [1, 0]) (Some [2, 3]) (Some [0, 0]) 2 1 1 =
        Some (kOk, Some out') \<and> row 1 out' 0 = [220] \<and> row 1 out' 1 = [60 :: int])"
proof -
  have two: "(0 \<le> r \<and> r < 2 * 1) = (r = 0 \<or> r = 1)" "(0 \<le> r \<and> r < 2) = (r = 0 \<or> r = 1)" for r :: int by auto
  have ids: "\<forall>r. 0 \<le> r \<and> r < 2 * 1 \<longrightarrow> 0 \<le> [1, 0 :: int] ! nat r \<and> [1, 0 :: int] ! nat r < 2"
    unfolding two by auto
  have reg: "region_calls (2 * 1) [(0, 2, 0)]" "region_calls 2 [(0, 2, 0)]" using region_inline [of 2] by simp_all
  have m: "moe_permute (Some [1, 0]) (Some [9, 9]) (Some [9, 9, 9]) (Some [9, 9]) 2 2 1 =
     Some (kOk, Some [1, 0], Some [0, 1, 2], Some [1, 0])" by code_simp
  have g: "moe_gather 0 [(0, 2, 0)] (Some [10, 20 :: int]) (Some [1, 0]) (Some [0, 0]) 2 (2 * 1) 1 = Some (kOk, Some [20, 10])"
    by code_simp
  obtain srt' offs' places' gathered' where
    "moe_permute (Some [1, 0]) (Some [9, 9]) (Some [9, 9, 9]) (Some [9, 9]) 2 2 1 =
      Some (kOk, Some srt', Some offs', Some places')"
    "moe_gather 0 [(0, 2, 0)] (Some [10, 20 :: int]) (Some srt') (Some [0, 0]) 2 (2 * 1) 1 = Some (kOk, Some gathered')"
    and f: "\<And>eout. 2 * 1 * 1 \<le> int (length eout) \<and>
       (\<forall>e p. 0 \<le> e \<and> e < 2 \<and> offs' ! nat e \<le> p \<and> p < offs' ! nat (e + 1) \<longrightarrow>
          row 1 eout p = map (\<lambda>v. v + 100 * e) (row 1 gathered' p)) \<Longrightarrow>
       (\<exists>out'. moe_finalize 0 (\<lambda>a w v. a + w * v) [(0, 2, 0)] (Some eout) (Some places') (Some [2, 3]) (Some [0, 0]) 2 1 1 =
            Some (kOk, Some out') \<and>
          (\<forall>t. 0 \<le> t \<and> t < 2 \<longrightarrow> row 1 out' t =
             weighted_sum 0 (\<lambda>a w v. a + w * v) (\<lambda>r. [2, 3 :: int] ! nat (t * 1 + r))
               (\<lambda>r. map (\<lambda>v. v + 100 * ([1, 0] ! nat (t * 1 + r))) (row 1 [10, 20] t)) 1 1))"
    using moe_layer_computes_weighted_expert_sum [of 2 2 1 1, OF _ _ _ _ _ reg _ _ _ _ _ _ _ _ ids,
        of "[9, 9]" "[9, 9, 9]" "[9, 9]" "[10, 20]" "[0, 0]" "[2, 3]" "[0, 0]" 0 "\<lambda>e. map (\<lambda>v. v + 100 * e)" "\<lambda>a w v. a + w * v"]
    by (auto simp: int_limits)
  with m g have e: "srt' = [1, 0]" "offs' = [0, 1, 2]" "places' = [1, 0]" "gathered' = [20, 10]" by simp_all
  have c: "(0 \<le> e \<and> e < 2 \<and> [0, 1, 2 :: int] ! nat e \<le> p \<and> p < [0, 1, 2] ! nat (e + 1)) =
      (e = 0 \<and> p = 0 \<or> e = 1 \<and> p = 1)" for e p :: int
    using two(2) [of e] by (auto simp: numeral_2_eq_2)
  have "2 * 1 * 1 \<le> int (length [20, 110 :: int]) \<and> (\<forall>e p. 0 \<le> e \<and> e < 2 \<and> offs' ! nat e \<le> p \<and> p < offs' ! nat (e + 1) \<longrightarrow>
      row 1 [20, 110] p = map (\<lambda>v. v + 100 * e) (row 1 gathered' p))"
    unfolding e c by (auto simp: row_def)
  from f [OF this] m g e show ?thesis by (auto simp: two weighted_sum_def row_def)
qed

section \<open>The gradient of the gather\<close>

definition grad_sum :: "'f \<Rightarrow> ('f \<Rightarrow> 'f \<Rightarrow> 'f) \<Rightarrow> int \<Rightarrow> 'f list \<Rightarrow> int list \<Rightarrow> int \<Rightarrow> int \<Rightarrow> 'f list" where
  "grad_sum zero add dim grad rows n t =
     foldl (\<lambda>acc r. map2 add acc (row dim grad r)) (replicate (nat dim) zero) (filter (\<lambda>r. rows ! nat r = t) [0..n - 1])"

lemma grad_sum_step:
  "0 \<le> n \<Longrightarrow> grad_sum zero add dim grad rows (n + 1) t =
     (if rows ! nat n = t then map2 add (grad_sum zero add dim grad rows n t) (row dim grad n)
      else grad_sum zero add dim grad rows n t)"
  using upto_rec2 [of 0 n] by (simp add: grad_sum_def)

lemma length_grad_sum:
  assumes "\<And>r. 0 \<le> r \<Longrightarrow> r < n \<Longrightarrow> length (row dim grad r) = nat dim"
  shows "length (grad_sum zero add dim grad rows n t) = nat dim"
  using assms
proof (induction "nat n" arbitrary: n)
  case 0
  then show ?case by (simp add: grad_sum_def)
next
  case (Suc m)
  then have n: "0 \<le> n - 1" "m = nat (n - 1)" by auto
  have "length (grad_sum zero add dim grad rows (n - 1) t) = nat dim" by (rule Suc.hyps(1) [OF n(2)]) (use Suc.prems in auto)
  moreover have "length (row dim grad (n - 1)) = nat dim" using Suc.prems [of "n - 1"] n(1) by simp
  ultimately show ?case using grad_sum_step [OF n(1), of zero add dim grad rows t] by simp
qed

text \<open>
  The gather's gradient is its adjoint: the gradient of a token is the sum, in row order, of the
  gradients of exactly the gathered rows that were copied from it; padding rows contribute nothing.
\<close>

theorem moe_gather_backward_sums:
  assumes shape: "valid_product [tokens, dim]" "valid_product [n, dim]"
    and len: "n * dim \<le> int (length grad)" "n \<le> int (length rows)" "tokens * dim \<le> int (length out)"
    and rows: "\<forall>r. 0 \<le> r \<and> r < n \<longrightarrow> rows ! nat r < tokens"
  shows "\<exists>out'. moe_gather_backward zero add (Some grad) (Some rows) (Some out) tokens n dim = Some (kOk, Some out') \<and>
    (\<forall>t. 0 \<le> t \<and> t < tokens \<longrightarrow> row dim out' t = grad_sum zero add dim grad rows n t)"
proof -
  have pos: "0 < tokens" "0 < n" "0 < dim" using shape by auto
  let ?G = "grad_sum zero add dim grad rows"
  define out0 where "out0 = splice out 0 (replicate (nat (tokens * dim)) zero)"
  have "nat (tokens * dim) \<le> length out" using len(3) by linarith
  then have f: "fill_n out 0 (tokens * dim) zero = Some out0" "length out0 = length out"
    using pos by (auto simp: fill_n_def in_range_def out0_def splice_def)
  have z: "row dim out0 t = replicate (nat dim) zero" if t: "0 \<le> t" "t < tokens" for t
  proof -
    have b: "0 \<le> t * dim" "t * dim + dim \<le> tokens * dim" using row_bound [OF t, of dim] pos by auto
    then have "t * dim \<le> tokens * dim" using pos by linarith
    then have "nat (t * dim) \<le> nat (tokens * dim)" "nat dim \<le> nat (tokens * dim) - nat (t * dim)"
      using b by (auto intro: nat_mono)
    then show ?thesis by (simp add: row_def out0_def splice_def)
  qed
  let ?body = "\<lambda>r dst. do { g \<leftarrow> rd rows r;
      if g < 0 then Some (Next dst)
      else if g \<ge> tokens then Some (Ret kInvalidArgument dst)
      else thru (loop 0 dim (\<lambda>i dst. do {
          a \<leftarrow> rd dst (g * dim + i); v \<leftarrow> rd grad (r * dim + i); wr dst (g * dim + i) (add a v) }) dst) }"
  let ?I = "\<lambda>r d. length d = length out \<and> (\<forall>t. 0 \<le> t \<and> t < tokens \<longrightarrow> row dim d t = ?G r t)"
  have lg: "length (row dim grad r) = nat dim" if "0 \<le> r" "r < n" for r
    using length_row [of r n dim grad] that pos len(1) by simp
  have "ok (flow_post (?I n) (\<lambda>_. False) (\<lambda>_ _. False)) (for_loop 0 n ?body out0)"
  proof (rule for_loop_inv [where I = ?I])
    show "?I 0 out0" using f(2) z by (simp add: grad_sum_def)
  next
    fix r d assume r: "0 \<le> r" "r < n" and I: "?I r d"
    define g where "g = rows ! nat r"
    have rr: "rd rows r = Some g" using r len(2) by (simp add: rd_def in_buf_def g_def)
    have gt: "g < tokens" using rows r by (simp add: g_def)
    show "ok (flow_post (?I (r + 1)) (?I n) (\<lambda>_ _. False)) (?body r d)"
    proof (cases "g < 0")
      case True
      have "?I (r + 1) d" using I True r by (auto simp: grad_sum_step g_def)
      then show ?thesis using True by (simp add: rr)
    next
      case False
      then have g0: "0 \<le> g" by simp
      have ld: "tokens * dim \<le> int (length d)" using I len(3) by simp
      have body: "do { a \<leftarrow> rd e (g * dim + i); v \<leftarrow> rd grad (r * dim + i); wr e (g * dim + i) (add a v) } =
          Some (e[nat (g * dim + i) := add (e ! nat (g * dim + i)) (grad ! nat (r * dim + i))])"
        if i: "0 \<le> i" "i < dim" and e: "length e = length d" for i e
        using index_bound [OF g0 gt i] index_bound [OF r i] ld e len(1) by (simp add: rd_def wr_def in_buf_def)
      obtain d' where d': "loop 0 dim (\<lambda>i dst. do {
          a \<leftarrow> rd dst (g * dim + i); v \<leftarrow> rd grad (r * dim + i); wr dst (g * dim + i) (add a v) }) d = Some d'"
        "length d' = length d" "row dim d' g = map (\<lambda>i. add (row dim d g ! i) (grad ! nat (r * dim + int i))) [0..<nat dim]"
        "\<And>k. 0 \<le> k \<Longrightarrow> k < tokens \<Longrightarrow> k \<noteq> g \<Longrightarrow> row dim d' k = row dim d k"
        by (rule row_map_loop [where g = "\<lambda>i a. add a (grad ! nat (r * dim + i))", OF g0 gt _ ld body]) (use pos in auto)
      have "row dim d' g = map2 add (?G r g) (row dim grad r)"
      proof -
        have "row dim d g = ?G r g" using I g0 gt by simp
        moreover have "length (?G r g) = nat dim" by (rule length_grad_sum) (use lg r in simp)
        moreover have "grad ! nat (r * dim + int i) = row dim grad r ! i" if "i < nat dim" for i
          using nth_row [OF r, of "int i" dim grad] pos len(1) that by simp
        ultimately show ?thesis unfolding d'(3) by (intro nth_equalityI) (simp_all add: lg [OF r])
      qed
      then have "?I (r + 1) d'" using d'(2,4) I r by (auto simp: grad_sum_step g_def)
      then show ?thesis using g0 gt by (simp add: rr d'(1) thru_def)
    qed
  qed (use pos in auto)
  then show ?thesis using shape f(1) by (auto simp: moe_gather_backward_def ok_def finish_def split: flow.splits)
qed

theorem moe_gather_backward_sums_witness:
  "\<exists>out'. moe_gather_backward 0 (+) (Some [1, 2, 4 :: int]) (Some [1, - 1, 1]) (Some [7, 7]) 2 3 1 = Some (kOk, Some out') \<and>
    row 1 out' 0 = [0] \<and> row 1 out' 1 = [5]"
proof -
  have three: "(0 \<le> r \<and> r < 3) = (r = 0 \<or> r = 1 \<or> r = 2)" "(0 \<le> r \<and> r < 2) = (r = 0 \<or> r = 1)" for r :: int by auto
  have "\<forall>r. 0 \<le> r \<and> r < 3 \<longrightarrow> [1, - 1, 1 :: int] ! nat r < 2" unfolding three by auto
  from moe_gather_backward_sums [OF _ _ _ _ _ this, of 1 "[1, 2, 4]" "[7, 7]" 0 "(+)"] show ?thesis
    by (auto simp: int_limits three grad_sum_def row_def upto_rec1)
qed

end
