(* ===== verification/Speculative.thy ===== *)
theory Speculative
  imports Kernel_Loops Word_Lemmas
begin

text \<open>
  The integer bookkeeping of speculative decoding in \<^verbatim>\<open>kernels/sampling/speculative_ref.cpp\<close>: the
  first-child/next-sibling form of a draft tree, greedy acceptance, compaction of the accepted tokens, and
  the EAGLE preparation steps.
\<close>

section \<open>The draft tree\<close>

text \<open>\<^verbatim>\<open>for (node = child; parents[base + node] >= 0; node = parents[base + node])\<close> counting the steps.\<close>

partial_function (option) depth_walk ::
  "int list \<Rightarrow> int \<Rightarrow> int \<Rightarrow> int \<Rightarrow> int \<Rightarrow> (status + int) option" where
  "depth_walk parents base nodes node depth =
     do { p \<leftarrow> rd parents (base + node);
          if p \<ge> 0 then do {
            d \<leftarrow> i32 (depth + 1);
            if d > nodes then Some (Inl kInvalidArgument) else depth_walk parents base nodes p d }
          else Some (Inr depth) }"

text \<open>\<^verbatim>\<open>while (next_sibling[base + previous] != -1) previous = next_sibling[base + previous];\<close>\<close>

partial_function (option) last_sibling :: "int list \<Rightarrow> int \<Rightarrow> int \<Rightarrow> int option" where
  "last_sibling next base previous =
     do { n \<leftarrow> rd next (base + previous);
          if n \<noteq> - 1 then last_sibling next base n else Some previous }"

type_synonym tree = "int list \<times> int list \<times> int list"

definition link_child :: "int \<Rightarrow> int \<Rightarrow> int \<Rightarrow> int list \<times> int list \<Rightarrow> (int list \<times> int list) option" where
  "link_child base parent child s =
     (case s of (first, next) \<Rightarrow>
        do { f \<leftarrow> rd first (base + parent);
             if f = - 1 then do { first \<leftarrow> wr first (base + parent) (narrow_int child); Some (first, next) }
             else do {
               previous \<leftarrow> last_sibling next base f;
               next \<leftarrow> wr next (base + previous) (narrow_int child);
               Some (first, next) } })"

definition tree_node :: "int list \<Rightarrow> int \<Rightarrow> int \<Rightarrow> int \<Rightarrow> tree \<Rightarrow> tree flow option" where
  "tree_node parents base nodes child t =
     (case t of (first, next, positions) \<Rightarrow>
        do { parent \<leftarrow> rd parents (base + child);
             if child > 0 \<and> (parent < 0 \<or> parent \<ge> child) then Some (Ret kInvalidArgument t)
             else do {
               walk \<leftarrow> depth_walk parents base nodes child 0;
               case walk of
                 Inl st \<Rightarrow> Some (Ret st t)
               | Inr depth \<Rightarrow> thru (do {
                   positions \<leftarrow> wr positions (base + child) depth;
                   if child = 0 then Some (first, next, positions)
                   else do {
                     (first, next) \<leftarrow> link_child base parent child (first, next);
                     Some (first, next, positions) } }) } })"

definition tree_request :: "int list \<Rightarrow> int \<Rightarrow> int \<Rightarrow> tree \<Rightarrow> tree flow option" where
  "tree_request parents nodes request t =
     (case t of (first, next, positions) \<Rightarrow>
        do { let base = request * nodes;
             root \<leftarrow> rd parents base;
             if root \<noteq> - 1 then Some (Ret kInvalidArgument t)
             else do {
               first \<leftarrow> fill_n first base nodes (- 1);
               next \<leftarrow> fill_n next base nodes (- 1);
               for_loop 0 nodes (tree_node parents base nodes) (first, next, positions) } })"

definition build_dynamic_tree ::
  "int ptr \<Rightarrow> int ptr \<Rightarrow> int ptr \<Rightarrow> int ptr \<Rightarrow> int \<Rightarrow> int \<Rightarrow> (status \<times> int ptr \<times> int ptr \<times> int ptr) option" where
  "build_dynamic_tree parents first_child next_sibling positions batch nodes =
     (if \<not> valid_product [batch, nodes] then Some (kInvalidShape, first_child, next_sibling, positions)
      else case (parents, first_child, next_sibling, positions) of
        (Some ps, Some fc, Some ns, Some pos) \<Rightarrow> do {
          (st, fc, ns, pos) \<leftarrow> finish (for_loop 0 batch (tree_request ps nodes) (fc, ns, pos));
          Some (st, Some fc, Some ns, Some pos) }
      | _ \<Rightarrow> Some (kInvalidArgument, first_child, next_sibling, positions))"

section \<open>Acceptance\<close>

definition valid_cumulative :: "int list \<Rightarrow> int \<Rightarrow> int \<Rightarrow> bool option" where
  "valid_cumulative cumulative batch n =
     do { c0 \<leftarrow> rd cumulative 0;
          if c0 \<noteq> 0 then Some False
          else do {
            cn \<leftarrow> rd cumulative batch;
            if cn \<noteq> n then Some False
            else all_of [0..batch - 1] (\<lambda>r. do {
                a \<leftarrow> rd cumulative r; b \<leftarrow> rd cumulative (r + 1); Some (\<not> a > b) }) } }"

text \<open>One request: the target's tokens up to and including the first one the draft disagrees with.\<close>

definition greedy_item :: "int list \<Rightarrow> int list \<Rightarrow> int \<Rightarrow> int \<Rightarrow> int \<Rightarrow> int list \<times> bool \<Rightarrow> (int list \<times> bool) flow option" where
  "greedy_item drafts argmax start at item s =
     do { t \<leftarrow> rd argmax (start + item);
          out \<leftarrow> wr (fst s) (at + item) t;
          d \<leftarrow> rd drafts (start + item);
          Some (if d \<noteq> t then Brk (out, True) else Next (out, snd s)) }"

definition greedy_request ::
  "int list \<Rightarrow> int list \<Rightarrow> int list \<Rightarrow> int list \<Rightarrow> u8 ptr \<Rightarrow> int \<Rightarrow> bool \<Rightarrow> int \<Rightarrow> int list \<Rightarrow> int list flow option" where
  "greedy_request cumulative drafts argmax bonus gmask max_draft use_mask request out =
     do { stride \<leftarrow> i64 (max_draft + 1);
          out \<leftarrow> fill_n out (request * stride) stride (- 1);
          skip \<leftarrow> (if use_mask then (case gmask of None \<Rightarrow> None
                     | Some m \<Rightarrow> do { b \<leftarrow> rd m request; Some (b = 0) }) else Some False);
          if skip then Some (Next out)
          else do {
            start \<leftarrow> rd cumulative request;
            stop \<leftarrow> rd cumulative (request + 1);
            len \<leftarrow> i32 (stop - start);
            if len > max_draft then Some (Ret kInvalidArgument out)
            else andthen (for_loop 0 len (greedy_item drafts argmax start (request * stride)) (out, False)) fst
              (\<lambda>(out, rejected). thru
                 (if rejected then Some out
                  else do { b \<leftarrow> rd bonus request; wr out (request * stride + len) b })) } }"

definition rejection_greedy_sample ::
  "int ptr \<Rightarrow> int ptr \<Rightarrow> int ptr \<Rightarrow> int ptr \<Rightarrow> u8 ptr \<Rightarrow> int ptr \<Rightarrow> int \<Rightarrow> int \<Rightarrow> int \<Rightarrow> bool \<Rightarrow> (status \<times> int ptr) option" where
  "rejection_greedy_sample cumulative_drafts draft_tokens target_argmax bonus_tokens greedy_mask out_tokens
      batch total_drafts max_draft use_greedy_mask =
     (if batch \<le> 0 \<or> total_drafts < 0 \<or> max_draft < 0 then Some (kInvalidShape, out_tokens)
      else case (cumulative_drafts, draft_tokens, target_argmax, bonus_tokens, out_tokens) of
        (Some cum, Some drafts, Some argmax, Some bonus, Some out) \<Rightarrow>
          if use_greedy_mask \<and> greedy_mask = None then Some (kInvalidArgument, out_tokens)
          else do {
            good \<leftarrow> valid_cumulative cum batch total_drafts;
            if \<not> good then Some (kInvalidArgument, out_tokens)
            else do {
              (st, out') \<leftarrow> finish (for_loop 0 batch
                 (greedy_request cum drafts argmax bonus greedy_mask max_draft use_greedy_mask) out);
              Some (st, Some out') } }
      | _ \<Rightarrow> Some (kInvalidArgument, out_tokens))"

section \<open>Compaction\<close>

definition compact_item ::
  "int list \<Rightarrow> int \<Rightarrow> int \<Rightarrow> int \<Rightarrow> int \<Rightarrow> int list \<times> int list \<Rightarrow> (int list \<times> int list) option" where
  "compact_item out_tokens at n length0 item s =
     do { t \<leftarrow> rd out_tokens (at + item);
          i \<leftarrow> i32 (n + item);
          toks \<leftarrow> wr (fst s) i t;
          p \<leftarrow> i32 (length0 + item);
          poss \<leftarrow> wr (snd s) i p;
          Some (toks, poss) }"

definition compact_request ::
  "int list \<Rightarrow> int list \<Rightarrow> int list \<Rightarrow> int \<Rightarrow> int \<Rightarrow> (int list \<times> int list) \<times> int list \<times> int \<Rightarrow>
    ((int list \<times> int list) \<times> int list \<times> int) flow option" where
  "compact_request out_tokens accepted lens draft_length request s =
     (case s of (packed, cum, n) \<Rightarrow>
        do { a \<leftarrow> rd accepted request;
             if a < 0 \<or> a > draft_length then Some (Ret kInvalidArgument s)
             else do {
               len \<leftarrow> rd lens request;
               if len < 0 then Some (Ret kInvalidArgument s)
               else thru (do {
                 cum \<leftarrow> wr cum request n;
                 items \<leftarrow> i32 (a + 1);
                 packed \<leftarrow> loop 0 items (compact_item out_tokens (request * (draft_length + 1)) n len) packed;
                 n \<leftarrow> i32 (n + items);
                 Some (packed, cum, n) }) } })"

definition speculative_compact ::
  "int ptr \<Rightarrow> int ptr \<Rightarrow> int ptr \<Rightarrow> int ptr \<Rightarrow> int ptr \<Rightarrow> int ptr \<Rightarrow> int \<Rightarrow> int \<Rightarrow>
    (status \<times> int ptr \<times> int ptr \<times> int ptr) option" where
  "speculative_compact out_tokens accepted_count sequence_lengths packed_tokens packed_positions cumulative_accepted
      batch draft_length =
     do { stride \<leftarrow> i64 (draft_length + 1);
      if \<not> valid_product [batch, stride]
      then Some (kInvalidShape, packed_tokens, packed_positions, cumulative_accepted)
      else case (out_tokens, accepted_count, sequence_lengths, packed_tokens, packed_positions, cumulative_accepted) of
        (Some toks, Some acc, Some lens, Some pt, Some pp, Some cum) \<Rightarrow> do {
          pt \<leftarrow> fill_n pt 0 (batch * stride) (- 1);
          pp \<leftarrow> fill_n pp 0 (batch * stride) (- 1);
          (st, (pt, pp), cum, n) \<leftarrow> finish (for_loop 0 batch (compact_request toks acc lens draft_length) ((pt, pp), cum, 0));
          if st \<noteq> kOk then Some (st, Some pt, Some pp, Some cum)
          else do { cum \<leftarrow> wr cum batch n; Some (kOk, Some pt, Some pp, Some cum) } }
      | _ \<Rightarrow> Some (kInvalidArgument, packed_tokens, packed_positions, cumulative_accepted) }"

definition speculative_update_kv_meta :: "int ptr \<Rightarrow> int ptr \<Rightarrow> int ptr \<Rightarrow> int \<Rightarrow> (status \<times> int ptr) option" where
  "speculative_update_kv_meta sequence_lengths accepted_count new_lengths batch =
     (if batch \<le> 0 then Some (kInvalidShape, new_lengths)
      else case (sequence_lengths, accepted_count, new_lengths) of
        (Some lens, Some acc, Some new) \<Rightarrow> do {
          (st, new) \<leftarrow> finish (for_loop 0 batch (\<lambda>r new. do {
              len \<leftarrow> rd lens r;
              if len < 0 then Some (Ret kInvalidArgument new)
              else do {
                a \<leftarrow> rd acc r;
                if a < 0 then Some (Ret kInvalidArgument new)
                else thru (do { s \<leftarrow> i32 (len + a); t \<leftarrow> i32 (s + 1); wr new r t }) } }) new);
          Some (st, Some new) }
      | _ \<Rightarrow> Some (kInvalidArgument, new_lengths))"

section \<open>EAGLE\<close>

definition eagle_prepare_inputs_padded ::
  "int ptr \<Rightarrow> int ptr \<Rightarrow> int ptr \<Rightarrow> int ptr \<Rightarrow> int ptr \<Rightarrow> int \<Rightarrow> (status \<times> int ptr \<times> int ptr) option" where
  "eagle_prepare_inputs_padded cumulative_drafts valid_sampled_count query_start_locations token_indices rejected_count batch =
     (if batch \<le> 0 then Some (kInvalidShape, token_indices, rejected_count)
      else case (cumulative_drafts, valid_sampled_count, query_start_locations, token_indices, rejected_count) of
        (Some cum, Some valid, Some starts, Some idx, Some rej) \<Rightarrow> do {
          (st, idx, rej) \<leftarrow> finish (for_loop 0 batch (\<lambda>r s. do {
              b \<leftarrow> rd cum (r + 1); a \<leftarrow> rd cum r;
              drafts \<leftarrow> i32 (b - a);
              if drafts < 0 then Some (Ret kInvalidArgument s)
              else do {
                v \<leftarrow> rd valid r;
                if v < 0 then Some (Ret kInvalidArgument s)
                else thru (do {
                  rejected \<leftarrow> (if drafts > 0 then do { d \<leftarrow> i32 (drafts + 1); i32 (d - v) } else Some 0);
                  rej \<leftarrow> wr (snd s) r rejected;
                  q \<leftarrow> rd starts (r + 1);
                  x \<leftarrow> i32 (q - 1); y \<leftarrow> i32 (x - rejected);
                  idx \<leftarrow> wr (fst s) r y;
                  Some (idx, rej) }) } }) (idx, rej));
          Some (st, Some idx, Some rej) }
      | _ \<Rightarrow> Some (kInvalidArgument, token_indices, rejected_count))"

definition next_token_item :: "int list \<Rightarrow> int \<Rightarrow> int \<Rightarrow> int \<Rightarrow> int \<times> int \<Rightarrow> (int \<times> int) flow option" where
  "next_token_item sampled at vocab item s =
     do { t \<leftarrow> rd sampled (at + item);
          if t < - 1 \<or> t \<ge> vocab then Some (Ret kInvalidArgument s)
          else if t \<noteq> - 1 then thru (do { c \<leftarrow> i32 (fst s + 1); Some (c, t) })
          else Some (Next s) }"

definition eagle_prepare_next_token_padded ::
  "int ptr \<Rightarrow> u8 ptr \<Rightarrow> int ptr \<Rightarrow> int ptr \<Rightarrow> int ptr \<Rightarrow> int \<Rightarrow> int \<Rightarrow> int \<Rightarrow> (status \<times> int ptr \<times> int ptr) option" where
  "eagle_prepare_next_token_padded sampled_tokens discard_mask backup_tokens next_tokens valid_sampled_count
      batch per_request vocab =
     (if \<not> valid_product [batch, per_request] \<or> vocab \<le> 0
      then Some (kInvalidShape, next_tokens, valid_sampled_count)
      else case (sampled_tokens, discard_mask, backup_tokens, next_tokens, valid_sampled_count) of
        (Some sampled, Some discard, Some backup, Some next, Some valid) \<Rightarrow> do {
          (st, next, valid) \<leftarrow> finish (for_loop 0 batch (\<lambda>r s. do {
              b \<leftarrow> rd backup r;
              if b < 0 \<or> b \<ge> vocab then Some (Ret kInvalidArgument s)
              else do {
                items \<leftarrow> for_loop 0 per_request (next_token_item sampled (r * per_request) vocab) (0, - 1);
                case items of
                  Ret st _ \<Rightarrow> Some (Ret st s)
                | Brk _ \<Rightarrow> Some (Next s)
                | Next (c, tok) \<Rightarrow> thru (do {
                    d \<leftarrow> rd discard r;
                    let c = (if d \<noteq> 0 then 0 else c);
                    valid \<leftarrow> wr (snd s) r c;
                    next \<leftarrow> wr (fst s) r (if c > 0 then tok else b);
                    Some (next, valid) }) } }) (next, valid));
          Some (st, Some next, Some valid) }
      | _ \<Rightarrow> Some (kInvalidArgument, next_tokens, valid_sampled_count))"

definition slot_request ::
  "int list \<Rightarrow> int list \<Rightarrow> int list \<Rightarrow> int \<Rightarrow> int \<Rightarrow> int \<Rightarrow> int \<Rightarrow> int \<Rightarrow> int \<Rightarrow> tree \<Rightarrow> tree flow option" where
  "slot_request positions table lens batch max_blocks bsize max_len pad_id r s =
     (case s of (clamped, slots, new_lens) \<Rightarrow>
        if r \<ge> batch then thru (do {
          clamped \<leftarrow> wr clamped r 0; slots \<leftarrow> wr slots r pad_id; Some (clamped, slots, new_lens) })
        else do {
          p \<leftarrow> rd positions r;
          if p < 0 then Some (Ret kInvalidArgument s)
          else do {
            len \<leftarrow> rd lens r;
            if len < 0 then Some (Ret kInvalidArgument s)
            else do {
              new_position \<leftarrow> i32 (p + 1);
              let exceeds = (new_position \<ge> max_len);
              let c = (if exceeds then 0 else new_position);
              let block_number = min (cdiv c bsize) (narrow_int (max_blocks - 1));
              block \<leftarrow> rd table (r * max_blocks + block_number);
              if \<not> exceeds \<and> block < 0 then Some (Ret kInvalidArgument s)
              else thru (do {
                clamped \<leftarrow> wr clamped r c;
                slot \<leftarrow> (if exceeds then Some pad_id
                         else do { x \<leftarrow> i32 (block * bsize); i32 (x + crem c bsize) });
                slots \<leftarrow> wr slots r slot;
                new_len \<leftarrow> (if exceeds then Some 1 else do { l \<leftarrow> i32 (len + 1); Some (min l max_len) });
                new_lens \<leftarrow> wr new_lens r new_len;
                Some (clamped, slots, new_lens) }) } } })"

definition eagle_step_slot_mapping_metadata ::
  "int ptr \<Rightarrow> int ptr \<Rightarrow> int ptr \<Rightarrow> int ptr \<Rightarrow> int ptr \<Rightarrow> int ptr \<Rightarrow> int \<Rightarrow> int \<Rightarrow> int \<Rightarrow> int \<Rightarrow> int \<Rightarrow> int \<Rightarrow>
    (status \<times> int ptr \<times> int ptr \<times> int ptr) option" where
  "eagle_step_slot_mapping_metadata positions block_table sequence_lengths clamped_positions slot_mapping new_lengths
      batch input_batch max_blocks bsize max_model_length pad_id =
     (if \<not> valid_product [batch, input_batch, max_blocks] \<or> input_batch < batch \<or> bsize \<le> 0 \<or> max_model_length \<le> 0
      then Some (kInvalidShape, clamped_positions, slot_mapping, new_lengths)
      else case (positions, block_table, sequence_lengths, clamped_positions, slot_mapping, new_lengths) of
        (Some pos, Some table, Some lens, Some clamped, Some slots, Some new_lens) \<Rightarrow> do {
          (st, clamped, slots, new_lens) \<leftarrow> finish (for_loop 0 input_batch
             (slot_request pos table lens batch max_blocks bsize max_model_length pad_id) (clamped, slots, new_lens));
          Some (st, Some clamped, Some slots, Some new_lens) }
      | _ \<Rightarrow> Some (kInvalidArgument, clamped_positions, slot_mapping, new_lengths))"

definition eagle_expand_int32 ::
  "int ptr \<Rightarrow> int ptr \<Rightarrow> int ptr \<Rightarrow> int \<Rightarrow> int \<Rightarrow> int \<Rightarrow> int \<Rightarrow> (status \<times> int ptr) option" where
  "eagle_expand_int32 input cumulative_tokens output batch n replace_from replace_to =
     (if batch \<le> 0 \<or> n < 0 then Some (kInvalidShape, output)
      else case (input, cumulative_tokens, output) of
        (Some inp, Some cum, Some out) \<Rightarrow> do {
          good \<leftarrow> valid_cumulative cum batch n;
          if \<not> good then Some (kInvalidArgument, output)
          else do {
            out' \<leftarrow> loop 0 batch (\<lambda>r out. do {
                v \<leftarrow> rd inp r; a \<leftarrow> rd cum r; b \<leftarrow> rd cum (r + 1);
                fill_n out a (b - a) (if v = replace_from then replace_to else v) }) out;
            Some (kOk, Some out') } }
      | _ \<Rightarrow> Some (kInvalidArgument, output))"

section \<open>The children of a node\<close>

text \<open>The first number from \<open>lo\<close> below \<open>hi\<close> with a property, or \<open>-1\<close>.\<close>

definition first_where :: "(int \<Rightarrow> bool) \<Rightarrow> int \<Rightarrow> int \<Rightarrow> int" where
  "first_where p lo hi = (case find p [lo..hi - 1] of None \<Rightarrow> - 1 | Some q \<Rightarrow> q)"

lemma find_append: "find p (xs @ ys) = (case find p xs of None \<Rightarrow> find p ys | Some q \<Rightarrow> Some q)"
  by (induction xs) auto

lemma first_where_step:
  assumes "lo \<le> hi" "0 \<le> lo"
  shows "first_where p lo (hi + 1) =
    (if first_where p lo hi = - 1 \<and> p hi then hi else first_where p lo hi)"
proof -
  have "[lo..hi + 1 - 1] = [lo..hi - 1] @ [hi]" using upto_rec2 [of lo hi] assms(1) by simp
  moreover have "q \<noteq> - 1" if "find p [lo..hi - 1] = Some q" for q
    using find_SomeD [OF that] assms(2) by auto
  ultimately show ?thesis by (auto simp: first_where_def find_append split: option.splits)
qed

lemma first_where_empty [simp]: "hi \<le> lo \<Longrightarrow> first_where p lo hi = - 1"
  by (simp add: first_where_def)

lemma first_whereD:
  assumes "first_where p lo hi = q" "q \<noteq> - 1"
  shows "lo \<le> q" "q < hi" "p q"
  using assms by (auto simp: first_where_def split: option.splits dest!: find_SomeD)

lemma first_where_none: "0 \<le> lo \<Longrightarrow> first_where p lo hi = - 1 \<Longrightarrow> lo \<le> q \<Longrightarrow> q < hi \<Longrightarrow> \<not> p q"
  by (auto simp: first_where_def find_None_iff split: option.splits dest!: find_SomeD)

subsection \<open>The walks end\<close>

definition tree_parents :: "int list \<Rightarrow> int \<Rightarrow> int \<Rightarrow> bool" where
  "tree_parents parents base nodes \<longleftrightarrow> 0 \<le> base \<and> base + nodes \<le> int (length parents) \<and>
     parents ! nat base = - 1 \<and>
     (\<forall>q. 0 < q \<and> q < nodes \<longrightarrow> 0 \<le> parents ! nat (base + q) \<and> parents ! nat (base + q) < q)"

lemma depth_walk_root:
  assumes "tree_parents ps base nodes" "0 < nodes"
  shows "depth_walk ps base nodes 0 d = Some (Inr d)"
  using assms by (subst depth_walk.simps) (simp add: tree_parents_def rd_at)

lemma depth_walk_step:
  assumes "tree_parents ps base nodes" "0 < q" "q < nodes" "0 \<le> d" "d < nodes" "nodes \<le> INT_MAX"
  shows "depth_walk ps base nodes q d = depth_walk ps base nodes (ps ! nat (base + q)) (d + 1)"
proof -
  have "rd ps (base + q) = Some (ps ! nat (base + q))" "0 \<le> ps ! nat (base + q)"
    using assms by (auto simp: tree_parents_def rd_at)
  moreover have "i32 (d + 1) = Some (d + 1)" using assms by (simp add: i32_at int_limits)
  ultimately show ?thesis using assms(5) by (subst depth_walk.simps) simp
qed

text \<open>The depth counted from a starting value is that value plus the node's depth.\<close>

lemma depth_walk_shift:
  assumes t: "tree_parents ps base nodes" and n: "nodes \<le> INT_MAX"
    and q: "0 \<le> q" "q < nodes" and d: "0 \<le> d" "d + q \<le> nodes"
  shows "\<exists>k. 0 \<le> k \<and> k \<le> q \<and> depth_walk ps base nodes q 0 = Some (Inr k) \<and>
    depth_walk ps base nodes q d = Some (Inr (d + k))"
  using q d
proof (induction "nat q" arbitrary: q d rule: less_induct)
  case less
  show ?case
  proof (cases "q = 0")
    case True
    then show ?thesis using depth_walk_root [OF t] less.prems by simp
  next
    case False
    let ?p = "ps ! nat (base + q)"
    have p: "0 \<le> ?p" "?p < q" using t False less.prems by (auto simp: tree_parents_def)
    have step: "depth_walk ps base nodes q e = depth_walk ps base nodes ?p (e + 1)" if "0 \<le> e" "e + q \<le> nodes" for e
      using depth_walk_step [OF t _ _ _ _ n, of q e] False less.prems that by simp
    have IH: "0 \<le> e \<Longrightarrow> e + ?p \<le> nodes \<Longrightarrow> \<exists>k. 0 \<le> k \<and> k \<le> ?p \<and>
        depth_walk ps base nodes ?p 0 = Some (Inr k) \<and> depth_walk ps base nodes ?p e = Some (Inr (e + k))" for e
      by (rule less.hyps) (use p less.prems in auto)
    obtain k where k: "0 \<le> k" "k \<le> ?p" "depth_walk ps base nodes ?p 0 = Some (Inr k)"
        "depth_walk ps base nodes ?p 1 = Some (Inr (1 + k))"
      using IH [of 1] p less.prems by auto
    moreover obtain j where "depth_walk ps base nodes ?p 0 = Some (Inr j)"
        "depth_walk ps base nodes ?p (d + 1) = Some (Inr (d + 1 + j))"
      using IH [of "d + 1"] p less.prems by auto
    ultimately show ?thesis
      using step [of 0] step [of d] p less.prems by (intro exI [of _ "k + 1"]) simp
  qed
qed

subsection \<open>Linking one child\<close>

text \<open>The lists of one request once the children below \<open>c\<close> are linked.\<close>

definition linked :: "int list \<Rightarrow> int \<Rightarrow> int \<Rightarrow> int \<Rightarrow> int list \<times> int list \<Rightarrow> bool" where
  "linked ps base nodes c s \<longleftrightarrow>
     (\<forall>q. 0 \<le> q \<and> q < nodes \<longrightarrow>
        fst s ! nat (base + q) = first_where (\<lambda>j. ps ! nat (base + j) = q) 1 c \<and>
        snd s ! nat (base + q) = first_where (\<lambda>j. ps ! nat (base + j) = ps ! nat (base + q)) (q + 1) c)"

lemma last_sibling_ends:
  assumes next_is: "\<And>q. 0 \<le> q \<Longrightarrow> q < nodes \<Longrightarrow> next ! nat (base + q) =
      first_where (\<lambda>j. ps ! nat (base + j) = ps ! nat (base + q)) (q + 1) c"
    and "0 \<le> base" "base + nodes \<le> int (length next)" "c \<le> nodes"
    and "0 \<le> f" "f < c"
  shows "\<exists>l. last_sibling next base f = Some l \<and> f \<le> l \<and> l < c \<and>
    ps ! nat (base + l) = ps ! nat (base + f) \<and>
    first_where (\<lambda>j. ps ! nat (base + j) = ps ! nat (base + l)) (l + 1) c = - 1"
  using assms(5,6)
proof (induction "nat (c - f)" arbitrary: f rule: less_induct)
  case less
  let ?n = "first_where (\<lambda>j. ps ! nat (base + j) = ps ! nat (base + f)) (f + 1) c"
  have r: "rd next (base + f) = Some ?n"
    using next_is [of f] assms(2-4) less.prems by (simp add: rd_at)
  show ?case
  proof (cases "?n = - 1")
    case True
    then have "last_sibling next base f = Some f" using r by (subst last_sibling.simps) simp
    then show ?thesis using True less.prems by auto
  next
    case False
    obtain m where m: "first_where (\<lambda>j. ps ! nat (base + j) = ps ! nat (base + f)) (f + 1) c = m" by simp
    then have n: "f + 1 \<le> m" "m < c" "ps ! nat (base + m) = ps ! nat (base + f)"
      using first_whereD [OF m] False by auto
    have s: "last_sibling next base f = last_sibling next base m"
      using r False unfolding m by (subst last_sibling.simps) simp
    obtain l where "last_sibling next base m = Some l" "m \<le> l" "l < c"
        "ps ! nat (base + l) = ps ! nat (base + m)"
        "first_where (\<lambda>j. ps ! nat (base + j) = ps ! nat (base + l)) (l + 1) c = - 1"
      using less.hyps [of m] n(1,2) less.prems by auto
    then show ?thesis using s n by auto
  qed
qed

lemma link_first:
  assumes l: "linked ps base nodes c (fc, ns)" and b: "0 \<le> base" "base + nodes \<le> int (length fc)"
    and c: "1 \<le> c" "c < nodes" and p: "p = ps ! nat (base + c)" "0 \<le> p" "p < c"
    and f: "fc ! nat (base + p) = - 1" and r: "ps ! nat base = - 1"
  shows "linked ps base nodes (c + 1) (fc[nat (base + p) := c], ns)"
  unfolding linked_def
proof (intro allI impI)
  fix q assume q: "0 \<le> q \<and> q < nodes"
  have none: "first_where (\<lambda>j. ps ! nat (base + j) = p) 1 c = - 1"
    using l f p c by (auto simp: linked_def)
  have old: "fc ! nat (base + q) = first_where (\<lambda>j. ps ! nat (base + j) = q) 1 c"
      "ns ! nat (base + q) = first_where (\<lambda>j. ps ! nat (base + j) = ps ! nat (base + q)) (q + 1) c"
    using l q by (auto simp: linked_def)
  have "fc[nat (base + p) := c] ! nat (base + q) = first_where (\<lambda>j. ps ! nat (base + j) = q) 1 (c + 1)"
    using nth_update_at [of base p fc q c] b p c q old(1) none by (auto simp: first_where_step)
  moreover have "ns ! nat (base + q) =
      first_where (\<lambda>j. ps ! nat (base + j) = ps ! nat (base + q)) (q + 1) (c + 1)"
  proof (cases "q + 1 \<le> c")
    case True
    have "ps ! nat (base + c) \<noteq> ps ! nat (base + q)" if "0 < q"
      using first_where_none [OF _ none, of q] that True p by auto
    moreover have "ps ! nat (base + c) \<noteq> ps ! nat (base + q)" if "q = 0"
      using that p r by auto
    ultimately have "ps ! nat (base + c) \<noteq> ps ! nat (base + q)" using q by linarith
    then show ?thesis using old(2) first_where_step [OF True] q by simp
  next
    case False
    then show ?thesis using old(2) by simp
  qed
  ultimately show "fst (fc[nat (base + p) := c], ns) ! nat (base + q) =
        first_where (\<lambda>j. ps ! nat (base + j) = q) 1 (c + 1) \<and>
      snd (fc[nat (base + p) := c], ns) ! nat (base + q) =
        first_where (\<lambda>j. ps ! nat (base + j) = ps ! nat (base + q)) (q + 1) (c + 1)" by simp
qed

lemma link_next:
  assumes l: "linked ps base nodes c (fc, ns)" and b: "0 \<le> base" "base + nodes \<le> int (length ns)"
    and c: "1 \<le> c" "c < nodes" and p: "p = ps ! nat (base + c)" "0 \<le> p" "p < c"
    and f: "fc ! nat (base + p) \<noteq> - 1"
    and m: "1 \<le> m" "m < c" "ps ! nat (base + m) = p"
      "first_where (\<lambda>j. ps ! nat (base + j) = p) (m + 1) c = - 1"
  shows "linked ps base nodes (c + 1) (fc, ns[nat (base + m) := c])"
  unfolding linked_def
proof (intro allI impI)
  fix q assume q: "0 \<le> q \<and> q < nodes"
  have old: "fc ! nat (base + q) = first_where (\<lambda>j. ps ! nat (base + j) = q) 1 c"
      "ns ! nat (base + q) = first_where (\<lambda>j. ps ! nat (base + j) = ps ! nat (base + q)) (q + 1) c"
    using l q by (auto simp: linked_def)
  have fst: "fc ! nat (base + q) = first_where (\<lambda>j. ps ! nat (base + j) = q) 1 (c + 1)"
    using old(1) f p c q by (auto simp: first_where_step)
  have upd: "ns[nat (base + m) := c] ! nat (base + q) = (if q = m then c else ns ! nat (base + q))"
    by (rule nth_update_at) (use b m c q in auto)
  have "ns[nat (base + m) := c] ! nat (base + q) =
      first_where (\<lambda>j. ps ! nat (base + j) = ps ! nat (base + q)) (q + 1) (c + 1)"
  proof (cases "q + 1 \<le> c")
    case True
    have "first_where (\<lambda>j. ps ! nat (base + j) = ps ! nat (base + q)) (q + 1) c \<noteq> - 1"
      if e: "ps ! nat (base + q) = p" and ne: "q \<noteq> m"
    proof -
      have "\<not> m < q" using first_where_none [OF _ m(4), of q] m(1) e True by auto
      then have "q + 1 \<le> m" using ne by simp
      then show ?thesis
        using first_where_none [of "q + 1" "\<lambda>j. ps ! nat (base + j) = ps ! nat (base + q)" c m] q m e by auto
    qed
    moreover have "first_where (\<lambda>j. ps ! nat (base + j) = ps ! nat (base + q)) (q + 1) c = - 1" if "q = m"
      using m(3,4) that by simp
    moreover have "first_where (\<lambda>j. ps ! nat (base + j) = ps ! nat (base + q)) (q + 1) (c + 1) =
        (if first_where (\<lambda>j. ps ! nat (base + j) = ps ! nat (base + q)) (q + 1) c = - 1 \<and>
            ps ! nat (base + c) = ps ! nat (base + q) then c
         else first_where (\<lambda>j. ps ! nat (base + j) = ps ! nat (base + q)) (q + 1) c)"
      by (rule first_where_step) (use True q in auto)
    ultimately show ?thesis using m(3) p(1) unfolding upd old(2) by (cases "q = m") auto
  next
    case False
    then show ?thesis using m(2) unfolding upd old(2) by simp
  qed
  with fst show "fst (fc, ns[nat (base + m) := c]) ! nat (base + q) =
        first_where (\<lambda>j. ps ! nat (base + j) = q) 1 (c + 1) \<and>
      snd (fc, ns[nat (base + m) := c]) ! nat (base + q) =
        first_where (\<lambda>j. ps ! nat (base + j) = ps ! nat (base + q)) (q + 1) (c + 1)" by simp
qed

lemma link_child_ok:
  assumes t: "tree_parents ps base nodes" and n: "nodes \<le> INT_MAX"
    and l: "linked ps base nodes c (fc, ns)" and c: "1 \<le> c" "c < nodes"
    and b: "base + nodes \<le> int (length fc)" "base + nodes \<le> int (length ns)"
  shows "ok (\<lambda>s. linked ps base nodes (c + 1) s \<and> outside_same base nodes fc (fst s) \<and> outside_same base nodes ns (snd s))
    (link_child base (ps ! nat (base + c)) c (fc, ns))"
proof -
  let ?p = "ps ! nat (base + c)"
  have p: "0 \<le> ?p" "?p < c" and b0: "0 \<le> base" and root: "ps ! nat base = - 1"
    using t c by (auto simp: tree_parents_def)
  have nc: "narrow_int c = c" using c n by (simp add: narrow_int_id int_limits)
  have f: "rd fc (base + ?p) = Some (fc ! nat (base + ?p))"
    using p b0 b c by (simp add: rd_at)
  have fw: "fc ! nat (base + ?p) = first_where (\<lambda>j. ps ! nat (base + j) = ?p) 1 c"
    using l p c by (simp add: linked_def)
  show ?thesis
  proof (cases "fc ! nat (base + ?p) = - 1")
    case True
    then have "link_child base ?p c (fc, ns) = Some (fc[nat (base + ?p) := c], ns)"
      using f p b0 b c by (simp add: link_child_def nc wr_at)
    then show ?thesis
      using link_first [OF l b0 b(1) c refl p True root] outside_same_update [OF b0 p(1), of nodes fc c] p c by simp
  next
    case False
    obtain g where g: "fc ! nat (base + ?p) = g" "g \<noteq> - 1" using False by simp
    note gw = first_whereD [OF fw [symmetric, unfolded g(1)] g(2)]
    have "\<exists>m. last_sibling ns base g = Some m \<and> g \<le> m \<and> m < c \<and>
        ps ! nat (base + m) = ps ! nat (base + g) \<and>
        first_where (\<lambda>j. ps ! nat (base + j) = ps ! nat (base + m)) (m + 1) c = - 1"
      by (rule last_sibling_ends [of nodes]) (use l b0 b c gw in \<open>auto simp: linked_def\<close>)
    then obtain m where m: "last_sibling ns base g = Some m" "g \<le> m" "m < c"
        "ps ! nat (base + m) = ?p" "first_where (\<lambda>j. ps ! nat (base + j) = ?p) (m + 1) c = - 1"
      using gw(3) by auto
    have "wr ns (base + m) (narrow_int c) = Some (ns[nat (base + m) := c])"
      using m gw b0 b c by (simp add: nc wr_at)
    then have "link_child base ?p c (fc, ns) = Some (fc, ns[nat (base + m) := c])"
      using f g m(1) by (simp add: link_child_def)
    then show ?thesis
      using link_next [OF l b0 b(2) c refl p False _ m(3-5)] outside_same_update [OF b0, of m nodes ns c] m gw c
      by simp
  qed
qed

subsection \<open>One request\<close>

definition tree_upto :: "int list \<Rightarrow> int \<Rightarrow> int \<Rightarrow> int \<Rightarrow> tree \<Rightarrow> bool" where
  "tree_upto ps base nodes c t \<longleftrightarrow>
     (case t of (fc, ns, pos) \<Rightarrow> linked ps base nodes c (fc, ns) \<and>
        (\<forall>q. 0 \<le> q \<and> q < c \<longrightarrow> depth_walk ps base nodes q 0 = Some (Inr (pos ! nat (base + q)))))"

definition tree_same :: "int \<Rightarrow> int \<Rightarrow> tree \<Rightarrow> tree \<Rightarrow> bool" where
  "tree_same base nodes t u \<longleftrightarrow> outside_same base nodes (fst t) (fst u) \<and>
     outside_same base nodes (fst (snd t)) (fst (snd u)) \<and> outside_same base nodes (snd (snd t)) (snd (snd u))"

definition tree_room :: "int \<Rightarrow> tree \<Rightarrow> bool" where
  "tree_room n t \<longleftrightarrow> n \<le> int (length (fst t)) \<and> n \<le> int (length (fst (snd t))) \<and> n \<le> int (length (snd (snd t)))"

lemma tree_same_refl: "tree_same base nodes t t"
  by (simp add: tree_same_def)

lemma tree_same_trans: "tree_same base nodes t u \<Longrightarrow> tree_same base nodes u v \<Longrightarrow> tree_same base nodes t v"
  unfolding tree_same_def by (meson outside_same_trans)

lemma tree_same_room: "tree_same base nodes t u \<Longrightarrow> tree_room n u = tree_room n t"
  by (simp add: tree_same_def tree_room_def outside_same_def)

lemma tree_node_ok:
  assumes t: "tree_parents ps base nodes" and n: "nodes \<le> INT_MAX"
    and c: "0 \<le> c" "c < nodes" and u: "tree_upto ps base nodes c u" and room: "tree_room (base + nodes) u"
  shows "ok (flow_post (\<lambda>v. tree_upto ps base nodes (c + 1) v \<and> tree_same base nodes u v) (\<lambda>_. False) R)
    (tree_node ps base nodes c u)"
proof -
  obtain fc ns pos where u': "u = (fc, ns, pos)" by (cases u)
  have b0: "0 \<le> base" using t by (simp add: tree_parents_def)
  have b: "base + nodes \<le> int (length fc)" "base + nodes \<le> int (length ns)" "base + nodes \<le> int (length pos)"
    using room by (auto simp: u' tree_room_def)
  have l: "linked ps base nodes c (fc, ns)"
    and d: "\<And>q. 0 \<le> q \<Longrightarrow> q < c \<Longrightarrow> depth_walk ps base nodes q 0 = Some (Inr (pos ! nat (base + q)))"
    using u by (auto simp: u' tree_upto_def)
  have r: "rd ps (base + c) = Some (ps ! nat (base + c))" using t c by (simp add: tree_parents_def rd_at)
  have good: "\<not> (0 < c \<and> (ps ! nat (base + c) < 0 \<or> c \<le> ps ! nat (base + c)))"
    using t c unfolding tree_parents_def by (metis less_le_not_le not_less)
  obtain k where k: "depth_walk ps base nodes c 0 = Some (Inr k)"
    using depth_walk_shift [OF t n c, of 0] c by auto
  have w: "wr pos (base + c) k = Some (pos[nat (base + c) := k])" using b0 b c by (simp add: wr_at)
  have d': "depth_walk ps base nodes q 0 = Some (Inr (pos[nat (base + c) := k] ! nat (base + q)))"
    if "0 \<le> q" "q < c + 1" for q
    using d [of q] k nth_update_at [of base c pos q k] b0 b c that by (cases "q = c") auto
  have same: "outside_same base nodes pos (pos[nat (base + c) := k])" by (rule outside_same_update [OF b0 c])
  show ?thesis
  proof (cases "c = 0")
    case True
    have "tree_node ps base nodes c u = Some (Next (fc, ns, pos[nat (base + c) := k]))"
      using r k w True by (simp add: tree_node_def u' thru_def)
    moreover have "linked ps base nodes (c + 1) (fc, ns)" using l by (simp add: linked_def True)
    ultimately show ?thesis using d' same by (simp add: tree_upto_def tree_same_def u')
  next
    case False
    then have c1: "1 \<le> c" using c by simp
    have step: "tree_node ps base nodes c u = thru (do {
        s \<leftarrow> link_child base (ps ! nat (base + c)) c (fc, ns); Some (fst s, snd s, pos[nat (base + c) := k]) })"
      using r good k w c1 by (simp add: tree_node_def u' case_prod_beta')
    show ?thesis unfolding step
      by (rule ok_thru [THEN iffD2], unfold ok_bind, rule ok_mono [OF link_child_ok [OF t n l c1 c(2) b(1,2)]])
        (use d' same in \<open>simp add: tree_upto_def tree_same_def u'\<close>)
  qed
qed

lemma tree_request_ok:
  assumes t: "tree_parents ps (r * nodes) nodes" and n: "0 < nodes" "nodes \<le> INT_MAX"
    and room: "tree_room (r * nodes + nodes) u"
  shows "ok (flow_post (\<lambda>v. tree_upto ps (r * nodes) nodes nodes v \<and> tree_same (r * nodes) nodes u v) (\<lambda>_. False)
    (\<lambda>_ _. False)) (tree_request ps nodes r u)"
proof -
  obtain fc ns pos where u: "u = (fc, ns, pos)" by (cases u)
  let ?b = "r * nodes"
  have b0: "0 \<le> ?b" and root: "rd ps ?b = Some (- 1)" using t n by (auto simp: tree_parents_def rd_at)
  obtain fc' where f: "fill_n fc ?b nodes (- 1) = Some fc'" "outside_same ?b nodes fc fc'"
      "\<And>q. 0 \<le> q \<Longrightarrow> q < nodes \<Longrightarrow> fc' ! nat (?b + q) = - 1"
    by (rule fill_outside [of ?b nodes fc "- 1"]) (use b0 n room in \<open>auto simp: tree_room_def u\<close>)
  obtain ns' where s: "fill_n ns ?b nodes (- 1) = Some ns'" "outside_same ?b nodes ns ns'"
      "\<And>q. 0 \<le> q \<Longrightarrow> q < nodes \<Longrightarrow> ns' ! nat (?b + q) = - 1"
    by (rule fill_outside [of ?b nodes ns "- 1"]) (use b0 n room in \<open>auto simp: tree_room_def u\<close>)
  have start: "tree_same ?b nodes u (fc', ns', pos)" using f(2) s(2) by (simp add: tree_same_def u)
  have step: "tree_request ps nodes r u = for_loop 0 nodes (tree_node ps ?b nodes) (fc', ns', pos)"
    using root f(1) s(1) by (simp add: tree_request_def u)
  show ?thesis unfolding step
  proof (rule for_loop_inv [where I = "\<lambda>c v. tree_upto ps ?b nodes c v \<and> tree_same ?b nodes u v"])
    show "tree_upto ps ?b nodes 0 (fc', ns', pos) \<and> tree_same ?b nodes u (fc', ns', pos)"
      using f(3) s(3) start by (auto simp: tree_upto_def linked_def)
  next
    fix c v assume c: "0 \<le> c" "c < nodes" and v: "tree_upto ps ?b nodes c v \<and> tree_same ?b nodes u v"
    then have "tree_room (?b + nodes) v" using tree_same_room room by blast
    then have "ok (flow_post (\<lambda>w. tree_upto ps ?b nodes (c + 1) w \<and> tree_same ?b nodes v w) (\<lambda>_. False) (\<lambda>_ _. False))
        (tree_node ps ?b nodes c v)"
      using tree_node_ok [OF t n(2) c] v by blast
    then show "ok (flow_post (\<lambda>w. tree_upto ps ?b nodes (c + 1) w \<and> tree_same ?b nodes u w)
        (\<lambda>v. tree_upto ps ?b nodes nodes v \<and> tree_same ?b nodes u v) (\<lambda>_ _. False)) (tree_node ps ?b nodes c v)"
      using v by (auto elim!: ok_mono flow_post_mono intro: tree_same_trans)
  qed (use n in auto)
qed

subsection \<open>The whole batch\<close>

lemma tree_same_upto:
  assumes "tree_same (r * nodes) nodes t u" "tree_upto ps (q * nodes) nodes nodes t" "q \<noteq> r" "0 \<le> q" "0 \<le> r" "0 < nodes"
    and "tree_room (q * nodes + nodes) t"
  shows "tree_upto ps (q * nodes) nodes nodes u"
proof -
  obtain fc ns pos fc' ns' pos' where tu: "t = (fc, ns, pos)" "u = (fc', ns', pos')" by (cases t, cases u)
  have "fc' ! nat (q * nodes + j) = fc ! nat (q * nodes + j)" "ns' ! nat (q * nodes + j) = ns ! nat (q * nodes + j)"
      "pos' ! nat (q * nodes + j) = pos ! nat (q * nodes + j)" if "0 \<le> j" "j < nodes" for j
    using outside_same_row [OF _ assms(3,4) that] assms(1,7) by (auto simp: tree_same_def tree_room_def tu)
  then show ?thesis using assms(2) by (simp add: tree_upto_def linked_def tu)
qed

lemma build_dynamic_tree_batch:
  assumes trees: "\<And>r. 0 \<le> r \<Longrightarrow> r < batch \<Longrightarrow> tree_parents ps (r * nodes) nodes"
    and n: "0 < nodes" "nodes \<le> INT_MAX" "0 \<le> batch" and room: "tree_room (batch * nodes) t"
  shows "ok (\<lambda>(st, u). st = kOk \<and> tree_room (batch * nodes) u \<and>
      (\<forall>r. 0 \<le> r \<and> r < batch \<longrightarrow> tree_upto ps (r * nodes) nodes nodes u))
    (finish (for_loop 0 batch (tree_request ps nodes) t))"
proof (rule ok_finish, rule ok_mono)
  let ?I = "\<lambda>k u. tree_room (batch * nodes) u \<and> (\<forall>r. 0 \<le> r \<and> r < k \<longrightarrow> tree_upto ps (r * nodes) nodes nodes u)"
  show "ok (flow_post (?I batch) (\<lambda>_. False) (\<lambda>_ _. False)) (for_loop 0 batch (tree_request ps nodes) t)"
  proof (rule for_loop_inv [where I = ?I])
    fix k u assume k: "0 \<le> k" "k < batch" and u: "?I k u"
    have part: "tree_room (r * nodes + nodes) u" if "0 \<le> r" "r < batch" for r
      using row_bound [of r batch nodes] that n u by (auto simp: tree_room_def)
    have "?I (k + 1) v" if v: "tree_upto ps (k * nodes) nodes nodes v" "tree_same (k * nodes) nodes u v" for v
    proof (intro conjI allI impI)
      show "tree_room (batch * nodes) v" using tree_same_room [OF v(2)] u by simp
      fix r assume r: "0 \<le> r \<and> r < k + 1"
      show "tree_upto ps (r * nodes) nodes nodes v"
      proof (cases "r = k")
        case False
        then show ?thesis
          by (intro tree_same_upto [OF v(2)]) (use r k u n part in auto)
      qed (use v in simp)
    qed
    then show "ok (flow_post (?I (k + 1)) (?I batch) (\<lambda>_ _. False)) (tree_request ps nodes k u)"
      using tree_request_ok [OF trees [OF k] n(1,2) part [OF k]]
      by (elim ok_mono flow_post_mono) auto
  qed (use room n in auto)
qed (auto elim: flow_post_mono simp: case_prod_beta)

text \<open>
  C24: for every draft tree whose nodes come after their parents, \<^verbatim>\<open>build_dynamic_tree\<close> terminates with \<^verbatim>\<open>kOk\<close>;
  afterwards \<^verbatim>\<open>first_child\<close> of a node is its first child in the numbering (or -1), \<^verbatim>\<open>next_sibling\<close> of a node is the
  next node with the same parent (or -1), so that the two fields list the children of every node in order, and
  \<^verbatim>\<open>positions\<close> is 0 at the root and one more than the parent's elsewhere.
\<close>

theorem build_dynamic_tree_links_children:
  assumes shape: "0 < nodes" "nodes \<le> INT_MAX" "0 < batch" "batch * nodes \<le> LLONG_MAX"
    and trees: "\<forall>r. 0 \<le> r \<and> r < batch \<longrightarrow> tree_parents ps (r * nodes) nodes"
    and buffers: "batch * nodes \<le> int (length fc)" "batch * nodes \<le> int (length ns)" "batch * nodes \<le> int (length pos)"
  shows "\<exists>fc' ns' pos'.
    build_dynamic_tree (Some ps) (Some fc) (Some ns) (Some pos) batch nodes = Some (kOk, Some fc', Some ns', Some pos') \<and>
    (\<forall>r q. 0 \<le> r \<and> r < batch \<and> 0 \<le> q \<and> q < nodes \<longrightarrow>
       fc' ! nat (r * nodes + q) = first_where (\<lambda>j. ps ! nat (r * nodes + j) = q) 1 nodes \<and>
       ns' ! nat (r * nodes + q) =
         first_where (\<lambda>j. ps ! nat (r * nodes + j) = ps ! nat (r * nodes + q)) (q + 1) nodes \<and>
       pos' ! nat (r * nodes + q) =
         (if q = 0 then 0 else pos' ! nat (r * nodes + ps ! nat (r * nodes + q)) + 1))"
proof -
  have "tree_room (batch * nodes) (fc, ns, pos)" using buffers by (simp add: tree_room_def)
  from build_dynamic_tree_batch [OF _ shape(1,2) _ this, of ps] trees shape(3)
  obtain fc' ns' pos' where run: "finish (for_loop 0 batch (tree_request ps nodes) (fc, ns, pos)) = Some (kOk, fc', ns', pos')"
    and res: "\<And>r. 0 \<le> r \<Longrightarrow> r < batch \<Longrightarrow> tree_upto ps (r * nodes) nodes nodes (fc', ns', pos')"
    by (auto simp: ok_def)
  have depth: "pos' ! nat (r * nodes + q) = (if q = 0 then 0 else pos' ! nat (r * nodes + ps ! nat (r * nodes + q)) + 1)"
    if r: "0 \<le> r" "r < batch" and q: "0 \<le> q" "q < nodes" for r q
  proof -
    have t: "tree_parents ps (r * nodes) nodes" using trees r by blast
    have d: "depth_walk ps (r * nodes) nodes j 0 = Some (Inr (pos' ! nat (r * nodes + j)))" if "0 \<le> j" "j < nodes" for j
      using res [OF r] that by (simp add: tree_upto_def)
    show ?thesis
    proof (cases "q = 0")
      case True
      then show ?thesis using d [OF q] depth_walk_root [OF t shape(1), of 0] by simp
    next
      case False
      let ?p = "ps ! nat (r * nodes + q)"
      have p: "0 \<le> ?p" "?p < q" using t False q by (auto simp: tree_parents_def)
      obtain k where "depth_walk ps (r * nodes) nodes ?p 0 = Some (Inr k)"
          "depth_walk ps (r * nodes) nodes ?p 1 = Some (Inr (1 + k))"
        using depth_walk_shift [OF t shape(2) p(1), of 1] p q by auto
      moreover have "depth_walk ps (r * nodes) nodes q 0 = depth_walk ps (r * nodes) nodes ?p 1"
        using depth_walk_step [OF t _ q(2) _ _ shape(2), of 0] False q by simp
      ultimately show ?thesis using d [OF q] d [OF p(1)] p q False by simp
    qed
  qed
  show ?thesis
    using run res depth shape by (simp add: build_dynamic_tree_def tree_upto_def linked_def)
qed

lemma build_dynamic_tree_links_children_witness:
  "\<exists>fc ns pos. build_dynamic_tree (Some [- 1, 0, 0, 1]) (Some [7, 7, 7, 7]) (Some [7, 7, 7, 7]) (Some [7, 7, 7, 7]) 1 4 =
      Some (kOk, Some fc, Some ns, Some pos) \<and> fc ! 0 = 1 \<and> ns ! 1 = 2 \<and> fc ! 1 = 3 \<and> pos ! 3 = pos ! 1 + 1"
proof -
  have t: "\<forall>r. 0 \<le> r \<and> r < 1 \<longrightarrow> tree_parents [- 1, 0, 0, 1] (r * 4) 4"
  proof (intro allI impI)
    fix r :: int assume "0 \<le> r \<and> r < 1"
    then have r: "r = 0" by simp
    have "0 \<le> [- 1, 0, 0, 1 :: int] ! nat (0 * 4 + q) \<and> [- 1, 0, 0, 1 :: int] ! nat (0 * 4 + q) < q"
      if "0 < q \<and> q < 4" for q
    proof -
      have "q = 1 \<or> q = 2 \<or> q = 3" using that by presburger
      then show ?thesis by (elim disjE) simp_all
    qed
    then show "tree_parents [- 1, 0, 0, 1] (r * 4) 4" unfolding r tree_parents_def by simp
  qed
  obtain fc ns pos where b: "build_dynamic_tree (Some [- 1, 0, 0, 1]) (Some [7, 7, 7, 7]) (Some [7, 7, 7, 7])
        (Some [7, 7, 7, 7]) 1 4 = Some (kOk, Some fc, Some ns, Some pos)"
    and l: "\<forall>r q. 0 \<le> r \<and> r < 1 \<and> 0 \<le> q \<and> q < 4 \<longrightarrow>
       fc ! nat (r * 4 + q) = first_where (\<lambda>j. [- 1, 0, 0, 1] ! nat (r * 4 + j) = q) 1 4 \<and>
       ns ! nat (r * 4 + q) = first_where (\<lambda>j. [- 1, 0, 0, 1] ! nat (r * 4 + j) = ([- 1, 0, 0, 1] :: int list) ! nat (r * 4 + q)) (q + 1) 4 \<and>
       pos ! nat (r * 4 + q) = (if q = 0 then 0 else pos ! nat (r * 4 + [- 1, 0, 0, 1] ! nat (r * 4 + q)) + 1)"
    using build_dynamic_tree_links_children [of 4 1 "[- 1, 0, 0, 1]" "[7, 7, 7, 7]" "[7, 7, 7, 7]" "[7, 7, 7, 7]", OF _ _ _ _ t]
    by (auto simp: int_limits)
  have u: "[1..3] = [1, 2, 3 :: int]" "[2..3] = [2, 3 :: int]" by (simp_all add: upto.simps)
  show ?thesis
    using b l [rule_format, of 0 0] l [rule_format, of 0 1] l [rule_format, of 0 3]
    by (simp add: first_where_def u)
qed

subsection \<open>Malformed trees\<close>

text \<open>The walk from a node reads only the parents of nodes up to it.\<close>

lemma depth_walk_cong:
  assumes t: "tree_parents qs base nodes" and b: "base + nodes \<le> int (length ps)"
    and agree: "\<And>i. 0 \<le> i \<Longrightarrow> i < j \<Longrightarrow> ps ! nat (base + i) = qs ! nat (base + i)" and j: "j \<le> nodes"
  shows "0 \<le> q \<Longrightarrow> q < j \<Longrightarrow> depth_walk ps base nodes q d = depth_walk qs base nodes q d"
proof (induction "nat q" arbitrary: q d rule: less_induct)
  case less
  have r: "rd ps (base + q) = Some (qs ! nat (base + q))" "rd qs (base + q) = Some (qs ! nat (base + q))"
    using t b agree [of q] j less.prems by (auto simp: tree_parents_def rd_at)
  show ?case
  proof (cases "0 \<le> qs ! nat (base + q)")
    case True
    then have p: "qs ! nat (base + q) < q" using t j less.prems by (cases "q = 0") (auto simp: tree_parents_def)
    then have e: "depth_walk ps base nodes (qs ! nat (base + q)) e = depth_walk qs base nodes (qs ! nat (base + q)) e" for e
      by (intro less.hyps) (use True less.prems in auto)
    show ?thesis
      unfolding depth_walk.simps [of ps base nodes q] depth_walk.simps [of qs base nodes q] r bind.simps(2) e ..
  qed (unfold depth_walk.simps [of ps base nodes q] depth_walk.simps [of qs base nodes q] r, simp)
qed

lemma bad_node:
  assumes "\<not> tree_parents ps base nodes" "0 \<le> base" "base + nodes \<le> int (length ps)" "ps ! nat base = - 1"
  obtains j where "0 < j" "j < nodes" "ps ! nat (base + j) < 0 \<or> j \<le> ps ! nat (base + j)"
    "\<And>i. 0 < i \<Longrightarrow> i < j \<Longrightarrow> 0 \<le> ps ! nat (base + i) \<and> ps ! nat (base + i) < i"
proof -
  let ?bad = "\<lambda>k. 0 < int k \<and> int k < nodes \<and> (ps ! nat (base + int k) < 0 \<or> int k \<le> ps ! nat (base + int k))"
  obtain q where q: "0 < q" "q < nodes" "ps ! nat (base + q) < 0 \<or> q \<le> ps ! nat (base + q)"
    using assms by (auto simp: tree_parents_def not_less)
  then have ex: "?bad (nat q)" by simp
  have l: "?bad (LEAST k. ?bad k)" by (rule LeastI [where P = ?bad, OF ex])
  have m: "0 \<le> ps ! nat (base + i) \<and> ps ! nat (base + i) < i" if i: "0 < i" "i < int (LEAST k. ?bad k)" for i
  proof -
    have "\<not> ?bad (nat i)" using i not_less_Least [of "nat i" ?bad] by linarith
    then show ?thesis using i l by auto
  qed
  show thesis by (rule that [of "int (LEAST k. ?bad k)"]) (use l m in auto)
qed

lemma tree_request_bad:
  assumes bad: "\<not> tree_parents ps (r * nodes) nodes" and n: "0 < nodes" "nodes \<le> INT_MAX" "0 \<le> r"
    and len: "r * nodes + nodes \<le> int (length ps)" and room: "tree_room N u" "r * nodes + nodes \<le> N"
  shows "ok (flow_post (\<lambda>_. False) (\<lambda>_. False) (\<lambda>st v. st = kInvalidArgument \<and> tree_room N v)) (tree_request ps nodes r u)"
proof -
  let ?b = "r * nodes"
  obtain fc ns pos where u: "u = (fc, ns, pos)" by (cases u)
  have b0: "0 \<le> ?b" using n by simp
  have root: "rd ps ?b = Some (ps ! nat ?b)" using b0 n len by (simp add: rd_at)
  show ?thesis
  proof (cases "ps ! nat ?b = - 1")
    case False
    then show ?thesis using root room by (simp add: tree_request_def u)
  next
    case True
    obtain j where j: "0 < j" "j < nodes" "ps ! nat (?b + j) < 0 \<or> j \<le> ps ! nat (?b + j)"
      and good: "\<And>i. 0 < i \<Longrightarrow> i < j \<Longrightarrow> 0 \<le> ps ! nat (?b + i) \<and> ps ! nat (?b + i) < i"
      using bad_node [OF bad b0 len True] by blast
    define qs where "qs = take (nat (?b + j)) ps @ replicate (length ps - nat (?b + j)) 0"
    have lenq: "length qs = length ps" using b0 j len by (simp add: qs_def)
    have low: "qs ! nat (?b + i) = ps ! nat (?b + i)" if "0 \<le> i" "i < j" for i
    proof -
      have "nat (?b + i) < nat (?b + j)" "nat (?b + j) \<le> length ps" using that b0 j len by linarith+
      then show ?thesis by (simp add: qs_def nth_append)
    qed
    have high: "qs ! nat (?b + i) = 0" if "j \<le> i" "i < nodes" for i
    proof -
      have i: "nat (?b + j) \<le> nat (?b + i)" "nat (?b + i) < length ps" using that b0 j len by linarith+
      have "(take m ps @ replicate (length ps - m) 0) ! k = 0" if "m \<le> k" "k < length ps" for m k
        using that by (simp add: nth_append)
      from this [OF i] show ?thesis by (simp add: qs_def)
    qed
    have "qs ! nat ?b = - 1" using low [of 0] j True by simp
    moreover have "0 \<le> qs ! nat (?b + i) \<and> qs ! nat (?b + i) < i" if "0 < i" "i < nodes" for i
      using that good [of i] low [of i] high [of i] by (cases "i < j") auto
    ultimately have tq: "tree_parents qs ?b nodes" using b0 len lenq by (simp add: tree_parents_def)
    have same: "tree_node ps ?b nodes c v = tree_node qs ?b nodes c v" if c: "0 \<le> c" "c < j" for c v
    proof -
      have "depth_walk ps ?b nodes c 0 = depth_walk qs ?b nodes c 0"
        by (rule depth_walk_cong [OF tq len _ _ c]) (use low j in auto)
      moreover have "rd ps (?b + c) = rd qs (?b + c)" using b0 c j len lenq low [OF c] by (simp add: rd_at)
      ultimately show ?thesis unfolding tree_node_def by (simp only:)
    qed
    obtain fc' where f: "fill_n fc ?b nodes (- 1) = Some fc'" "outside_same ?b nodes fc fc'"
        "\<And>q. 0 \<le> q \<Longrightarrow> q < nodes \<Longrightarrow> fc' ! nat (?b + q) = - 1"
      by (rule fill_outside [of ?b nodes fc "- 1"]) (use b0 n room in \<open>auto simp: tree_room_def u\<close>)
    obtain ns' where s: "fill_n ns ?b nodes (- 1) = Some ns'" "outside_same ?b nodes ns ns'"
        "\<And>q. 0 \<le> q \<Longrightarrow> q < nodes \<Longrightarrow> ns' ! nat (?b + q) = - 1"
      by (rule fill_outside [of ?b nodes ns "- 1"]) (use b0 n room in \<open>auto simp: tree_room_def u\<close>)
    have start: "tree_same ?b nodes u (fc', ns', pos)" using f(2) s(2) by (simp add: tree_same_def u)
    have step: "tree_request ps nodes r u = for_loop 0 nodes (tree_node ps ?b nodes) (fc', ns', pos)"
      using root True f(1) s(1) by (simp add: tree_request_def u)
    show ?thesis unfolding step
    proof (rule for_loop_inv [where I = "\<lambda>c v. c \<le> j \<and> tree_upto qs ?b nodes c v \<and> tree_room N v"])
      show "0 \<le> j \<and> tree_upto qs ?b nodes 0 (fc', ns', pos) \<and> tree_room N (fc', ns', pos)"
        using f(3) s(3) j tree_same_room [OF start] room by (auto simp: tree_upto_def linked_def)
    next
      fix c v assume c: "0 \<le> c" "c < nodes" and v: "c \<le> j \<and> tree_upto qs ?b nodes c v \<and> tree_room N v"
      show "ok (flow_post (\<lambda>v. c + 1 \<le> j \<and> tree_upto qs ?b nodes (c + 1) v \<and> tree_room N v) (\<lambda>_. False)
          (\<lambda>st v. st = kInvalidArgument \<and> tree_room N v)) (tree_node ps ?b nodes c v)"
      proof (cases "c = j")
        case True
        have "rd ps (?b + j) = Some (ps ! nat (?b + j))" using b0 j len by (simp add: rd_at)
        then show ?thesis using True j v by (auto simp: tree_node_def split: prod.splits)
      next
        case False
        then have "c < j" using v by simp
        have "tree_room (?b + nodes) v" using v room(2) by (auto simp: tree_room_def)
        then have "ok (flow_post (\<lambda>w. tree_upto qs ?b nodes (c + 1) w \<and> tree_same ?b nodes v w) (\<lambda>_. False)
            (\<lambda>st v. st = kInvalidArgument \<and> tree_room N v)) (tree_node qs ?b nodes c v)"
          using tree_node_ok [OF tq n(2) c] v by blast
        moreover have "tree_room N w" if "tree_same ?b nodes v w" for w using tree_same_room [OF that] v by blast
        ultimately show ?thesis unfolding same [OF c(1) \<open>c < j\<close>]
          using v \<open>c < j\<close> by (auto elim!: ok_mono flow_post_mono)
      qed
    qed (use n j in auto)
  qed
qed

text \<open>
  C26: \<^verbatim>\<open>build_dynamic_tree\<close> returns for any contents of \<^verbatim>\<open>parents\<close>, cycles included, and its status is exact: \<^verbatim>\<open>kOk\<close>
  when every request is a tree whose nodes come after their parents, \<^verbatim>\<open>kInvalidArgument\<close> otherwise.
\<close>

theorem build_dynamic_tree_rejects_malformed:
  assumes shape: "0 < nodes" "nodes \<le> INT_MAX" "0 < batch" "batch * nodes \<le> LLONG_MAX"
    and buffers: "batch * nodes \<le> int (length ps)" "batch * nodes \<le> int (length fc)" "batch * nodes \<le> int (length ns)"
      "batch * nodes \<le> int (length pos)"
  shows "\<exists>fc' ns' pos'.
    build_dynamic_tree (Some ps) (Some fc) (Some ns) (Some pos) batch nodes =
      Some (if list_all (\<lambda>r. tree_parents ps (r * nodes) nodes) [0..batch - 1] then kOk else kInvalidArgument,
        Some fc', Some ns', Some pos')"
proof -
  let ?N = "batch * nodes" and ?good = "\<lambda>r. tree_parents ps (r * nodes) nodes"
  let ?I = "\<lambda>k u. tree_room ?N u \<and> (\<forall>r. 0 \<le> r \<and> r < k \<longrightarrow> ?good r)"
  have "ok (flow_post (?I batch) (\<lambda>_. False) (\<lambda>st _. st = kInvalidArgument \<and> \<not> list_all ?good [0..batch - 1]))
    (for_loop 0 batch (tree_request ps nodes) (fc, ns, pos))"
  proof (rule for_loop_inv [where I = ?I])
    fix k u assume k: "0 \<le> k" "k < batch" and u: "?I k u"
    have fit: "k * nodes + nodes \<le> ?N" using row_bound [OF k, of nodes] shape(1) by simp
    show "ok (flow_post (?I (k + 1)) (?I batch) (\<lambda>st _. st = kInvalidArgument \<and> \<not> list_all ?good [0..batch - 1]))
      (tree_request ps nodes k u)"
    proof (cases "?good k")
      case True
      have "tree_room (k * nodes + nodes) u" using u fit by (auto simp: tree_room_def)
      note run = tree_request_ok [OF True shape(1,2) this]
      have room: "tree_room ?N v" if "tree_same (k * nodes) nodes u v" for v using tree_same_room [OF that] u by blast
      have "ok (flow_post (\<lambda>v. tree_room ?N v) (\<lambda>_. False) (\<lambda>_ _. False)) (tree_request ps nodes k u)"
        by (rule ok_mono [OF run]) (auto elim!: flow_post_mono intro: room)
      moreover have "?good r" if "0 \<le> r" "r < k + 1" for r using that True u by (cases "r = k") auto
      ultimately show ?thesis by (auto elim!: ok_mono flow_post_mono)
    next
      case False
      have "k * nodes + nodes \<le> int (length ps)" using fit buffers by simp
      from tree_request_bad [OF False shape(1,2) k(1) this _ fit] u
      have bad: "ok (flow_post (\<lambda>_. False) (\<lambda>_. False) (\<lambda>st v. st = kInvalidArgument \<and> tree_room ?N v))
        (tree_request ps nodes k u)" by blast
      have "\<not> list_all ?good [0..batch - 1]" using False k by (auto simp: list_all_iff)
      then show ?thesis using bad by (auto elim!: ok_mono flow_post_mono)
    qed
  qed (use shape buffers in \<open>auto simp: tree_room_def\<close>)
  then obtain fl where "for_loop 0 batch (tree_request ps nodes) (fc, ns, pos) = Some fl"
      "flow_post (?I batch) (\<lambda>_. False) (\<lambda>st _. st = kInvalidArgument \<and> \<not> list_all ?good [0..batch - 1]) fl"
    unfolding ok_def by blast
  then show ?thesis using shape by (cases fl) (auto simp: build_dynamic_tree_def finish_def list_all_iff)
qed

lemma build_dynamic_tree_rejects_malformed_witness:
  "\<exists>fc ns pos. build_dynamic_tree (Some [- 1, 2, 1]) (Some [0, 0, 0]) (Some [0, 0, 0]) (Some [0, 0, 0]) 1 3 =
     Some (kInvalidArgument, Some fc, Some ns, Some pos)"
proof -
  have "\<not> tree_parents [- 1, 2, 1] 0 3" by (simp add: tree_parents_def) (rule exI [of _ 1], simp)
  then show ?thesis
    using build_dynamic_tree_rejects_malformed [of 3 1 "[- 1, 2, 1]" "[0, 0, 0]" "[0, 0, 0]" "[0, 0, 0]"]
    by (simp add: int_limits)
qed

section \<open>Greedy acceptance\<close>

text \<open>The number of leading drafts the target agrees with.\<close>

definition agreed :: "int list \<Rightarrow> int list \<Rightarrow> int \<Rightarrow> int \<Rightarrow> int" where
  "agreed drafts argmax start n =
     (let k = first_where (\<lambda>i. drafts ! nat (start + i) \<noteq> argmax ! nat (start + i)) 0 n in if k = - 1 then n else k)"

lemma agreed_bounds: "0 \<le> n \<Longrightarrow> 0 \<le> agreed drafts argmax start n \<and> agreed drafts argmax start n \<le> n"
  using first_whereD [OF refl, of "\<lambda>i. drafts ! nat (start + i) \<noteq> argmax ! nat (start + i)" 0 n]
  by (auto simp: agreed_def Let_def)

lemma find_upto_first:
  assumes "a \<le> i" "i \<le> b" "p i" "\<And>j. a \<le> j \<Longrightarrow> j < i \<Longrightarrow> \<not> p j"
  shows "find p [a..b] = Some i"
proof -
  have "[a..b] = [a..i - 1] @ [i..b]" using assms(1,2) by (intro upto_split1) auto
  moreover have "find p [a..i - 1] = None" using assms(4) by (auto simp: find_None_iff)
  moreover have "find p [i..b] = Some i" using assms(2,3) by (simp add: upto_rec1)
  ultimately show ?thesis by (simp add: find_append)
qed

lemma agreed_eqI:
  assumes "0 \<le> k" "k \<le> n" "\<And>j. 0 \<le> j \<Longrightarrow> j < k \<Longrightarrow> drafts ! nat (start + j) = argmax ! nat (start + j)"
    and "k < n \<Longrightarrow> drafts ! nat (start + k) \<noteq> argmax ! nat (start + k)"
  shows "agreed drafts argmax start n = k"
proof (cases "k < n")
  case True
  then have "find (\<lambda>i. drafts ! nat (start + i) \<noteq> argmax ! nat (start + i)) [0..n - 1] = Some k"
    using assms by (intro find_upto_first) auto
  then show ?thesis using assms(1) by (simp add: agreed_def first_where_def)
next
  case False
  then have "find (\<lambda>i. drafts ! nat (start + i) \<noteq> argmax ! nat (start + i)) [0..n - 1] = None"
    using assms by (auto simp: find_None_iff)
  then show ?thesis using False assms(2) by (simp add: agreed_def first_where_def)
qed

text \<open>The row of a request after its first \<open>i\<close> drafts were accepted.\<close>

definition emitted :: "int list \<Rightarrow> int \<Rightarrow> int \<Rightarrow> int \<Rightarrow> int \<Rightarrow> int list \<Rightarrow> int list \<Rightarrow> bool" where
  "emitted argmax start at stride i out0 out \<longleftrightarrow> outside_same at stride out0 out \<and>
     (\<forall>j. 0 \<le> j \<and> j < stride \<longrightarrow> out ! nat (at + j) = (if j < i then argmax ! nat (start + j) else - 1))"

lemma emitted_step:
  assumes "emitted argmax start at stride i out0 out" "0 \<le> at" "0 \<le> i" "i < stride" "at + stride \<le> int (length out0)"
  shows "emitted argmax start at stride (i + 1) out0 (out[nat (at + i) := argmax ! nat (start + i)])"
proof -
  have len: "length out = length out0" using assms(1) by (simp add: emitted_def outside_same_def)
  have "out[nat (at + i) := v] ! nat (at + j) = (if j = i then v else out ! nat (at + j))" if "0 \<le> j" for j v
    by (rule nth_update_at) (use assms len that in auto)
  then show ?thesis
    using assms(1) outside_same_trans [OF _ outside_same_update [OF assms(2-4)]] unfolding emitted_def by auto
qed

lemma greedy_items:
  assumes "0 \<le> at" "0 \<le> start" "0 \<le> n" "n < stride" "at + stride \<le> int (length out0)"
    and "start + n \<le> int (length drafts)" "start + n \<le> int (length argmax)"
    and "emitted argmax start at stride 0 out0 out"
  shows "ok (flow_post (\<lambda>s. snd s = (agreed drafts argmax start n < n) \<and>
      emitted argmax start at stride (min n (agreed drafts argmax start n + 1)) out0 (fst s)) (\<lambda>_. False) (\<lambda>_ _. False))
    (for_loop 0 n (greedy_item drafts argmax start at) (out, False))"
proof (rule for_loop_inv [where I = "\<lambda>i s. snd s = False \<and> emitted argmax start at stride i out0 (fst s) \<and>
    (\<forall>j. 0 \<le> j \<and> j < i \<longrightarrow> drafts ! nat (start + j) = argmax ! nat (start + j))"])
  fix i s assume i: "0 \<le> i" "i < n" and I: "snd s = False \<and> emitted argmax start at stride i out0 (fst s) \<and>
    (\<forall>j. 0 \<le> j \<and> j < i \<longrightarrow> drafts ! nat (start + j) = argmax ! nat (start + j))"
  let ?out = "(fst s)[nat (at + i) := argmax ! nat (start + i)]"
  have em: "emitted argmax start at stride (i + 1) out0 ?out"
    using I i assms by (intro emitted_step) auto
  have len: "length (fst s) = length out0" using I by (simp add: emitted_def outside_same_def)
  have step: "greedy_item drafts argmax start at i s =
      Some (if drafts ! nat (start + i) \<noteq> argmax ! nat (start + i) then Brk (?out, True) else Next (?out, snd s))"
    using i assms len by (simp add: greedy_item_def rd_at wr_at)
  show "ok (flow_post (\<lambda>s. snd s = False \<and> emitted argmax start at stride (i + 1) out0 (fst s) \<and>
        (\<forall>j. 0 \<le> j \<and> j < i + 1 \<longrightarrow> drafts ! nat (start + j) = argmax ! nat (start + j)))
      (\<lambda>s. snd s = (agreed drafts argmax start n < n) \<and>
        emitted argmax start at stride (min n (agreed drafts argmax start n + 1)) out0 (fst s)) (\<lambda>_ _. False))
      (greedy_item drafts argmax start at i s)"
  proof (cases "drafts ! nat (start + i) = argmax ! nat (start + i)")
    case True
    have "drafts ! nat (start + j) = argmax ! nat (start + j)" if "0 \<le> j" "j < i + 1" for j
      using I that True by (cases "j = i") auto
    then show ?thesis unfolding step ok_Some using True I em by simp
  next
    case False
    have "agreed drafts argmax start n = i" by (rule agreed_eqI) (use i I False in auto)
    moreover have "min n (i + 1) = i + 1" using i by simp
    ultimately show ?thesis unfolding step ok_Some using False em i by simp
  qed
next
  fix s assume I: "snd s = False \<and> emitted argmax start at stride n out0 (fst s) \<and>
    (\<forall>j. 0 \<le> j \<and> j < n \<longrightarrow> drafts ! nat (start + j) = argmax ! nat (start + j))"
  have "agreed drafts argmax start n = n" by (rule agreed_eqI) (use assms I in auto)
  then show "snd s = (agreed drafts argmax start n < n) \<and>
      emitted argmax start at stride (min n (agreed drafts argmax start n + 1)) out0 (fst s)" using I by simp
qed (use assms in auto)

text \<open>What the call leaves in the row of one request.\<close>

definition greedy_row :: "int list \<Rightarrow> int list \<Rightarrow> int list \<Rightarrow> int list \<Rightarrow> bool \<Rightarrow> int \<Rightarrow> int \<Rightarrow> int" where
  "greedy_row cum drafts argmax bonus active r j =
     (let start = cum ! nat r; n = cum ! nat (r + 1) - start; k = agreed drafts argmax start n in
      if \<not> active \<or> j > k then - 1 else if j < n then argmax ! nat (start + j) else bonus ! nat r)"

text \<open>Cumulative counts: from 0 to the total, never decreasing.\<close>

definition cumulative :: "int list \<Rightarrow> int \<Rightarrow> int \<Rightarrow> bool" where
  "cumulative cum batch n \<longleftrightarrow> batch < int (length cum) \<and> cum ! 0 = 0 \<and> cum ! nat batch = n \<and>
     (\<forall>r. 0 \<le> r \<and> r < batch \<longrightarrow> cum ! nat r \<le> cum ! nat (r + 1))"

lemma cumulative_mono:
  assumes "cumulative cum batch n" "0 \<le> q" "q \<le> r" "r \<le> batch"
  shows "cum ! nat q \<le> cum ! nat r"
  using assms(3,4)
proof (induction "nat (r - q)" arbitrary: r)
  case (Suc k)
  then have "cum ! nat q \<le> cum ! nat (r - 1)" by (intro Suc.hyps(1)) auto
  moreover have "0 \<le> r - 1" "r - 1 < batch" using Suc.hyps(2) Suc.prems assms(2) by auto
  then have "cum ! nat (r - 1) \<le> cum ! nat (r - 1 + 1)" using assms(1) unfolding cumulative_def by blast
  ultimately show ?case by simp
qed simp

lemma cumulative_bounds:
  assumes "cumulative cum batch n" "0 \<le> r" "r < batch"
  shows "0 \<le> cum ! nat r" "cum ! nat r \<le> cum ! nat (r + 1)" "cum ! nat (r + 1) \<le> n"
  using cumulative_mono [OF assms(1), of 0 r] cumulative_mono [OF assms(1), of r "r + 1"]
    cumulative_mono [OF assms(1), of "r + 1" batch] assms by (auto simp: cumulative_def)

lemma valid_cumulative_accepts:
  assumes "cumulative cum batch n" "0 < batch"
  shows "valid_cumulative cum batch n = Some True"
proof -
  have "all_of [0..batch - 1] (\<lambda>r. do { a \<leftarrow> rd cum r; b \<leftarrow> rd cum (r + 1); Some (\<not> a > b) }) =
      Some (\<forall>r \<in> set [0..batch - 1]. \<not> cum ! nat r > cum ! nat (r + 1))"
    by (rule all_of_total) (use assms in \<open>auto simp: cumulative_def rd_at\<close>)
  moreover have "\<forall>r \<in> set [0..batch - 1]. \<not> cum ! nat r > cum ! nat (r + 1)"
    using cumulative_bounds(2) [OF assms(1)] by fastforce
  ultimately show ?thesis
    using assms rd_at [of batch cum] by (cases cum) (simp_all add: valid_cumulative_def cumulative_def rd_def in_buf_def)
qed

lemma greedy_request_ok:
  assumes cum: "cumulative cum batch n" and r: "0 \<le> r" "r < batch" and m: "0 \<le> max_draft" "max_draft < LLONG_MAX"
    and fits: "cum ! nat (r + 1) - cum ! nat r \<le> max_draft" and n: "n \<le> INT_MAX"
    and bufs: "n \<le> int (length drafts)" "n \<le> int (length argmax)" "batch \<le> int (length bonus)"
      "batch * (max_draft + 1) \<le> int (length out)"
    and gm: "use_mask \<Longrightarrow> gmask = Some m \<and> batch \<le> int (length m)"
  shows "ok (flow_post (\<lambda>out'. outside_same (r * (max_draft + 1)) (max_draft + 1) out out' \<and>
      (\<forall>j. 0 \<le> j \<and> j < max_draft + 1 \<longrightarrow> out' ! nat (r * (max_draft + 1) + j) =
        greedy_row cum drafts argmax bonus (\<not> use_mask \<or> m ! nat r \<noteq> 0) r j)) (\<lambda>_. False) (\<lambda>_ _. False))
    (greedy_request cum drafts argmax bonus gmask max_draft use_mask r out)"
proof -
  let ?w = "max_draft + 1" and ?s = "cum ! nat r"
  let ?at = "r * ?w" and ?n = "cum ! nat (r + 1) - ?s"
  note b = cumulative_bounds [OF cum r]
  have at: "0 \<le> ?at" "?at + ?w \<le> int (length out)" using row_bound [of r batch ?w] r m bufs(4) by auto
  obtain out1 where f: "fill_n out ?at ?w (- 1) = Some out1" "outside_same ?at ?w out out1"
      "\<And>q. 0 \<le> q \<Longrightarrow> q < ?w \<Longrightarrow> out1 ! nat (?at + q) = - 1"
    by (rule fill_outside [of ?at ?w out "- 1"]) (use at m in auto)
  have em: "emitted argmax ?s ?at ?w 0 out out1" using f by (simp add: emitted_def)
  have w: "i64 ?w = Some ?w" using m by (simp add: i64_def is_llong_def int_limits)
  have skip: "(if use_mask then (case gmask of None \<Rightarrow> None | Some m \<Rightarrow> do { b \<leftarrow> rd m r; Some (b = 0) }) else Some False) =
      Some (use_mask \<and> m ! nat r = 0)"
    using gm r by (auto simp: rd_at)
  show ?thesis
  proof (cases "use_mask \<and> m ! nat r = 0")
    case True
    then have "greedy_request cum drafts argmax bonus gmask max_draft use_mask r out = Some (Next out1)"
      unfolding greedy_request_def w f(1) skip bind.simps(2) by simp
    then show ?thesis using f True by (simp add: greedy_row_def)
  next
    case False
    have rs: "rd cum r = Some ?s" "rd cum (r + 1) = Some (cum ! nat (r + 1))"
      using cum r by (auto simp: cumulative_def rd_at)
    have len: "i32 ?n = Some ?n" using b n by (simp add: i32_at int_limits)
    let ?k = "agreed drafts argmax ?s ?n"
    let ?go = "\<lambda>(out, rejected). thru (if rejected then Some out else do { b \<leftarrow> rd bonus r; wr out (?at + ?n) b })"
    have step: "greedy_request cum drafts argmax bonus gmask max_draft use_mask r out =
        andthen (for_loop 0 ?n (greedy_item drafts argmax ?s ?at) (out1, False)) fst ?go"
      unfolding greedy_request_def w f(1) skip rs len bind.simps(2) Let_def if_not_P [OF False] using fits by simp
    have "ok (flow_post (\<lambda>s. snd s = (?k < ?n) \<and> emitted argmax ?s ?at ?w (min ?n (?k + 1)) out (fst s))
        (\<lambda>_. False) (\<lambda>_ _. False)) (for_loop 0 ?n (greedy_item drafts argmax ?s ?at) (out1, False))"
      by (rule greedy_items) (use at b fits bufs em in auto)
    then obtain out2 rej where l: "for_loop 0 ?n (greedy_item drafts argmax ?s ?at) (out1, False) = Some (Next (out2, rej))"
      and rej: "rej = (?k < ?n)" and e: "emitted argmax ?s ?at ?w (min ?n (?k + 1)) out out2"
      by (elim flow_nextE) auto
    have k: "0 \<le> ?k" "?k \<le> ?n" using agreed_bounds b by auto
    have o2: "out2 ! nat (?at + j) = (if j < min ?n (?k + 1) then argmax ! nat (?s + j) else - 1)"
      if "0 \<le> j" "j < ?w" for j using e that by (simp add: emitted_def)
    show ?thesis
    proof (cases "?k < ?n")
      case True
      have "out2 ! nat (?at + j) = greedy_row cum drafts argmax bonus (\<not> use_mask \<or> m ! nat r \<noteq> 0) r j"
        if "0 \<le> j" "j < ?w" for j
        using o2 [OF that] True False by (auto simp: greedy_row_def Let_def)
      then show ?thesis unfolding step l andthen_def using rej True e by (simp add: thru_def emitted_def)
    next
      case reject: False
      let ?out = "out2[nat (?at + ?n) := bonus ! nat r]"
      have l2: "length out2 = length out" using e outside_same_length unfolding emitted_def by blast
      have up: "?out ! nat (?at + j) = (if j = ?n then bonus ! nat r else out2 ! nat (?at + j))" if "0 \<le> j" for j
        by (rule nth_update_at) (use at b fits l2 that in auto)
      have kn: "?k = ?n" using k reject by simp
      have "?out ! nat (?at + j) = greedy_row cum drafts argmax bonus (\<not> use_mask \<or> m ! nat r \<noteq> 0) r j"
        if "0 \<le> j" "j < ?w" for j
        using up [OF that(1)] o2 [OF that] False unfolding greedy_row_def Let_def kn by auto
      moreover have "outside_same ?at ?w out ?out"
        by (rule outside_same_trans [OF _ outside_same_update]) (use e at b fits in \<open>auto simp: emitted_def\<close>)
      moreover have "?go (out2, rej) = Some (Next ?out)"
        using rej reject r bufs at b fits l2 by (simp add: rd_at wr_at thru_def)
      ultimately show ?thesis unfolding step l andthen_def by simp
    qed
  qed
qed

text \<open>
  C25: with well-formed cumulative counts, every active request's row receives the target's tokens up to and including
  the first one that differs from its draft; when all drafts agree the bonus token follows them. The rest of the row,
  and the whole row of a masked request, is -1. (\<open>agreed\<close> is the number of leading drafts the target agrees with.)
\<close>

theorem rejection_greedy_sample_accepts_prefix:
  assumes shape: "0 < batch" "0 \<le> max_draft" "max_draft < LLONG_MAX" "0 \<le> n" "n \<le> INT_MAX"
    and cum: "cumulative cum batch n" and fits: "\<forall>r. 0 \<le> r \<and> r < batch \<longrightarrow> cum ! nat (r + 1) - cum ! nat r \<le> max_draft"
    and bufs: "n \<le> int (length drafts)" "n \<le> int (length argmax)" "batch \<le> int (length bonus)"
      "batch \<le> int (length m)" "batch * (max_draft + 1) \<le> int (length out)"
  shows "\<exists>out'. rejection_greedy_sample (Some cum) (Some drafts) (Some argmax) (Some bonus) (Some m) (Some out)
      batch n max_draft use_mask = Some (kOk, Some out') \<and>
    (\<forall>r j. 0 \<le> r \<and> r < batch \<and> 0 \<le> j \<and> j \<le> max_draft \<longrightarrow> out' ! nat (r * (max_draft + 1) + j) =
      (let start = cum ! nat r; drafted = cum ! nat (r + 1) - start; k = agreed drafts argmax start drafted in
       if use_mask \<and> m ! nat r = 0 \<or> j > k then - 1
       else if j < drafted then argmax ! nat (start + j) else bonus ! nat r))"
proof -
  let ?w = "max_draft + 1"
  let ?row = "\<lambda>r out. \<forall>j. 0 \<le> j \<and> j < ?w \<longrightarrow> out ! nat (r * ?w + j) =
    greedy_row cum drafts argmax bonus (\<not> use_mask \<or> m ! nat r \<noteq> 0) r j"
  let ?I = "\<lambda>k out'. length out' = length out \<and> (\<forall>r. 0 \<le> r \<and> r < k \<longrightarrow> ?row r out')"
  have "ok (flow_post (?I batch) (\<lambda>_. False) (\<lambda>_ _. False))
      (for_loop 0 batch (greedy_request cum drafts argmax bonus (Some m) max_draft use_mask) out)"
  proof (rule for_loop_inv [where I = ?I])
    fix k t assume k: "0 \<le> k" "k < batch" and I: "?I k t"
    have fit: "cum ! nat (k + 1) - cum ! nat k \<le> max_draft" using fits k by blast
    have "?I (k + 1) u" if same: "outside_same (k * ?w) ?w t u" and row: "?row k u" for u
    proof (intro conjI allI impI)
      show "length u = length out" using outside_same_length [OF same] I by simp
      fix r j assume r: "0 \<le> r \<and> r < k + 1" and j: "0 \<le> j \<and> j < ?w"
      show "u ! nat (r * ?w + j) = greedy_row cum drafts argmax bonus (\<not> use_mask \<or> m ! nat r \<noteq> 0) r j"
      proof (cases "r = k")
        case False
        have "r * ?w + ?w \<le> int (length t)" using row_bound(2) [of r batch ?w] r k shape bufs(5) I by auto
        then show ?thesis using outside_same_row [OF same False, of j] I r j False by simp
      qed (use row j in simp)
    qed
    moreover have "ok (flow_post (\<lambda>u. outside_same (k * ?w) ?w t u \<and> ?row k u) (\<lambda>_. False) (\<lambda>_ _. False))
        (greedy_request cum drafts argmax bonus (Some m) max_draft use_mask k t)"
      by (rule greedy_request_ok [OF cum k shape(2,3) fit shape(5) bufs(1-3)]) (use bufs(4,5) I in auto)
    ultimately show "ok (flow_post (?I (k + 1)) (?I batch) (\<lambda>_ _. False))
        (greedy_request cum drafts argmax bonus (Some m) max_draft use_mask k t)"
      by (elim ok_mono flow_post_mono) blast+
  qed (use shape in auto)
  then obtain out' where l: "for_loop 0 batch (greedy_request cum drafts argmax bonus (Some m) max_draft use_mask) out =
      Some (Next out')" and I: "?I batch out'" by (elim flow_nextE)
  have "rejection_greedy_sample (Some cum) (Some drafts) (Some argmax) (Some bonus) (Some m) (Some out)
      batch n max_draft use_mask = Some (kOk, Some out')"
    using shape valid_cumulative_accepts [OF cum shape(1)] l by (simp add: rejection_greedy_sample_def finish_def)
  then show ?thesis using I unfolding greedy_row_def Let_def by auto
qed

lemma rejection_greedy_sample_accepts_prefix_witness:
  "\<exists>out'. rejection_greedy_sample (Some [0, 2, 3]) (Some [5, 6, 7]) (Some [5, 9, 7]) (Some [1, 2]) (Some [1, 1])
      (Some (replicate 6 0)) 2 3 2 False = Some (kOk, Some out') \<and> out' ! 0 = 5 \<and> out' ! 1 = 9 \<and> out' ! 2 = - 1 \<and>
      out' ! 3 = 7 \<and> out' ! 4 = 2"
proof -
  have two: "r = 0 \<or> r = 1" if "0 \<le> r \<and> r < 2" for r :: int using that by presburger
  have c: "cumulative [0, 2, 3] 2 3"
    unfolding cumulative_def using two by (auto dest!: two)
  have f: "\<forall>r. 0 \<le> r \<and> r < 2 \<longrightarrow> [0, 2, 3] ! nat (r + 1) - [0, 2, 3] ! nat r \<le> (2 :: int)"
    using two by fastforce
  have a: "agreed [5, 6, 7] [5, 9, 7] 0 2 = 1" "agreed [5, 6, 7] [5, 9, 7] 2 1 = 1"
  proof -
    show "agreed [5, 6, 7] [5, 9, 7] 0 2 = 1"
    proof (rule agreed_eqI)
      fix j :: int assume "0 \<le> j" "j < 1"
      then have "j = 0" by simp
      then show "[5, 6, 7 :: int] ! nat (0 + j) = [5, 9, 7] ! nat (0 + j)" by simp
    qed simp_all
    show "agreed [5, 6, 7] [5, 9, 7] 2 1 = 1"
    proof (rule agreed_eqI)
      fix j :: int assume "0 \<le> j" "j < 1"
      then have "j = 0" by simp
      then show "[5, 6, 7 :: int] ! nat (2 + j) = [5, 9, 7] ! nat (2 + j)" by simp
    qed simp_all
  qed
  obtain out' where "rejection_greedy_sample (Some [0, 2, 3]) (Some [5, 6, 7]) (Some [5, 9, 7]) (Some [1, 2]) (Some [1, 1])
      (Some (replicate 6 0)) 2 3 2 False = Some (kOk, Some out')"
    and o: "\<forall>r j. 0 \<le> r \<and> r < 2 \<and> 0 \<le> j \<and> j \<le> 2 \<longrightarrow> out' ! nat (r * (2 + 1) + j) =
      (let start = [0, 2, 3] ! nat r; drafted = [0, 2, 3] ! nat (r + 1) - start; k = agreed [5, 6, 7] [5, 9, 7] start drafted in
       if False \<and> [1, 1 :: u8] ! nat r = 0 \<or> j > k then - 1
       else if j < drafted then [5, 9, 7] ! nat (start + j) else [1, 2] ! nat r)"
    using rejection_greedy_sample_accepts_prefix [of 2 2 3 "[0, 2, 3]" "[5, 6, 7]" "[5, 9, 7]" "[1, 2]" "[1, 1]" "replicate 6 0" False,
      OF _ _ _ _ _ c f] by (auto simp: int_limits)
  then show ?thesis
    using o [rule_format, of 0 0] o [rule_format, of 0 1] o [rule_format, of 0 2] o [rule_format, of 1 0] o [rule_format, of 1 1]
    by (simp add: a)
qed

end
