(* ===== verification/Grid.thy ===== *)
theory Grid
  imports Kernel_Loops
begin

text \<open>
  Rules for the loops of the element-moving kernels: a loop that replaces the elements of a segment, and loops over
  rows that each replace their own row, serially or in a parallel region.
\<close>

text \<open>\<open>body j\<close> replaces element \<open>base + j\<close>.\<close>

lemma seg_loop:
  assumes "0 \<le> base" "0 \<le> n" "base + n \<le> int (length xs)"
    and body: "\<And>j d. 0 \<le> j \<Longrightarrow> j < n \<Longrightarrow> outside_same base n xs d \<Longrightarrow>
      (\<And>k. j \<le> k \<Longrightarrow> k < n \<Longrightarrow> d ! nat (base + k) = xs ! nat (base + k)) \<Longrightarrow>
      body j d = Some (d[nat (base + j) := y j])"
  shows "ok (\<lambda>d. outside_same base n xs d \<and> (\<forall>j. 0 \<le> j \<and> j < n \<longrightarrow> d ! nat (base + j) = y j)) (loop 0 n body xs)"
proof -
  let ?I = "\<lambda>i d. outside_same base n xs d \<and>
    (\<forall>j. 0 \<le> j \<and> j < n \<longrightarrow> d ! nat (base + j) = (if j < i then y j else xs ! nat (base + j)))"
  have "ok (?I n) (loop 0 n body xs)"
  proof (rule loop_inv [where I = ?I])
    fix i d assume i: "0 \<le> i" "i < n" and I: "?I i d"
    have step: "body i d = Some (d[nat (base + i) := y i])" by (rule body) (use i I in auto)
    have len: "length d = length xs" using I outside_same_length by blast
    have up: "d[nat (base + i) := y i] ! nat (base + j) = (if j = i then y i else d ! nat (base + j))" if "0 \<le> j" for j
      by (rule nth_update_at) (use assms i len that in auto)
    have "outside_same base n xs (d[nat (base + i) := y i])"
      by (rule outside_same_trans [OF _ outside_same_update]) (use I assms i in auto)
    then show "ok (?I (i + 1)) (body i d)" unfolding step ok_Some using up I by auto
  qed (use assms in auto)
  then show ?thesis by (rule ok_mono) simp
qed

text \<open>Rows of \<open>n\<close> elements, each written by its own item.\<close>

definition rows_are :: "int \<Rightarrow> int \<Rightarrow> (int \<Rightarrow> int \<Rightarrow> 'a) \<Rightarrow> 'a list \<Rightarrow> 'a list \<Rightarrow> bool" where
  "rows_are n rows y xs ys \<longleftrightarrow> length ys = length xs \<and>
     (\<forall>r j. 0 \<le> r \<and> r < rows \<and> 0 \<le> j \<and> j < n \<longrightarrow> ys ! nat (r * n + j) = y r j) \<and>
     (\<forall>i < length xs. rows * n \<le> int i \<longrightarrow> ys ! i = xs ! i)"

lemma rows_areD:
  "rows_are n rows y xs ys \<Longrightarrow> 0 \<le> r \<Longrightarrow> r < rows \<Longrightarrow> 0 \<le> j \<Longrightarrow> j < n \<Longrightarrow> ys ! nat (r * n + j) = y r j"
  by (simp add: rows_are_def)

lemma rows_are_length: "rows_are n rows y xs ys \<Longrightarrow> length ys = length xs"
  by (simp add: rows_are_def)

lemma rows_are_unique:
  assumes "rows_are n rows y xs ys" "rows_are n rows y xs zs" "0 < n" "0 \<le> rows"
  shows "ys = zs"
proof (rule nth_equalityI)
  show "length ys = length zs" using assms by (simp add: rows_are_def)
  fix i assume "i < length ys"
  then have i: "i < length xs" using assms by (simp add: rows_are_def)
  show "ys ! i = zs ! i"
  proof (cases "int i < rows * n")
    case True
    note d = div_mod_bound [of "int i" rows n, OF _ True assms(3)]
    have "ys ! nat (int i div n * n + int i mod n) = zs ! nat (int i div n * n + int i mod n)"
      using rows_areD [OF assms(1) d(1-4)] rows_areD [OF assms(2) d(1-4)] by simp
    then show ?thesis using d(5) by simp
  next
    case False
    then show ?thesis using assms i by (simp add: rows_are_def)
  qed
qed

lemma rows_each:
  assumes "distinct is" "set is = {0..<rows}" "0 \<le> rows" "0 \<le> n" "rows * n \<le> int (length xs)"
    and body: "\<And>r t. 0 \<le> r \<Longrightarrow> r < rows \<Longrightarrow> length t = length xs \<Longrightarrow>
      (\<And>j. 0 \<le> j \<Longrightarrow> j < n \<Longrightarrow> t ! nat (r * n + j) = xs ! nat (r * n + j)) \<Longrightarrow>
      ok (\<lambda>u. outside_same (r * n) n t u \<and> (\<forall>j. 0 \<le> j \<and> j < n \<longrightarrow> u ! nat (r * n + j) = y r j)) (body r t)"
  shows "ok (rows_are n rows y xs) (each is body xs)"
proof -
  let ?I = "\<lambda>D u. length u = length xs \<and>
    (\<forall>r j. 0 \<le> r \<and> r < rows \<and> 0 \<le> j \<and> j < n \<longrightarrow> u ! nat (r * n + j) = (if r \<in> D then y r j else xs ! nat (r * n + j))) \<and>
    (\<forall>i < length xs. rows * n \<le> int i \<longrightarrow> u ! i = xs ! i)"
  have "ok (?I (set is)) (each is body xs)"
  proof (rule each_inv [OF assms(1), where I = ?I])
    fix r D t assume r: "r \<in> set is" "r \<notin> D" and I: "?I D t"
    then have r0: "0 \<le> r" "r < rows" using assms(2) by auto
    have "ok (\<lambda>u. outside_same (r * n) n t u \<and> (\<forall>j. 0 \<le> j \<and> j < n \<longrightarrow> u ! nat (r * n + j) = y r j)) (body r t)"
      by (rule body) (use r0 r I in auto)
    then show "ok (?I (insert r D)) (body r t)"
    proof (rule ok_mono)
      fix u assume u: "outside_same (r * n) n t u \<and> (\<forall>j. 0 \<le> j \<and> j < n \<longrightarrow> u ! nat (r * n + j) = y r j)"
      show "?I (insert r D) u"
      proof (intro conjI allI impI)
        show "length u = length xs" using u I outside_same_length by metis
      next
        fix q j assume q: "0 \<le> q \<and> q < rows \<and> 0 \<le> j \<and> j < n"
        show "u ! nat (q * n + j) = (if q \<in> insert r D then y q j else xs ! nat (q * n + j))"
        proof (cases "q = r")
          case False
          have "q * n + n \<le> int (length t)" using row_bound(2) [of q rows n] q assms I by auto
          then have "u ! nat (q * n + j) = t ! nat (q * n + j)"
            using outside_same_row [of r n t u q j] u False q by auto
          then show ?thesis using I q False by simp
        qed (use u q in simp)
      next
        fix i assume i: "i < length xs" "rows * n \<le> int i"
        have "r * n + n \<le> rows * n" using row_bound(2) [of r rows n] r0 assms by simp
        then show "u ! i = xs ! i" using u I i by (auto simp: outside_same_def)
      qed
    qed
  qed (use assms(1) in auto)
  then show ?thesis by (rule ok_mono) (auto simp: rows_are_def assms(2))
qed

lemma rows_loop:
  assumes "0 \<le> rows" "0 \<le> n" "rows * n \<le> int (length xs)"
    and "\<And>r t. 0 \<le> r \<Longrightarrow> r < rows \<Longrightarrow> length t = length xs \<Longrightarrow>
      (\<And>j. 0 \<le> j \<Longrightarrow> j < n \<Longrightarrow> t ! nat (r * n + j) = xs ! nat (r * n + j)) \<Longrightarrow>
      ok (\<lambda>u. outside_same (r * n) n t u \<and> (\<forall>j. 0 \<le> j \<and> j < n \<longrightarrow> u ! nat (r * n + j) = y r j)) (body r t)"
  shows "ok (rows_are n rows y xs) (loop 0 rows body xs)"
  unfolding loop_def by (rule rows_each) (use assms in auto)

lemma rows_parallel:
  assumes "region_calls rows cs" "0 \<le> rows" "0 \<le> n" "rows * n \<le> int (length xs)"
    and "\<And>r t. 0 \<le> r \<Longrightarrow> r < rows \<Longrightarrow> length t = length xs \<Longrightarrow>
      (\<And>j. 0 \<le> j \<Longrightarrow> j < n \<Longrightarrow> t ! nat (r * n + j) = xs ! nat (r * n + j)) \<Longrightarrow>
      ok (\<lambda>u. outside_same (r * n) n t u \<and> (\<forall>j. 0 \<le> j \<and> j < n \<longrightarrow> u ! nat (r * n + j) = y r j)) (body r t)"
  shows "ok (rows_are n rows y xs) (parallel_ranges cs body xs)"
  unfolding parallel_ranges_def by (rule rows_each) (use assms region_items [OF assms(1)] in auto)

text \<open>The common case: two nested loops that compute every element of a matrix.\<close>

lemma grid_loop:
  assumes "0 \<le> rows" "0 \<le> n" "rows * n \<le> int (length xs)"
    and body: "\<And>r j d. 0 \<le> r \<Longrightarrow> r < rows \<Longrightarrow> 0 \<le> j \<Longrightarrow> j < n \<Longrightarrow> length d = length xs \<Longrightarrow>
      d ! nat (r * n + j) = xs ! nat (r * n + j) \<Longrightarrow> body r j d = Some (d[nat (r * n + j) := y r j])"
  shows "ok (rows_are n rows y xs) (loop 0 rows (\<lambda>r. loop 0 n (body r)) xs)"
proof (rule rows_loop [OF assms(1-3)])
  fix r and t :: "'a list" assume r: "0 \<le> r" "r < rows" and t: "length t = length xs"
    and e: "\<And>j. 0 \<le> j \<Longrightarrow> j < n \<Longrightarrow> t ! nat (r * n + j) = xs ! nat (r * n + j)"
  show "ok (\<lambda>u. outside_same (r * n) n t u \<and> (\<forall>j. 0 \<le> j \<and> j < n \<longrightarrow> u ! nat (r * n + j) = y r j)) (loop 0 n (body r) t)"
  proof (rule seg_loop)
    show "0 \<le> r * n" "0 \<le> n" "r * n + n \<le> int (length t)" using row_bound [of r rows n] r assms t by auto
  next
    fix j and d :: "'a list" assume j: "0 \<le> j" "j < n" and o: "outside_same (r * n) n t d"
      and l: "\<And>k. j \<le> k \<Longrightarrow> k < n \<Longrightarrow> d ! nat (r * n + k) = t ! nat (r * n + k)"
    show "body r j d = Some (d[nat (r * n + j) := y r j])"
      by (rule body [OF r j]) (use outside_same_length [OF o] t l [of j] e j in auto)
  qed
qed

text \<open>Vectors are rows of one element.\<close>

lemma vec_each:
  assumes "distinct is" "set is = {0..<n}" "0 \<le> n" "n \<le> int (length xs)"
    and body: "\<And>i d. 0 \<le> i \<Longrightarrow> i < n \<Longrightarrow> length d = length xs \<Longrightarrow> d ! nat i = xs ! nat i \<Longrightarrow> body i d = Some (d[nat i := y i])"
  shows "ok (rows_are 1 n (\<lambda>i _. y i) xs) (each is body xs)"
proof (rule rows_each [OF assms(1,2,3)])
  fix r and t :: "'a list" assume r: "0 \<le> r" "r < n" and t: "length t = length xs"
    and e: "\<And>j. 0 \<le> j \<Longrightarrow> j < 1 \<Longrightarrow> t ! nat (r * 1 + j) = xs ! nat (r * 1 + j)"
  have b: "body r t = Some (t[nat r := y r])" using body [OF r t] e [of 0] by simp
  have "outside_same r 1 t (t[nat r := y r])" using outside_same_update [of r 0 1 t "y r"] r by simp
  moreover have "t[nat r := y r] ! nat r = y r" using r t assms(4) by simp
  moreover have "j = 0" if "0 \<le> j" "j < 1" for j :: int using that by simp
  ultimately show "ok (\<lambda>u. outside_same (r * 1) 1 t u \<and> (\<forall>j. 0 \<le> j \<and> j < 1 \<longrightarrow> u ! nat (r * 1 + j) = y r)) (body r t)"
    unfolding b ok_Some by fastforce
qed (use assms in auto)

section \<open>Moving rows\<close>

text \<open>Two nested loops that copy row \<open>s l h\<close> to row \<open>d l h\<close>, with different destinations.\<close>

lemma copy_rows_2d:
  assumes w: "0 < w" and n: "0 \<le> n" "0 \<le> hs" "ms * w \<le> int (length src)" "m * w \<le> int (length dst)"
    and s: "\<And>l h. 0 \<le> l \<Longrightarrow> l < n \<Longrightarrow> 0 \<le> h \<Longrightarrow> h < hs \<Longrightarrow> 0 \<le> s l h \<and> s l h < ms"
    and d: "\<And>l h. 0 \<le> l \<Longrightarrow> l < n \<Longrightarrow> 0 \<le> h \<Longrightarrow> h < hs \<Longrightarrow> 0 \<le> d l h \<and> d l h < m"
    and inj: "\<And>l h l' h'. 0 \<le> l \<Longrightarrow> l < n \<Longrightarrow> 0 \<le> h \<Longrightarrow> h < hs \<Longrightarrow> 0 \<le> l' \<Longrightarrow> l' < n \<Longrightarrow> 0 \<le> h' \<Longrightarrow> h' < hs \<Longrightarrow>
      d l h = d l' h' \<Longrightarrow> l = l' \<and> h = h'"
  shows "ok (\<lambda>dst'. length dst' = length dst \<and>
      (\<forall>l h. 0 \<le> l \<and> l < n \<and> 0 \<le> h \<and> h < hs \<longrightarrow> row w dst' (d l h) = row w src (s l h)) \<and>
      (\<forall>k. 0 \<le> k \<and> k < m \<and> (\<forall>l h. 0 \<le> l \<and> l < n \<and> 0 \<le> h \<and> h < hs \<longrightarrow> k \<noteq> d l h) \<longrightarrow> row w dst' k = row w dst k))
    (loop 0 n (\<lambda>l. loop 0 hs (\<lambda>h dst. copy_n src (s l h * w) w dst (d l h * w))) dst)"
proof -
  let ?done = "\<lambda>L H l h. 0 \<le> l \<and> 0 \<le> h \<and> h < hs \<and> (l < L \<or> l = L \<and> h < H)"
  let ?I = "\<lambda>L H dst'. length dst' = length dst \<and>
    (\<forall>l h. ?done L H l h \<longrightarrow> row w dst' (d l h) = row w src (s l h)) \<and>
    (\<forall>k. 0 \<le> k \<and> k < m \<and> (\<forall>l h. ?done L H l h \<longrightarrow> k \<noteq> d l h) \<longrightarrow> row w dst' k = row w dst k)"
  have "ok (?I n 0) (loop 0 n (\<lambda>l. loop 0 hs (\<lambda>h dst. copy_n src (s l h * w) w dst (d l h * w))) dst)"
  proof (rule loop_inv [where I = "\<lambda>L. ?I L 0"])
    fix L t assume L: "0 \<le> L" "L < n" and I: "?I L 0 t"
    have "ok (?I L hs) (loop 0 hs (\<lambda>h dst. copy_n src (s L h * w) w dst (d L h * w)) t)"
    proof (rule loop_inv [where I = "?I L"])
      fix H u assume H: "0 \<le> H" "H < hs" and I: "?I L H u"
      have u: "m * w \<le> int (length u)" using I n by simp
      obtain v where v: "copy_n src (s L H * w) w u (d L H * w) = Some v" "length v = length u"
          "\<And>k. 0 \<le> k \<Longrightarrow> k < m \<Longrightarrow> row w v k = (if k = d L H then row w src (s L H) else row w u k)"
        by (rule copy_row_effect [of "s L H" ms "d L H" m w src u]) (use s [OF L H] d [OF L H] w n u in auto)
      have one: "?done L (H + 1) l h \<longleftrightarrow> ?done L H l h \<or> l = L \<and> h = H" for l h using L H by auto
      have "?I L (H + 1) v"
      proof (intro conjI allI impI)
        show "length v = length dst" using v(2) I by simp
      next
        fix l h assume lh: "?done L (H + 1) l h"
        then have b: "0 \<le> l" "l < n" "0 \<le> h" "h < hs" using L by auto
        then have "row w v (d l h) = (if d l h = d L H then row w src (s L H) else row w u (d l h))"
          using v(3) d by simp
        moreover have "d l h = d L H \<Longrightarrow> l = L \<and> h = H" using inj [OF b L H] .
        moreover have "d l h \<noteq> d L H \<Longrightarrow> ?done L H l h" using lh one by auto
        ultimately show "row w v (d l h) = row w src (s l h)" using I by (cases "d l h = d L H") auto
      next
        fix k assume k: "0 \<le> k \<and> k < m \<and> (\<forall>l h. ?done L (H + 1) l h \<longrightarrow> k \<noteq> d l h)"
        then have "k \<noteq> d L H" "\<forall>l h. ?done L H l h \<longrightarrow> k \<noteq> d l h" using L H unfolding one by blast+
        then show "row w v k = row w dst k" using v(3) [of k] k I by simp
      qed
      then show "ok (?I L (H + 1)) (copy_n src (s L H * w) w u (d L H * w))" unfolding v(1) ok_Some .
    qed (use n I in auto)
    moreover have "?done L hs l h \<longleftrightarrow> ?done (L + 1) 0 l h" for l h by auto
    ultimately show "ok (?I (L + 1) 0) (loop 0 hs (\<lambda>h dst. copy_n src (s L h * w) w dst (d L h * w)) t)" by simp
  qed (use n in auto)
  then show ?thesis
  proof (rule ok_mono)
    fix dst' assume I: "?I n 0 dst'"
    have "?done n 0 l h \<longleftrightarrow> 0 \<le> l \<and> l < n \<and> 0 \<le> h \<and> h < hs" for l h by auto
    then show "length dst' = length dst \<and>
      (\<forall>l h. 0 \<le> l \<and> l < n \<and> 0 \<le> h \<and> h < hs \<longrightarrow> row w dst' (d l h) = row w src (s l h)) \<and>
      (\<forall>k. 0 \<le> k \<and> k < m \<and> (\<forall>l h. 0 \<le> l \<and> l < n \<and> 0 \<le> h \<and> h < hs \<longrightarrow> k \<noteq> d l h) \<longrightarrow> row w dst' k = row w dst k)"
      using I by simp
  qed
qed

section \<open>Accumulating passes\<close>

text \<open>A loop each of whose passes combines every element with a value of its own.\<close>

lemma accumulate_passes:
  assumes "0 \<le> world"
    and pass: "\<And>q t. 0 \<le> q \<Longrightarrow> q < world \<Longrightarrow> length t = length xs \<Longrightarrow>
      ok (\<lambda>u. length u = length xs \<and> (\<forall>i. 0 \<le> i \<and> i < n \<longrightarrow> u ! nat i = f (t ! nat i) (v q i))) (body q t)"
  shows "ok (\<lambda>u. length u = length xs \<and>
      (\<forall>i. 0 \<le> i \<and> i < n \<longrightarrow> u ! nat i = foldl (\<lambda>s q. f s (v q i)) (xs ! nat i) [0..world - 1])) (loop 0 world body xs)"
proof (rule loop_inv [where I = "\<lambda>k u. length u = length xs \<and>
    (\<forall>i. 0 \<le> i \<and> i < n \<longrightarrow> u ! nat i = foldl (\<lambda>s q. f s (v q i)) (xs ! nat i) [0..k - 1])"])
  fix k t assume k: "0 \<le> k" "k < world" and I: "length t = length xs \<and>
    (\<forall>i. 0 \<le> i \<and> i < n \<longrightarrow> t ! nat i = foldl (\<lambda>s q. f s (v q i)) (xs ! nat i) [0..k - 1])"
  have "[0..k + 1 - 1] = [0..k - 1] @ [k]" using upto_rec2 [of 0 k] k by simp
  then show "ok (\<lambda>u. length u = length xs \<and>
      (\<forall>i. 0 \<le> i \<and> i < n \<longrightarrow> u ! nat i = foldl (\<lambda>s q. f s (v q i)) (xs ! nat i) [0..k + 1 - 1])) (body k t)"
    using pass [OF k conjunct1 [OF I]] I by (auto elim!: ok_mono)
qed (use assms(1) in auto)

text \<open>A loop that folds values into a scalar.\<close>

lemma fold_loop:
  assumes "0 \<le> n" "\<And>i s. 0 \<le> i \<Longrightarrow> i < n \<Longrightarrow> body i s = Some (f s i)"
  shows "loop 0 n body s0 = Some (foldl f s0 [0..n - 1])"
proof -
  have "ok (\<lambda>s. s = foldl f s0 [0..n - 1]) (loop 0 n body s0)"
  proof (rule loop_inv [where I = "\<lambda>k s. s = foldl f s0 [0..k - 1]"])
    fix k s assume k: "0 \<le> k" "k < n" "s = foldl f s0 [0..k - 1]"
    have "[0..k + 1 - 1] = [0..k - 1] @ [k]" using upto_rec2 [of 0 k] k by simp
    then show "ok (\<lambda>s. s = foldl f s0 [0..k + 1 - 1]) (body k s)" using assms(2) [OF k(1,2)] k(3) by simp
  qed (use assms(1) in auto)
  then show ?thesis by (auto simp: ok_def)
qed

end
