(* ===== verification/Varlen.thy ===== *)
theory Varlen
  imports Speculative Grid
begin

text \<open>
  \<^verbatim>\<open>kernels/attention/varlen_metadata_ref.cpp\<close>: batches of sequences of different lengths, packed one after the
  other, cut into tiles and moved to a padded layout with one block of rows per head, and back.
\<close>

section \<open>Definitions\<close>

text \<open>\<^verbatim>\<open>for (i = lo; i < hi; i += step) body\<close>, with early exits.\<close>

definition for_step :: "int \<Rightarrow> int \<Rightarrow> int \<Rightarrow> (int \<Rightarrow> 's \<Rightarrow> 's flow option) \<Rightarrow> 's \<Rightarrow> 's flow option" where
  "for_step lo hi step body = for_loop 0 (cdiv (hi - lo + step - 1) step) (\<lambda>k. body (lo + k * step))"

record worklist =
  padded_offsets :: "int list"
  sequence_lengths :: "int list"
  tile_sequence :: "int list"
  tile_local_start :: "int list"
  tiles :: int

definition add_tile :: "int \<Rightarrow> int \<Rightarrow> int \<Rightarrow> int \<Rightarrow> worklist \<Rightarrow> worklist flow option" where
  "add_tile max_tiles tile_rows r local s =
     (if tiles s \<ge> max_tiles then Some (Ret kInvalidShape s)
      else thru (do {
        q \<leftarrow> wr (tile_sequence s) (tiles s) (narrow_int r);
        l \<leftarrow> wr (tile_local_start s) (tiles s) local;
        _ \<leftarrow> i32 (local + tile_rows);
        Some (s\<lparr>tile_sequence := q, tile_local_start := l, tiles := tiles s + 1\<rparr>) }))"

definition worklist_request :: "int list \<Rightarrow> int \<Rightarrow> int \<Rightarrow> int \<Rightarrow> worklist \<Rightarrow> worklist flow option" where
  "worklist_request cum max_tiles tile_rows r s =
     do { b \<leftarrow> rd cum (r + 1); a \<leftarrow> rd cum r;
          len \<leftarrow> i32 (b - a);
          if len < 0 then Some (Ret kInvalidArgument s)
          else do {
            lens \<leftarrow> wr (sequence_lengths s) r len;
            up \<leftarrow> i32 (len + tile_rows);
            padded \<leftarrow> i32 (cdiv (up - 1) tile_rows * tile_rows);
            p \<leftarrow> rd (padded_offsets s) r;
            next \<leftarrow> i32 (p + padded);
            offs \<leftarrow> wr (padded_offsets s) (r + 1) next;
            for_step 0 len tile_rows (add_tile max_tiles tile_rows r)
              (s\<lparr>sequence_lengths := lens, padded_offsets := offs\<rparr>) } }"

definition varlen_build_worklist ::
  "int ptr \<Rightarrow> int ptr \<Rightarrow> int ptr \<Rightarrow> int ptr \<Rightarrow> int ptr \<Rightarrow> int ptr \<Rightarrow> int \<Rightarrow> int \<Rightarrow> int \<Rightarrow>
    (status \<times> int ptr \<times> int ptr \<times> int ptr \<times> int ptr \<times> int ptr) option" where
  "varlen_build_worklist cumulative_lengths padded lengths tile_seq tile_start tile_count batch max_tiles tile_rows =
     (if batch \<le> 0 \<or> max_tiles \<le> 0 \<or> tile_rows \<le> 0
      then Some (kInvalidShape, padded, lengths, tile_seq, tile_start, tile_count)
      else case (cumulative_lengths, padded, lengths, tile_seq, tile_start, tile_count) of
        (Some cum, Some po, Some lens, Some ts, Some tls, Some tc) \<Rightarrow> do {
          c0 \<leftarrow> rd cum 0;
          if c0 \<noteq> 0 then Some (kInvalidArgument, padded, lengths, tile_seq, tile_start, tile_count)
          else do {
            po \<leftarrow> wr po 0 0;
            (st, s) \<leftarrow> finish (for_loop 0 batch (worklist_request cum max_tiles tile_rows)
              \<lparr>padded_offsets = po, sequence_lengths = lens, tile_sequence = ts, tile_local_start = tls, tiles = 0\<rparr>);
            if st \<noteq> kOk
            then Some (st, Some (padded_offsets s), Some (sequence_lengths s), Some (tile_sequence s),
              Some (tile_local_start s), Some tc)
            else do {
              ts \<leftarrow> fill_n (tile_sequence s) (tiles s) (max_tiles - tiles s) (- 1);
              tls \<leftarrow> fill_n (tile_local_start s) (tiles s) (max_tiles - tiles s) (- 1);
              tc \<leftarrow> wr tc 0 (narrow_int (tiles s));
              Some (kOk, Some (padded_offsets s), Some (sequence_lengths s), Some ts, Some tls, Some tc) } } }
      | _ \<Rightarrow> Some (kInvalidArgument, padded, lengths, tile_seq, tile_start, tile_count))"

text \<open>The test of the offsets both copies start with.\<close>

definition offsets_match :: "int list \<Rightarrow> int list \<Rightarrow> int \<Rightarrow> int \<Rightarrow> int \<Rightarrow> bool option" where
  "offsets_match cum po batch total_tokens total_padded =
     do { c0 \<leftarrow> rd cum 0;
          if c0 \<noteq> 0 then Some False
          else do {
            cn \<leftarrow> rd cum batch;
            if cn \<noteq> total_tokens then Some False
            else do {
              p0 \<leftarrow> rd po 0;
              if p0 \<noteq> 0 then Some False
              else do { pn \<leftarrow> rd po batch; Some (pn = total_padded) } } } }"

definition pad_request ::
  "'f list \<Rightarrow> int list \<Rightarrow> int list \<Rightarrow> int \<Rightarrow> int \<Rightarrow> int \<Rightarrow> int \<Rightarrow> 'f list \<Rightarrow> 'f list flow option" where
  "pad_request src cum po heads head_dim total_padded r dst =
     do { b \<leftarrow> rd cum (r + 1); a \<leftarrow> rd cum r;
          len \<leftarrow> i32 (b - a);
          if len < 0 then Some (Ret kInvalidArgument dst)
          else do {
            q \<leftarrow> rd po (r + 1); p \<leftarrow> rd po r;
            room \<leftarrow> i32 (q - p);
            if room < len then Some (Ret kInvalidArgument dst)
            else thru (loop 0 len (\<lambda>local. loop 0 heads (\<lambda>head dst.
              copy_n src (((a + local) * heads + head) * head_dim) head_dim
                dst ((head * total_padded + (p + local)) * head_dim))) dst) } }"

definition varlen_pad_q ::
  "'f \<Rightarrow> 'f ptr \<Rightarrow> int ptr \<Rightarrow> int ptr \<Rightarrow> 'f ptr \<Rightarrow> int \<Rightarrow> int \<Rightarrow> int \<Rightarrow> int \<Rightarrow> int \<Rightarrow> (status \<times> 'f ptr) option" where
  "varlen_pad_q zero packed cumulative_lengths offsets padded_head_major
      batch heads head_dim total_tokens total_padded =
     (if \<not> valid_product [batch, heads, head_dim, total_tokens, total_padded] then Some (kInvalidShape, padded_head_major)
      else case (packed, cumulative_lengths, offsets, padded_head_major) of
        (Some src, Some cum, Some po, Some dst) \<Rightarrow> do {
          good \<leftarrow> offsets_match cum po batch total_tokens total_padded;
          if \<not> good then Some (kInvalidArgument, padded_head_major)
          else do {
            dst \<leftarrow> fill_n dst 0 (heads * total_padded * head_dim) zero;
            (st, dst) \<leftarrow> finish (for_loop 0 batch (pad_request src cum po heads head_dim total_padded) dst);
            Some (st, Some dst) } }
      | _ \<Rightarrow> Some (kInvalidArgument, padded_head_major))"

definition regather_request ::
  "'f list \<Rightarrow> int list \<Rightarrow> int list \<Rightarrow> int \<Rightarrow> int \<Rightarrow> int \<Rightarrow> int \<Rightarrow> 'f list \<Rightarrow> 'f list flow option" where
  "regather_request src cum po heads head_dim total_padded r dst =
     do { b \<leftarrow> rd cum (r + 1); a \<leftarrow> rd cum r;
          len \<leftarrow> i32 (b - a);
          if len < 0 then Some (Ret kInvalidArgument dst)
          else thru (loop 0 len (\<lambda>local dst. do {
            p \<leftarrow> rd po r;
            loop 0 heads (\<lambda>head dst.
              copy_n src ((head * total_padded + (p + local)) * head_dim) head_dim
                dst (((a + local) * heads + head) * head_dim)) dst }) dst) }"

definition varlen_regather_o ::
  "'f ptr \<Rightarrow> int ptr \<Rightarrow> int ptr \<Rightarrow> 'f ptr \<Rightarrow> int \<Rightarrow> int \<Rightarrow> int \<Rightarrow> int \<Rightarrow> int \<Rightarrow> (status \<times> 'f ptr) option" where
  "varlen_regather_o padded_head_major cumulative_lengths offsets packed
      batch heads head_dim total_tokens total_padded =
     (if \<not> valid_product [batch, heads, head_dim, total_tokens, total_padded] then Some (kInvalidShape, packed)
      else case (padded_head_major, cumulative_lengths, offsets, packed) of
        (Some src, Some cum, Some po, Some dst) \<Rightarrow> do {
          good \<leftarrow> offsets_match cum po batch total_tokens total_padded;
          if \<not> good then Some (kInvalidArgument, packed)
          else do {
            (st, dst) \<leftarrow> finish (for_loop 0 batch (regather_request src cum po heads head_dim total_padded) dst);
            Some (st, Some dst) } }
      | _ \<Rightarrow> Some (kInvalidArgument, packed))"

section \<open>Padding and gathering back\<close>

text \<open>Offsets of the padded layout leave room for every sequence.\<close>

definition padded_layout :: "int list \<Rightarrow> int list \<Rightarrow> int \<Rightarrow> int \<Rightarrow> int \<Rightarrow> bool" where
  "padded_layout cum po batch total_tokens total_padded \<longleftrightarrow>
     cumulative cum batch total_tokens \<and> batch < int (length po) \<and> po ! 0 = 0 \<and> po ! nat batch = total_padded \<and>
     (\<forall>r. 0 \<le> r \<and> r < batch \<longrightarrow> cum ! nat (r + 1) - cum ! nat r \<le> po ! nat (r + 1) - po ! nat r)"

text \<open>\<open>sequence_at cum r l\<close>: token \<open>l\<close> of request \<open>r\<close> exists.\<close>

definition token_of :: "int list \<Rightarrow> int \<Rightarrow> int \<Rightarrow> bool" where
  "token_of cum r l \<longleftrightarrow> 0 \<le> l \<and> l < cum ! nat (r + 1) - cum ! nat r"

lemma padded_layout_cumulative:
  assumes "padded_layout cum po batch t p"
  shows "cumulative po batch p"
  unfolding cumulative_def
proof (intro conjI allI impI)
  fix r assume r: "0 \<le> r \<and> r < batch"
  then have "cum ! nat r \<le> cum ! nat (r + 1)" using assms by (auto simp: padded_layout_def cumulative_def)
  moreover have "cum ! nat (r + 1) - cum ! nat r \<le> po ! nat (r + 1) - po ! nat r"
    using assms r by (auto simp: padded_layout_def)
  ultimately show "po ! nat r \<le> po ! nat (r + 1)" by simp
qed (use assms in \<open>auto simp: padded_layout_def\<close>)

lemma token_bounds:
  assumes "cumulative cum batch t" "0 \<le> r" "r < batch" "token_of cum r l"
  shows "0 \<le> cum ! nat r + l" "cum ! nat r + l < t" "cum ! nat r + l < cum ! nat (r + 1)"
  using cumulative_bounds [OF assms(1-3)] assms(4) by (auto simp: token_of_def)

lemma varlen_padded_bounds:
  assumes "padded_layout cum po batch t p" "0 \<le> r" "r < batch" "token_of cum r l"
  shows "0 \<le> po ! nat r + l" "po ! nat r + l < p" "po ! nat r + l < po ! nat (r + 1)"
proof -
  have "cum ! nat (r + 1) - cum ! nat r \<le> po ! nat (r + 1) - po ! nat r"
    using assms by (auto simp: padded_layout_def)
  then show "0 \<le> po ! nat r + l" "po ! nat r + l < p" "po ! nat r + l < po ! nat (r + 1)"
    using cumulative_bounds [OF padded_layout_cumulative [OF assms(1)] assms(2,3)] assms(4) by (auto simp: token_of_def)
qed

text \<open>Different requests own different positions.\<close>

lemma segment_unique:
  assumes "cumulative c batch t" "0 \<le> r" "r < batch" "0 \<le> q" "q < batch"
    and "c ! nat r \<le> x" "x < c ! nat (r + 1)" "c ! nat q \<le> x" "x < c ! nat (q + 1)"
  shows "r = q"
proof (rule ccontr)
  assume "r \<noteq> q"
  then consider "r + 1 \<le> q" | "q + 1 \<le> r" by linarith
  then show False
    using cumulative_mono [OF assms(1), of "r + 1" q] cumulative_mono [OF assms(1), of "q + 1" r] assms by cases auto
qed

lemma segment_exists:
  assumes "cumulative c batch t" "0 \<le> batch" "0 \<le> x" "x < t"
  shows "\<exists>r. 0 \<le> r \<and> r < batch \<and> c ! nat r \<le> x \<and> x < c ! nat (r + 1)"
proof -
  have "x < c ! nat b \<Longrightarrow> b \<le> batch \<Longrightarrow> \<exists>r. 0 \<le> r \<and> r < b \<and> c ! nat r \<le> x \<and> x < c ! nat (r + 1)" if "0 \<le> b" for b
    using that
  proof (induction "nat b" arbitrary: b)
    case 0
    then show ?case using assms by (simp add: cumulative_def)
  next
    case (Suc k)
    show ?case
    proof (cases "x < c ! nat (b - 1)")
      case True
      then show ?thesis using Suc.hyps(1) [of "b - 1"] Suc.hyps(2) Suc.prems by fastforce
    next
      case False
      then show ?thesis using Suc.hyps(2) Suc.prems by (intro exI [of _ "b - 1"]) auto
    qed
  qed
  from this [OF assms(2)] show ?thesis using assms by (auto simp: cumulative_def)
qed

lemma offsets_match_layout:
  assumes "padded_layout cum po batch t p" "0 < batch"
  shows "offsets_match cum po batch t p = Some True"
proof -
  have "0 < int (length cum)" "0 < int (length po)" using assms by (auto simp: padded_layout_def cumulative_def)
  then have "rd cum 0 = Some (cum ! 0)" "rd po 0 = Some (po ! 0)" by (simp_all add: rd_def in_buf_def)
  then show ?thesis using assms by (simp add: offsets_match_def padded_layout_def cumulative_def rd_at)
qed

text \<open>A loop over requests each of which moves its own rows: \<open>T r l h\<close> are its items, \<open>d r l h\<close> their places.\<close>

definition moved ::
  "int \<Rightarrow> int \<Rightarrow> (int \<Rightarrow> int \<Rightarrow> int \<Rightarrow> bool) \<Rightarrow> (int \<Rightarrow> int \<Rightarrow> int \<Rightarrow> int) \<Rightarrow> (int \<Rightarrow> int \<Rightarrow> int \<Rightarrow> 'f list) \<Rightarrow>
    'f list \<Rightarrow> 'f list \<Rightarrow> bool" where
  "moved w m T d y dst dst' \<longleftrightarrow> length dst' = length dst \<and>
     (\<forall>r l h. T r l h \<longrightarrow> row w dst' (d r l h) = y r l h) \<and>
     (\<forall>k. 0 \<le> k \<and> k < m \<and> (\<forall>r l h. T r l h \<longrightarrow> k \<noteq> d r l h) \<longrightarrow> row w dst' k = row w dst k)"

lemma movedD:
  "moved w m T d y dst dst' \<Longrightarrow> T r l h \<Longrightarrow> row w dst' (d r l h) = y r l h"
  by (simp add: moved_def)

lemma moved_none: "(\<And>r l h. \<not> T r l h) \<Longrightarrow> moved w m T d y dst dst"
  by (simp add: moved_def)

lemma moved_both:
  assumes "moved w m S d y t u" "moved w m T d y u v"
    and "\<And>r l h. S r l h \<or> T r l h \<longleftrightarrow> U r l h"
    and "\<And>r l h. S r l h \<Longrightarrow> 0 \<le> d r l h \<and> d r l h < m"
    and "\<And>r l h q j g. S r l h \<Longrightarrow> T q j g \<Longrightarrow> d r l h \<noteq> d q j g"
  shows "moved w m U d y t v"
  unfolding moved_def
proof (intro conjI allI impI)
  show "length v = length t" using assms(1,2) by (simp add: moved_def)
next
  fix r l h assume "U r l h"
  then consider "T r l h" | "S r l h" using assms(3) by blast
  then show "row w v (d r l h) = y r l h"
  proof cases
    case 1
    then show ?thesis by (rule movedD [OF assms(2)])
  next
    case 2
    then have "row w v (d r l h) = row w u (d r l h)"
      using assms(2) assms(4) [OF 2] assms(5) [OF 2] by (simp add: moved_def)
    then show ?thesis using movedD [OF assms(1) 2] by simp
  qed
next
  fix k assume k: "0 \<le> k \<and> k < m \<and> (\<forall>r l h. U r l h \<longrightarrow> k \<noteq> d r l h)"
  then have "\<forall>r l h. S r l h \<longrightarrow> k \<noteq> d r l h" "\<forall>r l h. T r l h \<longrightarrow> k \<noteq> d r l h" using assms(3) by blast+
  then show "row w v k = row w t k" using k assms(1,2) by (simp add: moved_def)
qed

lemma move_requests:
  assumes "0 \<le> batch"
    and body: "\<And>r t. 0 \<le> r \<Longrightarrow> r < batch \<Longrightarrow> length t = length dst \<Longrightarrow>
      ok (flow_post (moved w m (\<lambda>q l h. q = r \<and> T q l h) d y t) (\<lambda>_. False) (\<lambda>_ _. False)) (body r t)"
    and bound: "\<And>r l h. 0 \<le> r \<Longrightarrow> r < batch \<Longrightarrow> T r l h \<Longrightarrow> 0 \<le> d r l h \<and> d r l h < m"
    and inj: "\<And>r l h q j g. 0 \<le> r \<Longrightarrow> r < batch \<Longrightarrow> 0 \<le> q \<Longrightarrow> q < batch \<Longrightarrow> T r l h \<Longrightarrow> T q j g \<Longrightarrow>
      d r l h = d q j g \<Longrightarrow> r = q"
  shows "ok (flow_post (moved w m (\<lambda>r l h. 0 \<le> r \<and> r < batch \<and> T r l h) d y dst) (\<lambda>_. False) (\<lambda>_ _. False))
    (for_loop 0 batch body dst)"
proof (rule for_loop_inv [where I = "\<lambda>k. moved w m (\<lambda>r l h. 0 \<le> r \<and> r < k \<and> T r l h) d y dst"])
  fix k t assume k: "0 \<le> k" "k < batch" and I: "moved w m (\<lambda>r l h. 0 \<le> r \<and> r < k \<and> T r l h) d y dst t"
  have len: "length t = length dst" using I by (simp add: moved_def)
  have "moved w m (\<lambda>r l h. 0 \<le> r \<and> r < k + 1 \<and> T r l h) d y dst u"
    if "moved w m (\<lambda>q l h. q = k \<and> T q l h) d y t u" for u
  proof (rule moved_both [OF I that])
    fix r l h q j g assume "0 \<le> r \<and> r < k \<and> T r l h" "q = k \<and> T q j g"
    then show "d r l h \<noteq> d q j g" using inj [of r q l h j g] k by auto
  qed (use k bound in auto)
  then show "ok (flow_post (moved w m (\<lambda>r l h. 0 \<le> r \<and> r < k + 1 \<and> T r l h) d y dst)
      (moved w m (\<lambda>r l h. 0 \<le> r \<and> r < batch \<and> T r l h) d y dst) (\<lambda>_ _. False)) (body k t)"
    using body [OF k len] by (elim ok_mono flow_post_mono) auto
qed (auto simp: assms(1) intro: moved_none)

definition varlen_shape :: "int list \<Rightarrow> int list \<Rightarrow> int \<Rightarrow> int \<Rightarrow> int \<Rightarrow> int \<Rightarrow> int \<Rightarrow> bool" where
  "varlen_shape cum po batch heads dim t p \<longleftrightarrow> padded_layout cum po batch t p \<and> 0 < batch \<and> 0 < heads \<and> 0 < dim \<and>
     0 < t \<and> t \<le> INT_MAX \<and> 0 < p \<and> p \<le> INT_MAX \<and> batch * heads * dim * t * p \<le> LLONG_MAX"

text \<open>The row of a token's head in the packed and in the padded layout.\<close>

definition packed_at :: "int list \<Rightarrow> int \<Rightarrow> int \<Rightarrow> int \<Rightarrow> int \<Rightarrow> int" where
  "packed_at cum heads r l h = (cum ! nat r + l) * heads + h"

definition padded_at :: "int list \<Rightarrow> int \<Rightarrow> int \<Rightarrow> int \<Rightarrow> int \<Rightarrow> int" where
  "padded_at po p r l h = h * p + (po ! nat r + l)"

definition item_of :: "int list \<Rightarrow> int \<Rightarrow> int \<Rightarrow> int \<Rightarrow> int \<Rightarrow> bool" where
  "item_of cum heads r l h \<longleftrightarrow> token_of cum r l \<and> 0 \<le> h \<and> h < heads"

lemma packed_at_bound:
  assumes "varlen_shape cum po batch heads dim t p" "0 \<le> r" "r < batch" "item_of cum heads r l h"
  shows "0 \<le> packed_at cum heads r l h \<and> packed_at cum heads r l h < t * heads"
  using token_bounds [of cum batch t r l] index_bound [of "cum ! nat r + l" t h heads] assms
  by (auto simp: varlen_shape_def padded_layout_def packed_at_def item_of_def)

lemma padded_at_bound:
  assumes "varlen_shape cum po batch heads dim t p" "0 \<le> r" "r < batch" "item_of cum heads r l h"
  shows "0 \<le> padded_at po p r l h \<and> padded_at po p r l h < heads * p"
  using varlen_padded_bounds [of cum po batch t p r l] index_bound [of h heads "po ! nat r + l" p] assms
  by (auto simp: varlen_shape_def padded_at_def item_of_def)

lemma packed_at_inj:
  assumes v: "varlen_shape cum po batch heads dim t p" and r: "0 \<le> r" "r < batch" "0 \<le> q" "q < batch"
    and i: "item_of cum heads r l h" "item_of cum heads q j g" and e: "packed_at cum heads r l h = packed_at cum heads q j g"
  shows "r = q \<and> l = j \<and> h = g"
proof -
  have c: "cumulative cum batch t" using v by (simp add: varlen_shape_def padded_layout_def)
  have t: "token_of cum r l" "token_of cum q j" using i by (auto simp: item_of_def)
  have eq: "cum ! nat r + l = cum ! nat q + j" "h = g"
    using index_unique [of h heads g "cum ! nat r + l" "cum ! nat q + j"] i e by (auto simp: packed_at_def item_of_def)
  have "r = q"
    by (rule segment_unique [OF c r, of "cum ! nat r + l"])
      (use token_bounds [OF c r(1,2) t(1)] token_bounds [OF c r(3,4) t(2)] eq(1) t in \<open>auto simp: token_of_def\<close>)
  with eq show ?thesis by simp
qed

lemma padded_at_inj:
  assumes v: "varlen_shape cum po batch heads dim t p" and r: "0 \<le> r" "r < batch" "0 \<le> q" "q < batch"
    and i: "item_of cum heads r l h" "item_of cum heads q j g" and e: "padded_at po p r l h = padded_at po p q j g"
  shows "r = q \<and> l = j \<and> h = g"
proof -
  have c: "padded_layout cum po batch t p" using v by (simp add: varlen_shape_def)
  have t: "token_of cum r l" "token_of cum q j" using i by (auto simp: item_of_def)
  note b = varlen_padded_bounds [OF c r(1,2) t(1)] varlen_padded_bounds [OF c r(3,4) t(2)]
  have eq: "h = g" "po ! nat r + l = po ! nat q + j"
    using index_unique [of "po ! nat r + l" p "po ! nat q + j" h g] b e by (auto simp: padded_at_def)
  have "r = q"
    by (rule segment_unique [OF padded_layout_cumulative [OF c] r, of "po ! nat r + l"])
      (use b eq t in \<open>auto simp: token_of_def\<close>)
  with eq show ?thesis by simp
qed

lemma varlen_reads:
  assumes v: "varlen_shape cum po batch heads dim t p" and r: "0 \<le> r" "r < batch"
  shows "rd cum r = Some (cum ! nat r)" "rd cum (r + 1) = Some (cum ! nat (r + 1))"
    "rd po r = Some (po ! nat r)" "rd po (r + 1) = Some (po ! nat (r + 1))"
    "i32 (cum ! nat (r + 1) - cum ! nat r) = Some (cum ! nat (r + 1) - cum ! nat r)"
    "i32 (po ! nat (r + 1) - po ! nat r) = Some (po ! nat (r + 1) - po ! nat r)"
    "cum ! nat r \<le> cum ! nat (r + 1)"
    "cum ! nat (r + 1) - cum ! nat r \<le> po ! nat (r + 1) - po ! nat r"
proof -
  have l: "padded_layout cum po batch t p" using v by (simp add: varlen_shape_def)
  then have c: "cumulative cum batch t" by (simp add: padded_layout_def)
  note b = cumulative_bounds [OF c r] cumulative_bounds [OF padded_layout_cumulative [OF l] r]
  show "rd cum r = Some (cum ! nat r)" "rd cum (r + 1) = Some (cum ! nat (r + 1))"
    "rd po r = Some (po ! nat r)" "rd po (r + 1) = Some (po ! nat (r + 1))"
    using c l r by (auto simp: cumulative_def padded_layout_def rd_at)
  show "i32 (cum ! nat (r + 1) - cum ! nat r) = Some (cum ! nat (r + 1) - cum ! nat r)"
    "i32 (po ! nat (r + 1) - po ! nat r) = Some (po ! nat (r + 1) - po ! nat r)"
    using b v by (auto intro!: i32_at simp: varlen_shape_def int_limits)
  show "cum ! nat r \<le> cum ! nat (r + 1)" using b by simp
  show "cum ! nat (r + 1) - cum ! nat r \<le> po ! nat (r + 1) - po ! nat r"
    using l r by (auto simp: padded_layout_def)
qed

lemma pad_request_ok:
  assumes v: "varlen_shape cum po batch heads dim t p" and r: "0 \<le> r" "r < batch"
    and len: "t * heads * dim \<le> int (length src)" "heads * p * dim \<le> int (length dst)"
  shows "ok (flow_post (moved dim (heads * p) (\<lambda>q l h. q = r \<and> item_of cum heads q l h) (padded_at po p)
      (\<lambda>r l h. row dim src (packed_at cum heads r l h)) dst) (\<lambda>_. False) (\<lambda>_ _. False))
    (pad_request src cum po heads dim p r dst)"
proof -
  note rs = varlen_reads [OF v r]
  let ?n = "cum ! nat (r + 1) - cum ! nat r"
  have step: "pad_request src cum po heads dim p r dst = thru (loop 0 ?n (\<lambda>l. loop 0 heads (\<lambda>h dst.
      copy_n src (packed_at cum heads r l h * dim) dim dst (padded_at po p r l h * dim))) dst)"
    using rs(7,8) unfolding pad_request_def rs(1-6) bind.simps(2) packed_at_def padded_at_def by simp
  have "ok (\<lambda>dst'. length dst' = length dst \<and>
      (\<forall>l h. 0 \<le> l \<and> l < ?n \<and> 0 \<le> h \<and> h < heads \<longrightarrow> row dim dst' (padded_at po p r l h) = row dim src (packed_at cum heads r l h)) \<and>
      (\<forall>k. 0 \<le> k \<and> k < heads * p \<and> (\<forall>l h. 0 \<le> l \<and> l < ?n \<and> 0 \<le> h \<and> h < heads \<longrightarrow> k \<noteq> padded_at po p r l h) \<longrightarrow>
        row dim dst' k = row dim dst k))
    (loop 0 ?n (\<lambda>l. loop 0 heads (\<lambda>h dst. copy_n src (packed_at cum heads r l h * dim) dim dst (padded_at po p r l h * dim))) dst)"
    by (rule copy_rows_2d [of dim ?n heads "t * heads"])
      (use v rs(7) len packed_at_bound [OF v r] padded_at_bound [OF v r] padded_at_inj [OF v r r] in
        \<open>auto simp: varlen_shape_def item_of_def token_of_def\<close>)
  then show ?thesis unfolding step
    by (auto simp: ok_thru moved_def item_of_def token_of_def elim!: ok_mono)
qed

lemma regather_request_ok:
  assumes v: "varlen_shape cum po batch heads dim t p" and r: "0 \<le> r" "r < batch"
    and len: "heads * p * dim \<le> int (length src)" "t * heads * dim \<le> int (length dst)"
  shows "ok (flow_post (moved dim (t * heads) (\<lambda>q l h. q = r \<and> item_of cum heads q l h) (packed_at cum heads)
      (\<lambda>r l h. row dim src (padded_at po p r l h)) dst) (\<lambda>_. False) (\<lambda>_ _. False))
    (regather_request src cum po heads dim p r dst)"
proof -
  note rs = varlen_reads [OF v r]
  let ?n = "cum ! nat (r + 1) - cum ! nat r"
  have step: "regather_request src cum po heads dim p r dst = thru (loop 0 ?n (\<lambda>l. loop 0 heads (\<lambda>h dst.
      copy_n src (padded_at po p r l h * dim) dim dst (packed_at cum heads r l h * dim))) dst)"
    using rs(7,8) unfolding regather_request_def rs(1-6) bind.simps(2) packed_at_def padded_at_def by simp
  have "ok (\<lambda>dst'. length dst' = length dst \<and>
      (\<forall>l h. 0 \<le> l \<and> l < ?n \<and> 0 \<le> h \<and> h < heads \<longrightarrow> row dim dst' (packed_at cum heads r l h) = row dim src (padded_at po p r l h)) \<and>
      (\<forall>k. 0 \<le> k \<and> k < t * heads \<and> (\<forall>l h. 0 \<le> l \<and> l < ?n \<and> 0 \<le> h \<and> h < heads \<longrightarrow> k \<noteq> packed_at cum heads r l h) \<longrightarrow>
        row dim dst' k = row dim dst k))
    (loop 0 ?n (\<lambda>l. loop 0 heads (\<lambda>h dst. copy_n src (padded_at po p r l h * dim) dim dst (packed_at cum heads r l h * dim))) dst)"
    by (rule copy_rows_2d [of dim ?n heads "heads * p"])
      (use v rs(7) len packed_at_bound [OF v r] padded_at_bound [OF v r] packed_at_inj [OF v r r] in
        \<open>auto simp: varlen_shape_def item_of_def token_of_def\<close>)
  then show ?thesis unfolding step
    by (auto simp: ok_thru moved_def item_of_def token_of_def elim!: ok_mono)
qed

lemma varlen_valid_product:
  "varlen_shape cum po batch heads dim t p \<Longrightarrow> valid_product [batch, heads, dim, t, p]"
  by (simp add: varlen_shape_def valid_product_iff mult.assoc)

lemma varlen_pad_q_ok:
  assumes v: "varlen_shape cum po batch heads dim t p"
    and len: "t * heads * dim \<le> int (length src)" "heads * p * dim \<le> int (length dst)"
  shows "\<exists>dst'. varlen_pad_q zero (Some src) (Some cum) (Some po) (Some dst) batch heads dim t p = Some (kOk, Some dst') \<and>
    length dst' = length dst \<and>
    (\<forall>r l h. 0 \<le> r \<and> r < batch \<and> item_of cum heads r l h \<longrightarrow>
      row dim dst' (padded_at po p r l h) = row dim src (packed_at cum heads r l h)) \<and>
    (\<forall>k. 0 \<le> k \<and> k < heads * p \<and> (\<forall>r l h. 0 \<le> r \<and> r < batch \<and> item_of cum heads r l h \<longrightarrow> k \<noteq> padded_at po p r l h) \<longrightarrow>
      row dim dst' k = replicate (nat dim) zero)"
proof -
  have pos: "0 < batch" "0 < heads" "0 < dim" "0 < p" using v by (auto simp: varlen_shape_def)
  have l: "padded_layout cum po batch t p" using v by (simp add: varlen_shape_def)
  obtain z where z: "fill_n dst 0 (heads * p * dim) zero = Some z" "outside_same 0 (heads * p * dim) dst z"
      "\<And>q. 0 \<le> q \<Longrightarrow> q < heads * p * dim \<Longrightarrow> z ! nat (0 + q) = zero"
    by (rule fill_outside [of 0 "heads * p * dim" dst zero]) (use pos len in auto)
  have zl: "length z = length dst" using z(2) by (rule outside_same_length)
  have zero: "row dim z k = replicate (nat dim) zero" if k: "0 \<le> k" "k < heads * p" for k
  proof (rule nth_equalityI)
    show "length (row dim z k) = length (replicate (nat dim) zero)" using k pos len zl by simp
    fix i assume "i < length (row dim z k)"
    then have i: "int i < dim" using k pos len zl by simp
    have "row dim z k ! nat (int i) = z ! nat (k * dim + int i)"
      by (rule nth_row) (use k i len zl in auto)
    also have "\<dots> = zero" using z(3) [of "k * dim + int i"] index_bound [OF k, of "int i" dim] i by simp
    finally show "row dim z k ! i = replicate (nat dim) zero ! i" using i by simp
  qed
  have "ok (flow_post (moved dim (heads * p) (\<lambda>r l h. 0 \<le> r \<and> r < batch \<and> item_of cum heads r l h) (padded_at po p)
      (\<lambda>r l h. row dim src (packed_at cum heads r l h)) z) (\<lambda>_. False) (\<lambda>_ _. False))
    (for_loop 0 batch (pad_request src cum po heads dim p) z)"
  proof (rule move_requests)
    fix r and s :: "'a list" assume "0 \<le> r" "r < batch" "length s = length z"
    then show "ok (flow_post (moved dim (heads * p) (\<lambda>q l h. q = r \<and> item_of cum heads q l h) (padded_at po p)
        (\<lambda>r l h. row dim src (packed_at cum heads r l h)) s) (\<lambda>_. False) (\<lambda>_ _. False))
      (pad_request src cum po heads dim p r s)"
      by (intro pad_request_ok [OF v]) (use len zl in auto)
  qed (use pos padded_at_bound [OF v] padded_at_inj [OF v] in auto)
  then obtain u where u: "for_loop 0 batch (pad_request src cum po heads dim p) z = Some (Next u)"
    and m: "moved dim (heads * p) (\<lambda>r l h. 0 \<le> r \<and> r < batch \<and> item_of cum heads r l h) (padded_at po p)
      (\<lambda>r l h. row dim src (packed_at cum heads r l h)) z u" by (elim flow_nextE)
  have "varlen_pad_q zero (Some src) (Some cum) (Some po) (Some dst) batch heads dim t p = Some (kOk, Some u)"
    using varlen_valid_product [OF v] offsets_match_layout [OF l pos(1)] z(1) u by (simp add: varlen_pad_q_def finish_def)
  moreover have "length u = length dst" using m zl by (simp add: moved_def)
  moreover have "\<forall>r l h. 0 \<le> r \<and> r < batch \<and> item_of cum heads r l h \<longrightarrow>
      row dim u (padded_at po p r l h) = row dim src (packed_at cum heads r l h)" using m by (simp add: moved_def)
  moreover have "\<forall>k. 0 \<le> k \<and> k < heads * p \<and>
      (\<forall>r l h. 0 \<le> r \<and> r < batch \<and> item_of cum heads r l h \<longrightarrow> k \<noteq> padded_at po p r l h) \<longrightarrow>
      row dim u k = replicate (nat dim) zero" using m zero by (simp add: moved_def)
  ultimately show ?thesis by blast
qed

text \<open>
  C28: padding a packed batch and gathering it back gives the packed batch again, for every layout whose blocks leave
  room for their sequences; in between, every row of the padded buffer that no token owns is zero.
\<close>

theorem varlen_pad_regather_roundtrip:
  assumes v: "varlen_shape cum po batch heads dim t p"
    and len: "int (length packed) = t * heads * dim" "heads * p * dim \<le> int (length padded)"
      "int (length out) = t * heads * dim"
  shows "\<exists>padded'. varlen_pad_q zero (Some packed) (Some cum) (Some po) (Some padded) batch heads dim t p =
      Some (kOk, Some padded') \<and>
    varlen_regather_o (Some padded') (Some cum) (Some po) (Some out) batch heads dim t p = Some (kOk, Some packed) \<and>
    (\<forall>k. 0 \<le> k \<and> k < heads * p \<and>
      (\<forall>r l h. 0 \<le> r \<and> r < batch \<and> item_of cum heads r l h \<longrightarrow> k \<noteq> padded_at po p r l h) \<longrightarrow>
      row dim padded' k = replicate (nat dim) zero)"
proof -
  have pos: "0 < batch" "0 < heads" "0 < dim" "0 < p" "0 < t" using v by (auto simp: varlen_shape_def)
  have l: "padded_layout cum po batch t p" using v by (simp add: varlen_shape_def)
  then have c: "cumulative cum batch t" by (simp add: padded_layout_def)
  obtain q where q: "varlen_pad_q zero (Some packed) (Some cum) (Some po) (Some padded) batch heads dim t p = Some (kOk, Some q)"
      "length q = length padded"
    and rows: "\<And>r l h. 0 \<le> r \<Longrightarrow> r < batch \<Longrightarrow> item_of cum heads r l h \<Longrightarrow>
      row dim q (padded_at po p r l h) = row dim packed (packed_at cum heads r l h)"
    and zeros: "\<forall>k. 0 \<le> k \<and> k < heads * p \<and>
      (\<forall>r l h. 0 \<le> r \<and> r < batch \<and> item_of cum heads r l h \<longrightarrow> k \<noteq> padded_at po p r l h) \<longrightarrow>
      row dim q k = replicate (nat dim) zero"
    using varlen_pad_q_ok [OF v _ len(2), of packed zero] len(1) by auto
  have "ok (flow_post (moved dim (t * heads) (\<lambda>r l h. 0 \<le> r \<and> r < batch \<and> item_of cum heads r l h) (packed_at cum heads)
      (\<lambda>r l h. row dim q (padded_at po p r l h)) out) (\<lambda>_. False) (\<lambda>_ _. False))
    (for_loop 0 batch (regather_request q cum po heads dim p) out)"
  proof (rule move_requests)
    fix r and s :: "'a list" assume "0 \<le> r" "r < batch" "length s = length out"
    then show "ok (flow_post (moved dim (t * heads) (\<lambda>q l h. q = r \<and> item_of cum heads q l h) (packed_at cum heads)
        (\<lambda>r l h. row dim q (padded_at po p r l h)) s) (\<lambda>_. False) (\<lambda>_ _. False))
      (regather_request q cum po heads dim p r s)"
      by (intro regather_request_ok [OF v]) (use len q in auto)
  qed (use pos packed_at_bound [OF v] packed_at_inj [OF v] in auto)
  then obtain u where u: "for_loop 0 batch (regather_request q cum po heads dim p) out = Some (Next u)"
    and m: "moved dim (t * heads) (\<lambda>r l h. 0 \<le> r \<and> r < batch \<and> item_of cum heads r l h) (packed_at cum heads)
      (\<lambda>r l h. row dim q (padded_at po p r l h)) out u" by (elim flow_nextE)
  have "u = packed"
  proof (rule rows_eqI [of dim "t * heads"])
    fix i assume i: "0 \<le> i" "i < t * heads"
    note d = div_mod_bound [OF i pos(2)]
    obtain r where r: "0 \<le> r" "r < batch" "cum ! nat r \<le> i div heads" "i div heads < cum ! nat (r + 1)"
      using segment_exists [OF c _ d(1,2)] pos by auto
    have it: "item_of cum heads r (i div heads - cum ! nat r) (i mod heads)"
      using r d by (simp add: item_of_def token_of_def)
    have "packed_at cum heads r (i div heads - cum ! nat r) (i mod heads) = i" using d(5) by (simp add: packed_at_def)
    then show "row dim u i = row dim packed i"
      using movedD [OF m, of r "i div heads - cum ! nat r" "i mod heads"] rows [OF r(1,2) it] r it by simp
  qed (use pos len m in \<open>auto simp: moved_def\<close>)
  then have "varlen_regather_o (Some q) (Some cum) (Some po) (Some out) batch heads dim t p = Some (kOk, Some packed)"
    using varlen_valid_product [OF v] offsets_match_layout [OF l pos(1)] u by (simp add: varlen_regather_o_def finish_def)
  with q zeros show ?thesis by blast
qed

lemma varlen_pad_regather_roundtrip_witness:
  "\<exists>padded. varlen_pad_q 0 (Some [1, 2, 3 :: int]) (Some [0, 1, 3]) (Some [0, 2, 4]) (Some (replicate 4 9)) 2 1 1 3 4 =
      Some (kOk, Some padded) \<and>
    varlen_regather_o (Some padded) (Some [0, 1, 3]) (Some [0, 2, 4]) (Some [9, 9, 9]) 2 1 1 3 4 = Some (kOk, Some [1, 2, 3])"
proof -
  have two: "r = 0 \<or> r = 1" if "0 \<le> r \<and> r < 2" for r :: int using that by presburger
  have "varlen_shape [0, 1, 3] [0, 2, 4] 2 1 1 3 4"
    by (auto simp: varlen_shape_def padded_layout_def cumulative_def int_limits dest!: two)
  then show ?thesis
    using varlen_pad_regather_roundtrip [of "[0, 1, 3]" "[0, 2, 4]" 2 1 1 3 4 "[1, 2, 3 :: int]" "replicate 4 9" "[9, 9, 9]" 0]
    by auto
qed

section \<open>The worklist\<close>

definition ntiles :: "int list \<Rightarrow> int \<Rightarrow> int \<Rightarrow> int" where
  "ntiles cum tile r = (cum ! nat (r + 1) - cum ! nat r + tile - 1) div tile"

text \<open>The number of tiles of the requests before \<open>r\<close>.\<close>

definition tiles_before :: "int list \<Rightarrow> int \<Rightarrow> int \<Rightarrow> int" where
  "tiles_before cum tile r = sum_list (map (ntiles cum tile) [0..r - 1])"

lemma tiles_before_0 [simp]: "tiles_before cum tile 0 = 0"
  by (simp add: tiles_before_def)

lemma tiles_before_step: "0 \<le> r \<Longrightarrow> tiles_before cum tile (r + 1) = tiles_before cum tile r + ntiles cum tile r"
  using upto_rec2 [of 0 r] by (simp add: tiles_before_def)

lemma ntiles_nonneg:
  "cumulative cum batch n \<Longrightarrow> 0 \<le> r \<Longrightarrow> r < batch \<Longrightarrow> 0 < tile \<Longrightarrow> 0 \<le> ntiles cum tile r"
  using cumulative_bounds(2) [of cum batch n r] by (simp add: ntiles_def pos_imp_zdiv_nonneg_iff)

lemma tiles_before_mono:
  assumes "cumulative cum batch n" "0 < tile" "0 \<le> q" "q \<le> r" "r \<le> batch"
  shows "tiles_before cum tile q \<le> tiles_before cum tile r"
  using assms(4,5)
proof (induction "nat (r - q)" arbitrary: r)
  case (Suc k)
  then have "tiles_before cum tile q \<le> tiles_before cum tile (r - 1)" by (intro Suc.hyps(1)) auto
  moreover have "tiles_before cum tile r = tiles_before cum tile (r - 1) + ntiles cum tile (r - 1)"
    using tiles_before_step [of "r - 1" cum tile] Suc.hyps(2) assms(3) by simp
  moreover have "0 \<le> ntiles cum tile (r - 1)"
    by (rule ntiles_nonneg [OF assms(1)]) (use Suc.hyps(2) Suc.prems assms in auto)
  ultimately show ?case by simp
qed simp

text \<open>The worklist once the tiles of the requests before \<open>r\<close> and the first \<open>k\<close> of \<open>r\<close> are listed.\<close>

definition listed :: "int list \<Rightarrow> int \<Rightarrow> int \<Rightarrow> int \<Rightarrow> int \<Rightarrow> worklist \<Rightarrow> bool" where
  "listed cum tile max_tiles r k s \<longleftrightarrow> tiles s = tiles_before cum tile r + k \<and> tiles s \<le> max_tiles \<and>
     max_tiles \<le> int (length (tile_sequence s)) \<and> max_tiles \<le> int (length (tile_local_start s)) \<and>
     (\<forall>q j. 0 \<le> q \<and> 0 \<le> j \<and> (q < r \<and> j < ntiles cum tile q \<or> q = r \<and> j < k) \<longrightarrow>
       tile_sequence s ! nat (tiles_before cum tile q + j) = q \<and>
       tile_local_start s ! nat (tiles_before cum tile q + j) = j * tile)"

definition measured :: "int list \<Rightarrow> int \<Rightarrow> int \<Rightarrow> int \<Rightarrow> worklist \<Rightarrow> bool" where
  "measured cum tile batch r s \<longleftrightarrow> batch < int (length (padded_offsets s)) \<and> batch \<le> int (length (sequence_lengths s)) \<and>
     (\<forall>q. 0 \<le> q \<and> q < r \<longrightarrow> sequence_lengths s ! nat q = cum ! nat (q + 1) - cum ! nat q) \<and>
     (\<forall>q. 0 \<le> q \<and> q \<le> r \<longrightarrow> padded_offsets s ! nat q = tiles_before cum tile q * tile)"

lemma listed_next_request:
  assumes "0 \<le> r" "listed cum tile max_tiles r (ntiles cum tile r) s"
  shows "listed cum tile max_tiles (r + 1) 0 s"
proof -
  have "(q < r \<and> j < ntiles cum tile q \<or> q = r \<and> j < ntiles cum tile r) = (q < r + 1 \<and> j < ntiles cum tile q)"
    for q j by (cases "q = r") auto
  then show ?thesis
    using assms tiles_before_step [OF assms(1), of cum tile] by (auto simp: listed_def)
qed

lemma add_tile_ok:
  assumes c: "cumulative cum batch n" "0 < tile" and r: "0 \<le> r" "r < batch" "batch \<le> INT_MAX"
    and k: "0 \<le> k" "k < ntiles cum tile r" and I: "listed cum tile max_tiles r k s"
    and fits: "ntiles cum tile r * tile \<le> INT_MAX"
  shows "ok (flow_post (\<lambda>t. listed cum tile max_tiles r (k + 1) t \<and> padded_offsets t = padded_offsets s \<and>
      sequence_lengths t = sequence_lengths s) (\<lambda>_. False)
      (\<lambda>st _. st = kInvalidShape \<and> max_tiles < tiles_before cum tile r + ntiles cum tile r))
    (add_tile max_tiles tile r (0 + k * tile) s)"
proof (cases "tiles s \<ge> max_tiles")
  case True
  then show ?thesis using I k by (simp add: add_tile_def listed_def)
next
  case False
  let ?i = "tiles_before cum tile r + k"
  let ?t = "s\<lparr>tile_sequence := (tile_sequence s)[nat ?i := r],
    tile_local_start := (tile_local_start s)[nat ?i := k * tile], tiles := ?i + 1\<rparr>"
  have i: "tiles s = ?i" "0 \<le> ?i" "?i < max_tiles"
    using I False k tiles_before_mono [OF c, of 0 r] r by (auto simp: listed_def)
  have "(k + 1) * tile \<le> ntiles cum tile r * tile" using k c(2) by (intro mult_right_mono) auto
  then have o: "i32 (k * tile + tile) = Some (k * tile + tile)"
    using fits k c(2) by (intro i32_at) (auto simp: distrib_right int_limits intro: order_trans [of _ 0])
  have w: "wr (tile_sequence s) ?i (narrow_int r) = Some ((tile_sequence s)[nat ?i := r])"
      "wr (tile_local_start s) ?i (k * tile) = Some ((tile_local_start s)[nat ?i := k * tile])"
    using I i r by (auto simp: listed_def wr_at narrow_int_id int_limits)
  have step: "add_tile max_tiles tile r (0 + k * tile) s = Some (Next ?t)"
    using False i(1) w o by (simp add: add_tile_def thru_def)
  have old: "tiles_before cum tile q + j < ?i" "0 \<le> tiles_before cum tile q + j"
    if "0 \<le> q" "0 \<le> j" "q < r \<and> j < ntiles cum tile q \<or> q = r \<and> j < k" for q j
  proof -
    show "0 \<le> tiles_before cum tile q + j" using that tiles_before_mono [OF c, of 0 q] r by auto
    show "tiles_before cum tile q + j < ?i"
    proof (cases "q < r")
      case True
      have "tiles_before cum tile (q + 1) \<le> tiles_before cum tile r"
        by (rule tiles_before_mono [OF c]) (use True that r in auto)
      then show ?thesis using tiles_before_step [OF that(1), of cum tile] that(3) True k by auto
    next
      case False
      then show ?thesis using that(3) by simp
    qed
  qed
  have "listed cum tile max_tiles r (k + 1) ?t"
    unfolding listed_def
  proof (intro conjI allI impI; (elim conjE)?)
    fix q j assume q: "0 \<le> q" "0 \<le> j" "q < r \<and> j < ntiles cum tile q \<or> q = r \<and> j < k + 1"
    show "tile_sequence ?t ! nat (tiles_before cum tile q + j) = q"
      "tile_local_start ?t ! nat (tiles_before cum tile q + j) = j * tile"
      using q I i old [of q j] by (cases "q = r \<and> j = k"; auto simp: listed_def nat_eq_iff)+
  qed (use I i in \<open>auto simp: listed_def\<close>)
  then show ?thesis unfolding step ok_Some by simp
qed

lemma worklist_request_ok:
  assumes c: "cumulative cum batch n" "0 < tile" and r: "0 \<le> r" "r < batch" "batch \<le> INT_MAX"
    and I: "listed cum tile max_tiles r 0 s" "measured cum tile batch r s"
    and fits: "n + tile \<le> INT_MAX" "tiles_before cum tile batch * tile \<le> INT_MAX"
  shows "ok (flow_post (\<lambda>t. listed cum tile max_tiles (r + 1) 0 t \<and> measured cum tile batch (r + 1) t) (\<lambda>_. False)
      (\<lambda>st _. st = kInvalidShape \<and> max_tiles < tiles_before cum tile batch))
    (worklist_request cum max_tiles tile r s)"
proof -
  let ?len = "cum ! nat (r + 1) - cum ! nat r"
  let ?T = "tiles_before cum tile" and ?n = "ntiles cum tile r"
  note b = cumulative_bounds [OF c(1) r(1,2)]
  have n0: "0 \<le> ?n" by (rule ntiles_nonneg [OF c(1) r(1,2) c(2)])
  have T: "?T (r + 1) = ?T r + ?n" "0 \<le> ?T r" "?T (r + 1) \<le> ?T batch"
    using tiles_before_step [OF r(1)] tiles_before_mono [OF c, of 0 r] tiles_before_mono [OF c, of "r + 1" batch] r by auto
  have "(?T r + ?n) * tile \<le> ?T batch * tile" using T c(2) by (intro mult_right_mono) auto
  then have m: "?T r * tile + ?n * tile \<le> INT_MAX" "0 \<le> ?T r * tile" "0 \<le> ?n * tile"
    using fits(2) T(2) n0 c(2) by (auto simp: distrib_right)
  have rs: "rd cum (r + 1) = Some (cum ! nat (r + 1))" "rd cum r = Some (cum ! nat r)" "i32 ?len = Some ?len"
      "i32 (?len + tile) = Some (?len + tile)"
    using c(1) r b fits(1) c(2) by (auto simp: cumulative_def rd_at i32_def is_int_def int_limits)
  have up: "cdiv (?len + tile - 1) tile = ?n" using b c(2) by (simp add: ntiles_def)
  have w: "wr (sequence_lengths s) r ?len = Some ((sequence_lengths s)[nat r := ?len])"
      "rd (padded_offsets s) r = Some (?T r * tile)"
      "wr (padded_offsets s) (r + 1) (?T r * tile + ?n * tile) = Some ((padded_offsets s)[nat (r + 1) := ?T (r + 1) * tile])"
    using I(2) r T(1) by (auto simp: measured_def wr_at rd_at distrib_right)
  have i: "i32 (?n * tile) = Some (?n * tile)" "i32 (?T r * tile + ?n * tile) = Some (?T r * tile + ?n * tile)"
    using m by (auto intro!: i32_at simp: int_limits)
  let ?s = "s\<lparr>sequence_lengths := (sequence_lengths s)[nat r := ?len],
    padded_offsets := (padded_offsets s)[nat (r + 1) := ?T (r + 1) * tile]\<rparr>"
  have count: "cdiv (?len - 0 + tile - 1) tile = ?n" using up by simp
  have step: "worklist_request cum max_tiles tile r s = for_loop 0 ?n (\<lambda>k. add_tile max_tiles tile r (0 + k * tile)) ?s"
    unfolding worklist_request_def rs bind.simps(2) Let_def up w i for_step_def count using b by simp
  have "ok (flow_post (\<lambda>t. listed cum tile max_tiles r ?n t \<and> padded_offsets t = padded_offsets ?s \<and>
      sequence_lengths t = sequence_lengths ?s) (\<lambda>_. False) (\<lambda>st _. st = kInvalidShape \<and> max_tiles < ?T batch))
    (for_loop 0 ?n (\<lambda>k. add_tile max_tiles tile r (0 + k * tile)) ?s)"
  proof (rule for_loop_inv [where I = "\<lambda>k t. listed cum tile max_tiles r k t \<and> padded_offsets t = padded_offsets ?s \<and>
      sequence_lengths t = sequence_lengths ?s"])
    fix k t assume k: "0 \<le> k" "k < ?n"
      and J: "listed cum tile max_tiles r k t \<and> padded_offsets t = padded_offsets ?s \<and> sequence_lengths t = sequence_lengths ?s"
    have "?n * tile \<le> INT_MAX" using m by simp
    from add_tile_ok [OF c r k conjunct1 [OF J] this] show "ok (flow_post (\<lambda>t. listed cum tile max_tiles r (k + 1) t \<and>
        padded_offsets t = padded_offsets ?s \<and> sequence_lengths t = sequence_lengths ?s)
        (\<lambda>t. listed cum tile max_tiles r ?n t \<and> padded_offsets t = padded_offsets ?s \<and> sequence_lengths t = sequence_lengths ?s)
        (\<lambda>st _. st = kInvalidShape \<and> max_tiles < ?T batch)) (add_tile max_tiles tile r (0 + k * tile) t)"
      using J T by (auto elim!: ok_mono flow_post_mono)
  qed (use n0 I(1) in \<open>auto simp: listed_def\<close>)
  moreover have "measured cum tile batch (r + 1) t"
    if "padded_offsets t = padded_offsets ?s" "sequence_lengths t = sequence_lengths ?s" for t
    using that I(2) r by (auto simp: measured_def nth_list_update nat_eq_iff)
  ultimately show ?thesis unfolding step using listed_next_request [OF r(1), of cum tile max_tiles]
    by (auto elim!: ok_mono flow_post_mono)
qed

lemma worklist_loop:
  assumes c: "cumulative cum batch n" "0 < tile" and b: "0 < batch" "batch \<le> INT_MAX"
    and I: "listed cum tile max_tiles 0 0 s" "measured cum tile batch 0 s"
    and fits: "n + tile \<le> INT_MAX" "tiles_before cum tile batch * tile \<le> INT_MAX"
  shows "\<exists>st t. finish (for_loop 0 batch (worklist_request cum max_tiles tile) s) = Some (st, t) \<and>
    (if tiles_before cum tile batch \<le> max_tiles
     then st = kOk \<and> listed cum tile max_tiles batch 0 t \<and> measured cum tile batch batch t else st = kInvalidShape)"
proof -
  have "ok (flow_post (\<lambda>t. listed cum tile max_tiles batch 0 t \<and> measured cum tile batch batch t) (\<lambda>_. False)
      (\<lambda>st _. st = kInvalidShape \<and> max_tiles < tiles_before cum tile batch))
    (for_loop 0 batch (worklist_request cum max_tiles tile) s)"
  proof (rule for_loop_inv [where I = "\<lambda>r t. listed cum tile max_tiles r 0 t \<and> measured cum tile batch r t"])
    fix r t assume "0 \<le> r" "r < batch" "listed cum tile max_tiles r 0 t \<and> measured cum tile batch r t"
    then show "ok (flow_post (\<lambda>t. listed cum tile max_tiles (r + 1) 0 t \<and> measured cum tile batch (r + 1) t)
        (\<lambda>t. listed cum tile max_tiles batch 0 t \<and> measured cum tile batch batch t)
        (\<lambda>st _. st = kInvalidShape \<and> max_tiles < tiles_before cum tile batch)) (worklist_request cum max_tiles tile r t)"
      using worklist_request_ok [OF c _ _ b(2) _ _ fits, of r max_tiles t] by (auto elim!: ok_mono flow_post_mono)
  qed (use b I in auto)
  then obtain f where f: "for_loop 0 batch (worklist_request cum max_tiles tile) s = Some f"
    and post: "flow_post (\<lambda>t. listed cum tile max_tiles batch 0 t \<and> measured cum tile batch batch t) (\<lambda>_. False)
      (\<lambda>st _. st = kInvalidShape \<and> max_tiles < tiles_before cum tile batch) f" by (auto simp: ok_def)
  show ?thesis
  proof (cases f)
    case (Next t)
    then have "tiles_before cum tile batch \<le> max_tiles" using post by (simp add: listed_def)
    then show ?thesis using f post Next by (simp add: finish_def)
  qed (use f post in \<open>auto simp: finish_def\<close>)
qed

text \<open>
  The worklist of a batch has, for every request, one entry per started tile of its rows, in order, followed by -1
  up to the capacity; the padded offsets are the lengths rounded up to whole tiles and summed. A batch with more tiles
  than the capacity is rejected with \<^verbatim>\<open>kInvalidShape\<close>.
\<close>

theorem varlen_worklist_lists_every_tile:
  assumes c: "cumulative cum batch n" "0 < tile" and b: "0 < batch" "batch \<le> INT_MAX" "0 < max_tiles" "max_tiles \<le> INT_MAX"
    and fits: "n + tile \<le> INT_MAX" "tiles_before cum tile batch * tile \<le> INT_MAX"
    and bufs: "batch < int (length po)" "batch \<le> int (length lens)" "max_tiles \<le> int (length ts)"
      "max_tiles \<le> int (length tls)" "tc \<noteq> []"
  shows "\<exists>st po' lens' ts' tls' tc'. varlen_build_worklist (Some cum) (Some po) (Some lens) (Some ts) (Some tls) (Some tc)
      batch max_tiles tile = Some (st, Some po', Some lens', Some ts', Some tls', Some tc') \<and>
    (if tiles_before cum tile batch \<le> max_tiles
     then st = kOk \<and> tc' ! 0 = tiles_before cum tile batch \<and>
       (\<forall>r. 0 \<le> r \<and> r < batch \<longrightarrow> lens' ! nat r = cum ! nat (r + 1) - cum ! nat r \<and>
         (\<forall>k. 0 \<le> k \<and> k < ntiles cum tile r \<longrightarrow> ts' ! nat (tiles_before cum tile r + k) = r \<and>
           tls' ! nat (tiles_before cum tile r + k) = k * tile)) \<and>
       (\<forall>r. 0 \<le> r \<and> r \<le> batch \<longrightarrow> po' ! nat r = tiles_before cum tile r * tile) \<and>
       (\<forall>i. tiles_before cum tile batch \<le> i \<and> i < max_tiles \<longrightarrow> ts' ! nat i = - 1 \<and> tls' ! nat i = - 1)
     else st = kInvalidShape)"
proof -
  let ?T = "tiles_before cum tile"
  let ?s = "\<lparr>padded_offsets = po[nat 0 := 0], sequence_lengths = lens, tile_sequence = ts, tile_local_start = tls, tiles = 0\<rparr>"
  have c0: "rd cum 0 = Some 0" "wr po 0 0 = Some (po[nat 0 := 0])" using c b bufs
    by (cases cum; auto simp: cumulative_def rd_def wr_def in_buf_def)+
  have "listed cum tile max_tiles 0 0 ?s" "measured cum tile batch 0 ?s"
    using bufs b by (cases po; auto simp: listed_def measured_def)+
  from worklist_loop [OF c b(1,2) this fits]
  obtain st t where run: "finish (for_loop 0 batch (worklist_request cum max_tiles tile) ?s) = Some (st, t)"
    and res: "if ?T batch \<le> max_tiles
      then st = kOk \<and> listed cum tile max_tiles batch 0 t \<and> measured cum tile batch batch t else st = kInvalidShape" by blast
  have call: "varlen_build_worklist (Some cum) (Some po) (Some lens) (Some ts) (Some tls) (Some tc) batch max_tiles tile =
      (if st \<noteq> kOk then Some (st, Some (padded_offsets t), Some (sequence_lengths t), Some (tile_sequence t),
          Some (tile_local_start t), Some tc)
       else do {
         ts \<leftarrow> fill_n (tile_sequence t) (tiles t) (max_tiles - tiles t) (- 1);
         tls \<leftarrow> fill_n (tile_local_start t) (tiles t) (max_tiles - tiles t) (- 1);
         tc \<leftarrow> wr tc 0 (narrow_int (tiles t));
         Some (kOk, Some (padded_offsets t), Some (sequence_lengths t), Some ts, Some tls, Some tc) })"
    using c0 run b c(2) by (simp add: varlen_build_worklist_def)
  show ?thesis
  proof (cases "?T batch \<le> max_tiles")
    case False
    then show ?thesis using res unfolding call by simp
  next
    case True
    then have st: "st = kOk" and l: "listed cum tile max_tiles batch 0 t" and m: "measured cum tile batch batch t"
      using res by auto
    have T: "tiles t = ?T batch" "0 \<le> ?T batch" using l tiles_before_mono [OF c, of 0 batch] b by (auto simp: listed_def)
    have fill: "\<exists>ys. fill_n xs (?T batch) (max_tiles - ?T batch) (- 1) = Some ys \<and>
        (\<forall>i. 0 \<le> i \<and> i < max_tiles \<longrightarrow> ys ! nat i = (if ?T batch \<le> i then - 1 else xs ! nat i))"
      if xs: "max_tiles \<le> int (length xs)" for xs :: "int list"
    proof (cases "?T batch = max_tiles")
      case False
      obtain ys where "fill_n xs (?T batch) (max_tiles - ?T batch) (- 1) = Some ys"
          "outside_same (?T batch) (max_tiles - ?T batch) xs ys"
          "\<And>q. 0 \<le> q \<Longrightarrow> q < max_tiles - ?T batch \<Longrightarrow> ys ! nat (?T batch + q) = - 1"
        by (rule fill_outside [of "?T batch" "max_tiles - ?T batch" xs "- 1"]) (use False True T xs in auto)
      moreover have "ys ! nat i = - 1" if "?T batch \<le> i" "i < max_tiles" for i
        using calculation(3) [of "i - ?T batch"] that by simp
      ultimately show ?thesis using xs by (auto simp: outside_same_def)
    qed (simp add: fill_n_def)
    obtain ts' tls' where f: "fill_n (tile_sequence t) (?T batch) (max_tiles - ?T batch) (- 1) = Some ts'"
        "fill_n (tile_local_start t) (?T batch) (max_tiles - ?T batch) (- 1) = Some tls'"
      and v: "\<And>i. 0 \<le> i \<Longrightarrow> i < max_tiles \<Longrightarrow> ts' ! nat i = (if ?T batch \<le> i then - 1 else tile_sequence t ! nat i)"
        "\<And>i. 0 \<le> i \<Longrightarrow> i < max_tiles \<Longrightarrow> tls' ! nat i = (if ?T batch \<le> i then - 1 else tile_local_start t ! nat i)"
      using fill [of "tile_sequence t"] fill [of "tile_local_start t"] l by (auto simp: listed_def)
    have n: "wr tc 0 (narrow_int (?T batch)) = Some (tc[nat 0 := ?T batch])"
      using bufs(5) T True b by (simp add: wr_def in_buf_def narrow_int_id int_limits)
    have i: "0 \<le> ?T r + k" "?T r + k < ?T batch" if "0 \<le> r" "r < batch" "0 \<le> k" "k < ntiles cum tile r" for r k
      using tiles_before_mono [OF c, of 0 r] tiles_before_mono [OF c, of "r + 1" batch] tiles_before_step [of r cum tile] that
      by auto
    have ok: "varlen_build_worklist (Some cum) (Some po) (Some lens) (Some ts) (Some tls) (Some tc) batch max_tiles tile =
        Some (kOk, Some (padded_offsets t), Some (sequence_lengths t), Some ts', Some tls', Some (tc[nat 0 := ?T batch]))"
      unfolding call st T(1) f n by simp
    have entries: "ts' ! nat (?T r + k) = r \<and> tls' ! nat (?T r + k) = k * tile"
      if "0 \<le> r" "r < batch" "0 \<le> k" "k < ntiles cum tile r" for r k
      using v [of "?T r + k"] i [OF that] True l that by (simp add: listed_def)
    have "tc[nat 0 := ?T batch] ! 0 = ?T batch" using bufs(5) by simp
    moreover have "\<forall>i. ?T batch \<le> i \<and> i < max_tiles \<longrightarrow> ts' ! nat i = - 1 \<and> tls' ! nat i = - 1"
      using v T(2) by simp
    ultimately show ?thesis using ok entries m True by (simp add: measured_def)
  qed
qed

lemma varlen_worklist_lists_every_tile_witness:
  "\<exists>po lens ts tls tc. varlen_build_worklist (Some [0, 3, 4]) (Some [9, 9, 9]) (Some [9, 9]) (Some (replicate 4 9))
      (Some (replicate 4 9)) (Some [9]) 2 4 2 = Some (kOk, Some po, Some lens, Some ts, Some tls, Some tc) \<and>
    tc ! 0 = 3 \<and> ts ! 1 = 0 \<and> tls ! 1 = 2 \<and> ts ! 2 = 1 \<and> po ! 2 = 6 \<and> ts ! 3 = - 1"
proof -
  have two: "r = 0 \<or> r = 1" if "0 \<le> r \<and> r < 2" for r :: int using that by presburger
  have c: "cumulative [0, 3, 4] 2 4" by (auto simp: cumulative_def dest!: two)
  have u: "[0..1] = [0, 1 :: int]" by (simp add: upto.simps)
  have T: "tiles_before [0, 3, 4] 2 2 = 3" "tiles_before [0, 3, 4] 2 1 = 2" "ntiles [0, 3, 4] 2 0 = 2" "ntiles [0, 3, 4] 2 1 = 1"
    by (simp_all add: tiles_before_def ntiles_def u)
  obtain st po lens ts tls tc where run: "varlen_build_worklist (Some [0, 3, 4]) (Some [9, 9, 9]) (Some [9, 9])
      (Some (replicate 4 9)) (Some (replicate 4 9)) (Some [9]) 2 4 2 = Some (st, Some po, Some lens, Some ts, Some tls, Some tc)"
    and res: "st = kOk \<and> tc ! 0 = 3 \<and>
       (\<forall>r. 0 \<le> r \<and> r < 2 \<longrightarrow> lens ! nat r = [0, 3, 4] ! nat (r + 1) - [0, 3, 4] ! nat r \<and>
         (\<forall>k. 0 \<le> k \<and> k < ntiles [0, 3, 4] 2 r \<longrightarrow> ts ! nat (tiles_before [0, 3, 4] 2 r + k) = r \<and>
           tls ! nat (tiles_before [0, 3, 4] 2 r + k) = k * 2)) \<and>
       (\<forall>r. 0 \<le> r \<and> r \<le> 2 \<longrightarrow> po ! nat r = tiles_before [0, 3, 4] 2 r * 2) \<and>
       (\<forall>i. 3 \<le> i \<and> i < 4 \<longrightarrow> ts ! nat i = - 1 \<and> tls ! nat i = - 1)"
    using varlen_worklist_lists_every_tile [OF c, of 2 4 "[9, 9, 9]" "[9, 9]" "replicate 4 9" "replicate 4 9" "[9]"]
    by (auto simp: T int_limits)
  have e: "ts ! nat (tiles_before [0, 3, 4] 2 0 + 1) = 0 \<and> tls ! nat (tiles_before [0, 3, 4] 2 0 + 1) = 1 * 2"
      "ts ! nat (tiles_before [0, 3, 4] 2 1 + 0) = 1"
    using res [THEN conjunct2, THEN conjunct2, THEN conjunct1, rule_format, of 0, THEN conjunct2, rule_format, of 1]
      res [THEN conjunct2, THEN conjunct2, THEN conjunct1, rule_format, of 1, THEN conjunct2, rule_format, of 0]
    unfolding T by simp_all
  have p: "po ! nat 2 = tiles_before [0, 3, 4] 2 2 * 2" "ts ! nat 3 = - 1"
    using res [THEN conjunct2, THEN conjunct2, THEN conjunct2, THEN conjunct1, rule_format, of 2]
      res [THEN conjunct2, THEN conjunct2, THEN conjunct2, THEN conjunct2, rule_format, of 3] by simp_all
  show ?thesis using run res e p unfolding T by simp
qed

end
