(* ===== verification/Collectives.thy ===== *)
theory Collectives
  imports Grid
begin

text \<open>
  The single-process collectives of \<^verbatim>\<open>kernels/collectives/collectives_ref.cpp\<close>: the buffers of all ranks lie one after
  the other. \<open>add\<close>, \<open>mac\<close> and \<open>narrow\<close> stand for the float addition, the double accumulation of a float product and the
  conversion back to float; nothing is assumed of them.
\<close>

section \<open>Definitions\<close>

definition sum_item :: "('f \<Rightarrow> 'f \<Rightarrow> 'f) \<Rightarrow> 'f list \<Rightarrow> int \<Rightarrow> int \<Rightarrow> int \<Rightarrow> 'f list \<Rightarrow> 'f list option" where
  "sum_item add input n rank item sums =
     do { a \<leftarrow> rd sums item; v \<leftarrow> rd input (rank * n + item); wr sums item (add a v) }"

definition sum_ranks :: "'f \<Rightarrow> ('f \<Rightarrow> 'f \<Rightarrow> 'f) \<Rightarrow> 'f list \<Rightarrow> int \<Rightarrow> int \<Rightarrow> 'f list option" where
  "sum_ranks zero add input world n =
     loop 0 world (\<lambda>rank. loop 0 n (sum_item add input n rank)) (replicate (nat n) zero)"

definition all_reduce_sum ::
  "'f \<Rightarrow> ('f \<Rightarrow> 'f \<Rightarrow> 'f) \<Rightarrow> 'f ptr \<Rightarrow> 'f ptr \<Rightarrow> int \<Rightarrow> int \<Rightarrow> (status \<times> 'f ptr) option" where
  "all_reduce_sum zero add input output world n =
     (if \<not> valid_product [world, n] then Some (kInvalidShape, output)
      else case (input, output) of
        (Some inp, Some out) \<Rightarrow> do {
          sums \<leftarrow> sum_ranks zero add inp world n;
          out \<leftarrow> loop 0 world (\<lambda>rank out. copy_n sums 0 n out (rank * n)) out;
          Some (kOk, Some out) }
      | _ \<Rightarrow> Some (kInvalidArgument, output))"

definition all_gather :: "'f ptr \<Rightarrow> 'f ptr \<Rightarrow> int \<Rightarrow> int \<Rightarrow> (status \<times> 'f ptr) option" where
  "all_gather input output world n =
     (if \<not> valid_product [world, n] then Some (kInvalidShape, output)
      else case (input, output) of
        (Some inp, Some out) \<Rightarrow>
          if \<not> in_range inp 0 (world * n) then None
          else do {
            let gathered = take (nat (world * n)) inp;
            out \<leftarrow> loop 0 world (\<lambda>rank out. copy_n gathered 0 (world * n) out (rank * world * n)) out;
            Some (kOk, Some out) }
      | _ \<Rightarrow> Some (kInvalidArgument, output))"

definition scatter_item :: "('f \<Rightarrow> 'f \<Rightarrow> 'f) \<Rightarrow> 'f list \<Rightarrow> int \<Rightarrow> int \<Rightarrow> int \<Rightarrow> int \<Rightarrow> int \<Rightarrow> 'f list \<Rightarrow> 'f list option" where
  "scatter_item add input world n source destination item result =
     do { a \<leftarrow> rd result (destination * n + item);
          v \<leftarrow> rd input ((source * world + destination) * n + item);
          wr result (destination * n + item) (add a v) }"

definition reduce_scatter_sum ::
  "'f \<Rightarrow> ('f \<Rightarrow> 'f \<Rightarrow> 'f) \<Rightarrow> 'f ptr \<Rightarrow> 'f ptr \<Rightarrow> int \<Rightarrow> int \<Rightarrow> (status \<times> 'f ptr) option" where
  "reduce_scatter_sum zero add input output world n =
     (if \<not> valid_product [world, world, n] then Some (kInvalidShape, output)
      else case (input, output) of
        (Some inp, Some out) \<Rightarrow> do {
          result \<leftarrow> loop 0 world (\<lambda>source. loop 0 world (\<lambda>destination. loop 0 n (scatter_item add inp world n source destination)))
            (replicate (nat (world * n)) zero);
          out \<leftarrow> copy_n result 0 (world * n) out 0;
          Some (kOk, Some out) }
      | _ \<Rightarrow> Some (kInvalidArgument, output))"

definition all_to_all :: "'f ptr \<Rightarrow> 'f ptr \<Rightarrow> int \<Rightarrow> int \<Rightarrow> (status \<times> 'f ptr) option" where
  "all_to_all input output world n =
     (if \<not> valid_product [world, world, n] then Some (kInvalidShape, output)
      else case (input, output) of
        (Some inp, Some out) \<Rightarrow>
          if \<not> in_range inp 0 (world * world * n) then None
          else do {
            let source = take (nat (world * world * n)) inp;
            out \<leftarrow> loop 0 world (\<lambda>source_rank. loop 0 world (\<lambda>destination out.
              copy_n source ((source_rank * world + destination) * n) n out ((destination * world + source_rank) * n))) out;
            Some (kOk, Some out) }
      | _ \<Rightarrow> Some (kInvalidArgument, output))"

definition broadcast :: "'f ptr \<Rightarrow> 'f ptr \<Rightarrow> int \<Rightarrow> int \<Rightarrow> int \<Rightarrow> (status \<times> 'f ptr) option" where
  "broadcast input output world n root =
     (if \<not> valid_product [world, n] \<or> root < 0 \<or> root \<ge> world then Some (kInvalidShape, output)
      else case (input, output) of
        (Some inp, Some out) \<Rightarrow>
          if \<not> in_range inp (root * n) n then None
          else do {
            let root_values = take (nat n) (drop (nat (root * n)) inp);
            out \<leftarrow> loop 0 world (\<lambda>rank out. copy_n root_values 0 n out (rank * n)) out;
            Some (kOk, Some out) }
      | _ \<Rightarrow> Some (kInvalidArgument, output))"

definition reduce_sum ::
  "'f \<Rightarrow> ('f \<Rightarrow> 'f \<Rightarrow> 'f) \<Rightarrow> 'f ptr \<Rightarrow> 'f ptr \<Rightarrow> int \<Rightarrow> int \<Rightarrow> int \<Rightarrow> (status \<times> 'f ptr) option" where
  "reduce_sum zero add input output world n root =
     (if \<not> valid_product [world, n] \<or> root < 0 \<or> root \<ge> world then Some (kInvalidShape, output)
      else case (input, output) of
        (Some inp, Some out) \<Rightarrow> do {
          sums \<leftarrow> sum_ranks zero add inp world n;
          out \<leftarrow> copy_n sums 0 n out (root * n);
          Some (kOk, Some out) }
      | _ \<Rightarrow> Some (kInvalidArgument, output))"

text \<open>The inner product of a row of \<open>a\<close> and a column of \<open>b\<close>.\<close>

definition dot :: "'d \<Rightarrow> ('d \<Rightarrow> 'f \<Rightarrow> 'f \<Rightarrow> 'd) \<Rightarrow> 'f list \<Rightarrow> 'f list \<Rightarrow> int \<Rightarrow> int \<Rightarrow> int \<Rightarrow> int \<Rightarrow> int \<Rightarrow> 'd option" where
  "dot dzero mac a b a_row b_row column n k =
     loop 0 k (\<lambda>inner sum. do {
       x \<leftarrow> rd a (a_row * k + inner); y \<leftarrow> rd b ((b_row * k + inner) * n + column); Some (mac sum x y) }) dzero"

definition gemm_reduce_item ::
  "('f \<Rightarrow> 'f \<Rightarrow> 'f) \<Rightarrow> 'd \<Rightarrow> ('d \<Rightarrow> 'f \<Rightarrow> 'f \<Rightarrow> 'd) \<Rightarrow> ('d \<Rightarrow> 'f) \<Rightarrow> 'f list \<Rightarrow> 'f list \<Rightarrow> int \<Rightarrow> int \<Rightarrow> int \<Rightarrow>
    int \<Rightarrow> int \<Rightarrow> int \<Rightarrow> 'f list \<Rightarrow> 'f list option" where
  "gemm_reduce_item add dzero mac narrow a b m n k rank r column reduced =
     do { sum \<leftarrow> dot dzero mac a b (rank * m + r) rank column n k;
          s \<leftarrow> rd reduced (r * n + column);
          wr reduced (r * n + column) (add s (narrow sum)) }"

definition gemm_all_reduce ::
  "'f \<Rightarrow> ('f \<Rightarrow> 'f \<Rightarrow> 'f) \<Rightarrow> 'd \<Rightarrow> ('d \<Rightarrow> 'f \<Rightarrow> 'f \<Rightarrow> 'd) \<Rightarrow> ('d \<Rightarrow> 'f) \<Rightarrow> 'f ptr \<Rightarrow> 'f ptr \<Rightarrow> 'f ptr \<Rightarrow>
    int \<Rightarrow> int \<Rightarrow> int \<Rightarrow> int \<Rightarrow> (status \<times> 'f ptr) option" where
  "gemm_all_reduce zero add dzero mac narrow a b output world m n k =
     (if \<not> valid_product [world, m, n, k] then Some (kInvalidShape, output)
      else case (a, b, output) of
        (Some a, Some b, Some out) \<Rightarrow> do {
          reduced \<leftarrow> loop 0 world (\<lambda>rank. loop 0 m (\<lambda>r. loop 0 n (gemm_reduce_item add dzero mac narrow a b m n k rank r)))
            (replicate (nat (m * n)) zero);
          out \<leftarrow> loop 0 world (\<lambda>rank out. copy_n reduced 0 (m * n) out (rank * m * n)) out;
          Some (kOk, Some out) }
      | _ \<Rightarrow> Some (kInvalidArgument, output))"

definition all_gather_gemm ::
  "'d \<Rightarrow> ('d \<Rightarrow> 'f \<Rightarrow> 'f \<Rightarrow> 'd) \<Rightarrow> ('d \<Rightarrow> 'f) \<Rightarrow> 'f ptr \<Rightarrow> 'f ptr \<Rightarrow> 'f ptr \<Rightarrow>
    int \<Rightarrow> int \<Rightarrow> int \<Rightarrow> int \<Rightarrow> (status \<times> 'f ptr) option" where
  "all_gather_gemm dzero mac narrow a b output world m n k =
     (if \<not> valid_product [world, m, n, k] then Some (kInvalidShape, output)
      else case (a, b, output) of
        (Some a, Some b, Some out) \<Rightarrow> do {
          out \<leftarrow> loop 0 world (\<lambda>destination. loop 0 world (\<lambda>source. loop 0 m (\<lambda>r. loop 0 n (\<lambda>column out. do {
            sum \<leftarrow> dot dzero mac a b (source * m + r) destination column n k;
            wr out (((destination * world + source) * m + r) * n + column) (narrow sum) })))) out;
          Some (kOk, Some out) }
      | _ \<Rightarrow> Some (kInvalidArgument, output))"

definition gemm_reduce_scatter ::
  "'f \<Rightarrow> ('f \<Rightarrow> 'f \<Rightarrow> 'f) \<Rightarrow> 'd \<Rightarrow> ('d \<Rightarrow> 'f \<Rightarrow> 'f \<Rightarrow> 'd) \<Rightarrow> ('d \<Rightarrow> 'f) \<Rightarrow> 'f ptr \<Rightarrow> 'f ptr \<Rightarrow> 'f ptr \<Rightarrow>
    int \<Rightarrow> int \<Rightarrow> int \<Rightarrow> int \<Rightarrow> (status \<times> 'f ptr) option" where
  "gemm_reduce_scatter zero add dzero mac narrow a b output world m n k =
     (if \<not> valid_product [world, m, n, k] then Some (kInvalidShape, output)
      else case (a, b, output) of
        (Some a, Some b, Some out) \<Rightarrow> do {
          out \<leftarrow> fill_n out 0 (world * m * n) zero;
          out \<leftarrow> loop 0 world (\<lambda>source. loop 0 world (\<lambda>destination. loop 0 m (\<lambda>r. loop 0 n (\<lambda>column out. do {
            sum \<leftarrow> dot dzero mac a b (source * world * m + (destination * m + r)) source column n k;
            s \<leftarrow> rd out ((destination * m + r) * n + column);
            wr out ((destination * m + r) * n + column) (add s (narrow sum)) })))) out;
          Some (kOk, Some out) }
      | _ \<Rightarrow> Some (kInvalidArgument, output))"

section \<open>Sums over the ranks\<close>

text \<open>What every rank contributes to element \<open>i\<close>, added in rank order to zero.\<close>

definition rank_sum :: "'f \<Rightarrow> ('f \<Rightarrow> 'f \<Rightarrow> 'f) \<Rightarrow> 'f list \<Rightarrow> int \<Rightarrow> int \<Rightarrow> int \<Rightarrow> 'f" where
  "rank_sum zero add input world n i = foldl (\<lambda>s q. add s (input ! nat (q * n + i))) zero [0..world - 1]"

lemma nth_replicate_int: "0 \<le> i \<Longrightarrow> i < n \<Longrightarrow> replicate (nat n) v ! nat i = v"
  by simp

lemma sum_ranks_ok:
  assumes "0 \<le> world" "0 < n" "world * n \<le> int (length input)"
  shows "ok (\<lambda>sums. int (length sums) = n \<and> (\<forall>i. 0 \<le> i \<and> i < n \<longrightarrow> sums ! nat i = rank_sum zero add input world n i))
    (sum_ranks zero add input world n)"
proof -
  have "ok (\<lambda>u. length u = length (replicate (nat n) zero) \<and> (\<forall>i. 0 \<le> i \<and> i < n \<longrightarrow>
      u ! nat i = foldl (\<lambda>s q. add s (input ! nat (q * n + i))) (replicate (nat n) zero ! nat i) [0..world - 1]))
    (loop 0 world (\<lambda>rank. loop 0 n (sum_item add input n rank)) (replicate (nat n) zero))"
  proof (rule accumulate_passes [OF assms(1)])
    fix q and t :: "'a list" assume q: "0 \<le> q" "q < world" and t: "length t = length (replicate (nat n) zero)"
    have "ok (\<lambda>d. outside_same 0 n t d \<and> (\<forall>j. 0 \<le> j \<and> j < n \<longrightarrow> d ! nat (0 + j) = add (t ! nat j) (input ! nat (q * n + j))))
      (loop 0 n (sum_item add input n q) t)"
    proof (rule seg_loop)
      fix j d assume j: "0 \<le> j" "j < n" and d: "outside_same 0 n t d"
        and old: "\<And>k. j \<le> k \<Longrightarrow> k < n \<Longrightarrow> d ! nat (0 + k) = t ! nat (0 + k)"
      have "0 \<le> q * n + j" "q * n + j < int (length input)" using index_bound [OF q j] assms by auto
      then show "sum_item add input n q j d = Some (d[nat (0 + j) := add (t ! nat j) (input ! nat (q * n + j))])"
        using old [of j] j outside_same_length [OF d] t by (simp add: sum_item_def rd_at wr_at)
    qed (use t assms in auto)
    then show "ok (\<lambda>u. length u = length (replicate (nat n) zero) \<and> (\<forall>i. 0 \<le> i \<and> i < n \<longrightarrow>
        u ! nat i = add (t ! nat i) (input ! nat (q * n + i)))) (loop 0 n (sum_item add input n q) t)"
      using t by (elim ok_mono) (auto dest: outside_same_length)
  qed
  then show ?thesis using assms(2) by (auto simp: sum_ranks_def rank_sum_def elim!: ok_mono)
qed

text \<open>Every rank receives the same block of values.\<close>

lemma copy_to_ranks:
  assumes "0 \<le> world" "0 < n" "int (length vs) = n" "world * n \<le> int (length out)"
    and at: "\<And>rank. at rank = rank * n"
  shows "ok (rows_are n world (\<lambda>_ j. vs ! nat j) out) (loop 0 world (\<lambda>rank out. copy_n vs 0 n out (at rank)) out)"
proof (rule rows_loop)
  fix r and t :: "'a list" assume r: "0 \<le> r" "r < world" and t: "length t = length out"
  have b: "0 \<le> r * n" "r * n + n \<le> int (length t)" using row_bound [of r world n] r assms t by auto
  have c: "copy_n vs 0 n t (at r) = Some (splice t (nat (r * n)) vs)"
    using b assms by (simp add: copy_n_def in_range_def)
  have le: "nat (r * n) + length vs \<le> length t" using b assms by (simp add: nat_eq_iff)
  have "outside_same (r * n) n t (splice t (nat (r * n)) vs)"
    using nth_splice [OF le] length_splice [OF le] b assms(3) by (auto simp: outside_same_def)
  moreover have "splice t (nat (r * n)) vs ! nat (r * n + j) = vs ! nat j" if "0 \<le> j" "j < n" for j
    using nth_splice [OF le, of "nat (r * n + j)"] b that assms(3) by (simp add: nat_add_distrib nat_less_iff)
  ultimately show "ok (\<lambda>u. outside_same (r * n) n t u \<and> (\<forall>j. 0 \<le> j \<and> j < n \<longrightarrow> u ! nat (r * n + j) = vs ! nat j))
      (copy_n vs 0 n t (at r))" unfolding c ok_Some by simp
qed (use assms in auto)

lemma all_reduce_sum_ok:
  assumes "0 < world" "0 < n" "world * n \<le> LLONG_MAX" "world * n \<le> int (length inp)" "world * n \<le> int (length out)"
  shows "\<exists>out'. all_reduce_sum zero add (Some inp) (Some out) world n = Some (kOk, Some out') \<and>
    rows_are n world (\<lambda>_ i. rank_sum zero add inp world n i) out out'"
proof -
  obtain sums where s: "sum_ranks zero add inp world n = Some sums" "int (length sums) = n"
      "\<And>i. 0 \<le> i \<Longrightarrow> i < n \<Longrightarrow> sums ! nat i = rank_sum zero add inp world n i"
    using sum_ranks_ok [of world n inp zero add] assms by (auto simp: ok_def)
  obtain out' where "loop 0 world (\<lambda>rank out. copy_n sums 0 n out (rank * n)) out = Some out'"
      "rows_are n world (\<lambda>_ j. sums ! nat j) out out'"
    using copy_to_ranks [of world n sums out "\<lambda>rank. rank * n"] s assms by (auto simp: ok_def)
  then show ?thesis using s assms by (simp add: all_reduce_sum_def rows_are_def)
qed

lemma all_gather_ok:
  assumes "0 < world" "0 < n" "world * n \<le> LLONG_MAX" "world * n \<le> int (length inp)" "world * (world * n) \<le> int (length out)"
  shows "\<exists>out'. all_gather (Some inp) (Some out) world n = Some (kOk, Some out') \<and>
    rows_are (world * n) world (\<lambda>_ i. inp ! nat i) out out'"
proof -
  let ?vs = "take (nat (world * n)) inp"
  obtain out' where c: "loop 0 world (\<lambda>rank out. copy_n ?vs 0 (world * n) out (rank * world * n)) out = Some out'"
      "rows_are (world * n) world (\<lambda>_ j. ?vs ! nat j) out out'"
    using copy_to_ranks [of world "world * n" ?vs out "\<lambda>rank. rank * world * n"] assms by (auto simp: ok_def mult.assoc)
  have "in_range inp 0 (world * n)" using assms by (simp add: in_range_def)
  then show ?thesis using c assms by (simp add: all_gather_def rows_are_def)
qed

lemma reduce_scatter_sum_ok:
  assumes "0 < world" "0 < n" "world * world * n \<le> LLONG_MAX" "world * (world * n) \<le> int (length inp)"
    "world * n \<le> int (length out)"
  shows "\<exists>out'. reduce_scatter_sum zero add (Some inp) (Some out) world n = Some (kOk, Some out') \<and> length out' = length out \<and>
    (\<forall>i. 0 \<le> i \<and> i < world * n \<longrightarrow> out' ! nat i = rank_sum zero add inp world (world * n) i)"
proof -
  let ?z = "replicate (nat (world * n)) zero"
  have "ok (\<lambda>u. length u = length ?z \<and> (\<forall>i. 0 \<le> i \<and> i < world * n \<longrightarrow>
      u ! nat i = foldl (\<lambda>s q. add s (inp ! nat (q * (world * n) + i))) (?z ! nat i) [0..world - 1]))
    (loop 0 world (\<lambda>source. loop 0 world (\<lambda>destination. loop 0 n (scatter_item add inp world n source destination))) ?z)"
  proof (rule accumulate_passes)
    fix q and t :: "'a list" assume q: "0 \<le> q" "q < world" and t: "length t = length ?z"
    have "ok (rows_are n world (\<lambda>d j. add (t ! nat (d * n + j)) (inp ! nat (q * (world * n) + (d * n + j)))) t)
      (loop 0 world (\<lambda>d. loop 0 n (scatter_item add inp world n q d)) t)"
    proof (rule grid_loop)
      fix d j and u :: "'a list" assume d: "0 \<le> d" "d < world" "0 \<le> j" "j < n" and u: "length u = length t"
        and old: "u ! nat (d * n + j) = t ! nat (d * n + j)"
      have i: "(q * world + d) * n + j = q * (world * n) + (d * n + j)" by (simp add: algebra_simps)
      have b: "0 \<le> d * n + j" "d * n + j < world * n" using index_bound [OF d] by auto
      moreover have "0 \<le> q * (world * n) + (d * n + j)" "q * (world * n) + (d * n + j) < int (length inp)"
        using index_bound [OF q b] assms by auto
      ultimately show "scatter_item add inp world n q d j u =
          Some (u[nat (d * n + j) := add (t ! nat (d * n + j)) (inp ! nat (q * (world * n) + (d * n + j)))])"
        using u t old by (simp add: scatter_item_def i rd_at wr_at)
    qed (use assms t in auto)
    then show "ok (\<lambda>u. length u = length ?z \<and> (\<forall>i. 0 \<le> i \<and> i < world * n \<longrightarrow>
        u ! nat i = add (t ! nat i) (inp ! nat (q * (world * n) + i))))
      (loop 0 world (\<lambda>d. loop 0 n (scatter_item add inp world n q d)) t)"
    proof (rule ok_mono)
      fix u assume u: "rows_are n world (\<lambda>d j. add (t ! nat (d * n + j)) (inp ! nat (q * (world * n) + (d * n + j)))) t u"
      show "length u = length ?z \<and> (\<forall>i. 0 \<le> i \<and> i < world * n \<longrightarrow>
          u ! nat i = add (t ! nat i) (inp ! nat (q * (world * n) + i)))"
      proof (intro conjI allI impI)
        show "length u = length ?z" using rows_are_length [OF u] t by simp
        fix i assume "0 \<le> i \<and> i < world * n"
        then have d: "0 \<le> i div n" "i div n < world" "0 \<le> i mod n" "i mod n < n" "i = (i div n) * n + i mod n"
          using div_mod_bound [of i world n] assms by auto
        show "u ! nat i = add (t ! nat i) (inp ! nat (q * (world * n) + i))"
          using rows_areD [OF u d(1-4)] d(5) by simp
      qed
    qed
  qed (use assms in simp)
  then obtain result where r: "loop 0 world (\<lambda>source. loop 0 world (\<lambda>destination. loop 0 n
      (scatter_item add inp world n source destination))) ?z = Some result" "int (length result) = world * n"
    and v: "\<And>i. 0 \<le> i \<Longrightarrow> i < world * n \<Longrightarrow> result ! nat i = rank_sum zero add inp world (world * n) i"
    using assms by (auto simp: ok_def rank_sum_def)
  have pos: "0 < world * n" using assms by simp
  then have np: "\<not> world * n \<le> 0" by linarith
  have c: "copy_n result 0 (world * n) out 0 = Some (splice out 0 result)"
    using r(2) assms pos unfolding copy_n_def if_not_P [OF np] by (simp add: in_range_def)
  have le: "0 + length result \<le> length out" using r(2) assms by simp
  have "splice out 0 result ! nat i = result ! nat i" if "0 \<le> i" "i < world * n" for i
    using nth_splice [OF le, of "nat i"] that r(2) assms by (simp add: nat_less_iff)
  moreover have "valid_product [world, world, n]" using assms by simp
  ultimately show ?thesis using r c v length_splice [OF le] by (simp add: reduce_scatter_sum_def)
qed

text \<open>
  C29: an all-reduce of blocks of \<open>world * n\<close> elements is a reduce-scatter followed by an all-gather, bit for bit, for
  every addition: both add the ranks in the same order.
\<close>

theorem all_reduce_is_scatter_then_gather:
  assumes "0 < world" "0 < n" "world * (world * n) \<le> LLONG_MAX"
    and "world * (world * n) \<le> int (length inp)" "world * n \<le> int (length part)" "world * (world * n) \<le> int (length out)"
  shows "\<exists>part' out'. reduce_scatter_sum zero add (Some inp) (Some part) world n = Some (kOk, Some part') \<and>
    all_gather (Some part') (Some out) world n = Some (kOk, Some out') \<and>
    all_reduce_sum zero add (Some inp) (Some out) world (world * n) = Some (kOk, Some out')"
proof -
  have pos: "0 < world * n" using assms by simp
  have "1 * (world * n) \<le> world * (world * n)" using assms(1) pos by (intro mult_right_mono) auto
  then have small: "world * n \<le> LLONG_MAX" using assms(3) by simp
  obtain part' where p: "reduce_scatter_sum zero add (Some inp) (Some part) world n = Some (kOk, Some part')"
      "length part' = length part"
      "\<And>i. 0 \<le> i \<Longrightarrow> i < world * n \<Longrightarrow> part' ! nat i = rank_sum zero add inp world (world * n) i"
    using reduce_scatter_sum_ok [of world n inp part zero add] assms by (auto simp: mult.assoc)
  obtain out1 where g: "all_gather (Some part') (Some out) world n = Some (kOk, Some out1)"
      "rows_are (world * n) world (\<lambda>_ i. part' ! nat i) out out1"
    using all_gather_ok [of world n part' out] assms small p(2) by auto
  obtain out2 where r: "all_reduce_sum zero add (Some inp) (Some out) world (world * n) = Some (kOk, Some out2)"
      "rows_are (world * n) world (\<lambda>_ i. rank_sum zero add inp world (world * n) i) out out2"
    using all_reduce_sum_ok [of world "world * n" inp out zero add] assms pos by auto
  have "rows_are (world * n) world (\<lambda>_ i. part' ! nat i) out out2"
    using r(2) p(3) by (simp add: rows_are_def)
  then have "out1 = out2" using rows_are_unique [OF g(2)] pos assms(1) by simp
  then show ?thesis using p(1) g(1) r(1) by blast
qed

lemma all_reduce_is_scatter_then_gather_witness:
  "\<exists>part out. reduce_scatter_sum 0 (+) (Some [1, 2, 3, 4 :: int]) (Some [9, 9]) 2 1 = Some (kOk, Some part) \<and>
    all_gather (Some part) (Some [9, 9, 9, 9]) 2 1 = Some (kOk, Some out) \<and>
    all_reduce_sum 0 (+) (Some [1, 2, 3, 4]) (Some [9, 9, 9, 9]) 2 2 = Some (kOk, Some out)"
  using all_reduce_is_scatter_then_gather [of 2 1 "[1, 2, 3, 4 :: int]" "[9, 9]" "[9, 9, 9, 9]" 0 "(+)"]
  by (simp add: int_limits)

section \<open>Exchanges\<close>

lemma all_to_all_ok:
  assumes "0 < world" "0 < n" "world * world * n \<le> LLONG_MAX" "world * world * n \<le> int (length inp)"
    "world * world * n \<le> int (length out)"
  shows "\<exists>out'. all_to_all (Some inp) (Some out) world n = Some (kOk, Some out') \<and> length out' = length out \<and>
    (\<forall>s d. 0 \<le> s \<and> s < world \<and> 0 \<le> d \<and> d < world \<longrightarrow> row n out' (d * world + s) = row n inp (s * world + d))"
proof -
  let ?src = "take (nat (world * world * n)) inp"
  have "ok (\<lambda>dst'. length dst' = length out \<and>
      (\<forall>s d. 0 \<le> s \<and> s < world \<and> 0 \<le> d \<and> d < world \<longrightarrow> row n dst' (d * world + s) = row n ?src (s * world + d)) \<and>
      (\<forall>k. 0 \<le> k \<and> k < world * world \<and> (\<forall>s d. 0 \<le> s \<and> s < world \<and> 0 \<le> d \<and> d < world \<longrightarrow> k \<noteq> d * world + s) \<longrightarrow>
        row n dst' k = row n out k))
    (loop 0 world (\<lambda>s. loop 0 world (\<lambda>d out. copy_n ?src ((s * world + d) * n) n out ((d * world + s) * n))) out)"
  proof (rule copy_rows_2d [of n world world "world * world"])
    fix l h l' h' assume "0 \<le> l" "l < world" "0 \<le> h" "h < world" "0 \<le> l'" "l' < world" "0 \<le> h'" "h' < world"
      and "h * world + l = h' * world + l'"
    then show "l = l' \<and> h = h'" using index_unique [of l world l' h h'] by simp
  qed (use assms index_bound in auto)
  then obtain out' where l: "loop 0 world (\<lambda>s. loop 0 world (\<lambda>d out.
        copy_n ?src ((s * world + d) * n) n out ((d * world + s) * n))) out = Some out'" "length out' = length out"
    and r: "\<And>s d. 0 \<le> s \<Longrightarrow> s < world \<Longrightarrow> 0 \<le> d \<Longrightarrow> d < world \<Longrightarrow>
      row n out' (d * world + s) = row n ?src (s * world + d)" by (auto simp: ok_def)
  have "row n ?src (s * world + d) = row n inp (s * world + d)" if "0 \<le> s" "s < world" "0 \<le> d" "d < world" for s d
    using row_take [of "s * world + d" "world * world" n inp] index_bound [OF that] assms(2) by simp
  moreover have "in_range inp 0 (world * world * n)" using assms by (simp add: in_range_def)
  ultimately show ?thesis using l r assms by (simp add: all_to_all_def)
qed

text \<open>An all-to-all exchange done twice restores the buffers: rank \<open>s\<close> gets back the block it sent to rank \<open>d\<close>.\<close>

theorem all_to_all_roundtrip:
  assumes "0 < world" "0 < n" "world * world * n \<le> LLONG_MAX"
    and "int (length inp) = world * world * n" "world * world * n \<le> int (length mid)" "int (length out) = world * world * n"
  shows "\<exists>mid'. all_to_all (Some inp) (Some mid) world n = Some (kOk, Some mid') \<and>
    all_to_all (Some mid') (Some out) world n = Some (kOk, Some inp)"
proof -
  obtain mid' where m: "all_to_all (Some inp) (Some mid) world n = Some (kOk, Some mid')" "length mid' = length mid"
      "\<And>s d. 0 \<le> s \<Longrightarrow> s < world \<Longrightarrow> 0 \<le> d \<Longrightarrow> d < world \<Longrightarrow> row n mid' (d * world + s) = row n inp (s * world + d)"
    using all_to_all_ok [of world n inp mid] assms by auto
  obtain out' where o: "all_to_all (Some mid') (Some out) world n = Some (kOk, Some out')" "length out' = length out"
      "\<And>s d. 0 \<le> s \<Longrightarrow> s < world \<Longrightarrow> 0 \<le> d \<Longrightarrow> d < world \<Longrightarrow> row n out' (d * world + s) = row n mid' (s * world + d)"
    using all_to_all_ok [of world n mid' out] assms m(2) by auto
  have "out' = inp"
  proof (rule rows_eqI [of n "world * world"])
    fix i assume i: "0 \<le> i" "i < world * world"
    note d = div_mod_bound [OF i assms(1)]
    show "row n out' i = row n inp i"
      using o(3) [OF d(3,4,1,2)] m(3) [OF d(1,2,3,4)] d(5) by simp
  qed (use assms o in auto)
  then show ?thesis using m o by blast
qed

lemma all_to_all_roundtrip_witness:
  "\<exists>mid. all_to_all (Some [1, 2, 3, 4 :: int]) (Some [0, 0, 0, 0]) 2 1 = Some (kOk, Some mid) \<and>
    all_to_all (Some mid) (Some [0, 0, 0, 0]) 2 1 = Some (kOk, Some [1, 2, 3, 4])"
  using all_to_all_roundtrip [of 2 1 "[1, 2, 3, 4 :: int]" "[0, 0, 0, 0]" "[0, 0, 0, 0]"] by (simp add: int_limits)

section \<open>Products\<close>

definition dot_value ::
  "'d \<Rightarrow> ('d \<Rightarrow> 'f \<Rightarrow> 'f \<Rightarrow> 'd) \<Rightarrow> 'f list \<Rightarrow> 'f list \<Rightarrow> int \<Rightarrow> int \<Rightarrow> int \<Rightarrow> int \<Rightarrow> int \<Rightarrow> 'd" where
  "dot_value dzero mac a b a_row b_row column n k =
     foldl (\<lambda>sum i. mac sum (a ! nat (a_row * k + i)) (b ! nat ((b_row * k + i) * n + column))) dzero [0..k - 1]"

lemma dot_is_value:
  assumes "0 \<le> a_row" "a_row < ma" "ma * k \<le> int (length a)" "0 \<le> b_row" "b_row < mb" "mb * k * n \<le> int (length b)"
    and "0 \<le> column" "column < n" "0 \<le> k"
  shows "dot dzero mac a b a_row b_row column n k = Some (dot_value dzero mac a b a_row b_row column n k)"
  unfolding dot_def dot_value_def
proof (rule fold_loop [OF assms(9)])
  fix i s assume i: "0 \<le> i" "i < k"
  have "rd a (a_row * k + i) = Some (a ! nat (a_row * k + i))"
    using index_bound [OF assms(1,2) i] assms(3) by (simp add: rd_at)
  moreover have "rd b ((b_row * k + i) * n + column) = Some (b ! nat ((b_row * k + i) * n + column))"
    using index_bound [OF index_bound [OF assms(4,5) i] assms(7,8)] assms(6) by (simp add: rd_at)
  ultimately show "do { x \<leftarrow> rd a (a_row * k + i); y \<leftarrow> rd b ((b_row * k + i) * n + column); Some (mac s x y) } =
      Some (mac s (a ! nat (a_row * k + i)) (b ! nat ((b_row * k + i) * n + column)))" by simp
qed

text \<open>The product of rank \<open>q\<close>'s own matrices.\<close>

definition local_product ::
  "'d \<Rightarrow> ('d \<Rightarrow> 'f \<Rightarrow> 'f \<Rightarrow> 'd) \<Rightarrow> ('d \<Rightarrow> 'f) \<Rightarrow> 'f list \<Rightarrow> 'f list \<Rightarrow> int \<Rightarrow> int \<Rightarrow> int \<Rightarrow> int \<Rightarrow> int \<Rightarrow> int \<Rightarrow> 'f" where
  "local_product dzero mac narrow a b m n k q r c = narrow (dot_value dzero mac a b (q * m + r) q c n k)"

lemma gemm_reduced:
  assumes pos: "0 \<le> world" "0 < m" "0 < n" "0 < k"
    and len: "world * m * k \<le> int (length a)" "world * k * n \<le> int (length b)"
  shows "ok (\<lambda>u. int (length u) = m * n \<and> (\<forall>r c. 0 \<le> r \<and> r < m \<and> 0 \<le> c \<and> c < n \<longrightarrow> u ! nat (r * n + c) =
      foldl (\<lambda>s q. add s (local_product dzero mac narrow a b m n k q r c)) zero [0..world - 1]))
    (loop 0 world (\<lambda>rank. loop 0 m (\<lambda>r. loop 0 n (gemm_reduce_item add dzero mac narrow a b m n k rank r)))
      (replicate (nat (m * n)) zero))"
proof -
  let ?z = "replicate (nat (m * n)) zero"
  let ?v = "\<lambda>q i. local_product dzero mac narrow a b m n k q (i div n) (i mod n)"
  have mn: "0 < m * n" using pos by simp
  have "ok (\<lambda>u. length u = length ?z \<and> (\<forall>i. 0 \<le> i \<and> i < m * n \<longrightarrow>
      u ! nat i = foldl (\<lambda>s q. add s (?v q i)) (?z ! nat i) [0..world - 1]))
    (loop 0 world (\<lambda>rank. loop 0 m (\<lambda>r. loop 0 n (gemm_reduce_item add dzero mac narrow a b m n k rank r))) ?z)"
  proof (rule accumulate_passes [OF pos(1)])
    fix q and t :: "'a list" assume q: "0 \<le> q" "q < world" and t: "length t = length ?z"
    have "ok (rows_are n m (\<lambda>r c. add (t ! nat (r * n + c)) (local_product dzero mac narrow a b m n k q r c)) t)
      (loop 0 m (\<lambda>r. loop 0 n (gemm_reduce_item add dzero mac narrow a b m n k q r)) t)"
    proof (rule grid_loop)
      fix r c and u :: "'a list" assume r: "0 \<le> r" "r < m" "0 \<le> c" "c < n" and u: "length u = length t"
        and old: "u ! nat (r * n + c) = t ! nat (r * n + c)"
      have "dot dzero mac a b (q * m + r) q c n k = Some (dot_value dzero mac a b (q * m + r) q c n k)"
        by (rule dot_is_value [where ma = "world * m" and mb = world]) (use q r pos len index_bound [OF q r(1,2)] in auto)
      moreover have "0 \<le> r * n + c" "r * n + c < int (length u)" using index_bound [OF r] u t mn by auto
      ultimately show "gemm_reduce_item add dzero mac narrow a b m n k q r c u =
          Some (u[nat (r * n + c) := add (t ! nat (r * n + c)) (local_product dzero mac narrow a b m n k q r c)])"
        using old by (simp add: gemm_reduce_item_def local_product_def rd_at wr_at)
    qed (use pos t mn in auto)
    then show "ok (\<lambda>u. length u = length ?z \<and> (\<forall>i. 0 \<le> i \<and> i < m * n \<longrightarrow> u ! nat i = add (t ! nat i) (?v q i)))
      (loop 0 m (\<lambda>r. loop 0 n (gemm_reduce_item add dzero mac narrow a b m n k q r)) t)"
    proof (rule ok_mono)
      fix u assume u: "rows_are n m (\<lambda>r c. add (t ! nat (r * n + c)) (local_product dzero mac narrow a b m n k q r c)) t u"
      have "u ! nat i = add (t ! nat i) (?v q i)" if "0 \<le> i" "i < m * n" for i
        using rows_areD [OF u, of "i div n" "i mod n"] div_mod_bound [OF that pos(3)] by simp
      then show "length u = length ?z \<and> (\<forall>i. 0 \<le> i \<and> i < m * n \<longrightarrow> u ! nat i = add (t ! nat i) (?v q i))"
        using rows_are_length [OF u] t by simp
    qed
  qed
  then show ?thesis
  proof (rule ok_mono)
    fix u assume u: "length u = length ?z \<and> (\<forall>i. 0 \<le> i \<and> i < m * n \<longrightarrow>
      u ! nat i = foldl (\<lambda>s q. add s (?v q i)) (?z ! nat i) [0..world - 1])"
    have "u ! nat (r * n + c) = foldl (\<lambda>s q. add s (local_product dzero mac narrow a b m n k q r c)) zero [0..world - 1]"
      if r: "0 \<le> r" "r < m" "0 \<le> c" "c < n" for r c
    proof -
      have i: "0 \<le> r * n + c" "r * n + c < m * n" using index_bound [OF r] by auto
      have "(r * n + c) div n = r" "(r * n + c) mod n = c" using r by auto
      then show ?thesis using u i by simp
    qed
    then show "int (length u) = m * n \<and> (\<forall>r c. 0 \<le> r \<and> r < m \<and> 0 \<le> c \<and> c < n \<longrightarrow> u ! nat (r * n + c) =
      foldl (\<lambda>s q. add s (local_product dzero mac narrow a b m n k q r c)) zero [0..world - 1])" using u mn by simp
  qed
qed

text \<open>
  The fused product and all-reduce gives every rank what multiplying locally and reducing with
  \<^verbatim>\<open>all_reduce_sum\<close> gives, element by element and with the same roundings.
\<close>

theorem gemm_all_reduce_is_product_then_reduce:
  assumes pos: "0 < world" "0 < m" "0 < n" "0 < k" "world * m * n * k \<le> LLONG_MAX"
    and len: "world * m * k \<le> int (length a)" "world * k * n \<le> int (length b)" "world * (m * n) \<le> int (length out)"
    and products: "world * (m * n) \<le> int (length ps)"
      "\<forall>q r c. 0 \<le> q \<and> q < world \<and> 0 \<le> r \<and> r < m \<and> 0 \<le> c \<and> c < n \<longrightarrow>
        ps ! nat (q * (m * n) + (r * n + c)) = local_product dzero mac narrow a b m n k q r c"
  shows "\<exists>out'. gemm_all_reduce zero add dzero mac narrow (Some a) (Some b) (Some out) world m n k = Some (kOk, Some out') \<and>
    all_reduce_sum zero add (Some ps) (Some out) world (m * n) = Some (kOk, Some out')"
proof -
  have mn: "0 < m * n" using pos by simp
  have "world * m * n * 1 \<le> world * m * n * k" using pos by (intro mult_left_mono) auto
  then have fit: "world * (m * n) \<le> LLONG_MAX" using pos(5) by (simp add: mult.assoc)
  obtain red where r: "loop 0 world (\<lambda>rank. loop 0 m (\<lambda>r. loop 0 n (gemm_reduce_item add dzero mac narrow a b m n k rank r)))
      (replicate (nat (m * n)) zero) = Some red" "int (length red) = m * n"
    and v: "\<And>r c. 0 \<le> r \<Longrightarrow> r < m \<Longrightarrow> 0 \<le> c \<Longrightarrow> c < n \<Longrightarrow> red ! nat (r * n + c) =
      foldl (\<lambda>s q. add s (local_product dzero mac narrow a b m n k q r c)) zero [0..world - 1]"
    using gemm_reduced [of world m n k a b add dzero mac narrow zero] pos len by (auto simp: ok_def)
  obtain out1 where c: "loop 0 world (\<lambda>rank out. copy_n red 0 (m * n) out (rank * m * n)) out = Some out1"
      "rows_are (m * n) world (\<lambda>_ j. red ! nat j) out out1"
    using copy_to_ranks [of world "m * n" red out "\<lambda>rank. rank * m * n"] r(2) mn pos len
    by (auto simp: ok_def mult.assoc)
  obtain out2 where s: "all_reduce_sum zero add (Some ps) (Some out) world (m * n) = Some (kOk, Some out2)"
      "rows_are (m * n) world (\<lambda>_ i. rank_sum zero add ps world (m * n) i) out out2"
    using all_reduce_sum_ok [OF pos(1) mn fit products(1) len(3), of zero add] by blast
  have eq: "red ! nat i = rank_sum zero add ps world (m * n) i" if i: "0 \<le> i" "i < m * n" for i
  proof -
    note d = div_mod_bound [OF i pos(3)]
    have "ps ! nat (q * (m * n) + i) = local_product dzero mac narrow a b m n k q (i div n) (i mod n)"
      if "0 \<le> q" "q < world" for q
      using products(2) d that by (metis d(5))
    then have "foldl (\<lambda>s q. add s (local_product dzero mac narrow a b m n k q (i div n) (i mod n))) zero [0..world - 1] =
        foldl (\<lambda>s q. add s (ps ! nat (q * (m * n) + i))) zero [0..world - 1]"
      by (intro foldl_cong) auto
    then show ?thesis using v [OF d(1-4)] d(5) by (simp add: rank_sum_def)
  qed
  then have "rows_are (m * n) world (\<lambda>_ i. rank_sum zero add ps world (m * n) i) out out1"
    using c(2) by (simp add: rows_are_def)
  then have "out1 = out2" using rows_are_unique [OF _ s(2)] mn pos(1) by simp
  moreover have "gemm_all_reduce zero add dzero mac narrow (Some a) (Some b) (Some out) world m n k = Some (kOk, Some out1)"
    using r(1) c(1) pos by (simp add: gemm_all_reduce_def)
  ultimately show ?thesis using s(1) by blast
qed

lemma gemm_all_reduce_is_product_then_reduce_witness:
  "\<exists>out. gemm_all_reduce 0 (+) 0 (\<lambda>s x y. s + x * y) id (Some [1, 2 :: int]) (Some [3, 4]) (Some [9, 9]) 2 1 1 1 =
      Some (kOk, Some out) \<and>
    all_reduce_sum 0 (+) (Some [3, 8]) (Some [9, 9]) 2 1 = Some (kOk, Some out)"
proof -
  have "\<forall>q r c. 0 \<le> q \<and> q < 2 \<and> 0 \<le> r \<and> r < 1 \<and> 0 \<le> c \<and> c < 1 \<longrightarrow>
    [3, 8 :: int] ! nat (q * (1 * 1) + (r * 1 + c)) = local_product 0 (\<lambda>s x y. s + x * y) id [1, 2] [3, 4] 1 1 1 q r c"
  proof (intro allI impI)
    fix q r c :: int assume a: "0 \<le> q \<and> q < 2 \<and> 0 \<le> r \<and> r < 1 \<and> 0 \<le> c \<and> c < 1"
    then have "r = 0" "c = 0" "q = 0 \<or> q = 1" by presburger+
    then show "[3, 8 :: int] ! nat (q * (1 * 1) + (r * 1 + c)) =
        local_product 0 (\<lambda>s x y. s + x * y) id [1, 2] [3, 4] 1 1 1 q r c"
      by (auto simp: local_product_def dot_value_def)
  qed
  then show ?thesis
    using gemm_all_reduce_is_product_then_reduce [of 2 1 1 1 "[1, 2 :: int]" "[3, 4]" "[9, 9]" "[3, 8]" 0 "\<lambda>s x y. s + x * y" id 0 "(+)"]
    by (simp add: int_limits)
qed

end
