(* ===== verification/TensorOps.thy ===== *)
theory TensorOps
  imports Grid "HOL-Library.Multiset"
begin

text \<open>
  The tensor operations of \<^verbatim>\<open>kernels/utils/tensor_ops_ref.cpp\<close> that move elements, apply a function to each of them or
  sort. The float operations are the fields of \<open>'f float_ops\<close>; nothing is assumed of them. Inputs and outputs are
  different buffers.
\<close>

section \<open>Definitions\<close>

record 'f float_ops =
  fzero :: 'f
  fadd :: "'f \<Rightarrow> 'f \<Rightarrow> 'f"
  fsub :: "'f \<Rightarrow> 'f \<Rightarrow> 'f"
  fmul :: "'f \<Rightarrow> 'f \<Rightarrow> 'f"
  fdiv :: "'f \<Rightarrow> 'f \<Rightarrow> 'f"
  flt :: "'f \<Rightarrow> 'f \<Rightarrow> bool"
  fneginf :: 'f
  is_finite :: "'f \<Rightarrow> bool"
  is_nan :: "'f \<Rightarrow> bool"

subsection \<open>Element by element\<close>

definition unary_apply :: "call list \<Rightarrow> 'f ptr \<Rightarrow> 'f ptr \<Rightarrow> int \<Rightarrow> ('f \<Rightarrow> 'f) \<Rightarrow> (status \<times> 'f ptr) option" where
  "unary_apply cs x out n f =
     (if \<not> valid_product [n] then Some (kInvalidShape, out)
      else case (x, out) of
        (Some xs, Some ys) \<Rightarrow> do {
          ys \<leftarrow> parallel_ranges cs (\<lambda>i ys. do { a \<leftarrow> rd xs i; wr ys i (f a) }) ys;
          Some (kOk, Some ys) }
      | _ \<Rightarrow> Some (kInvalidArgument, out))"

definition binary_apply ::
  "call list \<Rightarrow> 'f ptr \<Rightarrow> 'f ptr \<Rightarrow> 'f ptr \<Rightarrow> int \<Rightarrow> ('f \<Rightarrow> 'f \<Rightarrow> 'f) \<Rightarrow> (status \<times> 'f ptr) option" where
  "binary_apply cs x y out n f =
     (if \<not> valid_product [n] then Some (kInvalidShape, out)
      else case (x, y, out) of
        (Some xs, Some ys, Some zs) \<Rightarrow> do {
          zs \<leftarrow> parallel_ranges cs (\<lambda>i zs. do { a \<leftarrow> rd xs i; b \<leftarrow> rd ys i; wr zs i (f a b) }) zs;
          Some (kOk, Some zs) }
      | _ \<Rightarrow> Some (kInvalidArgument, out))"

definition add_scalar :: "'f float_ops \<Rightarrow> call list \<Rightarrow> 'f ptr \<Rightarrow> 'f \<Rightarrow> 'f ptr \<Rightarrow> int \<Rightarrow> (status \<times> 'f ptr) option" where
  "add_scalar F cs x v out n =
     (if \<not> is_finite F v then Some (kInvalidArgument, out) else unary_apply cs x out n (\<lambda>a. fadd F a v))"

definition subtract :: "'f float_ops \<Rightarrow> call list \<Rightarrow> 'f ptr \<Rightarrow> 'f ptr \<Rightarrow> 'f ptr \<Rightarrow> int \<Rightarrow> (status \<times> 'f ptr) option" where
  "subtract F cs x y out n = binary_apply cs x y out n (fsub F)"

definition multiply :: "'f float_ops \<Rightarrow> call list \<Rightarrow> 'f ptr \<Rightarrow> 'f ptr \<Rightarrow> 'f ptr \<Rightarrow> int \<Rightarrow> (status \<times> 'f ptr) option" where
  "multiply F cs x y out n = binary_apply cs x y out n (fmul F)"

definition divide_op :: "'f float_ops \<Rightarrow> call list \<Rightarrow> 'f ptr \<Rightarrow> 'f ptr \<Rightarrow> 'f ptr \<Rightarrow> int \<Rightarrow> (status \<times> 'f ptr) option" where
  "divide_op F cs x y out n = binary_apply cs x y out n (fdiv F)"

definition scale_op :: "'f float_ops \<Rightarrow> call list \<Rightarrow> 'f ptr \<Rightarrow> 'f \<Rightarrow> 'f ptr \<Rightarrow> int \<Rightarrow> (status \<times> 'f ptr) option" where
  "scale_op F cs x v out n =
     (if \<not> is_finite F v then Some (kInvalidArgument, out) else unary_apply cs x out n (\<lambda>a. fmul F a v))"

text \<open>\<^verbatim>\<open>std::clamp\<close> on floats.\<close>

definition fclamp :: "'f float_ops \<Rightarrow> 'f \<Rightarrow> 'f \<Rightarrow> 'f \<Rightarrow> 'f" where
  "fclamp F v lo hi = (if flt F v lo then lo else if flt F hi v then hi else v)"

definition clamp_op :: "'f float_ops \<Rightarrow> call list \<Rightarrow> 'f ptr \<Rightarrow> 'f \<Rightarrow> 'f \<Rightarrow> 'f ptr \<Rightarrow> int \<Rightarrow> (status \<times> 'f ptr) option" where
  "clamp_op F cs x lo hi out n =
     (if \<not> is_finite F lo \<or> \<not> is_finite F hi \<or> flt F hi lo then Some (kInvalidShape, out)
      else unary_apply cs x out n (\<lambda>v. fclamp F v lo hi))"

definition value_clip :: "'f float_ops \<Rightarrow> call list \<Rightarrow> 'f ptr \<Rightarrow> 'f \<Rightarrow> 'f \<Rightarrow> 'f ptr \<Rightarrow> int \<Rightarrow> (status \<times> 'f ptr) option" where
  "value_clip F cs x lo hi out n =
     (if is_nan F lo \<or> is_nan F hi \<or> flt F hi lo then Some (kInvalidShape, out)
      else unary_apply cs x out n (\<lambda>v. fclamp F v lo hi))"

definition square_op :: "'f float_ops \<Rightarrow> call list \<Rightarrow> 'f ptr \<Rightarrow> 'f ptr \<Rightarrow> int \<Rightarrow> (status \<times> 'f ptr) option" where
  "square_op F cs x out n = unary_apply cs x out n (\<lambda>v. fmul F v v)"

definition leaky_relu :: "'f float_ops \<Rightarrow> ('f \<Rightarrow> 'f \<Rightarrow> bool) \<Rightarrow> call list \<Rightarrow> 'f ptr \<Rightarrow> 'f \<Rightarrow> 'f ptr \<Rightarrow> int \<Rightarrow> (status \<times> 'f ptr) option" where
  "leaky_relu F ge cs x slope out n =
     (if \<not> is_finite F slope then Some (kInvalidArgument, out)
      else unary_apply cs x out n (\<lambda>v. if ge v (fzero F) then v else fmul F slope v))"

definition fill_op :: "'f float_ops \<Rightarrow> 'f ptr \<Rightarrow> int \<Rightarrow> 'f \<Rightarrow> (status \<times> 'f ptr) option" where
  "fill_op F out n v =
     (if \<not> valid_product [n] then Some (kInvalidShape, out)
      else case out of
        None \<Rightarrow> Some (kInvalidArgument, out)
      | Some ys \<Rightarrow>
          if \<not> is_finite F v then Some (kInvalidArgument, out)
          else do { ys \<leftarrow> fill_n ys 0 n v; Some (kOk, Some ys) })"

definition cumulative_row :: "'f float_ops \<Rightarrow> 'f list \<Rightarrow> int \<Rightarrow> int \<Rightarrow> 'f list \<Rightarrow> 'f list option" where
  "cumulative_row F xs dim r ys =
     do { (sum, ys) \<leftarrow> loop 0 dim (\<lambda>i s. do {
            v \<leftarrow> rd xs (r * dim + i);
            let sum = fadd F (fst s) v;
            ys \<leftarrow> wr (snd s) (r * dim + i) sum;
            Some (sum, ys) }) (fzero F, ys);
          Some ys }"

definition cumulative_sum ::
  "'f float_ops \<Rightarrow> call list \<Rightarrow> 'f ptr \<Rightarrow> 'f ptr \<Rightarrow> int \<Rightarrow> int \<Rightarrow> (status \<times> 'f ptr) option" where
  "cumulative_sum F cs x out rows dim =
     (if \<not> valid_product [rows, dim] then Some (kInvalidShape, out)
      else case (x, out) of
        (Some xs, Some ys) \<Rightarrow> do { ys \<leftarrow> parallel_ranges cs (cumulative_row F xs dim) ys; Some (kOk, Some ys) }
      | _ \<Rightarrow> Some (kInvalidArgument, out))"

definition count_equal :: "int ptr \<Rightarrow> int ptr \<Rightarrow> int \<Rightarrow> int ptr \<Rightarrow> (status \<times> int ptr) option" where
  "count_equal x y n out =
     (if \<not> valid_product [n] then Some (kInvalidShape, out)
      else case (x, y, out) of
        (Some xs, Some ys, Some o') \<Rightarrow> do {
          equal \<leftarrow> loop 0 n (\<lambda>i e. do { a \<leftarrow> rd xs i; b \<leftarrow> rd ys i; Some (e + (if a = b then 1 else 0)) }) 0;
          o' \<leftarrow> wr o' 0 equal;
          Some (kOk, Some o') }
      | _ \<Rightarrow> Some (kInvalidArgument, out))"

subsection \<open>Sorting\<close>

text \<open>
  \<^verbatim>\<open>std::stable_sort\<close>: defined when the comparison is a strict weak order on the elements, and then the only sorted
  permutation that keeps equivalent elements in order.
\<close>

definition strict_weak :: "('a \<Rightarrow> 'a \<Rightarrow> bool) \<Rightarrow> 'a list \<Rightarrow> bool" where
  "strict_weak lt xs \<longleftrightarrow> list_all (\<lambda>a. \<not> lt a a \<and> list_all (\<lambda>b. (lt a b \<longrightarrow> \<not> lt b a) \<and>
     list_all (\<lambda>c. lt a c \<longrightarrow> lt a b \<or> lt b c) xs) xs) xs"

fun insert_stable :: "('a \<Rightarrow> 'a \<Rightarrow> bool) \<Rightarrow> 'a \<Rightarrow> 'a list \<Rightarrow> 'a list" where
  "insert_stable lt x [] = [x]"
| "insert_stable lt x (y # ys) = (if lt y x then y # insert_stable lt x ys else x # y # ys)"

definition stable_sort :: "('a \<Rightarrow> 'a \<Rightarrow> bool) \<Rightarrow> 'a list \<Rightarrow> 'a list option" where
  "stable_sort lt xs = (if strict_weak lt xs then Some (foldr (insert_stable lt) xs []) else None)"

definition argsort_row :: "'f float_ops \<Rightarrow> 'f list \<Rightarrow> int \<Rightarrow> bool \<Rightarrow> int \<Rightarrow> int list \<Rightarrow> int list option" where
  "argsort_row F xs dim descending r ixs =
     (if \<not> in_range xs (r * dim) dim then None
      else do {
        let values = (\<lambda>i. xs ! nat (r * dim + i));
        order \<leftarrow> stable_sort (\<lambda>a b. if descending then flt F (values b) (values a) else flt F (values a) (values b)) [0..dim - 1];
        copy_n order 0 dim ixs (r * dim) })"

definition argsort ::
  "'f float_ops \<Rightarrow> call list \<Rightarrow> 'f ptr \<Rightarrow> int ptr \<Rightarrow> int \<Rightarrow> int \<Rightarrow> bool \<Rightarrow> (status \<times> int ptr) option" where
  "argsort F cs x indices rows dim descending =
     (if \<not> valid_product [rows, dim] \<or> dim > INT_MAX then Some (kInvalidShape, indices)
      else case (x, indices) of
        (Some xs, Some ixs) \<Rightarrow> do {
          ixs \<leftarrow> parallel_ranges cs (argsort_row F xs dim descending) ixs;
          Some (kOk, Some ixs) }
      | _ \<Rightarrow> Some (kInvalidArgument, indices))"

subsection \<open>Moving elements\<close>

definition concat_op :: "'f ptr \<Rightarrow> 'f ptr \<Rightarrow> 'f ptr \<Rightarrow> int \<Rightarrow> int \<Rightarrow> int \<Rightarrow> int \<Rightarrow> (status \<times> 'f ptr) option" where
  "concat_op a b out outer a_axis b_axis inner =
     (if \<not> valid_product [outer, a_axis, inner] \<or> \<not> valid_product [outer, b_axis, inner] \<or> a_axis > LLONG_MAX - b_axis
      then Some (kInvalidShape, out)
      else case (a, b, out) of
        (Some as, Some bs, Some ys) \<Rightarrow> do {
          let output_axis = a_axis + b_axis;
          ys \<leftarrow> loop 0 outer (\<lambda>i ys. do {
            ys \<leftarrow> copy_n as (i * a_axis * inner) (a_axis * inner) ys (i * output_axis * inner);
            copy_n bs (i * b_axis * inner) (b_axis * inner) ys ((i * output_axis + a_axis) * inner) }) ys;
          Some (kOk, Some ys) }
      | _ \<Rightarrow> Some (kInvalidArgument, out))"

definition repeat_2d :: "'f ptr \<Rightarrow> 'f ptr \<Rightarrow> int \<Rightarrow> int \<Rightarrow> int \<Rightarrow> int \<Rightarrow> (status \<times> 'f ptr) option" where
  "repeat_2d x out source_rows source_cols output_rows output_cols =
     (if \<not> valid_product [source_rows, source_cols] \<or> \<not> valid_product [output_rows, output_cols] \<or>
         crem output_rows source_rows \<noteq> 0 \<or> crem output_cols source_cols \<noteq> 0
      then Some (kInvalidShape, out)
      else case (x, out) of
        (Some xs, Some ys) \<Rightarrow> do {
          ys \<leftarrow> loop 0 output_rows (\<lambda>r. loop 0 output_cols (\<lambda>c ys. do {
            v \<leftarrow> rd xs (crem r source_rows * source_cols + crem c source_cols);
            wr ys (r * output_cols + c) v })) ys;
          Some (kOk, Some ys) }
      | _ \<Rightarrow> Some (kInvalidArgument, out))"

definition repeat_backward_2d ::
  "'f float_ops \<Rightarrow> 'f ptr \<Rightarrow> 'f ptr \<Rightarrow> int \<Rightarrow> int \<Rightarrow> int \<Rightarrow> int \<Rightarrow> (status \<times> 'f ptr) option" where
  "repeat_backward_2d F grad_out grad_in source_rows source_cols output_rows output_cols =
     (if \<not> valid_product [source_rows, source_cols] \<or> \<not> valid_product [output_rows, output_cols] \<or>
         crem output_rows source_rows \<noteq> 0 \<or> crem output_cols source_cols \<noteq> 0
      then Some (kInvalidShape, grad_in)
      else case (grad_out, grad_in) of
        (Some gs, Some ys) \<Rightarrow> do {
          ys \<leftarrow> fill_n ys 0 (source_rows * source_cols) (fzero F);
          ys \<leftarrow> loop 0 output_rows (\<lambda>r. loop 0 output_cols (\<lambda>c ys. do {
            let i = crem r source_rows * source_cols + crem c source_cols;
            s \<leftarrow> rd ys i; v \<leftarrow> rd gs (r * output_cols + c);
            wr ys i (fadd F s v) })) ys;
          Some (kOk, Some ys) }
      | _ \<Rightarrow> Some (kInvalidArgument, grad_in))"

definition diag_embed :: "'f float_ops \<Rightarrow> 'f ptr \<Rightarrow> 'f ptr \<Rightarrow> int \<Rightarrow> int \<Rightarrow> (status \<times> 'f ptr) option" where
  "diag_embed F diagonal out batch dim =
     (if \<not> valid_product [batch, dim, dim] then Some (kInvalidShape, out)
      else case (diagonal, out) of
        (Some ds, Some ys) \<Rightarrow> do {
          ys \<leftarrow> fill_n ys 0 (batch * dim * dim) (fzero F);
          ys \<leftarrow> loop 0 batch (\<lambda>b. loop 0 dim (\<lambda>i ys. do {
            v \<leftarrow> rd ds (b * dim + i); wr ys ((b * dim + i) * dim + i) v })) ys;
          Some (kOk, Some ys) }
      | _ \<Rightarrow> Some (kInvalidArgument, out))"

definition diag_mask :: "'f float_ops \<Rightarrow> 'f ptr \<Rightarrow> 'f ptr \<Rightarrow> int \<Rightarrow> int \<Rightarrow> int \<Rightarrow> bool \<Rightarrow> (status \<times> 'f ptr) option" where
  "diag_mask F x out rows cols past use_negative_infinity =
     (if \<not> valid_product [rows, cols] \<or> past < 0 then Some (kInvalidShape, out)
      else case (x, out) of
        (Some xs, Some ys) \<Rightarrow> do {
          let masked = (if use_negative_infinity then fneginf F else fzero F);
          ys \<leftarrow> loop 0 rows (\<lambda>r. loop 0 cols (\<lambda>c ys. do {
            limit \<leftarrow> i64 (past + r);
            v \<leftarrow> (if c > limit then Some masked else rd xs (r * cols + c));
            wr ys (r * cols + c) v })) ys;
          Some (kOk, Some ys) }
      | _ \<Rightarrow> Some (kInvalidArgument, out))"

definition triangular_fill ::
  "'f float_ops \<Rightarrow> 'f ptr \<Rightarrow> 'f ptr \<Rightarrow> int \<Rightarrow> int \<Rightarrow> int \<Rightarrow> bool \<Rightarrow> 'f \<Rightarrow> (status \<times> 'f ptr) option" where
  "triangular_fill F x out rows cols diagonal upper fill_value =
     (if \<not> valid_product [rows, cols] \<or> \<not> is_finite F fill_value then Some (kInvalidShape, out)
      else case (x, out) of
        (Some xs, Some ys) \<Rightarrow> do {
          ys \<leftarrow> loop 0 rows (\<lambda>r. loop 0 cols (\<lambda>c ys. do {
            let selected = (if upper then c - r \<ge> diagonal else c - r \<le> diagonal);
            v \<leftarrow> (if selected then rd xs (r * cols + c) else Some fill_value);
            wr ys (r * cols + c) v })) ys;
          Some (kOk, Some ys) }
      | _ \<Rightarrow> Some (kInvalidArgument, out))"

definition positive_mod :: "int \<Rightarrow> int \<Rightarrow> int" where
  "positive_mod value modulus = (let remainder = crem value modulus in if remainder < 0 then remainder + modulus else remainder)"

text \<open>\<open>same\<close>: the two pointers are equal.\<close>

definition roll_item :: "'f list \<Rightarrow> int \<Rightarrow> int \<Rightarrow> int \<Rightarrow> int \<Rightarrow> int \<Rightarrow> int \<Rightarrow> 'f list \<Rightarrow> 'f list option" where
  "roll_item xs rows cols row_shift col_shift r c ys =
     do { i \<leftarrow> i64 (r + row_shift); j \<leftarrow> i64 (c + col_shift);
          v \<leftarrow> rd xs (r * cols + c);
          wr ys (positive_mod i rows * cols + positive_mod j cols) v }"

definition roll_2d :: "bool \<Rightarrow> 'f ptr \<Rightarrow> 'f ptr \<Rightarrow> int \<Rightarrow> int \<Rightarrow> int \<Rightarrow> int \<Rightarrow> (status \<times> 'f ptr) option" where
  "roll_2d same x out rows cols row_shift col_shift =
     (if \<not> valid_product [rows, cols] then Some (kInvalidShape, out)
      else case (x, out) of
        (Some xs, Some ys) \<Rightarrow>
          if same then Some (kInvalidArgument, out)
          else do {
            ys \<leftarrow> loop 0 rows (\<lambda>r. loop 0 cols (roll_item xs rows cols row_shift col_shift r)) ys;
            Some (kOk, Some ys) }
      | _ \<Rightarrow> Some (kInvalidArgument, out))"

definition pad_2d ::
  "'f float_ops \<Rightarrow> 'f ptr \<Rightarrow> 'f ptr \<Rightarrow> int \<Rightarrow> int \<Rightarrow> int \<Rightarrow> int \<Rightarrow> int \<Rightarrow> int \<Rightarrow> 'f \<Rightarrow> (status \<times> 'f ptr) option" where
  "pad_2d F x out rows cols up down left right v =
     (if \<not> valid_product [rows, cols] \<or> up < 0 \<or> down < 0 \<or> left < 0 \<or> right < 0 \<or>
         rows > LLONG_MAX - up - down \<or> cols > LLONG_MAX - left - right \<or> \<not> is_finite F v
      then Some (kInvalidShape, out)
      else case (x, out) of
        (Some xs, Some ys) \<Rightarrow>
          let output_rows = rows + up + down; output_cols = cols + left + right in
          if \<not> valid_product [output_rows, output_cols] then Some (kInvalidShape, out)
          else do {
            ys \<leftarrow> fill_n ys 0 (output_rows * output_cols) v;
            ys \<leftarrow> loop 0 rows (\<lambda>r ys. copy_n xs (r * cols) cols ys ((r + up) * output_cols + left)) ys;
            Some (kOk, Some ys) }
      | _ \<Rightarrow> Some (kInvalidArgument, out))"

definition pad_reflect_1d :: "'f ptr \<Rightarrow> 'f ptr \<Rightarrow> int \<Rightarrow> int \<Rightarrow> int \<Rightarrow> int \<Rightarrow> (status \<times> 'f ptr) option" where
  "pad_reflect_1d x out rows len left right =
     (if \<not> valid_product [rows, len] \<or> left < 0 \<or> right < 0 \<or> left \<ge> len \<or> right \<ge> len \<or> len > LLONG_MAX - left - right
      then Some (kInvalidShape, out)
      else case (x, out) of
        (Some xs, Some ys) \<Rightarrow> do {
          let output_length = left + len + right;
          ys \<leftarrow> loop 0 rows (\<lambda>r. loop 0 output_length (\<lambda>i ys. do {
            let source = i - left;
            let source = (if source < 0 then - source else source);
            source \<leftarrow> (if source \<ge> len then do { t \<leftarrow> i64 (2 * len); Some (t - source - 2) } else Some source);
            v \<leftarrow> rd xs (r * len + source);
            wr ys (r * output_length + i) v })) ys;
          Some (kOk, Some ys) }
      | _ \<Rightarrow> Some (kInvalidArgument, out))"

definition upscale_nearest_2d :: "'f ptr \<Rightarrow> 'f ptr \<Rightarrow> int \<Rightarrow> int \<Rightarrow> int \<Rightarrow> int \<Rightarrow> int \<Rightarrow> (status \<times> 'f ptr) option" where
  "upscale_nearest_2d x out channels input_height input_width scale_height scale_width =
     (if \<not> valid_product [channels, input_height, input_width, scale_height, scale_width] then Some (kInvalidShape, out)
      else case (x, out) of
        (Some xs, Some ys) \<Rightarrow> do {
          let output_height = input_height * scale_height;
          let output_width = input_width * scale_width;
          ys \<leftarrow> loop 0 channels (\<lambda>ch. loop 0 output_height (\<lambda>r. loop 0 output_width (\<lambda>c ys. do {
            v \<leftarrow> rd xs ((ch * input_height + cdiv r scale_height) * input_width + cdiv c scale_width);
            wr ys ((ch * output_height + r) * output_width + c) v }))) ys;
          Some (kOk, Some ys) }
      | _ \<Rightarrow> Some (kInvalidArgument, out))"

definition outer_product ::
  "'f float_ops \<Rightarrow> call list \<Rightarrow> 'f ptr \<Rightarrow> 'f ptr \<Rightarrow> 'f ptr \<Rightarrow> int \<Rightarrow> int \<Rightarrow> (status \<times> 'f ptr) option" where
  "outer_product F cs x y out rows cols =
     (if \<not> valid_product [rows, cols] then Some (kInvalidShape, out)
      else case (x, y, out) of
        (Some xs, Some ys, Some zs) \<Rightarrow> do {
          zs \<leftarrow> parallel_ranges cs (\<lambda>r. loop 0 cols (\<lambda>c zs. do {
            a \<leftarrow> rd xs r; b \<leftarrow> rd ys c; wr zs (r * cols + c) (fmul F a b) })) zs;
          Some (kOk, Some zs) }
      | _ \<Rightarrow> Some (kInvalidArgument, out))"

definition set_rows :: "'f ptr \<Rightarrow> int ptr \<Rightarrow> 'f ptr \<Rightarrow> int \<Rightarrow> int \<Rightarrow> int \<Rightarrow> (status \<times> 'f ptr) option" where
  "set_rows source row_ids destination source_rows destination_rows row_width =
     (if \<not> valid_product [source_rows, row_width] \<or> \<not> valid_product [destination_rows, row_width]
      then Some (kInvalidShape, destination)
      else case (source, row_ids, destination) of
        (Some src, Some ids, Some dst) \<Rightarrow> do {
          good \<leftarrow> all_of [0..source_rows - 1] (\<lambda>r. do { i \<leftarrow> rd ids r; Some (\<not> (i < 0 \<or> i \<ge> destination_rows)) });
          if \<not> good then Some (kInvalidArgument, destination)
          else do {
            dst \<leftarrow> loop 0 source_rows (\<lambda>r dst. do {
              i \<leftarrow> rd ids r; copy_n src (r * row_width) row_width dst (i * row_width) }) dst;
            Some (kOk, Some dst) } }
      | _ \<Rightarrow> Some (kInvalidArgument, destination))"

definition accumulate :: "'f float_ops \<Rightarrow> 'f ptr \<Rightarrow> 'f ptr \<Rightarrow> int \<Rightarrow> 'f \<Rightarrow> (status \<times> 'f ptr) option" where
  "accumulate F destination source n alpha =
     (if \<not> valid_product [n] \<or> \<not> is_finite F alpha then Some (kInvalidShape, destination)
      else case (destination, source) of
        (Some dst, Some src) \<Rightarrow> do {
          dst \<leftarrow> loop 0 n (\<lambda>i dst. do { d \<leftarrow> rd dst i; v \<leftarrow> rd src i; wr dst i (fadd F d (fmul F alpha v)) }) dst;
          Some (kOk, Some dst) }
      | _ \<Rightarrow> Some (kInvalidArgument, destination))"

definition sgd :: "'f float_ops \<Rightarrow> 'f ptr \<Rightarrow> 'f ptr \<Rightarrow> int \<Rightarrow> 'f \<Rightarrow> 'f \<Rightarrow> (status \<times> 'f ptr) option" where
  "sgd F parameters gradients n learning_rate weight_decay =
     (if \<not> valid_product [n] \<or> \<not> is_finite F learning_rate \<or> flt F learning_rate (fzero F) \<or>
         \<not> is_finite F weight_decay \<or> flt F weight_decay (fzero F)
      then Some (kInvalidShape, parameters)
      else case (parameters, gradients) of
        (Some ps, Some gs) \<Rightarrow> do {
          ps \<leftarrow> loop 0 n (\<lambda>i ps. do {
            p \<leftarrow> rd ps i; g \<leftarrow> rd gs i;
            wr ps i (fsub F p (fmul F learning_rate (fadd F g (fmul F weight_decay p)))) }) ps;
          Some (kOk, Some ps) }
      | _ \<Rightarrow> Some (kInvalidArgument, parameters))"

section \<open>Matrices computed element by element\<close>

text \<open>\<open>computes m out rows n y\<close>: the call succeeds and its output is the matrix \<open>y\<close>, the rest of the buffer untouched.\<close>

definition computes :: "(status \<times> 'a ptr) option \<Rightarrow> 'a list \<Rightarrow> int \<Rightarrow> int \<Rightarrow> (int \<Rightarrow> int \<Rightarrow> 'a) \<Rightarrow> bool" where
  "computes m out rows n y \<longleftrightarrow> (\<exists>out'. m = Some (kOk, Some out') \<and> rows_are n rows y out out')"

lemma computesI:
  "ok (rows_are n rows y out) m \<Longrightarrow> m' = (do { ys \<leftarrow> m; Some (kOk, Some ys) }) \<Longrightarrow> computes m' out rows n y"
  by (auto simp: computes_def ok_def)

lemma repeat_2d_ok:
  assumes "0 < sr" "0 < sc" "sr * sc \<le> LLONG_MAX" "0 < rows" "0 < cols" "rows * cols \<le> LLONG_MAX" "sr dvd rows" "sc dvd cols"
    and "sr * sc \<le> int (length xs)" "rows * cols \<le> int (length out)"
  shows "computes (repeat_2d (Some xs) (Some out) sr sc rows cols) out rows cols (\<lambda>r c. xs ! nat (r mod sr * sc + c mod sc))"
proof (rule computesI)
  show "ok (rows_are cols rows (\<lambda>r c. xs ! nat (r mod sr * sc + c mod sc)) out) (loop 0 rows (\<lambda>r. loop 0 cols (\<lambda>c ys. do {
      v \<leftarrow> rd xs (crem r sr * sc + crem c sc); wr ys (r * cols + c) v })) out)"
  proof (rule grid_loop)
    fix r c and d :: "'a list" assume r: "0 \<le> r" "r < rows" "0 \<le> c" "c < cols" and d: "length d = length out"
    have "0 \<le> r mod sr * sc + c mod sc" "r mod sr * sc + c mod sc < sr * sc"
      using index_bound [of "r mod sr" sr "c mod sc" sc] assms by auto
    then show "do { v \<leftarrow> rd xs (crem r sr * sc + crem c sc); wr d (r * cols + c) v } =
        Some (d[nat (r * cols + c) := xs ! nat (r mod sr * sc + c mod sc)])"
      using index_bound [OF r] r d assms by (simp add: rd_at wr_at)
  qed (use assms in auto)
  show "repeat_2d (Some xs) (Some out) sr sc rows cols = do {
      ys \<leftarrow> loop 0 rows (\<lambda>r. loop 0 cols (\<lambda>c ys. do { v \<leftarrow> rd xs (crem r sr * sc + crem c sc); wr ys (r * cols + c) v })) out;
      Some (kOk, Some ys) }"
    using assms by (simp add: repeat_2d_def crem_eq_0_iff)
qed

lemma triangular_fill_ok:
  assumes "0 < rows" "0 < cols" "rows * cols \<le> LLONG_MAX" "is_finite F v"
    and "rows * cols \<le> int (length xs)" "rows * cols \<le> int (length out)"
  shows "computes (triangular_fill F (Some xs) (Some out) rows cols k upper v) out rows cols
    (\<lambda>r c. if (if upper then c - r \<ge> k else c - r \<le> k) then xs ! nat (r * cols + c) else v)"
proof (rule computesI)
  let ?body = "\<lambda>r c ys. do { let selected = (if upper then c - r \<ge> k else c - r \<le> k);
      w \<leftarrow> (if selected then rd xs (r * cols + c) else Some v); wr ys (r * cols + c) w }"
  show "ok (rows_are cols rows (\<lambda>r c. if (if upper then c - r \<ge> k else c - r \<le> k) then xs ! nat (r * cols + c) else v) out)
      (loop 0 rows (\<lambda>r. loop 0 cols (?body r)) out)"
  proof (rule grid_loop)
    fix r c and d :: "'a list" assume r: "0 \<le> r" "r < rows" "0 \<le> c" "c < cols" and d: "length d = length out"
    then show "?body r c d = Some (d[nat (r * cols + c) :=
        if (if upper then c - r \<ge> k else c - r \<le> k) then xs ! nat (r * cols + c) else v])"
      using index_bound [OF r] assms by (simp add: rd_at wr_at Let_def)
  qed (use assms in auto)
  show "triangular_fill F (Some xs) (Some out) rows cols k upper v =
      do { ys \<leftarrow> loop 0 rows (\<lambda>r. loop 0 cols (?body r)) out; Some (kOk, Some ys) }"
    using assms by (simp add: triangular_fill_def)
qed

lemma pad_reflect_1d_ok:
  assumes "0 < rows" "0 < len" "rows * len \<le> LLONG_MAX" "0 \<le> left" "left < len" "0 \<le> right" "right < len"
    "left + len + right \<le> LLONG_MAX" "2 * len \<le> LLONG_MAX"
    and "rows * len \<le> int (length xs)" "rows * (left + len + right) \<le> int (length out)"
  shows "computes (pad_reflect_1d (Some xs) (Some out) rows len left right) out rows (left + len + right)
    (\<lambda>r i. xs ! nat (r * len + (if i < left then left - i else if i - left < len then i - left else 2 * len - (i - left) - 2)))"
    (is "computes _ _ _ ?w (\<lambda>r i. xs ! nat (r * len + ?s i))")
proof (rule computesI)
  let ?body = "\<lambda>r i ys. do {
            let source = i - left;
            let source = (if source < 0 then - source else source);
            source \<leftarrow> (if source \<ge> len then do { t \<leftarrow> i64 (2 * len); Some (t - source - 2) } else Some source);
            v \<leftarrow> rd xs (r * len + source);
            wr ys (r * ?w + i) v }"
  show "ok (rows_are ?w rows (\<lambda>r i. xs ! nat (r * len + ?s i)) out) (loop 0 rows (\<lambda>r. loop 0 ?w (?body r)) out)"
  proof (rule grid_loop)
    fix r i and d :: "'a list" assume r: "0 \<le> r" "r < rows" "0 \<le> i" "i < ?w" and d: "length d = length out"
    have s: "0 \<le> ?s i" "?s i < len" using r assms by auto
    have src: "(let source = i - left in let source = (if source < 0 then - source else source) in
        (if source \<ge> len then do { t \<leftarrow> i64 (2 * len); Some (t - source - 2) } else Some source)) = Some (?s i)"
      using r assms by (simp add: Let_def i64_at int_limits)
    have "?body r i d = do { source \<leftarrow> (let source = i - left in let source = (if source < 0 then - source else source) in
        (if source \<ge> len then do { t \<leftarrow> i64 (2 * len); Some (t - source - 2) } else Some source));
        v \<leftarrow> rd xs (r * len + source); wr d (r * ?w + i) v }" by (simp only: Let_def)
    also have "\<dots> = Some (d[nat (r * ?w + i) := xs ! nat (r * len + ?s i)])"
      unfolding src using index_bound [OF r] index_bound [OF r(1,2) s] d assms by (simp add: rd_at wr_at)
    finally show "?body r i d = Some (d[nat (r * ?w + i) := xs ! nat (r * len + ?s i)])" .
  qed (use assms in auto)
  show "pad_reflect_1d (Some xs) (Some out) rows len left right =
      do { ys \<leftarrow> loop 0 rows (\<lambda>r. loop 0 ?w (?body r)) out; Some (kOk, Some ys) }"
    using assms by (simp add: pad_reflect_1d_def Let_def)
qed

section \<open>Argsort\<close>

text \<open>The order of \<^verbatim>\<open>argsort\<close>: by value, and by index among values that neither precedes the other.\<close>

definition value_before :: "'f float_ops \<Rightarrow> 'f list \<Rightarrow> int \<Rightarrow> bool \<Rightarrow> int \<Rightarrow> int \<Rightarrow> int \<Rightarrow> bool" where
  "value_before F xs dim descending r a b =
     (if descending then flt F (xs ! nat (r * dim + b)) (xs ! nat (r * dim + a))
      else flt F (xs ! nat (r * dim + a)) (xs ! nat (r * dim + b)))"

definition stable_before :: "(int \<Rightarrow> int \<Rightarrow> bool) \<Rightarrow> int \<Rightarrow> int \<Rightarrow> bool" where
  "stable_before lt a b \<longleftrightarrow> lt a b \<or> \<not> lt b a \<and> a < b"

lemma strict_weakD:
  assumes "strict_weak lt xs" "a \<in> set xs" "b \<in> set xs"
  shows "\<not> lt a a" "lt a b \<Longrightarrow> \<not> lt b a" "c \<in> set xs \<Longrightarrow> lt a c \<Longrightarrow> lt a b \<or> lt b c"
  using assms by (auto simp: strict_weak_def list_all_iff)

lemma mset_insert_stable: "mset (insert_stable lt x ys) = add_mset x (mset ys)"
  by (induction ys) auto

lemma set_insert_stable: "set (insert_stable lt x ys) = insert x (set ys)"
  by (induction ys) auto

lemma sorted_insert_stable:
  assumes "strict_weak lt as" "x \<in> set as" "set ys \<subseteq> set as" "\<And>y. y \<in> set ys \<Longrightarrow> x < y"
    and "sorted_wrt (stable_before lt) ys"
  shows "sorted_wrt (stable_before lt) (insert_stable lt x ys)"
  using assms(3-5)
proof (induction ys)
  case (Cons y ys)
  show ?case
  proof (cases "lt y x")
    case True
    then show ?thesis using Cons by (auto simp: set_insert_stable stable_before_def)
  next
    case False
    have "stable_before lt x z" if z: "z \<in> set ys" for z
    proof -
      have "stable_before lt y z" using Cons.prems(3) z by simp
      moreover have "z \<in> set as" "y \<in> set as" using Cons.prems(1) z by auto
      ultimately have "\<not> lt z x"
        using strict_weakD(2) [OF assms(1), of y z] strict_weakD(3) [OF assms(1), of z y x] assms(2) False
        by (auto simp: stable_before_def)
      then show ?thesis using Cons.prems(2) z by (simp add: stable_before_def)
    qed
    then show ?thesis using Cons.prems False by (auto simp: stable_before_def)
  qed
qed simp

lemma stable_sort_sorts:
  assumes "strict_weak lt as" "sorted_wrt (<) xs" "set xs \<subseteq> set as"
  shows "mset (foldr (insert_stable lt) xs []) = mset xs \<and>
    sorted_wrt (stable_before lt) (foldr (insert_stable lt) xs [])"
  using assms(2,3)
proof (induction xs)
  case (Cons x xs)
  then have IH: "mset (foldr (insert_stable lt) xs []) = mset xs"
      "sorted_wrt (stable_before lt) (foldr (insert_stable lt) xs [])" by auto
  have "set (foldr (insert_stable lt) xs []) = set xs" using IH(1) by (rule mset_eq_setD)
  then show ?case
    using IH sorted_insert_stable [OF assms(1), of x "foldr (insert_stable lt) xs []"] Cons.prems
    by (simp add: mset_insert_stable)
qed simp

text \<open>
  C30: when the comparison of the values is a strict weak order (no NaN among them), \<^verbatim>\<open>argsort\<close> puts into every row the
  indices of the row in the order of their values, ties in index order, whatever schedule the pool runs the rows in.
\<close>

theorem argsort_sorts_stably:
  assumes shape: "0 < rows" "0 < dim" "rows * dim \<le> LLONG_MAX" "dim \<le> INT_MAX"
    and cs: "region_calls rows cs" and bufs: "rows * dim \<le> int (length xs)" "rows * dim \<le> int (length ixs)"
    and order: "\<forall>r. 0 \<le> r \<and> r < rows \<longrightarrow> strict_weak (value_before F xs dim descending r) [0..dim - 1]"
  shows "\<exists>ixs'. argsort F cs (Some xs) (Some ixs) rows dim descending = Some (kOk, Some ixs') \<and>
    (\<forall>r. 0 \<le> r \<and> r < rows \<longrightarrow> mset (row dim ixs' r) = mset [0..dim - 1] \<and>
      sorted_wrt (stable_before (value_before F xs dim descending r)) (row dim ixs' r))"
proof -
  let ?lt = "value_before F xs dim descending"
  let ?order = "\<lambda>r. foldr (insert_stable (?lt r)) [0..dim - 1] []"
  have up: "sorted_wrt (<) [0..dim - 1]" by (simp add: sorted_wrt_upto)
  have sorts: "mset (?order r) = mset [0..dim - 1]" "sorted_wrt (stable_before (?lt r)) (?order r)"
    if "0 \<le> r" "r < rows" for r
    using stable_sort_sorts [OF _ up subset_refl] order that by auto
  have len: "int (length (?order r)) = dim" if "0 \<le> r" "r < rows" for r
    using arg_cong [OF sorts(1) [OF that], of size] shape(2) by simp
  have "ok (rows_are dim rows (\<lambda>r j. ?order r ! nat j) ixs) (parallel_ranges cs (argsort_row F xs dim descending) ixs)"
  proof (rule rows_parallel [OF cs])
    fix r and t :: "int list" assume r: "0 \<le> r" "r < rows" and t: "length t = length ixs"
    have b: "0 \<le> r * dim" "r * dim + dim \<le> int (length xs)" "r * dim + dim \<le> int (length t)"
      using row_bound [of r rows dim] r shape bufs t by auto
    have "stable_sort (\<lambda>a b. if descending then flt F (xs ! nat (r * dim + b)) (xs ! nat (r * dim + a))
        else flt F (xs ! nat (r * dim + a)) (xs ! nat (r * dim + b))) [0..dim - 1] = Some (?order r)"
      using order r by (simp add: stable_sort_def value_before_def [abs_def])
    then have "argsort_row F xs dim descending r t = copy_n (?order r) 0 dim t (r * dim)"
      using b by (simp add: argsort_row_def in_range_def Let_def)
    moreover have "copy_n (?order r) 0 dim t (r * dim) = Some (splice t (nat (r * dim)) (?order r))"
      using b len [OF r] by (simp add: copy_n_def in_range_def)
    moreover have le: "nat (r * dim) + length (?order r) \<le> length t" using b len [OF r] by linarith
    moreover have "outside_same (r * dim) dim t (splice t (nat (r * dim)) (?order r))"
      using nth_splice [OF le] length_splice [OF le] b len [OF r] by (auto simp: outside_same_def)
    moreover have "splice t (nat (r * dim)) (?order r) ! nat (r * dim + j) = ?order r ! nat j" if "0 \<le> j" "j < dim" for j
      using nth_splice [OF le, of "nat (r * dim + j)"] b that len [OF r] by (simp add: nat_add_distrib nat_less_iff)
    ultimately show "ok (\<lambda>u. outside_same (r * dim) dim t u \<and> (\<forall>j. 0 \<le> j \<and> j < dim \<longrightarrow> u ! nat (r * dim + j) = ?order r ! nat j))
        (argsort_row F xs dim descending r t)" by simp
  qed (use shape bufs in auto)
  then obtain ixs' where run: "parallel_ranges cs (argsort_row F xs dim descending) ixs = Some ixs'"
    and rows: "rows_are dim rows (\<lambda>r j. ?order r ! nat j) ixs ixs'" by (auto simp: ok_def)
  have l: "rows * dim \<le> int (length ixs')" using rows_are_length [OF rows] bufs by simp
  have "row dim ixs' r = ?order r" if r: "0 \<le> r" "r < rows" for r
  proof (rule nth_equalityI)
    have lr: "length (row dim ixs' r) = nat dim" using r l shape by simp
    then show "length (row dim ixs' r) = length (?order r)" using len [OF r] by simp
    fix i assume "i < length (row dim ixs' r)"
    then have i: "0 \<le> int i" "int i < dim" using lr by auto
    show "row dim ixs' r ! i = ?order r ! i"
      using nth_row [OF r i l] rows_areD [OF rows r i] by simp
  qed
  then have "\<forall>r. 0 \<le> r \<and> r < rows \<longrightarrow> mset (row dim ixs' r) = mset [0..dim - 1] \<and>
      sorted_wrt (stable_before (?lt r)) (row dim ixs' r)" using sorts by auto
  moreover have "argsort F cs (Some xs) (Some ixs) rows dim descending = Some (kOk, Some ixs')"
    using run shape by (simp add: argsort_def)
  ultimately show ?thesis by blast
qed

definition int_ops :: "int float_ops" where
  "int_ops = \<lparr>fzero = 0, fadd = (+), fsub = (-), fmul = (*), fdiv = cdiv, flt = (<), fneginf = - 1000,
     is_finite = (\<lambda>_. True), is_nan = (\<lambda>_. False)\<rparr>"

lemma argsort_sorts_stably_witness:
  "\<exists>ixs. argsort int_ops [(0, 1, 0)] (Some [5, 3, 5]) (Some [9, 9, 9]) 1 3 False = Some (kOk, Some ixs) \<and>
    mset (row 3 ixs 0) = mset [0..2] \<and> sorted_wrt (stable_before (value_before int_ops [5, 3, 5] 3 False 0)) (row 3 ixs 0)"
proof -
  have u: "[0..2] = [0, 1, 2 :: int]" by (simp add: upto.simps)
  have o: "\<forall>r. 0 \<le> r \<and> r < 1 \<longrightarrow> strict_weak (value_before int_ops [5, 3, 5] 3 False r) [0..3 - 1]"
  proof (intro allI impI)
    fix r :: int assume "0 \<le> r \<and> r < 1"
    then have r: "r = 0" by simp
    show "strict_weak (value_before int_ops [5, 3, 5] 3 False r) [0..3 - 1]"
      unfolding r by (simp add: u strict_weak_def value_before_def int_ops_def)
  qed
  show ?thesis
    using argsort_sorts_stably [of 1 3 "[(0, 1, 0)]" "[5, 3, 5]" "[9, 9, 9]" int_ops False, OF _ _ _ _ region_inline _ _ o]
    by (auto simp: int_limits)
qed

end
