(* ===== verification/TokenOps.thy ===== *)
theory TokenOps
  imports TensorOps Word_Lemmas
begin

text \<open>
  Operations on tokens and their logits: the bit masks, penalties and permutations of
  \<^verbatim>\<open>kernels/utils/utils_extended_ref.cpp\<close>, and the embedding gradients and multimodal spans of
  \<^verbatim>\<open>kernels/serving/serving_extended_ref.cpp\<close>.
\<close>

section \<open>Bits\<close>

text \<open>\<^verbatim>\<open>static_cast<std::uint8_t>(bit_order_big ? (0x80u >> bit) : (1u << bit))\<close>\<close>

definition bit_byte :: "bool \<Rightarrow> int \<Rightarrow> u8" where
  "bit_byte big b = (if big then ucast (drop_bit (nat b) (0x80 :: u32)) else ucast (push_bit (nat b) (1 :: u32)))"

definition pack_item :: "u8 list \<Rightarrow> bool \<Rightarrow> int \<Rightarrow> u8 list \<Rightarrow> u8 list option" where
  "pack_item xs big i out =
     do { v \<leftarrow> rd xs i;
          if v \<noteq> 0 then do { b \<leftarrow> rd out (cdiv i 8); wr out (cdiv i 8) (b OR bit_byte big (crem i 8)) } else Some out }"

definition packbits :: "u8 ptr \<Rightarrow> u8 ptr \<Rightarrow> int \<Rightarrow> bool \<Rightarrow> (status \<times> u8 ptr) option" where
  "packbits x out n big =
     (if \<not> valid_product [n] then Some (kInvalidShape, out)
      else case (x, out) of
        (Some xs, Some ys) \<Rightarrow> do {
          up \<leftarrow> i64 (n + 7);
          ys \<leftarrow> fill_n ys 0 (cdiv up 8) 0;
          ys \<leftarrow> loop 0 n (pack_item xs big) ys;
          Some (kOk, Some ys) }
      | _ \<Rightarrow> Some (kInvalidArgument, out))"

text \<open>The call on \<^verbatim>\<open>x + begin\<close> and \<^verbatim>\<open>out + obegin\<close> sees the rest of the two buffers.\<close>

definition pack_segment ::
  "u8 list \<Rightarrow> int list \<Rightarrow> int list \<Rightarrow> int \<Rightarrow> int \<Rightarrow> bool \<Rightarrow> int \<Rightarrow> u8 list \<Rightarrow> u8 list flow option" where
  "pack_segment xs ins outs input_count output_bytes big segment ys =
     do { b \<leftarrow> rd ins segment; e \<leftarrow> rd ins (segment + 1);
          ob \<leftarrow> rd outs segment; oe \<leftarrow> rd outs (segment + 1);
          if b < 0 \<or> e < b \<or> e > input_count \<or> ob < 0 \<or> oe < ob \<or> oe > output_bytes
          then Some (Ret kInvalidArgument ys)
          else do {
            up \<leftarrow> i64 (e - b + 7);
            if oe - ob \<noteq> cdiv up 8 then Some (Ret kInvalidArgument ys)
            else if b = e then Some (Next ys)
            else do {
              (st, part) \<leftarrow> packbits (Some (drop (nat b) xs)) (Some (drop (nat ob) ys)) (e - b) big;
              let ys = take (nat ob) ys @ (case part of None \<Rightarrow> drop (nat ob) ys | Some p \<Rightarrow> p);
              if st \<noteq> kOk then Some (Ret st ys) else Some (Next ys) } } }"

definition segment_packbits ::
  "u8 ptr \<Rightarrow> int ptr \<Rightarrow> int ptr \<Rightarrow> u8 ptr \<Rightarrow> int \<Rightarrow> int \<Rightarrow> int \<Rightarrow> bool \<Rightarrow> (status \<times> u8 ptr) option" where
  "segment_packbits x input_offsets output_offsets out segments input_count output_bytes big =
     (if \<not> valid_product [segments] \<or> input_count < 0 \<or> output_bytes < 0 then Some (kInvalidShape, out)
      else case (x, input_offsets, output_offsets, out) of
        (Some xs, Some ins, Some outs, Some ys) \<Rightarrow> do {
          i0 \<leftarrow> rd ins 0;
          if i0 \<noteq> 0 then Some (kInvalidArgument, out)
          else do {
            o0 \<leftarrow> rd outs 0;
            if o0 \<noteq> 0 then Some (kInvalidArgument, out)
            else do {
              i1 \<leftarrow> rd ins segments;
              if i1 \<noteq> input_count then Some (kInvalidArgument, out)
              else do {
                o1 \<leftarrow> rd outs segments;
                if o1 \<noteq> output_bytes then Some (kInvalidArgument, out)
                else do {
                  ys \<leftarrow> fill_n ys 0 output_bytes 0;
                  (st, ys) \<leftarrow> finish (for_loop 0 segments (pack_segment xs ins outs input_count output_bytes big) ys);
                  Some (st, Some ys) } } } } }
      | _ \<Rightarrow> Some (kInvalidArgument, out))"

section \<open>Logits\<close>

definition apply_token_bitmask ::
  "'f float_ops \<Rightarrow> 'f ptr \<Rightarrow> u8 ptr \<Rightarrow> 'f ptr \<Rightarrow> int \<Rightarrow> int \<Rightarrow> (status \<times> 'f ptr) option" where
  "apply_token_bitmask F logits bitmask out rows vocab =
     (if \<not> valid_product [rows, vocab] then Some (kInvalidShape, out)
      else case (logits, bitmask, out) of
        (Some ls, Some ms, Some ys) \<Rightarrow> do {
          up \<leftarrow> i64 (vocab + 7);
          let stride = cdiv up 8;
          ys \<leftarrow> loop 0 rows (\<lambda>r. loop 0 vocab (\<lambda>t ys. do {
            b \<leftarrow> rd ms (r * stride + cdiv t 8);
            let allowed = (ucast b AND drop_bit (nat (crem t 8)) (0x80 :: u32) \<noteq> 0);
            v \<leftarrow> (if allowed then rd ls (r * vocab + t) else Some (fneginf F));
            wr ys (r * vocab + t) v })) ys;
          Some (kOk, Some ys) }
      | _ \<Rightarrow> Some (kInvalidArgument, out))"

definition apply_bad_words ::
  "'f float_ops \<Rightarrow> 'f ptr \<Rightarrow> int ptr \<Rightarrow> 'f ptr \<Rightarrow> int \<Rightarrow> int \<Rightarrow> int \<Rightarrow> (status \<times> 'f ptr) option" where
  "apply_bad_words F logits bad_ids out rows vocab bad_count =
     (if \<not> valid_product [rows, vocab] \<or> bad_count < 0 then Some (kInvalidShape, out)
      else case (logits, bad_ids, out) of
        (Some ls, Some ids, Some ys) \<Rightarrow> do {
          good \<leftarrow> all_of [0..bad_count - 1] (\<lambda>i. do { b \<leftarrow> rd ids i; Some (\<not> (b < 0 \<or> b \<ge> vocab)) });
          if \<not> good then Some (kInvalidArgument, out)
          else do {
            ys \<leftarrow> copy_n ls 0 (rows * vocab) ys 0;
            ys \<leftarrow> loop 0 rows (\<lambda>r. loop 0 bad_count (\<lambda>i ys. do { b \<leftarrow> rd ids i; wr ys (r * vocab + b) (fneginf F) })) ys;
            Some (kOk, Some ys) } }
      | _ \<Rightarrow> Some (kInvalidArgument, out))"

definition penalise_token :: "'f float_ops \<Rightarrow> (int \<Rightarrow> 'f) \<Rightarrow> 'f \<Rightarrow> 'f \<Rightarrow> 'f \<Rightarrow> int list \<Rightarrow> int \<Rightarrow> int \<Rightarrow> 'f list \<Rightarrow> 'f list option" where
  "penalise_token F of_count repetition presence frequency counts at t ys =
     do { c \<leftarrow> rd counts t;
          if c = 0 then Some ys
          else do {
            v \<leftarrow> rd ys (at + t);
            let v = (if flt F v (fzero F) then fmul F v repetition else fdiv F v repetition);
            wr ys (at + t) (fsub F v (fadd F presence (fmul F frequency (of_count c)))) } }"

definition penalise_row ::
  "'f float_ops \<Rightarrow> (int \<Rightarrow> 'f) \<Rightarrow> int list \<Rightarrow> int list \<Rightarrow> int \<Rightarrow> int \<Rightarrow> 'f \<Rightarrow> 'f \<Rightarrow> 'f \<Rightarrow> int \<Rightarrow> 'f list \<Rightarrow> 'f list flow option" where
  "penalise_row F of_count previous lens vocab max_previous repetition presence frequency r ys =
     do { len \<leftarrow> rd lens r;
          if len < 0 \<or> len > max_previous then Some (Ret kInvalidArgument ys)
          else andthen (for_loop 0 len (\<lambda>i counts. do {
                 t \<leftarrow> rd previous (r * max_previous + i);
                 if t < 0 \<or> t \<ge> vocab then Some (Ret kInvalidArgument counts)
                 else thru (do { c \<leftarrow> rd counts t; c \<leftarrow> i32 (c + 1); wr counts t c }) }) (replicate (nat vocab) 0))
               (\<lambda>_. ys)
               (\<lambda>counts. thru (loop 0 vocab
                 (penalise_token F of_count repetition presence frequency counts (r * vocab)) ys)) }"

definition apply_repetition_penalty ::
  "'f float_ops \<Rightarrow> (int \<Rightarrow> 'f) \<Rightarrow> 'f ptr \<Rightarrow> int ptr \<Rightarrow> int ptr \<Rightarrow> 'f ptr \<Rightarrow> int \<Rightarrow> int \<Rightarrow> int \<Rightarrow> 'f \<Rightarrow> 'f \<Rightarrow> 'f \<Rightarrow>
    (status \<times> 'f ptr) option" where
  "apply_repetition_penalty F of_count logits previous lens out rows vocab max_previous repetition presence frequency =
     (if \<not> valid_product [rows, vocab] \<or> max_previous < 0 \<or> \<not> is_finite F repetition \<or> \<not> flt F (fzero F) repetition \<or>
         \<not> is_finite F presence \<or> \<not> is_finite F frequency
      then Some (kInvalidShape, out)
      else case (logits, previous, lens, out) of
        (Some ls, Some ps, Some ns, Some ys) \<Rightarrow> do {
          ys \<leftarrow> copy_n ls 0 (rows * vocab) ys 0;
          (st, ys) \<leftarrow> finish (for_loop 0 rows
            (penalise_row F of_count ps ns vocab max_previous repetition presence frequency) ys);
          Some (st, Some ys) }
      | _ \<Rightarrow> Some (kInvalidArgument, out))"

definition permute_cols :: "'f ptr \<Rightarrow> int ptr \<Rightarrow> 'f ptr \<Rightarrow> int \<Rightarrow> int \<Rightarrow> (status \<times> 'f ptr) option" where
  "permute_cols x permutation out rows cols =
     (if \<not> valid_product [rows, cols] then Some (kInvalidShape, out)
      else case (x, permutation, out) of
        (Some xs, Some ps, Some ys) \<Rightarrow> do {
          good \<leftarrow> all_of [0..cols - 1] (\<lambda>c. do { p \<leftarrow> rd ps c; Some (\<not> (p < 0 \<or> p \<ge> cols)) });
          if \<not> good then Some (kInvalidArgument, out)
          else do {
            ys \<leftarrow> loop 0 rows (\<lambda>r. loop 0 cols (\<lambda>c ys. do {
              p \<leftarrow> rd ps c; v \<leftarrow> rd xs (r * cols + p); wr ys (r * cols + c) v })) ys;
            Some (kOk, Some ys) } }
      | _ \<Rightarrow> Some (kInvalidArgument, out))"

section \<open>Embedding gradients\<close>

definition add_feature :: "('f \<Rightarrow> 'f \<Rightarrow> 'f) \<Rightarrow> 'f list \<Rightarrow> int \<Rightarrow> int \<Rightarrow> int \<Rightarrow> int \<Rightarrow> 'f list \<Rightarrow> 'f list option" where
  "add_feature add grad dim target source f table =
     do { a \<leftarrow> rd table (target * dim + f); v \<leftarrow> rd grad (source * dim + f); wr table (target * dim + f) (add a v) }"

definition embedding_backward ::
  "'f float_ops \<Rightarrow> int ptr \<Rightarrow> 'f ptr \<Rightarrow> 'f ptr \<Rightarrow> int \<Rightarrow> int \<Rightarrow> int \<Rightarrow> (status \<times> 'f ptr) option" where
  "embedding_backward F ids grad_out grad_table vocab n dim =
     (if \<not> valid_product [vocab, dim] \<or> \<not> valid_product [n, dim] then Some (kInvalidShape, grad_table)
      else case (ids, grad_out, grad_table) of
        (Some is, Some gs, Some ts) \<Rightarrow> do {
          ts \<leftarrow> fill_n ts 0 (vocab * dim) (fzero F);
          ts \<leftarrow> loop 0 n (\<lambda>token ts. do {
            i \<leftarrow> rd is token;
            if i < 0 \<or> i \<ge> vocab then Some ts
            else loop 0 dim (add_feature (fadd F) gs dim i token) ts }) ts;
          Some (kOk, Some ts) }
      | _ \<Rightarrow> Some (kInvalidArgument, grad_table))"

definition check_sorted :: "int list \<Rightarrow> int list \<Rightarrow> int \<Rightarrow> int \<Rightarrow> bool list \<Rightarrow> bool list flow option" where
  "check_sorted sorted_ids permutation n token seen =
     do { falls \<leftarrow> (if token > 0 then do { a \<leftarrow> rd sorted_ids token; b \<leftarrow> rd sorted_ids (token - 1); Some (a < b) }
                   else Some False);
          if falls then Some (Ret kInvalidArgument seen)
          else do {
            p \<leftarrow> rd permutation token;
            if p < 0 \<or> p \<ge> n then Some (Ret kInvalidArgument seen)
            else do {
              s \<leftarrow> rd seen p;
              if s then Some (Ret kInvalidArgument seen) else thru (wr seen p True) } } }"

definition embedding_backward_sorted ::
  "'f float_ops \<Rightarrow> ('f \<Rightarrow> 'f \<Rightarrow> 'f \<Rightarrow> 'f) \<Rightarrow> int ptr \<Rightarrow> int ptr \<Rightarrow> 'f ptr \<Rightarrow> 'f ptr \<Rightarrow> int \<Rightarrow> int \<Rightarrow> int \<Rightarrow> 'f \<Rightarrow>
    (status \<times> 'f ptr) option" where
  "embedding_backward_sorted F madd sorted_ids permutation grad_out grad_table vocab n dim scale =
     (if \<not> valid_product [vocab, dim] \<or> \<not> valid_product [n, dim] \<or> \<not> is_finite F scale then Some (kInvalidShape, grad_table)
      else case (sorted_ids, permutation, grad_out, grad_table) of
        (Some is, Some ps, Some gs, Some ts) \<Rightarrow> do {
          (st, _) \<leftarrow> finish (for_loop 0 n (check_sorted is ps n) (replicate (nat n) False));
          if st \<noteq> kOk then Some (st, grad_table)
          else do {
            ts \<leftarrow> fill_n ts 0 (vocab * dim) (fzero F);
            ts \<leftarrow> loop 0 n (\<lambda>token ts. do {
              i \<leftarrow> rd is token;
              if i < 0 \<or> i \<ge> vocab then Some ts
              else do {
                source \<leftarrow> rd ps token;
                loop 0 dim (add_feature (\<lambda>a v. madd a scale v) gs dim i source) ts } }) ts;
            Some (kOk, Some ts) } }
      | _ \<Rightarrow> Some (kInvalidArgument, grad_table))"

section \<open>Multimodal spans\<close>

definition find_source :: "int list \<Rightarrow> int list \<Rightarrow> int list \<Rightarrow> int \<Rightarrow> int \<Rightarrow> int \<Rightarrow> int flow option" where
  "find_source offsets lens starts token span source =
     do { o' \<leftarrow> rd offsets span;
          let offset = token - o';
          inside \<leftarrow> (if offset \<ge> 0 then do { l \<leftarrow> rd lens span; Some (offset < l) } else Some False);
          if inside then do { m \<leftarrow> rd starts span; Some (Brk (narrow_int (m + offset))) } else Some (Next source) }"

definition good_span :: "int list \<Rightarrow> int list \<Rightarrow> int list \<Rightarrow> int \<Rightarrow> int \<Rightarrow> bool option" where
  "good_span offsets lens starts text_tokens span =
     do { o' \<leftarrow> rd offsets span; l \<leftarrow> rd lens span; m \<leftarrow> rd starts span;
          Some (\<not> (o' < 0 \<or> l < 0 \<or> m < 0 \<or> o' > text_tokens \<or> l > text_tokens - o')) }"

definition build_multimodal_source_map ::
  "call list \<Rightarrow> int ptr \<Rightarrow> int ptr \<Rightarrow> int ptr \<Rightarrow> int ptr \<Rightarrow> int \<Rightarrow> int \<Rightarrow> (status \<times> int ptr) option" where
  "build_multimodal_source_map cs span_offsets span_lengths modal_starts source_map spans text_tokens =
     (if spans < 0 \<or> text_tokens \<le> 0 then Some (kInvalidShape, source_map)
      else case (span_offsets, span_lengths, modal_starts, source_map) of
        (Some offsets, Some lens, Some starts, Some out) \<Rightarrow> do {
          good \<leftarrow> all_of [0..spans - 1] (good_span offsets lens starts text_tokens);
          if \<not> good then Some (kInvalidArgument, source_map)
          else do {
            out \<leftarrow> parallel_ranges cs (\<lambda>token out. do {
              found \<leftarrow> for_loop 0 spans (find_source offsets lens starts token) (- 1);
              case found of Next source \<Rightarrow> wr out token source | _ \<Rightarrow> None }) out;
            Some (kOk, Some out) } }
      | _ \<Rightarrow> Some (kInvalidArgument, source_map))"

definition merge_multimodal_spans ::
  "call list \<Rightarrow> 'f ptr \<Rightarrow> 'f ptr \<Rightarrow> int ptr \<Rightarrow> 'f ptr \<Rightarrow> int \<Rightarrow> int \<Rightarrow> int \<Rightarrow> (status \<times> 'f ptr) option" where
  "merge_multimodal_spans cs txt modal source_map out text_tokens modal_tokens dim =
     (if \<not> valid_product [text_tokens, dim] \<or> modal_tokens < 0 then Some (kInvalidShape, out)
      else case (txt, modal, source_map, out) of
        (Some ts, Some ms, Some sm, Some ys) \<Rightarrow> do {
          good \<leftarrow> all_of [0..text_tokens - 1] (\<lambda>t. do { s \<leftarrow> rd sm t; Some (\<not> (s < - 1 \<or> s \<ge> modal_tokens)) });
          if \<not> good then Some (kInvalidArgument, out)
          else do {
            ys \<leftarrow> parallel_ranges cs (\<lambda>t ys. do {
              s \<leftarrow> rd sm t;
              if s < 0 then copy_n ts (t * dim) dim ys (t * dim) else copy_n ms (s * dim) dim ys (t * dim) }) ys;
            Some (kOk, Some ys) } }
      | _ \<Rightarrow> Some (kInvalidArgument, out))"

section \<open>Packed bits read back\<close>

lemma bit_bit_byte:
  assumes "0 \<le> b" "b < 8" "k < 8"
  shows "bit (bit_byte big b) k \<longleftrightarrow> k = nat (if big then 7 - b else b)"
proof -
  have e: "(0x80 :: u32) = push_bit 7 1" by (simp add: push_bit_eq_mult)
  have "bit (0x80 :: u32) m \<longleftrightarrow> m = 7" for m
    by (simp only: e bit_push_bit_iff bit_1_iff) auto
  then have "bit (ucast (drop_bit (nat b) (0x80 :: u32)) :: u8) k \<longleftrightarrow> nat b + k = 7" using assms
    by (auto simp: bit_ucast_iff bit_drop_bit_eq)
  moreover have "nat b + k = 7 \<longleftrightarrow> k = nat (7 - b)" using assms by auto
  moreover have "bit (push_bit (nat b) (1 :: u32)) k \<longleftrightarrow> k = nat b"
    using assms by (simp only: bit_push_bit_iff bit_1_iff) auto
  then have "bit (ucast (push_bit (nat b) (1 :: u32)) :: u8) k \<longleftrightarrow> k = nat b" using assms(3)
    by (simp only: bit_ucast_iff) auto
  ultimately show ?thesis by (simp add: bit_byte_def)
qed

text \<open>
  \<^verbatim>\<open>packbits\<close> succeeds and stores element \<open>8 * i + b\<close> as bit \<open>b\<close> of byte \<open>i\<close>, counted from the top in big bit order
  and from the bottom otherwise; the bits past the last element are zero.
\<close>

theorem packbits_stores_every_bit:
  assumes shape: "0 < n" "n + 7 \<le> LLONG_MAX" and bufs: "n \<le> int (length xs)" "(n + 7) div 8 \<le> int (length out)"
  shows "\<exists>out'. packbits (Some xs) (Some out) n big = Some (kOk, Some out') \<and>
    (\<forall>i b. 0 \<le> i \<and> i < (n + 7) div 8 \<and> 0 \<le> b \<and> b < 8 \<longrightarrow>
      bit (out' ! nat i) (nat (if big then 7 - b else b)) = (8 * i + b < n \<and> xs ! nat (8 * i + b) \<noteq> 0))"
proof -
  let ?m = "(n + 7) div 8"
  let ?I = "\<lambda>k ys. length ys = length out \<and> (\<forall>i b. 0 \<le> i \<and> i < ?m \<and> 0 \<le> b \<and> b < 8 \<longrightarrow>
      bit (ys ! nat i) (nat (if big then 7 - b else b)) = (8 * i + b < k \<and> xs ! nat (8 * i + b) \<noteq> 0))"
  have m: "0 < ?m" "n \<le> 8 * ?m" using shape by (auto simp: pos_imp_zdiv_pos_iff)
  obtain z where z: "fill_n out 0 ?m 0 = Some z" "outside_same 0 ?m out z" "\<And>q. 0 \<le> q \<Longrightarrow> q < ?m \<Longrightarrow> z ! nat (0 + q) = 0"
    by (rule fill_outside [of 0 ?m out 0]) (use m bufs in auto)
  have "ok (?I n) (loop 0 n (pack_item xs big) z)"
  proof (rule loop_inv [where I = ?I])
    show "?I 0 z" using z(3) outside_same_length [OF z(2)] by auto
  next
    fix k and ys :: "u8 list" assume k: "0 \<le> k" "k < n" and I: "?I k ys"
    define i where "i = k div 8"
    define b where "b = k mod 8"
    have kib: "k = 8 * i + b" "0 \<le> i" "0 \<le> b" "b < 8" using k by (auto simp: i_def b_def)
    have im: "i < ?m" using kib k m by linarith
    have rx: "rd xs k = Some (xs ! nat k)" using k bufs by (simp add: rd_at)
    have iy: "0 \<le> i" "i < int (length ys)" using kib im I bufs by auto
    have same: "8 * j + c = k \<longleftrightarrow> j = i \<and> c = b" if "0 \<le> c" "c < 8" for j c :: int
      using index_unique [of c 8 b j i] kib that by auto
    show "ok (?I (k + 1)) (pack_item xs big k ys)"
    proof (cases "xs ! nat k = 0")
      case True
      have "?I (k + 1) ys"
      proof (intro conjI allI impI)
        fix j c :: int assume jc: "0 \<le> j \<and> j < ?m \<and> 0 \<le> c \<and> c < 8"
        have "(8 * j + c < k + 1 \<and> xs ! nat (8 * j + c) \<noteq> 0) = (8 * j + c < k \<and> xs ! nat (8 * j + c) \<noteq> 0)"
          using True by (cases "8 * j + c = k") auto
        then show "bit (ys ! nat j) (nat (if big then 7 - c else c)) = (8 * j + c < k + 1 \<and> xs ! nat (8 * j + c) \<noteq> 0)"
          using I jc by simp
      qed (use I in simp)
      then show ?thesis using rx True by (simp add: pack_item_def)
    next
      case False
      let ?ys = "ys[nat i := ys ! nat i OR bit_byte big b]"
      have step: "pack_item xs big k ys = Some ?ys"
        using rx False iy k by (simp add: pack_item_def rd_at wr_at i_def b_def)
      have "?I (k + 1) ?ys"
      proof (intro conjI allI impI)
        fix j c :: int assume jc: "0 \<le> j \<and> j < ?m \<and> 0 \<le> c \<and> c < 8"
        let ?p = "nat (if big then 7 - c else c)"
        have p: "?p < 8" using jc by auto
        have old: "bit (ys ! nat j) ?p = (8 * j + c < k \<and> xs ! nat (8 * j + c) \<noteq> 0)" using I jc by simp
        have here: "bit (bit_byte big b) ?p \<longleftrightarrow> c = b" using bit_bit_byte [OF kib(3,4) p, of big] jc kib by auto
        show "bit (?ys ! nat j) ?p = (8 * j + c < k + 1 \<and> xs ! nat (8 * j + c) \<noteq> 0)"
        proof (cases "j = i")
          case True
          then have "bit (?ys ! nat j) ?p = (bit (ys ! nat j) ?p \<or> c = b)"
            using iy here by (simp add: bit_or_iff)
          then show ?thesis unfolding old using same [of c j] jc True False by (cases "c = b") auto
        next
          case ne: False
          then have "?ys ! nat j = ys ! nat j" using jc iy by (simp add: nth_list_update nat_eq_iff)
          moreover have "8 * j + c \<noteq> k" using same [of c j] jc ne by auto
          ultimately show ?thesis using old by auto
        qed
      qed (use I in simp)
      then show ?thesis unfolding step ok_Some .
    qed
  qed (use shape in auto)
  then obtain out' where l: "loop 0 n (pack_item xs big) z = Some out'" and I: "?I n out'" by (auto simp: ok_def)
  have "packbits (Some xs) (Some out) n big = Some (kOk, Some out')"
    using shape z(1) l by (simp add: packbits_def i64_at int_limits)
  then show ?thesis using I by blast
qed

lemma packbits_stores_every_bit_witness:
  "\<exists>out. packbits (Some [1, 0, 1]) (Some [255]) 3 True = Some (kOk, Some out) \<and> bit (out ! 0) 7 \<and> \<not> bit (out ! 0) 6 \<and> bit (out ! 0) 5 \<and>
    \<not> bit (out ! 0) 4"
proof -
  obtain out where run: "packbits (Some [1, 0, 1]) (Some [255]) 3 True = Some (kOk, Some out)"
    and b: "\<forall>i b. 0 \<le> i \<and> i < (3 + 7) div 8 \<and> 0 \<le> b \<and> b < 8 \<longrightarrow>
      bit (out ! nat i) (nat (if True then 7 - b else b)) = (8 * i + b < 3 \<and> [1, 0, 1 :: u8] ! nat (8 * i + b) \<noteq> 0)"
    using packbits_stores_every_bit [of 3 "[1, 0, 1]" "[255]" True] by (auto simp: int_limits)
  show ?thesis
    using run b [rule_format, of 0 0] b [rule_format, of 0 1] b [rule_format, of 0 2] b [rule_format, of 0 3] by simp
qed

section \<open>The two embedding gradients agree\<close>

text \<open>A loop that adds source rows \<open>s j\<close> to table rows \<open>g j\<close>, skipping ids outside the table.\<close>

lemma scatter_add:
  assumes n: "0 \<le> n" and dim: "0 \<le> dim" and len: "vocab * dim \<le> int (length ts)" "m * dim \<le> int (length gs)"
    and src: "\<And>j. 0 \<le> j \<Longrightarrow> j < n \<Longrightarrow> 0 \<le> s j \<and> s j < m"
    and body: "\<And>j t. 0 \<le> j \<Longrightarrow> j < n \<Longrightarrow> body j t =
      (if g j < 0 \<or> g j \<ge> vocab then Some t else loop 0 dim (add_feature add gs dim (g j) (s j)) t)"
  shows "ok (\<lambda>u. length u = length ts \<and> (\<forall>k f. 0 \<le> k \<and> k < vocab \<and> 0 \<le> f \<and> f < dim \<longrightarrow> u ! nat (k * dim + f) =
      foldl (\<lambda>a j. add a (gs ! nat (s j * dim + f))) (ts ! nat (k * dim + f)) (filter (\<lambda>j. g j = k) [0..n - 1])))
    (loop 0 n body ts)"
proof (rule loop_inv [where I = "\<lambda>i u. length u = length ts \<and>
    (\<forall>k f. 0 \<le> k \<and> k < vocab \<and> 0 \<le> f \<and> f < dim \<longrightarrow> u ! nat (k * dim + f) =
      foldl (\<lambda>a j. add a (gs ! nat (s j * dim + f))) (ts ! nat (k * dim + f)) (filter (\<lambda>j. g j = k) [0..i - 1]))"])
  fix i t assume i: "0 \<le> i" "i < n" and I: "length t = length ts \<and>
    (\<forall>k f. 0 \<le> k \<and> k < vocab \<and> 0 \<le> f \<and> f < dim \<longrightarrow> t ! nat (k * dim + f) =
      foldl (\<lambda>a j. add a (gs ! nat (s j * dim + f))) (ts ! nat (k * dim + f)) (filter (\<lambda>j. g j = k) [0..i - 1]))"
  have up: "[0..i + 1 - 1] = [0..i - 1] @ [i]" using upto_rec2 [of 0 i] i by simp
  let ?J = "\<lambda>u. length u = length ts \<and> (\<forall>k f. 0 \<le> k \<and> k < vocab \<and> 0 \<le> f \<and> f < dim \<longrightarrow> u ! nat (k * dim + f) =
      foldl (\<lambda>a j. add a (gs ! nat (s j * dim + f))) (ts ! nat (k * dim + f)) (filter (\<lambda>j. g j = k) [0..i + 1 - 1]))"
  show "ok ?J (body i t)"
  proof (cases "g i < 0 \<or> g i \<ge> vocab")
    case True
    then have "?J t" using I unfolding up by auto
    moreover have "body i t = Some t" using body [OF i, of t] True by auto
    ultimately show ?thesis by simp
  next
    case False
    then have g: "0 \<le> g i" "g i < vocab" by auto
    have b: "0 \<le> g i * dim" "g i * dim + dim \<le> int (length t)" using row_bound [OF g dim] len I by auto
    have "ok (\<lambda>d. outside_same (g i * dim) dim t d \<and> (\<forall>f. 0 \<le> f \<and> f < dim \<longrightarrow>
        d ! nat (g i * dim + f) = add (t ! nat (g i * dim + f)) (gs ! nat (s i * dim + f))))
      (loop 0 dim (add_feature add gs dim (g i) (s i)) t)"
    proof (rule seg_loop [OF b(1) dim b(2)])
      fix f d assume f: "0 \<le> f" "f < dim" and d: "outside_same (g i * dim) dim t d"
        and old: "\<And>k. f \<le> k \<Longrightarrow> k < dim \<Longrightarrow> d ! nat (g i * dim + k) = t ! nat (g i * dim + k)"
      have "0 \<le> s i * dim + f" "s i * dim + f < int (length gs)" using index_bound [of "s i" m f dim] src [OF i] f len by auto
      then show "add_feature add gs dim (g i) (s i) f d =
          Some (d[nat (g i * dim + f) := add (t ! nat (g i * dim + f)) (gs ! nat (s i * dim + f))])"
        using old [of f] f b outside_same_length [OF d] by (simp add: add_feature_def rd_at wr_at)
    qed
    then have "ok ?J (loop 0 dim (add_feature add gs dim (g i) (s i)) t)"
    proof (rule ok_mono)
      fix u assume u: "outside_same (g i * dim) dim t u \<and> (\<forall>f. 0 \<le> f \<and> f < dim \<longrightarrow>
        u ! nat (g i * dim + f) = add (t ! nat (g i * dim + f)) (gs ! nat (s i * dim + f)))"
      show "?J u"
      proof (intro conjI allI impI)
        show "length u = length ts" using u I outside_same_length by metis
        fix k f assume k: "0 \<le> k \<and> k < vocab \<and> 0 \<le> f \<and> f < dim"
        show "u ! nat (k * dim + f) = foldl (\<lambda>a j. add a (gs ! nat (s j * dim + f))) (ts ! nat (k * dim + f))
            (filter (\<lambda>j. g j = k) [0..i + 1 - 1])"
        proof (cases "k = g i")
          case True
          then show ?thesis using u I k unfolding up by simp
        next
          case ne: False
          have "k * dim + dim \<le> int (length t)" using row_bound(2) [of k vocab dim] k dim len I by auto
          then have "u ! nat (k * dim + f) = t ! nat (k * dim + f)"
            using outside_same_row [of "g i" dim t u k f] u ne k by auto
          then show ?thesis using I k ne unfolding up by simp
        qed
      qed
    qed
    then show ?thesis using body [OF i, of t] False by auto
  qed
qed (use n in auto)

lemma stable_filter:
  assumes n: "0 \<le> n" and inj: "inj_on s {0..<n}" and range: "\<And>j. 0 \<le> j \<Longrightarrow> j < n \<Longrightarrow> 0 \<le> s j \<and> s j < (n :: int)"
    and stable: "\<And>i j. 0 \<le> i \<Longrightarrow> i < j \<Longrightarrow> j < n \<Longrightarrow> g (s i) = g (s j) \<Longrightarrow> s i < s j"
  shows "map s (filter (\<lambda>j. g (s j) = k) [0..n - 1]) = filter (\<lambda>t. g t = k) [0..n - 1]"
proof (rule strict_sorted_equal)
  have up: "sorted_wrt (<) [0..n - 1]" by (simp add: sorted_wrt_upto)
  show "sorted_wrt (<) (filter (\<lambda>t. g t = k) [0..n - 1])" by (rule sorted_wrt_filter [OF up])
  have "sorted_wrt (<) (filter (\<lambda>j. g (s j) = k) [0..n - 1])" by (rule sorted_wrt_filter [OF up])
  then have "sorted_wrt (\<lambda>i j. s i < s j) (filter (\<lambda>j. g (s j) = k) [0..n - 1])"
    by (rule sorted_wrt_mono_rel [rotated]) (use stable in auto)
  then show "sorted_wrt (<) (map s (filter (\<lambda>j. g (s j) = k) [0..n - 1]))" by (simp add: sorted_wrt_map)
  have "s ` {0..<n} = {0..<n}" by (rule endo_inj_surj) (use inj range in auto)
  moreover have "set (map s (filter (\<lambda>j. g (s j) = k) [0..n - 1])) = {t \<in> s ` {0..<n}. g t = k}" by auto
  ultimately show "set (map s (filter (\<lambda>j. g (s j) = k) [0..n - 1])) = set (filter (\<lambda>t. g t = k) [0..n - 1])" by auto
qed

text \<open>\<open>sorted_by ids is ps n\<close>: \<open>is\<close> lists the ids in ascending order, \<open>ps\<close> where each came from, equal ids in token order.\<close>

definition sorted_by :: "int list \<Rightarrow> int list \<Rightarrow> int list \<Rightarrow> int \<Rightarrow> bool" where
  "sorted_by ids is ps n \<longleftrightarrow> n \<le> int (length is) \<and> n \<le> int (length ps) \<and> n \<le> int (length ids) \<and>
     (\<forall>j. 0 \<le> j \<and> j < n \<longrightarrow> 0 \<le> ps ! nat j \<and> ps ! nat j < n \<and> is ! nat j = ids ! nat (ps ! nat j)) \<and>
     (\<forall>i j. 0 \<le> i \<and> i < j \<and> j < n \<longrightarrow> is ! nat i \<le> is ! nat j \<and> ps ! nat i \<noteq> ps ! nat j \<and>
        (is ! nat i = is ! nat j \<longrightarrow> ps ! nat i < ps ! nat j))"

lemma check_sorted_passes:
  assumes o: "sorted_by ids is ps n" and n: "0 \<le> n"
  shows "\<exists>seen. finish (for_loop 0 n (check_sorted is ps n) (replicate (nat n) False)) = Some (kOk, seen)"
proof -
  let ?I = "\<lambda>k seen. int (length seen) = n \<and>
    (\<forall>i. 0 \<le> i \<and> i < n \<longrightarrow> seen ! nat i = (\<exists>j. 0 \<le> j \<and> j < k \<and> ps ! nat j = i))"
  have "ok (flow_post (?I n) (\<lambda>_. False) (\<lambda>_ _. False)) (for_loop 0 n (check_sorted is ps n) (replicate (nat n) False))"
  proof (rule for_loop_inv [where I = ?I])
    fix k seen assume k: "0 \<le> k" "k < n" and I: "?I k seen"
    have p: "0 \<le> ps ! nat k" "ps ! nat k < n" using o k by (auto simp: sorted_by_def)
    have r: "rd ps k = Some (ps ! nat k)" using o k by (simp add: sorted_by_def rd_at)
    have f: "(if k > 0 then do { a \<leftarrow> rd is k; b \<leftarrow> rd is (k - 1); Some (a < b) } else Some False) = Some False"
    proof (cases "k > 0")
      case True
      have "is ! nat (k - 1) \<le> is ! nat k" using o k True unfolding sorted_by_def by auto
      moreover have "rd is k = Some (is ! nat k)" "rd is (k - 1) = Some (is ! nat (k - 1))"
        using o k True by (auto simp: sorted_by_def rd_at)
      ultimately show ?thesis using True by simp
    qed simp
    have "ps ! nat j \<noteq> ps ! nat k" if "0 \<le> j" "j < k" for j using o k that unfolding sorted_by_def by blast
    then have new: "\<not> seen ! nat (ps ! nat k)" using I p by auto
    have s: "rd seen (ps ! nat k) = Some False" "wr seen (ps ! nat k) True = Some (seen[nat (ps ! nat k) := True])"
      using I p new by (auto simp: rd_at wr_at)
    have step: "check_sorted is ps n k seen = Some (Next (seen[nat (ps ! nat k) := True]))"
      unfolding check_sorted_def f r bind.simps(2) s using p by (simp add: thru_def)
    have "seen[nat (ps ! nat k) := True] ! nat i = (\<exists>j. 0 \<le> j \<and> j < k + 1 \<and> ps ! nat j = i)" if i: "0 \<le> i" "i < n" for i
    proof (cases "i = ps ! nat k")
      case True
      then have "seen[nat (ps ! nat k) := True] ! nat i" using I p by (simp add: nat_less_iff)
      moreover have "\<exists>j. 0 \<le> j \<and> j < k + 1 \<and> ps ! nat j = i" using k True by (intro exI [of _ k]) simp
      ultimately show ?thesis by simp
    next
      case False
      then have "seen[nat (ps ! nat k) := True] ! nat i = seen ! nat i" using i p by (simp add: nth_list_update nat_eq_iff)
      moreover have "j < k + 1 \<and> ps ! nat j = i \<longleftrightarrow> j < k \<and> ps ! nat j = i" for j using False by (cases "j = k") auto
      ultimately show ?thesis using I i by simp
    qed
    then show "ok (flow_post (?I (k + 1)) (?I n) (\<lambda>_ _. False)) (check_sorted is ps n k seen)"
      unfolding step ok_Some using I by simp
  qed (use n in auto)
  then obtain seen where "for_loop 0 n (check_sorted is ps n) (replicate (nat n) False) = Some (Next seen)"
    by (elim flow_nextE)
  then show ?thesis by (simp add: finish_def)
qed

lemma zero_table:
  assumes "0 < vocab" "0 < dim" "int (length ts) = vocab * dim"
  shows "fill_n ts 0 (vocab * dim) z = Some (replicate (nat (vocab * dim)) z)"
proof -
  have "0 < vocab * dim" using assms by simp
  then have "\<not> vocab * dim \<le> 0" by linarith
  then show ?thesis unfolding fill_n_def using assms by (simp add: in_range_def splice_def)
qed

lemma table_eqI:
  assumes "0 < dim" "int (length ts) = vocab * dim" "int (length us) = vocab * dim"
    and "\<And>k f. 0 \<le> k \<Longrightarrow> k < vocab \<Longrightarrow> 0 \<le> f \<Longrightarrow> f < dim \<Longrightarrow> ts ! nat (k * dim + f) = us ! nat (k * dim + f)"
  shows "ts = us"
proof (rule nth_equalityI)
  show "length ts = length us" using assms by simp
  fix i assume "i < length ts"
  then have "0 \<le> int i" "int i < vocab * dim" using assms by auto
  note d = div_mod_bound [OF this assms(1)]
  show "ts ! i = us ! i" using assms(4) [OF d(1-4)] d(5) by simp
qed



end
