(* ===== verification/SparseMetadata.thy ===== *)
theory SparseMetadata
  imports Speculative
begin

text \<open>
  \<^verbatim>\<open>kernels/serving/sparse_metadata_ref.cpp\<close>: the 64-bit EAGLE metadata, the gather from a paged key cache, and the
  conversion of vertical and slash indices into block lists for sparse attention.
\<close>

section \<open>EAGLE in 64 bits\<close>

definition next_token64_item :: "int list \<Rightarrow> int \<Rightarrow> int \<Rightarrow> int \<Rightarrow> int \<times> int \<Rightarrow> (int \<times> int) flow option" where
  "next_token64_item sampled at vocab item s =
     do { t \<leftarrow> rd sampled (at + item);
          if t < - 1 \<or> t \<ge> vocab then Some (Ret kInvalidArgument s)
          else if t \<noteq> - 1 then thru (do { c \<leftarrow> i64 (fst s + 1); Some (c, t) })
          else Some (Next s) }"

definition next_token64_request ::
  "int list \<Rightarrow> u8 list \<Rightarrow> int list \<Rightarrow> int \<Rightarrow> int \<Rightarrow> int \<Rightarrow> int list \<times> int list \<Rightarrow> (int list \<times> int list) flow option" where
  "next_token64_request sampled discard backup per_request vocab r s =
     do { b \<leftarrow> rd backup r;
          if b < 0 \<or> b \<ge> vocab then Some (Ret kInvalidArgument s)
          else andthen (for_loop 0 per_request (next_token64_item sampled (r * per_request) vocab) (0, - 1)) (\<lambda>_. s)
            (\<lambda>(c, tok). thru (do {
               d \<leftarrow> rd discard r;
               let c = (if d \<noteq> 0 then 0 else c);
               valid \<leftarrow> wr (snd s) r c;
               next \<leftarrow> wr (fst s) r (if c > 0 then tok else b);
               Some (next, valid) })) }"

definition eagle_prepare_next_token_int64 ::
  "int ptr \<Rightarrow> u8 ptr \<Rightarrow> int ptr \<Rightarrow> int ptr \<Rightarrow> int ptr \<Rightarrow> int \<Rightarrow> int \<Rightarrow> int \<Rightarrow> (status \<times> int ptr \<times> int ptr) option" where
  "eagle_prepare_next_token_int64 sampled_tokens discard_mask backup_tokens next_tokens valid_sampled_count
      batch per_request vocab =
     (if \<not> valid_product [batch, per_request] \<or> vocab \<le> 0
      then Some (kInvalidShape, next_tokens, valid_sampled_count)
      else case (sampled_tokens, discard_mask, backup_tokens, next_tokens, valid_sampled_count) of
        (Some sampled, Some discard, Some backup, Some next, Some valid) \<Rightarrow> do {
          (st, next, valid) \<leftarrow> finish (for_loop 0 batch
            (next_token64_request sampled discard backup per_request vocab) (next, valid));
          Some (st, Some next, Some valid) }
      | _ \<Rightarrow> Some (kInvalidArgument, next_tokens, valid_sampled_count))"

definition expand64_request :: "int list \<Rightarrow> int list \<Rightarrow> int \<Rightarrow> int \<Rightarrow> int \<Rightarrow> int list \<Rightarrow> int list flow option" where
  "expand64_request inp cum replace_from replace_to r out =
     do { a \<leftarrow> rd cum r; b \<leftarrow> rd cum (r + 1);
          if a > b then Some (Ret kInvalidArgument out)
          else thru (do {
            v \<leftarrow> rd inp r;
            fill_n out a (b - a) (if v = replace_from then replace_to else v) }) }"

definition eagle_expand_int64 ::
  "int ptr \<Rightarrow> int ptr \<Rightarrow> int ptr \<Rightarrow> int \<Rightarrow> int \<Rightarrow> int \<Rightarrow> int \<Rightarrow> (status \<times> int ptr) option" where
  "eagle_expand_int64 input cumulative_tokens output batch n replace_from replace_to =
     (if batch \<le> 0 \<or> n < 0 then Some (kInvalidShape, output)
      else case (input, cumulative_tokens, output) of
        (Some inp, Some cum, Some out) \<Rightarrow> do {
          c0 \<leftarrow> rd cum 0;
          if c0 \<noteq> 0 then Some (kInvalidArgument, output)
          else do {
            cn \<leftarrow> rd cum batch;
            if cn \<noteq> n then Some (kInvalidArgument, output)
            else do {
              (st, out) \<leftarrow> finish (for_loop 0 batch (expand64_request inp cum replace_from replace_to) out);
              Some (st, Some out) } } }
      | _ \<Rightarrow> Some (kInvalidArgument, output))"

text \<open>The sequence lengths are updated in place.\<close>

definition slot64_request ::
  "int list \<Rightarrow> int list \<Rightarrow> int \<Rightarrow> int \<Rightarrow> int \<Rightarrow> int \<Rightarrow> int \<Rightarrow> int \<Rightarrow> tree \<Rightarrow> tree flow option" where
  "slot64_request positions table batch max_blocks bsize max_len pad_id r s =
     (case s of (lens, clamped, slots) \<Rightarrow>
        if r \<ge> batch then thru (do {
          clamped \<leftarrow> wr clamped r 0; slots \<leftarrow> wr slots r pad_id; Some (lens, clamped, slots) })
        else do {
          p \<leftarrow> rd positions r;
          if p < 0 then Some (Ret kInvalidArgument s)
          else do {
            len \<leftarrow> rd lens r;
            if len < 0 then Some (Ret kInvalidArgument s)
            else do {
              new_position \<leftarrow> i64 (p + 1);
              let exceeds = (new_position \<ge> max_len);
              let c = (if exceeds then 0 else new_position);
              let block_number = min (cdiv c bsize) (max_blocks - 1);
              block \<leftarrow> rd table (r * max_blocks + block_number);
              if \<not> exceeds \<and> block < 0 then Some (Ret kInvalidArgument s)
              else thru (do {
                clamped \<leftarrow> wr clamped r c;
                slot \<leftarrow> (if exceeds then Some pad_id
                         else do { x \<leftarrow> i64 (block * bsize); i64 (x + crem c bsize) });
                slots \<leftarrow> wr slots r slot;
                new_len \<leftarrow> (if exceeds then Some 1 else do { l \<leftarrow> i64 (len + 1); Some (min l max_len) });
                lens \<leftarrow> wr lens r new_len;
                Some (lens, clamped, slots) }) } } })"

definition eagle_step_slot_mapping_int64 ::
  "int ptr \<Rightarrow> int ptr \<Rightarrow> int ptr \<Rightarrow> int ptr \<Rightarrow> int ptr \<Rightarrow> int \<Rightarrow> int \<Rightarrow> int \<Rightarrow> int \<Rightarrow> int \<Rightarrow> int \<Rightarrow>
    (status \<times> int ptr \<times> int ptr \<times> int ptr) option" where
  "eagle_step_slot_mapping_int64 sequence_lengths positions block_table clamped_positions slot_mapping
      batch input_batch max_blocks bsize max_model_length pad_id =
     (if \<not> valid_product [batch, input_batch, max_blocks] \<or> input_batch < batch \<or> bsize \<le> 0 \<or> max_model_length \<le> 0
      then Some (kInvalidShape, sequence_lengths, clamped_positions, slot_mapping)
      else case (sequence_lengths, positions, block_table, clamped_positions, slot_mapping) of
        (Some lens, Some pos, Some table, Some clamped, Some slots) \<Rightarrow> do {
          (st, lens, clamped, slots) \<leftarrow> finish (for_loop 0 input_batch
             (slot64_request pos table batch max_blocks bsize max_model_length pad_id) (lens, clamped, slots));
          Some (st, Some lens, Some clamped, Some slots) }
      | _ \<Rightarrow> Some (kInvalidArgument, sequence_lengths, clamped_positions, slot_mapping))"

subsection \<open>Expansion for parallel drafting\<close>

record expansion =
  input_ids :: "int list"
  out_positions :: "int list"
  rejected_mask :: "u8 list"
  masked_mask :: "u8 list"
  new_indices :: "int list"
  hidden_map :: "int list"

definition expand_item ::
  "int list \<Rightarrow> int list \<Rightarrow> int \<Rightarrow> int \<Rightarrow> int \<Rightarrow> int \<Rightarrow> int \<Rightarrow> int \<Rightarrow> int \<Rightarrow> int \<Rightarrow> int \<Rightarrow> int \<Rightarrow> int \<Rightarrow> expansion \<Rightarrow> expansion option" where
  "expand_item target next_ids input_tokens pad_token draft_token slots request query_start input_offset output_start
      start_position valid item s =
     do { let output_index = output_start + item;
          let is_valid = (item < valid);
          let is_bonus = (item = valid);
          let is_parallel = (item > valid \<and> item < valid + slots);
          let is_rejected = (item \<ge> valid + slots);
          let input_index = min (query_start + input_offset + item) (input_tokens - 1);
          token \<leftarrow> (if is_valid then rd target input_index
                    else if is_bonus then rd next_ids request
                    else Some (if is_parallel then draft_token else pad_token));
          ids \<leftarrow> wr (input_ids s) output_index token;
          position \<leftarrow> (if is_rejected then Some 0 else i64 (start_position + item));
          pos \<leftarrow> wr (out_positions s) output_index position;
          rej \<leftarrow> wr (rejected_mask s) output_index (if is_rejected then 1 else 0);
          msk \<leftarrow> wr (masked_mask s) output_index (if is_parallel then 1 else 0);
          new \<leftarrow> (if is_bonus \<or> is_parallel
                  then wr (new_indices s) (request * slots + (item - valid)) (narrow_int output_index)
                  else Some (new_indices s));
          Some (s\<lparr>input_ids := ids, out_positions := pos, rejected_mask := rej, masked_mask := msk, new_indices := new\<rparr>) }"

definition expand_request ::
  "int list \<Rightarrow> int list \<Rightarrow> int list \<Rightarrow> int list \<Rightarrow> int list \<Rightarrow> int \<Rightarrow> int \<Rightarrow> int \<Rightarrow> int \<Rightarrow> int \<Rightarrow> bool \<Rightarrow> int \<Rightarrow> expansion \<Rightarrow>
    expansion flow option" where
  "expand_request target positions next_ids starts ends input_tokens output_tokens pad_token draft_token slots shift request s =
     do { query_start \<leftarrow> rd starts request;
          next_query_start \<leftarrow> rd starts (request + 1);
          query_end \<leftarrow> rd ends request;
          if query_start < 0 \<or> next_query_start < query_start \<or> next_query_start > input_tokens \<or>
             query_end < query_start \<or> query_end \<ge> next_query_start
          then Some (Ret kInvalidArgument s)
          else do {
            let valid = (if shift then query_end - query_start else query_end - query_start + 1);
            let input_offset = (if shift then 1 else 0);
            step \<leftarrow> i64 (request * (slots - (if shift then 1 else 0)));
            output_start \<leftarrow> i64 (query_start + step);
            let rejected = next_query_start - query_end - 1;
            n \<leftarrow> i64 (valid + slots);
            n \<leftarrow> i64 (n + rejected);
            if output_start < 0 \<or> n < 0 then Some (Ret kInvalidArgument s)
            else do {
              stop \<leftarrow> i64 (output_start + n);
              if stop > output_tokens then Some (Ret kInvalidArgument s)
              else thru (do {
                start_position \<leftarrow> rd positions query_start;
                s \<leftarrow> loop 0 n (expand_item target next_ids input_tokens pad_token draft_token slots request query_start
                  input_offset output_start start_position valid) s;
                if shift then do {
                  h \<leftarrow> loop 0 (next_query_start - query_start)
                    (\<lambda>item h. wr h (query_start + item) (narrow_int (output_start + item))) (hidden_map s);
                  Some (s\<lparr>hidden_map := h\<rparr>) }
                else Some s }) } } }"

definition copy_and_expand_eagle ::
  "int ptr \<Rightarrow> int ptr \<Rightarrow> int ptr \<Rightarrow> int ptr \<Rightarrow> int ptr \<Rightarrow> int ptr \<Rightarrow> int ptr \<Rightarrow> u8 ptr \<Rightarrow> u8 ptr \<Rightarrow> int ptr \<Rightarrow> int ptr \<Rightarrow>
    int \<Rightarrow> int \<Rightarrow> int \<Rightarrow> int \<Rightarrow> int \<Rightarrow> int \<Rightarrow> bool \<Rightarrow> (status \<times> expansion option) option" where
  "copy_and_expand_eagle target_token_ids target_positions next_token_ids query_start_locations query_end_locations
      output_input_ids output_positions rejected masked new_token_indices hidden_state_mapping
      batch input_tokens output_tokens pad_token draft_token slots shift =
     (if batch \<le> 0 \<or> input_tokens \<le> 0 \<or> output_tokens \<le> 0 \<or> slots \<le> 0 then Some (kInvalidShape, None)
      else case (target_token_ids, target_positions, next_token_ids, query_start_locations, query_end_locations) of
        (Some target, Some positions, Some next_ids, Some starts, Some ends) \<Rightarrow>
          (case (output_input_ids, output_positions, rejected, masked, new_token_indices, hidden_state_mapping) of
            (Some ids, Some pos, Some rej, Some msk, Some new, Some hid) \<Rightarrow> do {
              q0 \<leftarrow> rd starts 0;
              if q0 \<noteq> 0 then Some (kInvalidArgument, None)
              else do {
                qn \<leftarrow> rd starts batch;
                if qn \<noteq> input_tokens then Some (kInvalidArgument, None)
                else do {
                  ids \<leftarrow> fill_n ids 0 output_tokens pad_token;
                  pos \<leftarrow> fill_n pos 0 output_tokens 0;
                  rej \<leftarrow> fill_n rej 0 output_tokens 0;
                  msk \<leftarrow> fill_n msk 0 output_tokens 0;
                  new \<leftarrow> fill_n new 0 (batch * slots) (- 1);
                  hid \<leftarrow> fill_n hid 0 input_tokens (- 1);
                  (st, s) \<leftarrow> finish (for_loop 0 batch
                    (expand_request target positions next_ids starts ends input_tokens output_tokens pad_token draft_token
                      slots shift)
                    \<lparr>input_ids = ids, out_positions = pos, rejected_mask = rej, masked_mask = msk, new_indices = new,
                     hidden_map = hid\<rparr>);
                  Some (st, Some s) } } }
          | _ \<Rightarrow> Some (kInvalidArgument, None))
      | _ \<Rightarrow> Some (kInvalidArgument, None))"

section \<open>Gather from a paged key cache\<close>

definition gather_token ::
  "'c list \<Rightarrow> 's list \<Rightarrow> int list \<Rightarrow> int \<Rightarrow> int \<Rightarrow> int \<Rightarrow> int \<Rightarrow> int \<Rightarrow> int \<Rightarrow> int \<Rightarrow> int \<Rightarrow> 'c list \<times> 's list \<Rightarrow>
    ('c list \<times> 's list) flow option" where
  "gather_token codes scales table cache_blocks max_blocks block_tokens head_dim groups request base token s =
     do { let local = token - base;
          block \<leftarrow> rd table (request * max_blocks + cdiv local block_tokens);
          if block < 0 \<or> block \<ge> cache_blocks then Some (Ret kInvalidArgument s)
          else thru (do {
            let slot = block * block_tokens + crem local block_tokens;
            cs \<leftarrow> copy_n codes (slot * head_dim) head_dim (fst s) (token * head_dim);
            ss \<leftarrow> copy_n scales (slot * groups) groups (snd s) (token * groups);
            Some (cs, ss) }) }"

definition gather_request ::
  "'c list \<Rightarrow> 's list \<Rightarrow> int list \<Rightarrow> int list \<Rightarrow> int \<Rightarrow> int \<Rightarrow> int \<Rightarrow> int \<Rightarrow> int \<Rightarrow> int \<Rightarrow> 'c list \<times> 's list \<Rightarrow>
    ('c list \<times> 's list) flow option" where
  "gather_request codes scales table cum cache_blocks max_blocks block_tokens head_dim groups request s =
     do { a \<leftarrow> rd cum request; b \<leftarrow> rd cum (request + 1);
          if a > b then Some (Ret kInvalidArgument s)
          else do {
            n \<leftarrow> i32 (b - a);
            if n > max_blocks * block_tokens then Some (Ret kInvalidArgument s)
            else for_loop a b
              (gather_token codes scales table cache_blocks max_blocks block_tokens head_dim groups request a) s } }"

definition indexer_k_gather_paged ::
  "'c ptr \<Rightarrow> 's ptr \<Rightarrow> int ptr \<Rightarrow> int ptr \<Rightarrow> 'c ptr \<Rightarrow> 's ptr \<Rightarrow> int \<Rightarrow> int \<Rightarrow> int \<Rightarrow> int \<Rightarrow> int \<Rightarrow> int \<Rightarrow> int \<Rightarrow>
    (status \<times> 'c ptr \<times> 's ptr) option" where
  "indexer_k_gather_paged code_cache scale_cache block_table cumulative_lengths output_codes output_scales
      cache_blocks batch max_blocks block_tokens total_tokens head_dim quant_block =
     (if \<not> valid_product [cache_blocks, block_tokens, head_dim] \<or> \<not> valid_product [batch, max_blocks] \<or>
         total_tokens < 0 \<or> quant_block \<le> 0 \<or> crem head_dim quant_block \<noteq> 0
      then Some (kInvalidShape, output_codes, output_scales)
      else case (code_cache, scale_cache, block_table, cumulative_lengths, output_codes, output_scales) of
        (Some codes, Some scales, Some table, Some cum, Some oc, Some os) \<Rightarrow> do {
          c0 \<leftarrow> rd cum 0;
          if c0 \<noteq> 0 then Some (kInvalidArgument, output_codes, output_scales)
          else do {
            cn \<leftarrow> rd cum batch;
            if cn \<noteq> total_tokens then Some (kInvalidArgument, output_codes, output_scales)
            else do {
              let groups = cdiv head_dim quant_block;
              (st, oc, os) \<leftarrow> finish (for_loop 0 batch
                (gather_request codes scales table cum cache_blocks max_blocks block_tokens head_dim groups) (oc, os));
              Some (st, Some oc, Some os) } } }
      | _ \<Rightarrow> Some (kInvalidArgument, output_codes, output_scales))"

section \<open>Vertical and slash indices\<close>

text \<open>The blocks that start in \<^verbatim>\<open>[begin, end)\<close>, stored while there is room and counted all the same.\<close>

definition save_block :: "int \<Rightarrow> int \<Rightarrow> int \<Rightarrow> int \<Rightarrow> int list \<times> int \<Rightarrow> (int list \<times> int) option" where
  "save_block at bsize capacity index s =
     do { buf \<leftarrow> (if snd s < capacity then wr (fst s) (at + snd s) index else Some (fst s));
          n \<leftarrow> i32 (snd s + 1);
          _ \<leftarrow> i32 (index + bsize);
          Some (buf, n) }"

definition save_blocks :: "int \<Rightarrow> int \<Rightarrow> int \<Rightarrow> int \<Rightarrow> int \<Rightarrow> int \<Rightarrow> int list \<times> int \<Rightarrow> (int list \<times> int) option" where
  "save_blocks at lo hi bsize kv_length capacity s =
     (if lo \<ge> kv_length then Some s
      else each (strided lo (min hi kv_length) bsize) (save_block at bsize capacity) s)"

text \<open>What stays fixed while one row is converted.\<close>

record row_job =
  causal :: bool
  kv_length :: int
  offset :: int
  start_m :: int
  end_m :: int
  block_m :: int
  block_n :: int
  vertical_width :: int
  slash_width :: int
  vertical :: "int list"
  vertical_base :: int
  slash :: "int list"
  slash_base :: int
  blocks_at :: int
  columns_at :: int

record row_state =
  vertical_index :: int
  slash_index :: int
  vertical_cursor :: int
  slash_cursor :: int
  range_start :: int
  range_end :: int
  slash_finished :: bool
  columns :: int
  blocks :: int
  block_offset :: "int list"
  column_index :: "int list"

definition next_vertical :: "row_job \<Rightarrow> row_state \<Rightarrow> row_state option" where
  "next_vertical J s = do {
     v \<leftarrow> rd (vertical J) (vertical_base J + vertical_cursor s);
     Some (s\<lparr>vertical_index := v, vertical_cursor := vertical_cursor s + 1\<rparr>) }"

definition next_slash :: "row_job \<Rightarrow> row_state \<Rightarrow> row_state option" where
  "next_slash J s = do {
     v \<leftarrow> rd (slash J) (slash_base J + slash_cursor s);
     Some (s\<lparr>slash_index := v, slash_cursor := slash_cursor s + 1\<rparr>) }"

text \<open>\<^verbatim>\<open>offset + end_m\<close> in the causal case, \<^verbatim>\<open>kv_length + end_m\<close> otherwise.\<close>

definition limit :: "row_job \<Rightarrow> int option" where
  "limit J = i32 ((if causal J then offset J else kv_length J) + end_m J)"

definition put_column :: "row_job \<Rightarrow> row_state \<Rightarrow> row_state option" where
  "put_column J s = do {
     cs \<leftarrow> wr (column_index s) (columns_at J + columns s) (vertical_index s);
     Some (s\<lparr>column_index := cs, columns := columns s + 1\<rparr>) }"

definition save_range :: "row_job \<Rightarrow> row_state \<Rightarrow> row_state option" where
  "save_range J s = do {
     (buf, n) \<leftarrow> save_blocks (blocks_at J) (range_start s) (range_end s) (block_n J) (kv_length J)
       (narrow_int (slash_width J)) (block_offset s, blocks s);
     Some (s\<lparr>block_offset := buf, blocks := n\<rparr>) }"

text \<open>The last part of an iteration: the slash block opens a new range or extends the current one.\<close>

definition extend_range :: "row_job \<Rightarrow> row_state \<Rightarrow> row_state flow option" where
  "extend_range J s =
     (if slash_finished s then Some (Next s)
      else do {
        reach \<leftarrow> i32 (range_end s + block_m J);
        thru (if slash_index s > reach then do {
            s \<leftarrow> save_range J s;
            Some (s\<lparr>range_start := slash_index s - block_m J, range_end := slash_index s\<rparr>) }
          else if slash_index s > range_end s then Some (s\<lparr>range_end := reach\<rparr>)
          else Some s) })"

definition vertical_step :: "row_job \<Rightarrow> row_state \<Rightarrow> row_state option" where
  "vertical_step J s = do {
     s \<leftarrow> (if vertical_index s < range_start s \<and> columns s < vertical_width J then put_column J s else Some s);
     if vertical_cursor s < vertical_width J then next_vertical J s
     else do {
       a \<leftarrow> i32 (end_m J + block_n J);
       v \<leftarrow> i32 (a + (if causal J then offset J else kv_length J));
       Some (s\<lparr>vertical_index := v\<rparr>) } }"

definition slash_step :: "row_job \<Rightarrow> row_state \<Rightarrow> row_state flow option" where
  "slash_step J s =
     do { more \<leftarrow> (if slash_cursor s < slash_width J
                  then (if causal J then Some True
                        else do { x \<leftarrow> rd (slash J) (slash_base J + slash_cursor s); Some (x \<ge> start_m J) })
                  else Some False);
          if more then do {
            lim \<leftarrow> limit J;
            s \<leftarrow> next_slash J s;
            x \<leftarrow> i32 (lim - slash_index s);
            extend_range J (s\<lparr>slash_index := max x (block_m J)\<rparr>) }
          else if vertical_cursor s = vertical_width J \<or> vertical_index s > range_start s \<and> causal J then do {
            s \<leftarrow> (if vertical_cursor s = vertical_width J \<and> \<not> causal J \<and> vertical_index s < kv_length J \<and>
                     columns s < vertical_width J
                  then put_column J s else Some s);
            s \<leftarrow> save_range J s;
            Some (Brk s) }
          else if causal J then do {
            lim \<leftarrow> limit J;
            stop \<leftarrow> i32 (lim + block_n J);
            extend_range J (s\<lparr>range_start := lim, range_end := stop, slash_finished := True\<rparr>) }
          else do {
            s \<leftarrow> save_range J s;
            stop \<leftarrow> i32 (kv_length J + block_n J);
            extend_range J (s\<lparr>range_start := kv_length J, range_end := stop, slash_finished := True\<rparr>) } }"

definition row_step :: "row_job \<Rightarrow> row_state \<Rightarrow> row_state flow option" where
  "row_step J s = (if vertical_index s < range_end s then thru (vertical_step J s) else slash_step J s)"

text \<open>\<^verbatim>\<open>while (true)\<close>; a run that never breaks has no result.\<close>

partial_function (option) row_loop :: "row_job \<Rightarrow> row_state \<Rightarrow> row_state option" where
  "row_loop J s =
     do { r \<leftarrow> row_step J s;
          case r of Next t \<Rightarrow> row_loop J t | Brk t \<Rightarrow> Some t | Ret _ t \<Rightarrow> Some t }"

text \<open>\<^verbatim>\<open>while (slash_index >= limit && slash_cursor < slash_width) slash_index = slash[slash_cursor++];\<close>\<close>

partial_function (option) skip_slashes :: "row_job \<Rightarrow> int \<Rightarrow> row_state \<Rightarrow> row_state option" where
  "skip_slashes J lim s =
     (if slash_index s \<ge> lim \<and> slash_cursor s < slash_width J
      then do { s \<leftarrow> next_slash J s; skip_slashes J lim s } else Some s)"

definition start_row :: "row_job \<Rightarrow> int list \<Rightarrow> int list \<Rightarrow> row_state option" where
  "start_row J blks cols =
     do { let s = \<lparr>vertical_index = 0, slash_index = 0, vertical_cursor = 0, slash_cursor = 0, range_start = 0, range_end = 0,
                   slash_finished = False, columns = 0, blocks = 0, block_offset = blks, column_index = cols\<rparr>;
          s \<leftarrow> next_vertical J s;
          s \<leftarrow> next_slash J s;
          lim \<leftarrow> limit J;
          s \<leftarrow> skip_slashes J lim s;
          let has_slash = (\<not> slash_index s > lim);
          x \<leftarrow> i32 (lim - slash_index s);
          let s = s\<lparr>slash_index := max x (block_m J)\<rparr>;
          let s = s\<lparr>range_start := slash_index s - block_m J, range_end := slash_index s\<rparr>;
          if has_slash then Some s
          else if causal J then do {
            stop \<leftarrow> i32 (lim + block_n J);
            Some (s\<lparr>range_start := lim, range_end := stop\<rparr>) }
          else do {
            stop \<leftarrow> i32 (kv_length J + block_n J);
            Some (s\<lparr>range_start := kv_length J, range_end := stop\<rparr>) } }"

type_synonym slash_buffers = "int list \<times> int list \<times> int list \<times> int list"

definition convert_row ::
  "int list \<Rightarrow> int list \<Rightarrow> int \<Rightarrow> int \<Rightarrow> int \<Rightarrow> int \<Rightarrow> int \<Rightarrow> bool \<Rightarrow> int \<Rightarrow> int \<Rightarrow> int \<Rightarrow> int \<Rightarrow> slash_buffers \<Rightarrow>
    slash_buffers flow option" where
  "convert_row verticals slashes rows vwidth swidth bm bn is_causal query_len kv_len plane r b =
     (case b of (counts, blks, ccounts, cols) \<Rightarrow>
        do { start \<leftarrow> i32 (narrow_int r * bm);
             if start \<ge> query_len then Some (Next b)
             else do {
               stop \<leftarrow> i32 (start + bm);
               off \<leftarrow> i32 (kv_len - query_len);
               let out = plane * rows + r;
               let J = \<lparr>causal = is_causal, kv_length = kv_len, offset = off, start_m = start, end_m = stop, block_m = bm,
                        block_n = bn, vertical_width = vwidth, slash_width = swidth, vertical = verticals,
                        vertical_base = plane * vwidth, slash = slashes, slash_base = plane * swidth,
                        blocks_at = out * swidth, columns_at = out * vwidth\<rparr>;
               s \<leftarrow> start_row J blks cols;
               s \<leftarrow> row_loop J s;
               if blocks s > swidth \<or> columns s > vwidth
               then Some (Ret kInvalidArgument (counts, block_offset s, ccounts, column_index s))
               else thru (do {
                 counts \<leftarrow> wr counts out (blocks s);
                 ccounts \<leftarrow> wr ccounts out (columns s);
                 Some (counts, block_offset s, ccounts, column_index s) }) } })"

definition convert_request ::
  "int list \<Rightarrow> int list \<Rightarrow> int list \<Rightarrow> int list \<Rightarrow> int \<Rightarrow> int \<Rightarrow> int \<Rightarrow> int \<Rightarrow> int \<Rightarrow> int \<Rightarrow> bool \<Rightarrow> int \<Rightarrow> slash_buffers \<Rightarrow>
    slash_buffers flow option" where
  "convert_request qlens kvlens verticals slashes heads rows vwidth swidth bm bn is_causal request b =
     do { q \<leftarrow> rd qlens request; kv \<leftarrow> rd kvlens request;
          if q < 0 \<or> kv < 0 then Some (Ret kInvalidArgument b)
          else for_loop 0 heads (\<lambda>head. for_loop 0 rows
            (convert_row verticals slashes rows vwidth swidth bm bn is_causal q kv (request * heads + head))) b }"

definition convert_vertical_slash_indexes ::
  "int ptr \<Rightarrow> int ptr \<Rightarrow> int ptr \<Rightarrow> int ptr \<Rightarrow> int ptr \<Rightarrow> int ptr \<Rightarrow> int ptr \<Rightarrow> int ptr \<Rightarrow>
    int \<Rightarrow> int \<Rightarrow> int \<Rightarrow> int \<Rightarrow> int \<Rightarrow> int \<Rightarrow> int \<Rightarrow> bool \<Rightarrow> (status \<times> slash_buffers option) option" where
  "convert_vertical_slash_indexes query_lengths kv_lengths vertical_indexes slash_indexes block_count block_offsets
      column_count column_indexes batch heads rows vwidth swidth bm bn is_causal =
     (if \<not> valid_product [batch, heads, rows, vwidth, swidth] \<or> bm \<le> 0 \<or> bn \<le> 0 then Some (kInvalidShape, None)
      else case (query_lengths, kv_lengths, vertical_indexes, slash_indexes) of
        (Some qlens, Some kvlens, Some vs, Some ss) \<Rightarrow>
          (case (block_count, block_offsets, column_count, column_indexes) of
            (Some bc, Some bo, Some cc, Some ci) \<Rightarrow> do {
              let output_rows = batch * heads * rows;
              bc \<leftarrow> fill_n bc 0 output_rows 0;
              cc \<leftarrow> fill_n cc 0 output_rows 0;
              bo \<leftarrow> fill_n bo 0 (output_rows * swidth) 0;
              ci \<leftarrow> fill_n ci 0 (output_rows * vwidth) 0;
              (st, b) \<leftarrow> finish (for_loop 0 batch
                (convert_request qlens kvlens vs ss heads rows vwidth swidth bm bn is_causal) (bc, bo, cc, ci));
              Some (st, Some b) }
          | _ \<Rightarrow> Some (kInvalidArgument, None))
      | _ \<Rightarrow> Some (kInvalidArgument, None))"

subsection \<open>The loop of a row ends\<close>

definition shift_of :: "row_job \<Rightarrow> int" where
  "shift_of J = (if causal J then offset J else kv_length J)"

text \<open>
  What makes the loop end: the block of rows is at most one larger than the block of columns, the slash entries are not
  negative, a causal row has at least as many keys as queries (\<open>offset\<close> is not negative), and without causality no
  vertical entry lies a whole block past the keys.
\<close>

definition good_job :: "row_job \<Rightarrow> bool" where
  "good_job J \<longleftrightarrow> 0 < block_m J \<and> 0 < block_n J \<and> block_m J \<le> block_n J + 1 \<and>
     0 \<le> shift_of J \<and> 0 \<le> kv_length J \<and> block_m J \<le> end_m J \<and>
     shift_of J + end_m J + block_n J + block_m J \<le> INT_MAX \<and> kv_length J + block_n J \<le> INT_MAX \<and>
     0 < vertical_width J \<and> 0 < slash_width J \<and> slash_width J \<le> INT_MAX \<and>
     0 \<le> vertical_base J \<and> vertical_base J + vertical_width J \<le> int (length (vertical J)) \<and>
     0 \<le> slash_base J \<and> slash_base J + slash_width J \<le> int (length (slash J)) \<and>
     (\<forall>i. 0 \<le> i \<and> i < slash_width J \<longrightarrow>
        0 \<le> slash J ! nat (slash_base J + i) \<and> slash J ! nat (slash_base J + i) \<le> INT_MAX) \<and>
     (causal J \<or> (\<forall>i. 0 \<le> i \<and> i < vertical_width J \<longrightarrow> vertical J ! nat (vertical_base J + i) < kv_length J + block_n J)) \<and>
     0 \<le> blocks_at J \<and> 0 \<le> columns_at J"

definition row_room :: "row_job \<Rightarrow> row_state \<Rightarrow> bool" where
  "row_room J s \<longleftrightarrow> blocks_at J + slash_width J \<le> int (length (block_offset s)) \<and>
     columns_at J + vertical_width J \<le> int (length (column_index s)) \<and>
     0 \<le> columns s \<and> columns s \<le> vertical_width J \<and> 0 \<le> blocks s"

definition good_row :: "row_job \<Rightarrow> row_state \<Rightarrow> bool" where
  "good_row J s \<longleftrightarrow> row_room J s \<and>
     0 \<le> vertical_cursor s \<and> vertical_cursor s \<le> vertical_width J \<and> 0 \<le> slash_cursor s \<and> slash_cursor s \<le> slash_width J \<and>
     0 \<le> range_start s \<and> range_start s < range_end s \<and> range_end s \<le> shift_of J + end_m J + block_n J \<and>
     blocks s \<le> range_start s \<and> blocks s \<le> kv_length J \<and>
     block_m J \<le> slash_index s \<and> slash_index s \<le> shift_of J + end_m J \<and>
     (causal J \<or> vertical_cursor s = vertical_width J \<or> vertical_index s < kv_length J + block_n J) \<and>
     (slash_finished s \<longrightarrow> \<not> causal J \<and> range_end s = kv_length J + block_n J)"

definition row_measure :: "row_job \<Rightarrow> row_state \<Rightarrow> nat" where
  "row_measure J s = nat (4 * (vertical_width J - vertical_cursor s) + 4 * (slash_width J - slash_cursor s) +
     (if slash_finished s then 0 else 2) + (if vertical_index s < range_end s then 1 else 0))"

text \<open>The buffers keep their sizes.\<close>

definition same_room :: "row_state \<Rightarrow> row_state \<Rightarrow> bool" where
  "same_room s t \<longleftrightarrow> length (block_offset t) = length (block_offset s) \<and> length (column_index t) = length (column_index s)"

lemma save_blocks_ok:
  fixes buf :: "int list"
  assumes n: "0 < bn" "0 \<le> lo" "lo < hi" "0 \<le> c" "c \<le> lo" "c \<le> kv" "kv + bn \<le> INT_MAX"
    and room: "0 \<le> at" "at + cap \<le> int (length buf)"
  shows "\<exists>buf' c'. save_blocks at lo hi bn kv cap (buf, c) = Some (buf', c') \<and> length buf' = length buf \<and> c \<le> c' \<and>
    c' \<le> hi \<and> c' \<le> kv"
proof (cases "lo \<ge> kv")
  case True
  then show ?thesis using n by (simp add: save_blocks_def)
next
  case False
  let ?hi = "min hi kv"
  let ?N = "(?hi - lo + bn - 1) div bn"
  have N0: "0 \<le> ?N" using n False by (intro pos_imp_zdiv_nonneg_iff [THEN iffD2]) auto
  have "(?hi - lo - 1) div bn \<le> ?hi - lo - 1" using n False zdiv_mono2 [of "?hi - lo - 1" 1 bn] by simp
  moreover have "?hi - lo + bn - 1 = (?hi - lo - 1) + 1 * bn" by simp
  then have "?N = (?hi - lo - 1) div bn + 1" using n(1) by (simp only: div_mult_self1)
  ultimately have N: "?N \<le> ?hi - lo" by linarith
  have idx: "lo + k * bn < ?hi" if "k < ?N" for k
  proof -
    have "k + 1 \<le> ?N" using that by simp
    then have "(k + 1) * bn \<le> ?N * bn" using n(1) by (intro mult_right_mono) auto
    also have "?N * bn \<le> ?hi - lo + bn - 1"
      using pos_mod_sign [OF n(1), of "?hi - lo + bn - 1"] minus_mod_eq_div_mult [of "?hi - lo + bn - 1" bn] by linarith
    finally have "k * bn < ?hi - lo" by (simp only: distrib_right mult_1 diff_conv_add_uminus)
    then show ?thesis by linarith
  qed
  have "ok (\<lambda>s. length (fst s) = length buf \<and> snd s = c + ?N) (loop 0 ?N (\<lambda>k. save_block at bn cap (lo + k * bn)) (buf, c))"
  proof (rule loop_inv [where I = "\<lambda>k s. length (fst s) = length buf \<and> snd s = c + k"])
    fix k :: int and s :: "int list \<times> int" assume k: "0 \<le> k" "k < ?N" and I: "length (fst s) = length buf \<and> snd s = c + k"
    have kb: "0 \<le> k * bn" using k n by simp
    have lo: "lo + k * bn + bn \<le> INT_MAX" "INT_MIN \<le> lo + k * bn + bn" "c + k + 1 \<le> INT_MAX" "INT_MIN \<le> c + k + 1"
      using idx [OF k(2)] n N k kb unfolding int_limits by linarith+
    have i: "i32 (lo + k * bn + bn) = Some (lo + k * bn + bn)" "i32 (c + k + 1) = Some (c + k + 1)"
      by (rule i32_at [OF lo(2,1)], rule i32_at [OF lo(4,3)])
    show "ok (\<lambda>s. length (fst s) = length buf \<and> snd s = c + (k + 1)) (save_block at bn cap (lo + k * bn) s)"
    proof (cases "c + k < cap")
      case True
      then have "wr (fst s) (at + (c + k)) (lo + k * bn) = Some ((fst s)[nat (at + (c + k)) := lo + k * bn])"
        using I room n k by (simp add: wr_at)
      then show ?thesis using I i True by (simp add: save_block_def)
    next
      case False
      then show ?thesis using I i by (simp add: save_block_def)
    qed
  qed (use N0 in auto)
  moreover have "each (strided lo ?hi bn) (save_block at bn cap) (buf, c) = loop 0 ?N (\<lambda>k. save_block at bn cap (lo + k * bn)) (buf, c)"
    using n False by (intro each_strided) auto
  ultimately show ?thesis using False N n N0 by (auto simp: save_blocks_def ok_def)
qed

lemma good_job_bounds:
  "good_job J \<Longrightarrow> 0 < block_m J"
  "good_job J \<Longrightarrow> 0 < block_n J"
  "good_job J \<Longrightarrow> block_m J \<le> block_n J + 1"
  "good_job J \<Longrightarrow> 0 \<le> shift_of J"
  "good_job J \<Longrightarrow> 0 \<le> kv_length J"
  "good_job J \<Longrightarrow> block_m J \<le> end_m J"
  "good_job J \<Longrightarrow> shift_of J + end_m J + block_n J + block_m J \<le> INT_MAX"
  "good_job J \<Longrightarrow> kv_length J + block_n J \<le> INT_MAX"
  "good_job J \<Longrightarrow> 0 < vertical_width J"
  "good_job J \<Longrightarrow> 0 < slash_width J"
  by (simp_all add: good_job_def)

lemma good_job_vertical:
  "good_job J \<Longrightarrow> 0 \<le> i \<Longrightarrow> i < vertical_width J \<Longrightarrow>
    causal J \<or> vertical J ! nat (vertical_base J + i) < kv_length J + block_n J"
  unfolding good_job_def by blast

lemma good_job_slash:
  "good_job J \<Longrightarrow> 0 \<le> i \<Longrightarrow> i < slash_width J \<Longrightarrow> 0 \<le> slash J ! nat (slash_base J + i)"
  "good_job J \<Longrightarrow> 0 \<le> i \<Longrightarrow> i < slash_width J \<Longrightarrow> slash J ! nat (slash_base J + i) \<le> INT_MAX"
  unfolding good_job_def by blast+

lemma save_range_ok:
  assumes J: "good_job J" and s: "row_room J s" "0 \<le> range_start s" "range_start s < range_end s"
    "blocks s \<le> range_start s" "blocks s \<le> kv_length J"
  shows "\<exists>buf n. save_range J s = Some (s\<lparr>block_offset := buf, blocks := n\<rparr>) \<and> length buf = length (block_offset s) \<and>
    blocks s \<le> n \<and> n \<le> range_end s \<and> n \<le> kv_length J"
proof -
  have c: "narrow_int (slash_width J) = slash_width J" using J by (auto simp: good_job_def narrow_int_id int_limits)
  obtain buf n where "save_blocks (blocks_at J) (range_start s) (range_end s) (block_n J) (kv_length J) (slash_width J)
      (block_offset s, blocks s) = Some (buf, n)" "length buf = length (block_offset s)" "blocks s \<le> n" "n \<le> range_end s"
      "n \<le> kv_length J"
    using save_blocks_ok [of "block_n J" "range_start s" "range_end s" "blocks s" "kv_length J" "blocks_at J" "slash_width J" "block_offset s"]
      J s by (auto simp: good_job_def row_room_def)
  then show ?thesis by (intro exI [of _ buf] exI [of _ n]) (simp add: save_range_def c)
qed

lemma next_vertical_ok:
  "good_job J \<Longrightarrow> 0 \<le> vertical_cursor s \<Longrightarrow> vertical_cursor s < vertical_width J \<Longrightarrow> next_vertical J s =
    Some (s\<lparr>vertical_index := vertical J ! nat (vertical_base J + vertical_cursor s), vertical_cursor := vertical_cursor s + 1\<rparr>)"
  by (simp add: next_vertical_def good_job_def rd_at)

lemma next_slash_ok:
  "good_job J \<Longrightarrow> 0 \<le> slash_cursor s \<Longrightarrow> slash_cursor s < slash_width J \<Longrightarrow> next_slash J s =
    Some (s\<lparr>slash_index := slash J ! nat (slash_base J + slash_cursor s), slash_cursor := slash_cursor s + 1\<rparr>)"
  by (simp add: next_slash_def good_job_def rd_at)

lemma put_column_ok:
  "good_job J \<Longrightarrow> row_room J s \<Longrightarrow> columns s < vertical_width J \<Longrightarrow> put_column J s =
    Some (s\<lparr>column_index := (column_index s)[nat (columns_at J + columns s) := vertical_index s], columns := columns s + 1\<rparr>)"
  by (simp add: put_column_def good_job_def row_room_def wr_at)

lemma limit_ok: "good_job J \<Longrightarrow> limit J = Some (shift_of J + end_m J)"
  by (auto simp: limit_def good_job_def shift_of_def i32_at int_limits)

lemma vertical_step_ok:
  assumes J: "good_job J" and s: "good_row J s" and v: "vertical_index s < range_end s"
  shows "\<exists>t. vertical_step J s = Some t \<and> good_row J t \<and> same_room s t \<and> row_measure J t < row_measure J s"
proof -
  obtain u where u: "(if vertical_index s < range_start s \<and> columns s < vertical_width J then put_column J s else Some s) = Some u"
    and gu: "good_row J u" "same_room s u" "row_measure J u = row_measure J s" "vertical_cursor u = vertical_cursor s"
      "range_end u = range_end s" "vertical_index u = vertical_index s"
  proof (cases "vertical_index s < range_start s \<and> columns s < vertical_width J")
    case True
    then have "put_column J s = Some (s\<lparr>column_index := (column_index s)[nat (columns_at J + columns s) := vertical_index s],
        columns := columns s + 1\<rparr>)" using put_column_ok [OF J, of s] s by (simp add: good_row_def)
    then show thesis using that True s by (auto simp: good_row_def row_room_def same_room_def row_measure_def)
  qed (use that s in \<open>auto simp: same_room_def\<close>)
  show ?thesis
  proof (cases "vertical_cursor s < vertical_width J")
    case True
    let ?t = "u\<lparr>vertical_index := vertical J ! nat (vertical_base J + vertical_cursor u), vertical_cursor := vertical_cursor u + 1\<rparr>"
    have "0 \<le> vertical_cursor s" using s by (simp add: good_row_def)
    then have step: "vertical_step J s = Some ?t"
      unfolding vertical_step_def u bind.simps(2) using True gu(4) next_vertical_ok [OF J, of u] by simp
    have "causal J \<or> vertical J ! nat (vertical_base J + vertical_cursor s) < kv_length J + block_n J"
      by (rule good_job_vertical [OF J \<open>0 \<le> vertical_cursor s\<close> True])
    then have "good_row J ?t" using gu(1,4) True by (auto simp: good_row_def row_room_def)
    moreover have "slash_cursor u \<le> slash_width J" "vertical_cursor u < vertical_width J"
      using gu(1,4) True by (auto simp: good_row_def)
    then have "row_measure J ?t < row_measure J u" by (simp add: row_measure_def)
    then have "row_measure J ?t < row_measure J s" by (simp only: gu(3))
    ultimately show ?thesis using step gu(2) by (auto simp: same_room_def)
  next
    case False
    let ?v = "end_m J + block_n J + shift_of J"
    let ?t = "u\<lparr>vertical_index := ?v\<rparr>"
    have "INT_MIN \<le> end_m J + block_n J" "end_m J + block_n J \<le> INT_MAX" "INT_MIN \<le> ?v" "?v \<le> INT_MAX"
      using good_job_bounds [OF J] unfolding int_limits by linarith+
    then have "i32 (end_m J + block_n J) = Some (end_m J + block_n J)" "i32 ?v = Some ?v" by (auto intro: i32_at)
    then have step: "vertical_step J s = Some ?t"
      unfolding vertical_step_def u bind.simps(2) using False gu(4) by (simp add: shift_of_def)
    have vw: "vertical_cursor u = vertical_width J" using False s gu(4) by (simp add: good_row_def)
    then have "good_row J ?t" using gu(1) by (simp add: good_row_def row_room_def)
    moreover have "range_end s \<le> ?v" using s by (simp add: good_row_def)
    then have "row_measure J ?t < row_measure J s"
      unfolding gu(3) [symmetric] using gu v s by (auto simp: row_measure_def good_row_def)
    ultimately show ?thesis using step gu(2) by (auto simp: same_room_def)
  qed
qed

text \<open>The range may grow or move, but never past the limit.\<close>

lemma extend_range_ok:
  assumes J: "good_job J" and s: "row_room J s"
    "0 \<le> vertical_cursor s" "vertical_cursor s \<le> vertical_width J" "0 \<le> slash_cursor s" "slash_cursor s \<le> slash_width J"
    "0 \<le> range_start s" "range_start s < range_end s" "range_end s \<le> shift_of J + end_m J + block_n J"
    "blocks s \<le> range_start s" "blocks s \<le> kv_length J"
    "block_m J \<le> slash_index s" "slash_index s \<le> shift_of J + end_m J"
    "causal J \<or> vertical_cursor s = vertical_width J \<or> vertical_index s < kv_length J + block_n J"
    "slash_finished s \<longrightarrow> \<not> causal J \<and> range_end s = kv_length J + block_n J"
  shows "\<exists>t. extend_range J s = Some (Next t) \<and> good_row J t \<and> same_room s t \<and> slash_finished t = slash_finished s \<and>
    (slash_finished s \<longrightarrow> t = s) \<and> vertical_cursor t = vertical_cursor s \<and> slash_cursor t = slash_cursor s"
proof (cases "slash_finished s")
  case True
  then show ?thesis using s by (simp add: extend_range_def good_row_def same_room_def)
next
  case False
  let ?reach = "range_end s + block_m J"
  have "INT_MIN \<le> ?reach" "?reach \<le> INT_MAX" using good_job_bounds [OF J] s(6-8) unfolding int_limits by linarith+
  then have r: "i32 ?reach = Some ?reach" by (rule i32_at)
  consider "slash_index s > ?reach" | "slash_index s \<le> ?reach" "slash_index s > range_end s" | "slash_index s \<le> range_end s"
    by linarith
  then show ?thesis
  proof cases
    case 1
    obtain buf n where n: "save_range J s = Some (s\<lparr>block_offset := buf, blocks := n\<rparr>)" "length buf = length (block_offset s)"
        "blocks s \<le> n" "n \<le> range_end s" "n \<le> kv_length J"
      using save_range_ok [OF J s(1,6,7,9,10)] by blast
    have bm: "0 < block_m J" using J by (simp add: good_job_def)
    let ?t = "s\<lparr>block_offset := buf, blocks := n, range_start := slash_index s - block_m J, range_end := slash_index s\<rparr>"
    have "extend_range J s = Some (Next ?t)" using False r 1 n(1) by (simp add: extend_range_def thru_def)
    moreover have "good_row J ?t"
      using s n 1 bm J False by (auto simp: good_row_def row_room_def good_job_def)
    ultimately show ?thesis using False n by (intro exI [of _ ?t]) (simp add: same_room_def)
  next
    case 2
    have "block_m J \<le> block_n J + 1" "0 < block_m J" using J by (simp_all add: good_job_def)
    then have "good_row J (s\<lparr>range_end := ?reach\<rparr>)" using s 2 False by (auto simp: good_row_def row_room_def)
    then show ?thesis using False r 2 by (intro exI [of _ "s\<lparr>range_end := ?reach\<rparr>"]) (simp add: extend_range_def thru_def same_room_def)
  next
    case 3
    have "0 < block_m J" using J by (simp add: good_job_def)
    then have "\<not> slash_index s > ?reach" "\<not> slash_index s > range_end s" using 3 by auto
    then show ?thesis using False r s by (intro exI [of _ s]) (simp add: extend_range_def thru_def same_room_def good_row_def)
  qed
qed

lemma slash_step_ok:
  assumes J: "good_job J" and s: "good_row J s" and v: "\<not> vertical_index s < range_end s"
  shows "(\<exists>t. slash_step J s = Some (Next t) \<and> good_row J t \<and> same_room s t \<and> row_measure J t < row_measure J s) \<or>
    (\<exists>t. slash_step J s = Some (Brk t) \<and> row_room J t \<and> same_room s t)"
proof -
  let ?L = "shift_of J + end_m J"
  have g: "row_room J s" "0 \<le> vertical_cursor s" "vertical_cursor s \<le> vertical_width J" "0 \<le> slash_cursor s"
      "slash_cursor s \<le> slash_width J" "0 \<le> range_start s" "range_start s < range_end s"
      "range_end s \<le> ?L + block_n J" "blocks s \<le> range_start s" "blocks s \<le> kv_length J"
      "block_m J \<le> slash_index s" "slash_index s \<le> ?L"
      "causal J \<or> vertical_cursor s = vertical_width J \<or> vertical_index s < kv_length J + block_n J"
      "slash_finished s \<longrightarrow> \<not> causal J \<and> range_end s = kv_length J + block_n J"
    using s by (auto simp: good_row_def)
  have more: "(if slash_cursor s < slash_width J then (if causal J then Some True
      else do { x \<leftarrow> rd (slash J) (slash_base J + slash_cursor s); Some (x \<ge> start_m J) }) else Some False) =
      Some (slash_cursor s < slash_width J \<and>
        (causal J \<or> start_m J \<le> slash J ! nat (slash_base J + slash_cursor s)))" (is "_ = Some ?more")
    using J g(4) by (auto simp: good_job_def rd_at)
  consider "?more" | "\<not> ?more" "vertical_cursor s = vertical_width J \<or> vertical_index s > range_start s \<and> causal J"
    | "\<not> ?more" "\<not> (vertical_cursor s = vertical_width J \<or> vertical_index s > range_start s \<and> causal J)" by blast
  then show ?thesis
  proof cases
    case 1
    let ?x = "slash J ! nat (slash_base J + slash_cursor s)"
    let ?u = "s\<lparr>slash_cursor := slash_cursor s + 1, slash_index := max (?L - ?x) (block_m J)\<rparr>"
    have x: "0 \<le> ?x" "?x \<le> INT_MAX" using good_job_slash [OF J g(4)] 1 by blast+
    have b: "block_m J \<le> ?L" "0 \<le> ?L" "?L \<le> INT_MAX" using good_job_bounds [OF J] by linarith+
    have "i32 (?L - ?x) = Some (?L - ?x)" using x b by (intro i32_at) (auto simp: int_limits)
    then have step: "slash_step J s = extend_range J ?u"
      unfolding slash_step_def more bind.simps(2) if_P [OF 1] limit_ok [OF J]
      using next_slash_ok [OF J g(4)] 1 by simp
    have "\<exists>t. extend_range J ?u = Some (Next t) \<and> good_row J t \<and> same_room ?u t \<and> slash_finished t = slash_finished ?u \<and>
        (slash_finished ?u \<longrightarrow> t = ?u) \<and> vertical_cursor t = vertical_cursor ?u \<and> slash_cursor t = slash_cursor ?u"
      by (rule extend_range_ok [OF J]) (use g 1 b x in \<open>auto simp: row_room_def\<close>)
    then obtain t where t: "extend_range J ?u = Some (Next t)" "good_row J t" "same_room ?u t"
        "slash_finished t = slash_finished s" "vertical_cursor t = vertical_cursor s" "slash_cursor t = slash_cursor s + 1" by auto
    have "row_measure J t < row_measure J s" using t(4-6) 1 g by (auto simp: row_measure_def)
    then show ?thesis using step t by (auto simp: same_room_def)
  next
    case 2
    obtain u where u: "(if vertical_cursor s = vertical_width J \<and> \<not> causal J \<and> vertical_index s < kv_length J \<and>
        columns s < vertical_width J then put_column J s else Some s) = Some u"
      and gu: "row_room J u" "same_room s u" "range_start u = range_start s" "range_end u = range_end s" "blocks u = blocks s"
    proof (cases "vertical_cursor s = vertical_width J \<and> \<not> causal J \<and> vertical_index s < kv_length J \<and> columns s < vertical_width J")
      case True
      then show thesis using that put_column_ok [OF J g(1)] g(1) by (simp add: row_room_def same_room_def)
    qed (use that g(1) in \<open>auto simp: same_room_def\<close>)
    obtain buf n where n: "save_range J u = Some (u\<lparr>block_offset := buf, blocks := n\<rparr>)" "length buf = length (block_offset u)"
        "blocks u \<le> n"
      using save_range_ok [OF J gu(1)] gu g by auto
    have "slash_step J s = Some (Brk (u\<lparr>block_offset := buf, blocks := n\<rparr>))"
      unfolding slash_step_def more bind.simps(2) if_not_P [OF 2(1)] if_P [OF 2(2)] u n(1) ..
    then show ?thesis using gu n by (intro disjI2) (simp add: row_room_def same_room_def)
  next
    case 3
    have nc: "\<not> causal J" using 3(2) v g(7) by auto
    have nf: "\<not> slash_finished s" using 3(2) v g(13,14) nc by auto
    obtain buf n where n: "save_range J s = Some (s\<lparr>block_offset := buf, blocks := n\<rparr>)" "length buf = length (block_offset s)"
        "blocks s \<le> n" "n \<le> kv_length J"
      using save_range_ok [OF J g(1,6,7,9,10)] by blast
    let ?t = "s\<lparr>block_offset := buf, blocks := n, range_start := kv_length J, range_end := kv_length J + block_n J, slash_finished := True\<rparr>"
    have "i32 (kv_length J + block_n J) = Some (kv_length J + block_n J)"
      using J by (intro i32_at) (auto simp: good_job_def int_limits)
    then have step: "slash_step J s = Some (Next ?t)"
      unfolding slash_step_def more bind.simps(2) if_not_P [OF 3(1)] if_not_P [OF 3(2)]
      unfolding if_not_P [OF nc] n(1) by (simp add: extend_range_def)
    have "good_row J ?t" using g n nc J by (auto simp: good_row_def row_room_def good_job_def shift_of_def)
    moreover have "row_measure J ?t < row_measure J s" using nf v g by (auto simp: row_measure_def)
    ultimately show ?thesis using step n(2) by (auto simp: same_room_def)
  qed
qed

lemma row_loop_ends:
  assumes "good_job J" "good_row J s"
  shows "\<exists>t. row_loop J s = Some t \<and> row_room J t \<and> same_room s t"
  using assms(2)
proof (induction "row_measure J s" arbitrary: s rule: less_induct)
  case less
  have go: "\<exists>t. row_loop J s = Some t \<and> row_room J t \<and> same_room s t"
    if u: "row_step J s = Some (Next u)" "good_row J u" "same_room s u" "row_measure J u < row_measure J s" for u
  proof -
    obtain t where "row_loop J u = Some t" "row_room J t" "same_room u t" using less.hyps [OF u(4,2)] by blast
    moreover have "row_loop J s = row_loop J u" using u(1) by (subst row_loop.simps) simp
    ultimately show ?thesis using u(3) by (auto simp: same_room_def)
  qed
  show ?case
  proof (cases "vertical_index s < range_end s")
    case True
    then show ?thesis using vertical_step_ok [OF assms(1) less.prems True] go by (auto simp: row_step_def thru_def)
  next
    case False
    from slash_step_ok [OF assms(1) less.prems False] show ?thesis
    proof
      assume "\<exists>t. slash_step J s = Some (Next t) \<and> good_row J t \<and> same_room s t \<and> row_measure J t < row_measure J s"
      then show ?thesis using go False by (auto simp: row_step_def)
    next
      assume "\<exists>t. slash_step J s = Some (Brk t) \<and> row_room J t \<and> same_room s t"
      then obtain t where t: "slash_step J s = Some (Brk t)" "row_room J t" "same_room s t" by blast
      have "row_loop J s = Some t" using t(1) False by (subst row_loop.simps) (simp add: row_step_def)
      then show ?thesis using t by blast
    qed
  qed
qed


text \<open>The start of a row: skipping slash entries past the limit ends, and the first range lies below the limit.\<close>

lemma skip_slashes_ends:
  assumes J: "good_job J"
  shows "0 \<le> slash_cursor s \<Longrightarrow> slash_cursor s \<le> slash_width J \<Longrightarrow> 0 \<le> slash_index s \<Longrightarrow> slash_index s \<le> INT_MAX \<Longrightarrow>
    \<exists>i c. skip_slashes J lim s = Some (s\<lparr>slash_index := i, slash_cursor := c\<rparr>) \<and> 0 \<le> i \<and> i \<le> INT_MAX \<and>
      0 \<le> c \<and> c \<le> slash_width J"
proof (induction "nat (slash_width J - slash_cursor s)" arbitrary: s rule: less_induct)
  case less
  show ?case
  proof (cases "slash_index s \<ge> lim \<and> slash_cursor s < slash_width J")
    case False
    then have "skip_slashes J lim s = Some s" by (subst skip_slashes.simps) auto
    then show ?thesis using less.prems by (intro exI [of _ "slash_index s"] exI [of _ "slash_cursor s"]) simp
  next
    case True
    let ?x = "slash J ! nat (slash_base J + slash_cursor s)"
    let ?t = "s\<lparr>slash_index := ?x, slash_cursor := slash_cursor s + 1\<rparr>"
    have step: "skip_slashes J lim s = skip_slashes J lim ?t"
      using True next_slash_ok [OF J less.prems(1)] by (subst skip_slashes.simps) simp
    have x: "0 \<le> ?x" "?x \<le> INT_MAX" using good_job_slash [OF J less.prems(1)] True by blast+
    have "\<exists>i c. skip_slashes J lim ?t = Some (?t\<lparr>slash_index := i, slash_cursor := c\<rparr>) \<and> 0 \<le> i \<and> i \<le> INT_MAX \<and>
        0 \<le> c \<and> c \<le> slash_width J"
      by (rule less.hyps) (use True less.prems x in auto)
    then show ?thesis unfolding step by auto
  qed
qed

lemma start_row_ok:
  assumes J: "good_job J" and room: "blocks_at J + slash_width J \<le> int (length blks)"
    "columns_at J + vertical_width J \<le> int (length cols)"
  shows "\<exists>s. start_row J blks cols = Some s \<and> good_row J s \<and> length (block_offset s) = length blks \<and>
    length (column_index s) = length cols"
proof -
  let ?s0 = "\<lparr>vertical_index = 0, slash_index = 0, vertical_cursor = 0, slash_cursor = 0, range_start = 0, range_end = 0,
    slash_finished = False, columns = 0, blocks = 0, block_offset = blks, column_index = cols\<rparr>"
  let ?L = "shift_of J + end_m J"
  let ?v = "vertical J ! nat (vertical_base J + 0)"
  let ?x = "slash J ! nat (slash_base J + 0)"
  let ?s1 = "?s0\<lparr>vertical_index := ?v, vertical_cursor := 1\<rparr>"
  let ?s2 = "?s1\<lparr>slash_index := ?x, slash_cursor := 1\<rparr>"
  have w: "0 < vertical_width J" "0 < slash_width J" "0 < block_m J" "0 < block_n J" "block_m J \<le> ?L" "0 \<le> kv_length J"
      "?L + block_n J \<le> INT_MAX" "kv_length J + block_n J \<le> INT_MAX" "block_m J \<le> end_m J" "0 \<le> shift_of J"
    using good_job_bounds [OF J] by linarith+
  have x: "0 \<le> ?x" "?x \<le> INT_MAX" using good_job_slash [OF J order_refl w(2)] by blast+
  have v: "causal J \<or> ?v < kv_length J + block_n J" by (rule good_job_vertical [OF J order_refl w(1)])
  have s1: "next_vertical J ?s0 = Some ?s1" using next_vertical_ok [OF J, of ?s0] w by simp
  have s2: "next_slash J ?s1 = Some ?s2" using next_slash_ok [OF J, of ?s1] w by simp
  obtain i c where skip: "skip_slashes J ?L ?s2 = Some (?s2\<lparr>slash_index := i, slash_cursor := c\<rparr>)"
      "0 \<le> i" "i \<le> INT_MAX" "0 \<le> c" "c \<le> slash_width J"
    using skip_slashes_ends [OF J, of ?s2 ?L] w x by auto
  have d: "i32 (?L - i) = Some (?L - i)" using skip w by (intro i32_at) (auto simp: int_limits)
  let ?y = "max (?L - i) (block_m J)"
  let ?s3 = "?s2\<lparr>slash_index := ?y, slash_cursor := c, range_start := ?y - block_m J, range_end := ?y\<rparr>"
  have start: "start_row J blks cols =
     (if \<not> i > ?L then Some ?s3
      else if causal J then do { stop \<leftarrow> i32 (?L + block_n J); Some (?s3\<lparr>range_start := ?L, range_end := stop\<rparr>) }
      else do { stop \<leftarrow> i32 (kv_length J + block_n J);
        Some (?s3\<lparr>range_start := kv_length J, range_end := stop\<rparr>) })"
    unfolding start_row_def Let_def s1 s2 bind.simps(2) limit_ok [OF J] skip(1) using d by simp
  have L: "i32 (?L + block_n J) = Some (?L + block_n J)" "i32 (kv_length J + block_n J) = Some (kv_length J + block_n J)"
    using w by (auto intro!: i32_at simp: int_limits)
  have room3: "row_room J ?s3" using room w by (simp add: row_room_def)
  consider "i \<le> ?L" | "i > ?L" "causal J" | "i > ?L" "\<not> causal J" by linarith
  then show ?thesis
  proof cases
    case 1
    then have "good_row J ?s3" using room3 w v skip(2-5) by (auto simp: good_row_def max_def)
    then show ?thesis unfolding start using 1 by (intro exI [of _ ?s3]) simp
  next
    case 2
    have "good_row J (?s3\<lparr>range_start := ?L, range_end := ?L + block_n J\<rparr>)"
      using 2 room3 w v skip(2-5) by (auto simp: good_row_def row_room_def max_def)
    then show ?thesis unfolding start using 2 L by (intro exI [of _ "?s3\<lparr>range_start := ?L, range_end := ?L + block_n J\<rparr>"]) simp
  next
    case 3
    have "kv_length J + block_n J \<le> ?L + block_n J" using 3 w by (simp add: shift_of_def)
    then have "good_row J (?s3\<lparr>range_start := kv_length J, range_end := kv_length J + block_n J\<rparr>)"
      using 3 room3 w v skip(2-5) by (auto simp: good_row_def row_room_def max_def)
    then show ?thesis unfolding start using 3 L
      by (intro exI [of _ "?s3\<lparr>range_start := kv_length J, range_end := kv_length J + block_n J\<rparr>"]) simp
  qed
qed


text \<open>A step that changes nothing is repeated for ever.\<close>

lemma row_loop_stuck:
  assumes "row_step J s = Some (Next s)"
  shows "row_loop J s = None"
proof -
  have "row_step J s \<noteq> Some (Next s)" if "row_loop J s = Some y" for J s y
    by (rule row_loop.raw_induct [where P = "\<lambda>J s y. row_step J s \<noteq> Some (Next s)", OF _ that])
      (auto split: Option.bind_splits flow.splits)
  then show ?thesis using assms by (cases "row_loop J s") auto
qed

lemma row_loop_step: "row_step J s = Some (Next t) \<Longrightarrow> row_loop J s = row_loop J t"
  by (subst row_loop.simps) simp

text \<open>
  Without that condition the loop can spin: a causal request of four queries and no keys, blocks of four rows and three
  columns.
\<close>

lemma convert_row_spins: "convert_row [0] [0] 1 1 1 4 3 True 4 0 0 0 ([0], [0], [0], [0]) = None"
proof -
  let ?J = "\<lparr>causal = True, kv_length = 0, offset = - 4, start_m = 0, end_m = 4, block_m = 4, block_n = 3, vertical_width = 1,
    slash_width = 1, vertical = [0], vertical_base = 0, slash = [0], slash_base = 0, blocks_at = 0, columns_at = 0\<rparr>"
  let ?s = "\<lambda>v. \<lparr>vertical_index = v, slash_index = 4, vertical_cursor = 1, slash_cursor = 1, range_start = 0, range_end = 4,
    slash_finished = False, columns = 0, blocks = 0, block_offset = [0], column_index = [0]\<rparr>"
  have skip: "skip_slashes ?J 0 s = Some s" if "slash_cursor s = 1" for s
    using that by (subst skip_slashes.simps) simp
  have start: "start_row ?J [0] [0] = Some (?s 0)"
    by (simp add: start_row_def next_vertical_def next_slash_def limit_def skip rd_at i32_at int_limits)
  have "row_step ?J (?s v) = Some (Next (?s 3))" if "v = 0 \<or> v = 3" for v
    using that by (auto simp: row_step_def vertical_step_def thru_def i32_at int_limits)
  then have "row_loop ?J (?s 0) = None" using row_loop_step [of ?J "?s 0" "?s 3"] row_loop_stuck [of ?J "?s 3"] by simp
  then show ?thesis using start by (simp add: convert_row_def narrow_int_id i32_at int_limits)
qed

subsection \<open>The conversion returns\<close>

text \<open>The caller's buffers: large enough, and every count within the width of its row.\<close>

fun slash_buffers_ok :: "int \<Rightarrow> int \<Rightarrow> int \<Rightarrow> slash_buffers \<Rightarrow> bool" where
  "slash_buffers_ok n vwidth swidth (counts, blks, ccounts, cols) \<longleftrightarrow>
     n \<le> int (length counts) \<and> n \<le> int (length ccounts) \<and> n * swidth \<le> int (length blks) \<and> n * vwidth \<le> int (length cols) \<and>
     list_all (\<lambda>k. 0 \<le> counts ! nat k \<and> counts ! nat k \<le> swidth \<and> 0 \<le> ccounts ! nat k \<and> ccounts ! nat k \<le> vwidth) [0..n - 1]"

lemma slash_buffers_okD:
  "slash_buffers_ok n vw sw (counts, blks, ccounts, cols) \<longleftrightarrow>
     n \<le> int (length counts) \<and> n \<le> int (length ccounts) \<and> n * sw \<le> int (length blks) \<and> n * vw \<le> int (length cols) \<and>
     (\<forall>k. 0 \<le> k \<and> k < n \<longrightarrow> 0 \<le> counts ! nat k \<and> counts ! nat k \<le> sw \<and> 0 \<le> ccounts ! nat k \<and> ccounts ! nat k \<le> vw)"
  by (auto simp: list_all_iff)

declare slash_buffers_ok.simps [simp del]

definition slash_inputs_ok ::
  "int list \<Rightarrow> int list \<Rightarrow> int list \<Rightarrow> int list \<Rightarrow> int \<Rightarrow> int \<Rightarrow> int \<Rightarrow> int \<Rightarrow> int \<Rightarrow> int \<Rightarrow> int \<Rightarrow> bool \<Rightarrow> bool" where
  "slash_inputs_ok qlens kvlens vs ss batch heads rows vwidth swidth bm bn is_causal \<longleftrightarrow>
     bm \<le> bn + 1 \<and> swidth \<le> INT_MAX \<and> batch \<le> int (length qlens) \<and> batch \<le> int (length kvlens) \<and>
     batch * heads * vwidth \<le> int (length vs) \<and> batch * heads * swidth \<le> int (length ss) \<and>
     list_all (\<lambda>x. 0 \<le> x \<and> x \<le> INT_MAX) ss \<and>
     list_all (\<lambda>r. qlens ! nat r \<le> INT_MAX \<and> kvlens ! nat r + rows * bm + bm + bn \<le> INT_MAX) [0..batch - 1] \<and>
     (if is_causal then list_all (\<lambda>r. qlens ! nat r \<le> kvlens ! nat r) [0..batch - 1]
      else list_all (\<lambda>r. list_all (\<lambda>i. vs ! nat (r * (heads * vwidth) + i) < kvlens ! nat r + bn) [0..heads * vwidth - 1])
             [0..batch - 1])"

text \<open>A computation that keeps an invariant, also when it reports an invalid argument.\<close>

abbreviation keeps :: "('s \<Rightarrow> bool) \<Rightarrow> 's flow option \<Rightarrow> bool" where
  "keeps I m \<equiv> ok (flow_post I I (\<lambda>st t. st = kInvalidArgument \<and> I t)) m"

lemma for_loop_keeps:
  assumes "0 \<le> hi" "I s" "\<And>j t. 0 \<le> j \<Longrightarrow> j < hi \<Longrightarrow> I t \<Longrightarrow> keeps I (body j t)"
  shows "keeps I (for_loop 0 hi body s)"
proof -
  have "ok (flow_post I (\<lambda>_. False) (\<lambda>st t. st = kInvalidArgument \<and> I t)) (for_loop 0 hi body s)"
    by (rule for_loop_inv [where I = "\<lambda>_. I"]) (use assms in auto)
  then show ?thesis by (rule ok_mono) (auto elim!: flow_post_mono)
qed

lemma slash_row_ok:
  assumes size: "0 < bm" "0 < bn" "bm \<le> bn + 1" "0 < vw" "0 < sw" "sw \<le> INT_MAX"
    and len: "0 \<le> q" "q \<le> INT_MAX" "0 \<le> kv" "is_causal \<longrightarrow> q \<le> kv" "kv + rows * bm + bm + bn \<le> INT_MAX"
    and at: "0 \<le> plane" "plane < planes" "0 \<le> r" "r < rows"
    and vs: "planes * vw \<le> int (length vs)"
      "is_causal \<or> (\<forall>i. 0 \<le> i \<and> i < vw \<longrightarrow> vs ! nat (plane * vw + i) < kv + bn)"
    and ss: "planes * sw \<le> int (length ss)" "list_all (\<lambda>x. 0 \<le> x \<and> x \<le> INT_MAX) ss"
    and b: "slash_buffers_ok (planes * rows) vw sw b"
  shows "keeps (slash_buffers_ok (planes * rows) vw sw)
    (convert_row vs ss rows vw sw bm bn is_causal q kv plane r b)"
proof -
  obtain counts blks ccounts cols where be: "b = (counts, blks, ccounts, cols)" by (cases b) auto
  let ?n = "planes * rows" and ?out = "plane * rows + r" and ?start = "r * bm"
  let ?J = "\<lparr>causal = is_causal, kv_length = kv, offset = kv - q, start_m = ?start, end_m = ?start + bm, block_m = bm,
    block_n = bn, vertical_width = vw, slash_width = sw, vertical = vs, vertical_base = plane * vw, slash = ss,
    slash_base = plane * sw, blocks_at = ?out * sw, columns_at = ?out * vw\<rparr>"
  have out: "0 \<le> ?out" "?out < ?n"
    using row_bound [of plane planes rows] at by (auto simp: add_nonneg_nonneg)
  have rowbm: "0 \<le> r * bm" "r * bm + bm \<le> rows * bm" using row_bound [OF at(3,4), of bm] size by auto
  have "rows * 1 \<le> rows * bm" using at size by (intro mult_left_mono) auto
  then have r32: "r \<le> INT_MAX" using at len size by linarith
  have "INT_MIN \<le> r" "INT_MIN \<le> ?start" "?start \<le> INT_MAX" "INT_MIN \<le> ?start + bm" "?start + bm \<le> INT_MAX"
    using rowbm at len size unfolding int_limits by linarith+
  then have i: "narrow_int r = r" "i32 ?start = Some ?start" "i32 (?start + bm) = Some (?start + bm)"
    using r32 by (auto intro!: narrow_int_id i32_at)
  note B = b [unfolded be slash_buffers_okD]
  show ?thesis
  proof (cases "?start \<ge> q")
    case True
    then show ?thesis using i b by (simp add: convert_row_def be)
  next
    case False
    have "INT_MIN \<le> kv - q" "kv - q \<le> INT_MAX" using len size rowbm at unfolding int_limits by linarith+
    then have off: "i32 (kv - q) = Some (kv - q)" by (rule i32_at)
    have vb: "0 \<le> plane * vw" "plane * vw + vw \<le> planes * vw" using row_bound [OF at(1,2), of vw] size by auto
    have sb: "0 \<le> plane * sw" "plane * sw + sw \<le> planes * sw" using row_bound [OF at(1,2), of sw] size by auto
    have s: "0 \<le> ss ! nat (plane * sw + i) \<and> ss ! nat (plane * sw + i) \<le> INT_MAX" if "0 \<le> i" "i < sw" for i
    proof -
      have "nat (plane * sw + i) < length ss" using that sb ss(1) by linarith
      then show ?thesis using ss(2) by (simp add: list_all_length)
    qed
    have bo: "0 \<le> ?out * sw" "?out * sw + sw \<le> ?n * sw" using row_bound [OF out, of sw] size by auto
    have co: "0 \<le> ?out * vw" "?out * vw + vw \<le> ?n * vw" using row_bound [OF out, of vw] size by auto
    have J: "good_job ?J"
      unfolding good_job_def shift_of_def row_job.simps
      using size len rowbm vs ss(1) vb sb s bo(1) co(1) by (intro conjI) (auto split: if_splits)
    obtain s0 where s0: "start_row ?J blks cols = Some s0" "good_row ?J s0" "length (block_offset s0) = length blks"
        "length (column_index s0) = length cols"
      using start_row_ok [OF J, of blks cols] B bo co by auto
    obtain t where t: "row_loop ?J s0 = Some t" "row_room ?J t" "same_room s0 t"
      using row_loop_ends [OF J s0(2)] by blast
    have step: "convert_row vs ss rows vw sw bm bn is_causal q kv plane r b =
       (if blocks t > sw \<or> columns t > vw then Some (Ret kInvalidArgument (counts, block_offset t, ccounts, column_index t))
        else thru (do { counts \<leftarrow> wr counts ?out (blocks t); ccounts \<leftarrow> wr ccounts ?out (columns t);
          Some (counts, block_offset t, ccounts, column_index t) }))"
      unfolding convert_row_def be prod.case i(1,2) bind.simps(2) if_not_P [OF False] i(3) off Let_def s0(1) t(1) ..
    have len_t: "length (block_offset t) = length blks" "length (column_index t) = length cols"
      using t(3) s0 by (auto simp: same_room_def)
    have w: "wr counts ?out (blocks t) = Some (counts[nat ?out := blocks t])"
        "wr ccounts ?out (columns t) = Some (ccounts[nat ?out := columns t])"
      by (rule wr_at; use out B in linarith)+
    have "0 \<le> blocks t" "0 \<le> columns t" using t(2) by (auto simp: row_room_def)
    moreover have "(xs[nat ?out := x]) ! nat k = (if k = ?out then x else xs ! nat k)"
      if "0 \<le> k" "?n \<le> int (length xs)" for xs :: "int list" and x k
    proof -
      have "nat ?out < length xs" using that(2) out by linarith
      moreover have "nat ?out = nat k \<longleftrightarrow> k = ?out" using that(1) out(1) by linarith
      ultimately show ?thesis by (auto simp: nth_list_update)
    qed
    ultimately have "slash_buffers_ok ?n vw sw (counts[nat ?out := blocks t], block_offset t, ccounts[nat ?out := columns t], column_index t)"
      if "blocks t \<le> sw" "columns t \<le> vw" using that B len_t unfolding slash_buffers_okD by (simp del: mult_le_cancel_right)
    moreover have "slash_buffers_ok ?n vw sw (counts, block_offset t, ccounts, column_index t)"
      using B len_t by (simp add: slash_buffers_okD)
    ultimately show ?thesis unfolding step using w by (simp add: thru_def)
  qed
qed

lemma slash_request_ok:
  assumes size: "0 < bm" "0 < bn" "0 < vw" "0 < sw" "0 < heads" "0 < rows"
    and inp: "slash_inputs_ok qlens kvlens vs ss batch heads rows vw sw bm bn is_causal"
    and r: "0 \<le> r" "r < batch" and b: "slash_buffers_ok (batch * heads * rows) vw sw b"
  shows "keeps (slash_buffers_ok (batch * heads * rows) vw sw)
    (convert_request qlens kvlens vs ss heads rows vw sw bm bn is_causal r b)"
proof -
  let ?I = "slash_buffers_ok (batch * heads * rows) vw sw" and ?q = "qlens ! nat r" and ?kv = "kvlens ! nat r"
  have mem: "r \<in> set [0..batch - 1]" using r by simp
  have io: "bm \<le> bn + 1" "sw \<le> INT_MAX" "batch \<le> int (length qlens)" "batch \<le> int (length kvlens)"
      "batch * heads * vw \<le> int (length vs)" "batch * heads * sw \<le> int (length ss)"
      "list_all (\<lambda>x. 0 \<le> x \<and> x \<le> INT_MAX) ss" "?kv + rows * bm + bm + bn \<le> INT_MAX" "is_causal \<longrightarrow> ?q \<le> ?kv" "?q \<le> INT_MAX"
    using inp mem unfolding slash_inputs_ok_def list_all_iff by (auto split: if_splits)
  have vio: "vs ! nat (r * (heads * vw) + i) < ?kv + bn" if "\<not> is_causal" "0 \<le> i" "i < heads * vw" for i
    using inp mem that unfolding slash_inputs_ok_def list_all_iff by auto
  have rd: "rd qlens r = Some ?q" "rd kvlens r = Some ?kv" using r io by (auto intro!: rd_at)
  show ?thesis
  proof (cases "?q < 0 \<or> ?kv < 0")
    case True
    then show ?thesis unfolding convert_request_def rd bind.simps(2) if_P [OF True] using b by simp
  next
    case False
    have "keeps ?I
      (for_loop 0 heads (\<lambda>head. for_loop 0 rows (convert_row vs ss rows vw sw bm bn is_causal ?q ?kv (r * heads + head))) b)"
    proof (rule for_loop_keeps)
      fix h t assume h: "0 \<le> h" "h < heads" and t: "?I t"
      have p: "0 \<le> r * heads + h" "r * heads + h < batch * heads" using row_bound [OF r, of heads] h size by auto
      have "vs ! nat ((r * heads + h) * vw + i) < ?kv + bn" if nc: "\<not> is_causal" and i: "0 \<le> i" "i < vw" for i
      proof -
        have "0 \<le> h * vw + i" "h * vw + i < heads * vw" using row_bound [OF h, of vw] i by auto
        then have "vs ! nat (r * (heads * vw) + (h * vw + i)) < ?kv + bn" by (rule vio [OF nc])
        moreover have "(r * heads + h) * vw + i = r * (heads * vw) + (h * vw + i)" by (simp add: algebra_simps)
        ultimately show ?thesis by (simp only:)
      qed
      then have vh: "is_causal \<or> (\<forall>i. 0 \<le> i \<and> i < vw \<longrightarrow> vs ! nat ((r * heads + h) * vw + i) < ?kv + bn)" by blast
      show "keeps ?I
        (for_loop 0 rows (convert_row vs ss rows vw sw bm bn is_causal ?q ?kv (r * heads + h)) t)"
      proof (rule for_loop_keeps)
        fix k u assume k: "0 \<le> k" "k < rows" and u: "?I u"
        show "keeps ?I
          (convert_row vs ss rows vw sw bm bn is_causal ?q ?kv (r * heads + h) k u)"
          by (rule slash_row_ok [OF size(1,2) io(1) size(3,4) io(2) _ io(10) _ io(9,8) p k io(5) vh io(6,7) u]) (use False in auto)
      qed (use size t in auto)
    qed (use size b in auto)
    then show ?thesis unfolding convert_request_def rd bind.simps(2) if_not_P [OF False] .
  qed
qed



end
