(* ===== verification/GgufTables.thy ===== *)
theory GgufTables
  imports CPU_Prelude
begin

text \<open>
  The i-quant codebooks of \<^verbatim>\<open>kernels/quantization/iq_tables.h\<close>. An entry of a 64-bit table holds eight values of one byte, an
  entry of a 32-bit table four, the first in the low byte.
\<close>

unbundle bit_operations_syntax

text \<open>256 entries of eight magnitudes.\<close>

definition iq2xxs_grid :: "int list" where
  "iq2xxs_grid = concat [
    [0x0808080808080808, 0x080808080808082B, 0x0808080808081919, 0x0808080808082B08, 0x0808080808082B2B, 0x0808080808190819,
     0x0808080808191908, 0x08080808082B0808, 0x08080808082B082B, 0x08080808082B2B08, 0x08080808082B2B2B, 0x0808080819080819,
     0x0808080819081908, 0x0808080819190808, 0x0808080819192B08, 0x08080808192B0819, 0x08080808192B1908, 0x080808082B080808,
     0x080808082B08082B, 0x080808082B082B2B, 0x080808082B2B082B, 0x0808081908080819, 0x0808081908081908, 0x0808081908190808,
     0x0808081908191919, 0x0808081919080808, 0x080808192B081908, 0x080808192B192B08, 0x0808082B08080808, 0x0808082B0808082B,
     0x0808082B082B082B, 0x0808082B2B08082B, 0x0808190808080819, 0x0808190808081908, 0x0808190808190808, 0x08081908082B0819,
     0x08081908082B1908, 0x0808190819080808, 0x080819081908082B, 0x0808190819082B08, 0x08081908192B0808, 0x080819082B080819,
     0x080819082B081908, 0x080819082B190808, 0x080819082B2B1908, 0x0808191908080808, 0x080819190808082B, 0x0808191908082B08,
     0x08081919082B0808, 0x080819191908192B, 0x08081919192B2B19, 0x080819192B080808, 0x080819192B190819, 0x0808192B08082B19,
     0x0808192B08190808, 0x0808192B19080808, 0x0808192B2B081908, 0x0808192B2B2B1908, 0x08082B0808080808, 0x08082B0808081919,
     0x08082B0808082B08, 0x08082B0808191908, 0x08082B08082B2B08, 0x08082B0819080819],
    [0x08082B0819081908, 0x08082B0819190808, 0x08082B081919082B, 0x08082B082B082B08, 0x08082B1908081908, 0x08082B1919080808,
     0x08082B2B0808082B, 0x08082B2B08191908, 0x0819080808080819, 0x0819080808081908, 0x0819080808190808, 0x08190808082B0819,
     0x0819080819080808, 0x08190808192B0808, 0x081908082B081908, 0x081908082B190808, 0x081908082B191919, 0x0819081908080808,
     0x0819081908082B08, 0x08190819082B0808, 0x0819081919190808, 0x0819081919192B2B, 0x081908192B080808, 0x0819082B082B1908,
     0x0819082B19081919, 0x0819190808080808, 0x0819190808082B08, 0x08191908082B0808, 0x08191908082B1919, 0x0819190819082B19,
     0x081919082B080808, 0x0819191908192B08, 0x08191919192B082B, 0x0819192B08080808, 0x0819192B0819192B, 0x08192B0808080819,
     0x08192B0808081908, 0x08192B0808190808, 0x08192B0819080808, 0x08192B082B080819, 0x08192B1908080808, 0x08192B1908081919,
     0x08192B192B2B0808, 0x08192B2B19190819, 0x082B080808080808, 0x082B08080808082B, 0x082B080808082B2B, 0x082B080819081908,
     0x082B0808192B0819, 0x082B08082B080808, 0x082B08082B08082B, 0x082B0819082B2B19, 0x082B081919082B08, 0x082B082B08080808,
     0x082B082B0808082B, 0x082B190808080819, 0x082B190808081908, 0x082B190808190808, 0x082B190819080808, 0x082B19081919192B,
     0x082B191908080808, 0x082B191919080819, 0x082B1919192B1908, 0x082B192B2B190808],
    [0x082B2B0808082B08, 0x082B2B08082B0808, 0x082B2B082B191908, 0x082B2B2B19081908, 0x1908080808080819, 0x1908080808081908,
     0x1908080808190808, 0x1908080808192B08, 0x19080808082B0819, 0x19080808082B1908, 0x1908080819080808, 0x1908080819082B08,
     0x190808081919192B, 0x19080808192B0808, 0x190808082B080819, 0x190808082B081908, 0x190808082B190808, 0x1908081908080808,
     0x19080819082B0808, 0x19080819192B0819, 0x190808192B080808, 0x190808192B081919, 0x1908082B08080819, 0x1908082B08190808,
     0x1908082B19082B08, 0x1908082B1919192B, 0x1908082B192B2B08, 0x1908190808080808, 0x1908190808082B08, 0x19081908082B0808,
     0x190819082B080808, 0x190819082B192B19, 0x190819190819082B, 0x19081919082B1908, 0x1908192B08080808, 0x19082B0808080819,
     0x19082B0808081908, 0x19082B0808190808, 0x19082B0819080808, 0x19082B0819081919, 0x19082B1908080808, 0x19082B1919192B08,
     0x19082B19192B0819, 0x19082B192B08082B, 0x19082B2B19081919, 0x19082B2B2B190808, 0x1919080808080808, 0x1919080808082B08,
     0x1919080808190819, 0x1919080808192B19, 0x19190808082B0808, 0x191908082B080808, 0x191908082B082B08, 0x1919081908081908,
     0x191908191908082B, 0x191908192B2B1908, 0x1919082B2B190819, 0x191919082B190808, 0x191919082B19082B, 0x1919191908082B2B,
     0x1919192B08080819, 0x1919192B19191908, 0x19192B0808080808, 0x19192B0808190819],
    [0x19192B0808192B19, 0x19192B08192B1908, 0x19192B1919080808, 0x19192B2B08082B08, 0x192B080808081908, 0x192B080808190808,
     0x192B080819080808, 0x192B0808192B2B08, 0x192B081908080808, 0x192B081919191919, 0x192B082B08192B08, 0x192B082B192B0808,
     0x192B190808080808, 0x192B190808081919, 0x192B191908190808, 0x192B19190819082B, 0x192B19192B081908, 0x192B2B081908082B,
     0x2B08080808080808, 0x2B0808080808082B, 0x2B08080808082B2B, 0x2B08080819080819, 0x2B0808082B08082B, 0x2B08081908081908,
     0x2B08081908192B08, 0x2B08081919080808, 0x2B08082B08190819, 0x2B08190808080819, 0x2B08190808081908, 0x2B08190808190808,
     0x2B08190808191919, 0x2B08190819080808, 0x2B081908192B0808, 0x2B08191908080808, 0x2B0819191908192B, 0x2B0819192B191908,
     0x2B08192B08082B19, 0x2B08192B19080808, 0x2B08192B192B0808, 0x2B082B080808082B, 0x2B082B1908081908, 0x2B082B2B08190819,
     0x2B19080808081908, 0x2B19080808190808, 0x2B190808082B1908, 0x2B19080819080808, 0x2B1908082B2B0819, 0x2B1908190819192B,
     0x2B1908192B080808, 0x2B19082B19081919, 0x2B19190808080808, 0x2B191908082B082B, 0x2B19190819081908, 0x2B19191919190819,
     0x2B192B082B080819, 0x2B192B19082B0808, 0x2B2B08080808082B, 0x2B2B080819190808, 0x2B2B08082B081919, 0x2B2B081908082B19,
     0x2B2B082B08080808, 0x2B2B190808192B08, 0x2B2B2B0819190808, 0x2B2B2B1908081908]]"

text \<open>512 entries of eight magnitudes.\<close>

definition iq2xs_grid :: "int list" where
  "iq2xs_grid = concat [
    [0x0808080808080808, 0x080808080808082B, 0x0808080808081919, 0x0808080808082B08, 0x0808080808082B2B, 0x0808080808190819,
     0x0808080808191908, 0x080808080819192B, 0x0808080808192B19, 0x08080808082B0808, 0x08080808082B082B, 0x08080808082B1919,
     0x08080808082B2B08, 0x0808080819080819, 0x0808080819081908, 0x080808081908192B, 0x0808080819082B19, 0x0808080819190808,
     0x080808081919082B, 0x0808080819191919, 0x0808080819192B08, 0x08080808192B0819, 0x08080808192B1908, 0x080808082B080808,
     0x080808082B08082B, 0x080808082B081919, 0x080808082B082B08, 0x080808082B190819, 0x080808082B191908, 0x080808082B192B19,
     0x080808082B2B0808, 0x0808081908080819, 0x0808081908081908, 0x080808190808192B, 0x0808081908082B19, 0x0808081908190808,
     0x080808190819082B, 0x0808081908191919, 0x0808081908192B08, 0x0808081908192B2B, 0x08080819082B0819, 0x08080819082B1908,
     0x0808081919080808, 0x080808191908082B, 0x0808081919081919, 0x0808081919082B08, 0x0808081919190819, 0x0808081919191908,
     0x08080819192B0808, 0x08080819192B2B08, 0x080808192B080819, 0x080808192B081908, 0x080808192B190808, 0x0808082B08080808,
     0x0808082B0808082B, 0x0808082B08081919, 0x0808082B08082B08, 0x0808082B08190819, 0x0808082B08191908, 0x0808082B082B0808,
     0x0808082B19080819, 0x0808082B19081908, 0x0808082B19190808, 0x0808082B19191919],
    [0x0808082B2B080808, 0x0808082B2B082B2B, 0x0808190808080819, 0x0808190808081908, 0x080819080808192B, 0x0808190808082B19,
     0x0808190808190808, 0x080819080819082B, 0x0808190808191919, 0x0808190808192B08, 0x08081908082B0819, 0x08081908082B1908,
     0x0808190819080808, 0x080819081908082B, 0x0808190819081919, 0x0808190819082B08, 0x0808190819190819, 0x0808190819191908,
     0x080819081919192B, 0x08081908192B0808, 0x080819082B080819, 0x080819082B081908, 0x080819082B190808, 0x0808191908080808,
     0x080819190808082B, 0x0808191908081919, 0x0808191908082B08, 0x0808191908190819, 0x0808191908191908, 0x08081919082B0808,
     0x0808191919080819, 0x0808191919081908, 0x0808191919190808, 0x08081919192B0819, 0x080819192B080808, 0x0808192B08080819,
     0x0808192B08081908, 0x0808192B08190808, 0x0808192B082B192B, 0x0808192B19080808, 0x0808192B1908082B, 0x0808192B2B081908,
     0x08082B0808080808, 0x08082B080808082B, 0x08082B0808081919, 0x08082B0808082B08, 0x08082B0808082B2B, 0x08082B0808190819,
     0x08082B0808191908, 0x08082B08082B0808, 0x08082B08082B1919, 0x08082B0819080819, 0x08082B0819081908, 0x08082B0819190808,
     0x08082B0819192B08, 0x08082B082B080808, 0x08082B082B2B0808, 0x08082B082B2B2B2B, 0x08082B1908080819, 0x08082B1908081908,
     0x08082B1908190808, 0x08082B1919080808, 0x08082B192B080819, 0x08082B192B082B19],
    [0x08082B2B08080808, 0x08082B2B082B0808, 0x08082B2B082B2B08, 0x08082B2B2B19192B, 0x08082B2B2B2B0808, 0x0819080808080819,
     0x0819080808081908, 0x081908080808192B, 0x0819080808082B19, 0x0819080808190808, 0x081908080819082B, 0x0819080808191919,
     0x0819080808192B08, 0x08190808082B0819, 0x08190808082B1908, 0x0819080819080808, 0x081908081908082B, 0x0819080819081919,
     0x0819080819082B08, 0x0819080819190819, 0x0819080819191908, 0x08190808192B0808, 0x08190808192B2B2B, 0x081908082B080819,
     0x081908082B081908, 0x081908082B190808, 0x0819081908080808, 0x081908190808082B, 0x0819081908081919, 0x0819081908082B08,
     0x0819081908190819, 0x0819081908191908, 0x08190819082B0808, 0x0819081919080819, 0x0819081919081908, 0x0819081919190808,
     0x081908192B080808, 0x081908192B191908, 0x081908192B19192B, 0x0819082B08080819, 0x0819082B08081908, 0x0819082B0808192B,
     0x0819082B08190808, 0x0819082B19080808, 0x0819082B192B0808, 0x0819190808080808, 0x081919080808082B, 0x0819190808081919,
     0x0819190808082B08, 0x0819190808190819, 0x0819190808191908, 0x08191908082B0808, 0x0819190819080819, 0x0819190819081908,
     0x0819190819082B19, 0x0819190819190808, 0x08191908192B1908, 0x081919082B080808, 0x0819191908080819, 0x0819191908081908,
     0x0819191908190808, 0x0819191919080808, 0x0819192B08080808, 0x0819192B08191908],
    [0x0819192B19082B19, 0x08192B0808080819, 0x08192B0808081908, 0x08192B0808190808, 0x08192B080819082B, 0x08192B0819080808,
     0x08192B0819191908, 0x08192B082B08192B, 0x08192B1908080808, 0x08192B1908081919, 0x08192B19192B192B, 0x08192B2B19190819,
     0x08192B2B2B2B2B19, 0x082B080808080808, 0x082B08080808082B, 0x082B080808081919, 0x082B080808082B08, 0x082B080808082B2B,
     0x082B080808190819, 0x082B080808191908, 0x082B0808082B0808, 0x082B080819080819, 0x082B080819081908, 0x082B080819190808,
     0x082B08082B080808, 0x082B08082B2B0808, 0x082B081908080819, 0x082B081908081908, 0x082B081908190808, 0x082B081919080808,
     0x082B081919082B08, 0x082B0819192B1919, 0x082B082B08080808, 0x082B082B082B082B, 0x082B082B2B080808, 0x082B082B2B2B2B08,
     0x082B190808080819, 0x082B190808081908, 0x082B190808190808, 0x082B1908082B2B19, 0x082B190819080808, 0x082B191908080808,
     0x082B191919080819, 0x082B19191919082B, 0x082B19192B192B19, 0x082B192B08080819, 0x082B192B08192B2B, 0x082B192B2B2B192B,
     0x082B2B0808080808, 0x082B2B0808082B08, 0x082B2B0808082B2B, 0x082B2B08082B0808, 0x082B2B0819191919, 0x082B2B082B082B08,
     0x082B2B082B2B082B, 0x082B2B19192B2B08, 0x082B2B192B190808, 0x082B2B2B08082B08, 0x082B2B2B082B0808, 0x082B2B2B2B08082B,
     0x082B2B2B2B082B08, 0x082B2B2B2B082B2B, 0x1908080808080819, 0x1908080808081908],
    [0x190808080808192B, 0x1908080808082B19, 0x1908080808190808, 0x190808080819082B, 0x1908080808191919, 0x1908080808192B08,
     0x19080808082B0819, 0x19080808082B1908, 0x1908080819080808, 0x190808081908082B, 0x1908080819081919, 0x1908080819082B08,
     0x1908080819082B2B, 0x1908080819190819, 0x1908080819191908, 0x19080808192B0808, 0x19080808192B1919, 0x190808082B080819,
     0x190808082B081908, 0x190808082B190808, 0x1908081908080808, 0x190808190808082B, 0x1908081908081919, 0x1908081908082B08,
     0x1908081908190819, 0x1908081908191908, 0x19080819082B0808, 0x1908081919080819, 0x1908081919081908, 0x1908081919190808,
     0x190808192B080808, 0x190808192B081919, 0x190808192B2B082B, 0x1908082B08080819, 0x1908082B08081908, 0x1908082B08190808,
     0x1908082B0819082B, 0x1908082B082B2B19, 0x1908082B19080808, 0x1908190808080808, 0x190819080808082B, 0x1908190808081919,
     0x1908190808082B08, 0x1908190808190819, 0x1908190808191908, 0x1908190808192B19, 0x19081908082B0808, 0x1908190819080819,
     0x1908190819081908, 0x1908190819190808, 0x190819082B080808, 0x190819082B191908, 0x1908191908080819, 0x1908191908081908,
     0x1908191908190808, 0x19081919082B1908, 0x1908191919080808, 0x190819192B192B2B, 0x1908192B08080808, 0x1908192B08082B2B,
     0x1908192B19081908, 0x1908192B19190808, 0x19082B0808080819, 0x19082B0808081908],
    [0x19082B0808190808, 0x19082B0819080808, 0x19082B0819081919, 0x19082B0819191908, 0x19082B08192B082B, 0x19082B1908080808,
     0x19082B1908190819, 0x19082B1919081908, 0x19082B1919190808, 0x19082B19192B2B19, 0x19082B2B08081908, 0x1919080808080808,
     0x191908080808082B, 0x1919080808081919, 0x1919080808082B08, 0x1919080808190819, 0x1919080808191908, 0x19190808082B0808,
     0x19190808082B2B08, 0x1919080819080819, 0x1919080819081908, 0x1919080819190808, 0x191908082B080808, 0x1919081908080819,
     0x1919081908081908, 0x1919081908190808, 0x1919081908191919, 0x1919081919080808, 0x191908191908082B, 0x1919082B08080808,
     0x1919082B19081908, 0x1919082B2B2B2B2B, 0x1919190808080819, 0x1919190808081908, 0x1919190808190808, 0x19191908082B0819,
     0x1919190819080808, 0x19191908192B0808, 0x191919082B080819, 0x191919082B2B0819, 0x1919191908080808, 0x1919191908082B08,
     0x191919192B080808, 0x191919192B082B08, 0x1919192B082B0819, 0x1919192B192B2B08, 0x1919192B2B2B0819, 0x19192B0808080808,
     0x19192B0808191908, 0x19192B0819080819, 0x19192B0819190808, 0x19192B082B192B19, 0x19192B1908192B2B, 0x19192B1919080808,
     0x19192B191908082B, 0x19192B2B2B081919, 0x192B080808080819, 0x192B080808081908, 0x192B080808190808, 0x192B080819080808,
     0x192B080819191908, 0x192B0808192B082B, 0x192B08082B08192B, 0x192B08082B2B2B19],
    [0x192B081908080808, 0x192B082B082B1908, 0x192B082B19082B2B, 0x192B082B2B19082B, 0x192B190808080808, 0x192B19080819192B,
     0x192B191908190808, 0x192B191919080808, 0x192B191919081919, 0x192B19192B2B1908, 0x192B2B0808080819, 0x192B2B08192B2B2B,
     0x192B2B19082B1919, 0x192B2B2B0808192B, 0x192B2B2B19191908, 0x192B2B2B192B082B, 0x2B08080808080808, 0x2B0808080808082B,
     0x2B08080808081919, 0x2B08080808082B08, 0x2B08080808190819, 0x2B08080808191908, 0x2B080808082B0808, 0x2B080808082B2B2B,
     0x2B08080819080819, 0x2B08080819081908, 0x2B08080819190808, 0x2B0808082B080808, 0x2B0808082B08082B, 0x2B0808082B2B2B08,
     0x2B0808082B2B2B2B, 0x2B08081908080819, 0x2B08081908081908, 0x2B0808190808192B, 0x2B08081908190808, 0x2B08081919080808,
     0x2B08081919190819, 0x2B08081919192B19, 0x2B08082B08080808, 0x2B08082B082B0808, 0x2B08082B2B080808, 0x2B08082B2B08082B,
     0x2B08082B2B2B0808, 0x2B08082B2B2B2B08, 0x2B08190808080819, 0x2B08190808081908, 0x2B08190808190808, 0x2B0819080819082B,
     0x2B08190808191919, 0x2B08190819080808, 0x2B081908192B0808, 0x2B0819082B082B19, 0x2B08191908080808, 0x2B08191919081908,
     0x2B0819192B2B1919, 0x2B08192B08192B08, 0x2B08192B192B2B2B, 0x2B082B0808080808, 0x2B082B0808082B08, 0x2B082B08082B1919,
     0x2B082B0819192B2B, 0x2B082B082B080808, 0x2B082B082B08082B, 0x2B082B082B2B2B08],
    [0x2B082B190808192B, 0x2B082B2B082B082B, 0x2B082B2B2B080808, 0x2B082B2B2B082B08, 0x2B082B2B2B19192B, 0x2B082B2B2B2B2B08,
     0x2B19080808080819, 0x2B19080808081908, 0x2B19080808190808, 0x2B19080819080808, 0x2B1908081919192B, 0x2B1908082B081908,
     0x2B19081908080808, 0x2B190819082B082B, 0x2B190819192B1908, 0x2B19082B1919192B, 0x2B19082B2B082B19, 0x2B19190808080808,
     0x2B19190808081919, 0x2B19190819081908, 0x2B19190819190808, 0x2B19190819192B08, 0x2B191919082B2B19, 0x2B1919192B190808,
     0x2B1919192B19082B, 0x2B19192B19080819, 0x2B192B0819190819, 0x2B192B082B2B192B, 0x2B192B1919082B19, 0x2B192B2B08191919,
     0x2B192B2B192B0808, 0x2B2B080808080808, 0x2B2B08080808082B, 0x2B2B080808082B08, 0x2B2B080808082B2B, 0x2B2B0808082B0808,
     0x2B2B0808082B2B2B, 0x2B2B08082B2B0808, 0x2B2B081919190819, 0x2B2B081919192B19, 0x2B2B08192B2B192B, 0x2B2B082B08080808,
     0x2B2B082B0808082B, 0x2B2B082B08082B08, 0x2B2B082B082B2B2B, 0x2B2B082B2B080808, 0x2B2B082B2B2B0808, 0x2B2B190819080808,
     0x2B2B19082B191919, 0x2B2B192B192B1919, 0x2B2B192B2B192B08, 0x2B2B2B0808082B2B, 0x2B2B2B08082B0808, 0x2B2B2B08082B082B,
     0x2B2B2B08082B2B08, 0x2B2B2B082B2B0808, 0x2B2B2B082B2B2B08, 0x2B2B2B1908081908, 0x2B2B2B192B081908, 0x2B2B2B192B08192B,
     0x2B2B2B2B082B2B08, 0x2B2B2B2B082B2B2B, 0x2B2B2B2B2B190819, 0x2B2B2B2B2B2B2B2B]]"

text \<open>1024 entries of eight magnitudes.\<close>

definition iq2s_grid :: "int list" where
  "iq2s_grid = concat [
    [0x0808080808080808, 0x080808080808082B, 0x0808080808081919, 0x0808080808082B08, 0x0808080808082B2B, 0x0808080808190819,
     0x0808080808191908, 0x080808080819192B, 0x0808080808192B19, 0x08080808082B0808, 0x08080808082B082B, 0x08080808082B1919,
     0x08080808082B2B08, 0x0808080819080819, 0x0808080819081908, 0x080808081908192B, 0x0808080819082B19, 0x0808080819190808,
     0x080808081919082B, 0x0808080819191919, 0x0808080819192B08, 0x08080808192B0819, 0x08080808192B1908, 0x08080808192B192B,
     0x08080808192B2B19, 0x080808082B080808, 0x080808082B08082B, 0x080808082B081919, 0x080808082B082B08, 0x080808082B190819,
     0x080808082B191908, 0x080808082B2B0808, 0x080808082B2B1919, 0x080808082B2B2B2B, 0x0808081908080819, 0x0808081908081908,
     0x080808190808192B, 0x0808081908082B19, 0x0808081908190808, 0x080808190819082B, 0x0808081908191919, 0x0808081908192B08,
     0x08080819082B0819, 0x08080819082B1908, 0x0808081919080808, 0x080808191908082B, 0x0808081919081919, 0x0808081919082B08,
     0x0808081919190819, 0x0808081919191908, 0x080808191919192B, 0x0808081919192B19, 0x08080819192B0808, 0x08080819192B1919,
     0x08080819192B2B08, 0x080808192B080819, 0x080808192B081908, 0x080808192B190808, 0x080808192B19082B, 0x080808192B191919,
     0x080808192B2B0819, 0x080808192B2B1908, 0x0808082B08080808, 0x0808082B0808082B],
    [0x0808082B08081919, 0x0808082B08082B08, 0x0808082B08190819, 0x0808082B08191908, 0x0808082B082B0808, 0x0808082B082B2B2B,
     0x0808082B19080819, 0x0808082B19081908, 0x0808082B1908192B, 0x0808082B19082B19, 0x0808082B19190808, 0x0808082B19191919,
     0x0808082B2B080808, 0x0808082B2B081919, 0x0808082B2B082B2B, 0x0808082B2B191908, 0x0808082B2B2B082B, 0x0808190808080819,
     0x0808190808081908, 0x080819080808192B, 0x0808190808082B19, 0x0808190808190808, 0x080819080819082B, 0x0808190808191919,
     0x0808190808192B08, 0x08081908082B0819, 0x08081908082B1908, 0x08081908082B192B, 0x08081908082B2B19, 0x0808190819080808,
     0x080819081908082B, 0x0808190819081919, 0x0808190819082B08, 0x0808190819082B2B, 0x0808190819190819, 0x0808190819191908,
     0x080819081919192B, 0x0808190819192B19, 0x08081908192B0808, 0x08081908192B082B, 0x08081908192B1919, 0x080819082B080819,
     0x080819082B081908, 0x080819082B08192B, 0x080819082B082B19, 0x080819082B190808, 0x080819082B191919, 0x080819082B192B08,
     0x080819082B2B0819, 0x080819082B2B1908, 0x0808191908080808, 0x080819190808082B, 0x0808191908081919, 0x0808191908082B08,
     0x0808191908082B2B, 0x0808191908190819, 0x0808191908191908, 0x080819190819192B, 0x0808191908192B19, 0x08081919082B0808,
     0x08081919082B1919, 0x08081919082B2B08, 0x0808191919080819, 0x0808191919081908],
    [0x080819191908192B, 0x0808191919082B19, 0x0808191919190808, 0x080819191919082B, 0x0808191919191919, 0x0808191919192B08,
     0x08081919192B0819, 0x08081919192B1908, 0x080819192B080808, 0x080819192B08082B, 0x080819192B081919, 0x080819192B082B08,
     0x080819192B190819, 0x080819192B191908, 0x080819192B2B0808, 0x0808192B08080819, 0x0808192B08081908, 0x0808192B0808192B,
     0x0808192B08082B19, 0x0808192B08190808, 0x0808192B08191919, 0x0808192B19080808, 0x0808192B19081919, 0x0808192B19082B08,
     0x0808192B19190819, 0x0808192B19191908, 0x0808192B192B0808, 0x0808192B2B080819, 0x0808192B2B081908, 0x0808192B2B190808,
     0x08082B0808080808, 0x08082B080808082B, 0x08082B0808081919, 0x08082B0808082B08, 0x08082B0808190819, 0x08082B0808191908,
     0x08082B080819192B, 0x08082B0808192B19, 0x08082B08082B0808, 0x08082B08082B1919, 0x08082B08082B2B2B, 0x08082B0819080819,
     0x08082B0819081908, 0x08082B081908192B, 0x08082B0819082B19, 0x08082B0819190808, 0x08082B081919082B, 0x08082B0819191919,
     0x08082B0819192B08, 0x08082B08192B0819, 0x08082B08192B1908, 0x08082B082B080808, 0x08082B082B081919, 0x08082B082B191908,
     0x08082B082B2B2B2B, 0x08082B1908080819, 0x08082B1908081908, 0x08082B1908190808, 0x08082B190819082B, 0x08082B1908191919,
     0x08082B1908192B08, 0x08082B19082B0819, 0x08082B1919080808, 0x08082B1919081919],
    [0x08082B1919082B08, 0x08082B1919190819, 0x08082B1919191908, 0x08082B19192B0808, 0x08082B192B080819, 0x08082B192B190808,
     0x08082B2B08080808, 0x08082B2B08190819, 0x08082B2B08191908, 0x08082B2B082B082B, 0x08082B2B082B2B08, 0x08082B2B082B2B2B,
     0x08082B2B19190808, 0x08082B2B2B192B19, 0x0819080808080819, 0x0819080808081908, 0x081908080808192B, 0x0819080808082B19,
     0x0819080808190808, 0x081908080819082B, 0x0819080808191919, 0x0819080808192B08, 0x08190808082B0819, 0x08190808082B1908,
     0x08190808082B192B, 0x0819080819080808, 0x081908081908082B, 0x0819080819081919, 0x0819080819082B08, 0x0819080819190819,
     0x0819080819191908, 0x081908081919192B, 0x0819080819192B19, 0x08190808192B0808, 0x08190808192B082B, 0x08190808192B1919,
     0x08190808192B2B08, 0x081908082B080819, 0x081908082B081908, 0x081908082B08192B, 0x081908082B190808, 0x081908082B191919,
     0x081908082B192B08, 0x081908082B2B0819, 0x081908082B2B1908, 0x0819081908080808, 0x081908190808082B, 0x0819081908081919,
     0x0819081908082B08, 0x0819081908082B2B, 0x0819081908190819, 0x0819081908191908, 0x081908190819192B, 0x0819081908192B19,
     0x08190819082B0808, 0x08190819082B082B, 0x08190819082B1919, 0x08190819082B2B08, 0x0819081919080819, 0x0819081919081908,
     0x081908191908192B, 0x0819081919082B19, 0x0819081919190808, 0x081908191919082B],
    [0x0819081919191919, 0x0819081919192B08, 0x08190819192B0819, 0x08190819192B1908, 0x081908192B080808, 0x081908192B08082B,
     0x081908192B081919, 0x081908192B082B08, 0x081908192B190819, 0x081908192B191908, 0x0819082B08080819, 0x0819082B08081908,
     0x0819082B08082B19, 0x0819082B08190808, 0x0819082B08191919, 0x0819082B082B0819, 0x0819082B082B1908, 0x0819082B19080808,
     0x0819082B19081919, 0x0819082B19190819, 0x0819082B19191908, 0x0819082B2B080819, 0x0819082B2B081908, 0x0819082B2B190808,
     0x0819190808080808, 0x081919080808082B, 0x0819190808081919, 0x0819190808082B08, 0x0819190808190819, 0x0819190808191908,
     0x081919080819192B, 0x0819190808192B19, 0x08191908082B0808, 0x08191908082B1919, 0x08191908082B2B08, 0x0819190819080819,
     0x0819190819081908, 0x081919081908192B, 0x0819190819082B19, 0x0819190819190808, 0x081919081919082B, 0x0819190819191919,
     0x0819190819192B08, 0x08191908192B0819, 0x08191908192B1908, 0x081919082B080808, 0x081919082B08082B, 0x081919082B081919,
     0x081919082B082B08, 0x081919082B190819, 0x081919082B191908, 0x081919082B2B0808, 0x0819191908080819, 0x0819191908081908,
     0x081919190808192B, 0x0819191908082B19, 0x0819191908190808, 0x081919190819082B, 0x0819191908191919, 0x0819191908192B08,
     0x08191919082B0819, 0x08191919082B1908, 0x0819191919080808, 0x081919191908082B],
    [0x0819191919081919, 0x0819191919082B08, 0x0819191919190819, 0x0819191919191908, 0x08191919192B0808, 0x081919192B080819,
     0x081919192B081908, 0x081919192B190808, 0x0819192B08080808, 0x0819192B08081919, 0x0819192B08082B08, 0x0819192B08190819,
     0x0819192B08191908, 0x0819192B082B0808, 0x0819192B19080819, 0x0819192B19081908, 0x0819192B19190808, 0x0819192B2B080808,
     0x0819192B2B2B2B2B, 0x08192B0808080819, 0x08192B0808081908, 0x08192B080808192B, 0x08192B0808082B19, 0x08192B0808190808,
     0x08192B0808191919, 0x08192B0808192B08, 0x08192B08082B0819, 0x08192B0819080808, 0x08192B081908082B, 0x08192B0819081919,
     0x08192B0819082B08, 0x08192B0819190819, 0x08192B0819191908, 0x08192B08192B0808, 0x08192B082B080819, 0x08192B082B081908,
     0x08192B1908080808, 0x08192B190808082B, 0x08192B1908081919, 0x08192B1908082B08, 0x08192B1908190819, 0x08192B1908191908,
     0x08192B19082B0808, 0x08192B1919080819, 0x08192B1919081908, 0x08192B1919190808, 0x08192B19192B2B19, 0x08192B192B2B082B,
     0x08192B2B08081908, 0x08192B2B08190808, 0x08192B2B19080808, 0x08192B2B1919192B, 0x082B080808080808, 0x082B08080808082B,
     0x082B080808081919, 0x082B080808082B08, 0x082B080808190819, 0x082B080808191908, 0x082B08080819192B, 0x082B080808192B19,
     0x082B0808082B0808, 0x082B0808082B1919, 0x082B0808082B2B2B, 0x082B080819080819],
    [0x082B080819081908, 0x082B080819190808, 0x082B08081919082B, 0x082B080819191919, 0x082B0808192B1908, 0x082B08082B080808,
     0x082B08082B082B2B, 0x082B08082B191908, 0x082B08082B2B2B2B, 0x082B081908080819, 0x082B081908081908, 0x082B081908190808,
     0x082B08190819082B, 0x082B081908191919, 0x082B0819082B0819, 0x082B081919080808, 0x082B08191908082B, 0x082B081919081919,
     0x082B081919190819, 0x082B081919191908, 0x082B0819192B0808, 0x082B08192B080819, 0x082B08192B081908, 0x082B08192B190808,
     0x082B082B08080808, 0x082B082B08082B2B, 0x082B082B082B082B, 0x082B082B082B2B08, 0x082B082B082B2B2B, 0x082B082B19081908,
     0x082B082B19190808, 0x082B082B2B082B08, 0x082B082B2B082B2B, 0x082B082B2B2B2B08, 0x082B190808080819, 0x082B190808081908,
     0x082B19080808192B, 0x082B190808082B19, 0x082B190808190808, 0x082B190808191919, 0x082B190808192B08, 0x082B1908082B0819,
     0x082B1908082B1908, 0x082B190819080808, 0x082B19081908082B, 0x082B190819081919, 0x082B190819082B08, 0x082B190819190819,
     0x082B190819191908, 0x082B1908192B0808, 0x082B19082B080819, 0x082B19082B081908, 0x082B19082B190808, 0x082B191908080808,
     0x082B191908081919, 0x082B191908082B08, 0x082B191908190819, 0x082B191908191908, 0x082B1919082B0808, 0x082B191919080819,
     0x082B191919081908, 0x082B191919190808, 0x082B1919192B192B, 0x082B19192B080808],
    [0x082B192B08080819, 0x082B192B08081908, 0x082B192B08190808, 0x082B192B19080808, 0x082B192B19192B19, 0x082B2B0808080808,
     0x082B2B0808081919, 0x082B2B0808190819, 0x082B2B0808191908, 0x082B2B0819080819, 0x082B2B0819081908, 0x082B2B0819190808,
     0x082B2B082B082B2B, 0x082B2B082B2B2B2B, 0x082B2B1908080819, 0x082B2B1908081908, 0x082B2B1908190808, 0x082B2B192B191919,
     0x082B2B2B08082B2B, 0x082B2B2B082B082B, 0x082B2B2B192B1908, 0x082B2B2B2B082B08, 0x082B2B2B2B082B2B, 0x1908080808080819,
     0x1908080808081908, 0x190808080808192B, 0x1908080808082B19, 0x1908080808190808, 0x190808080819082B, 0x1908080808191919,
     0x1908080808192B08, 0x1908080808192B2B, 0x19080808082B0819, 0x19080808082B1908, 0x19080808082B192B, 0x1908080819080808,
     0x190808081908082B, 0x1908080819081919, 0x1908080819082B08, 0x1908080819082B2B, 0x1908080819190819, 0x1908080819191908,
     0x190808081919192B, 0x1908080819192B19, 0x19080808192B0808, 0x19080808192B082B, 0x19080808192B1919, 0x190808082B080819,
     0x190808082B081908, 0x190808082B190808, 0x190808082B191919, 0x190808082B192B08, 0x190808082B2B0819, 0x190808082B2B1908,
     0x1908081908080808, 0x190808190808082B, 0x1908081908081919, 0x1908081908082B08, 0x1908081908190819, 0x1908081908191908,
     0x190808190819192B, 0x1908081908192B19, 0x19080819082B0808, 0x19080819082B082B],
    [0x19080819082B1919, 0x1908081919080819, 0x1908081919081908, 0x190808191908192B, 0x1908081919082B19, 0x1908081919190808,
     0x190808191919082B, 0x1908081919191919, 0x1908081919192B08, 0x19080819192B0819, 0x19080819192B1908, 0x190808192B080808,
     0x190808192B08082B, 0x190808192B081919, 0x190808192B082B08, 0x190808192B190819, 0x190808192B191908, 0x190808192B2B0808,
     0x1908082B08080819, 0x1908082B08081908, 0x1908082B08190808, 0x1908082B0819082B, 0x1908082B08191919, 0x1908082B08192B08,
     0x1908082B082B1908, 0x1908082B19080808, 0x1908082B19081919, 0x1908082B19082B08, 0x1908082B19190819, 0x1908082B19191908,
     0x1908082B192B0808, 0x1908082B2B080819, 0x1908082B2B081908, 0x1908190808080808, 0x190819080808082B, 0x1908190808081919,
     0x1908190808082B08, 0x1908190808082B2B, 0x1908190808190819, 0x1908190808191908, 0x190819080819192B, 0x1908190808192B19,
     0x19081908082B0808, 0x19081908082B082B, 0x19081908082B1919, 0x19081908082B2B08, 0x1908190819080819, 0x1908190819081908,
     0x190819081908192B, 0x1908190819082B19, 0x1908190819190808, 0x190819081919082B, 0x1908190819191919, 0x1908190819192B08,
     0x19081908192B0819, 0x19081908192B1908, 0x190819082B080808, 0x190819082B08082B, 0x190819082B081919, 0x190819082B082B08,
     0x190819082B190819, 0x190819082B191908, 0x190819082B2B0808, 0x1908191908080819],
    [0x1908191908081908, 0x190819190808192B, 0x1908191908082B19, 0x1908191908190808, 0x190819190819082B, 0x1908191908191919,
     0x1908191908192B08, 0x19081919082B0819, 0x19081919082B1908, 0x1908191919080808, 0x190819191908082B, 0x1908191919081919,
     0x1908191919082B08, 0x1908191919190819, 0x1908191919191908, 0x19081919192B0808, 0x19081919192B2B2B, 0x190819192B080819,
     0x190819192B081908, 0x190819192B190808, 0x1908192B08080808, 0x1908192B0808082B, 0x1908192B08081919, 0x1908192B08082B08,
     0x1908192B08190819, 0x1908192B08191908, 0x1908192B082B0808, 0x1908192B19080819, 0x1908192B19081908, 0x1908192B19190808,
     0x1908192B2B080808, 0x1908192B2B2B1919, 0x19082B0808080819, 0x19082B0808081908, 0x19082B0808082B19, 0x19082B0808190808,
     0x19082B080819082B, 0x19082B0808191919, 0x19082B0808192B08, 0x19082B08082B0819, 0x19082B08082B1908, 0x19082B0819080808,
     0x19082B081908082B, 0x19082B0819081919, 0x19082B0819082B08, 0x19082B0819190819, 0x19082B0819191908, 0x19082B08192B0808,
     0x19082B082B081908, 0x19082B082B190808, 0x19082B1908080808, 0x19082B190808082B, 0x19082B1908081919, 0x19082B1908082B08,
     0x19082B1908190819, 0x19082B1908191908, 0x19082B19082B0808, 0x19082B1919080819, 0x19082B1919081908, 0x19082B1919190808,
     0x19082B192B080808, 0x19082B192B19192B, 0x19082B2B08080819, 0x19082B2B08081908],
    [0x19082B2B08190808, 0x19082B2B19080808, 0x1919080808080808, 0x191908080808082B, 0x1919080808081919, 0x1919080808082B08,
     0x1919080808190819, 0x1919080808191908, 0x191908080819192B, 0x1919080808192B19, 0x19190808082B0808, 0x19190808082B082B,
     0x19190808082B1919, 0x19190808082B2B08, 0x1919080819080819, 0x1919080819081908, 0x191908081908192B, 0x1919080819082B19,
     0x1919080819190808, 0x191908081919082B, 0x1919080819191919, 0x1919080819192B08, 0x19190808192B0819, 0x19190808192B1908,
     0x191908082B080808, 0x191908082B08082B, 0x191908082B081919, 0x191908082B082B08, 0x191908082B190819, 0x191908082B191908,
     0x1919081908080819, 0x1919081908081908, 0x191908190808192B, 0x1919081908082B19, 0x1919081908190808, 0x191908190819082B,
     0x1919081908191919, 0x1919081908192B08, 0x19190819082B0819, 0x19190819082B1908, 0x1919081919080808, 0x191908191908082B,
     0x1919081919081919, 0x1919081919082B08, 0x1919081919190819, 0x1919081919191908, 0x19190819192B0808, 0x191908192B080819,
     0x191908192B081908, 0x191908192B190808, 0x1919082B08080808, 0x1919082B08081919, 0x1919082B08082B08, 0x1919082B08190819,
     0x1919082B08191908, 0x1919082B082B0808, 0x1919082B19080819, 0x1919082B19081908, 0x1919082B19190808, 0x1919082B192B2B19,
     0x1919082B2B080808, 0x1919190808080819, 0x1919190808081908, 0x191919080808192B],
    [0x1919190808082B19, 0x1919190808190808, 0x191919080819082B, 0x1919190808191919, 0x1919190808192B08, 0x19191908082B0819,
     0x19191908082B1908, 0x1919190819080808, 0x191919081908082B, 0x1919190819081919, 0x1919190819082B08, 0x1919190819190819,
     0x1919190819191908, 0x19191908192B0808, 0x191919082B080819, 0x191919082B081908, 0x191919082B190808, 0x1919191908080808,
     0x191919190808082B, 0x1919191908081919, 0x1919191908082B08, 0x1919191908190819, 0x1919191908191908, 0x19191919082B0808,
     0x1919191919080819, 0x1919191919081908, 0x1919191919190808, 0x191919192B080808, 0x1919192B08080819, 0x1919192B08081908,
     0x1919192B08190808, 0x1919192B082B192B, 0x1919192B19080808, 0x19192B0808080808, 0x19192B080808082B, 0x19192B0808081919,
     0x19192B0808082B08, 0x19192B0808190819, 0x19192B0808191908, 0x19192B08082B0808, 0x19192B0819080819, 0x19192B0819081908,
     0x19192B0819190808, 0x19192B0819192B2B, 0x19192B082B080808, 0x19192B1908080819, 0x19192B1908081908, 0x19192B1908190808,
     0x19192B1919080808, 0x19192B2B08080808, 0x19192B2B08192B19, 0x19192B2B2B081919, 0x19192B2B2B2B2B08, 0x192B080808080819,
     0x192B080808081908, 0x192B08080808192B, 0x192B080808190808, 0x192B08080819082B, 0x192B080808191919, 0x192B080808192B08,
     0x192B0808082B0819, 0x192B0808082B1908, 0x192B080819080808, 0x192B080819081919],
    [0x192B080819082B08, 0x192B080819190819, 0x192B080819191908, 0x192B0808192B0808, 0x192B08082B081908, 0x192B08082B190808,
     0x192B081908080808, 0x192B08190808082B, 0x192B081908081919, 0x192B081908082B08, 0x192B081908190819, 0x192B081908191908,
     0x192B0819082B0808, 0x192B081919080819, 0x192B081919081908, 0x192B081919190808, 0x192B08192B080808, 0x192B08192B192B19,
     0x192B082B08081908, 0x192B082B08190808, 0x192B082B19080808, 0x192B082B1919192B, 0x192B082B2B2B0819, 0x192B190808080808,
     0x192B190808081919, 0x192B190808082B08, 0x192B190808190819, 0x192B190808191908, 0x192B1908082B0808, 0x192B190819080819,
     0x192B190819081908, 0x192B190819190808, 0x192B19082B080808, 0x192B191908080819, 0x192B191908081908, 0x192B191908190808,
     0x192B191919080808, 0x192B191919082B2B, 0x192B1919192B2B08, 0x192B19192B19082B, 0x192B192B08080808, 0x192B192B2B191908,
     0x192B2B0808080819, 0x192B2B0808081908, 0x192B2B0808190808, 0x192B2B08192B1919, 0x192B2B082B192B08, 0x192B2B1908080808,
     0x192B2B19082B2B2B, 0x192B2B2B1908082B, 0x192B2B2B2B2B0819, 0x2B08080808080808, 0x2B0808080808082B, 0x2B08080808081919,
     0x2B08080808082B08, 0x2B08080808190819, 0x2B08080808191908, 0x2B08080808192B19, 0x2B080808082B0808, 0x2B080808082B1919,
     0x2B08080819080819, 0x2B08080819081908, 0x2B08080819190808, 0x2B0808081919082B],
    [0x2B08080819191919, 0x2B08080819192B08, 0x2B080808192B0819, 0x2B0808082B080808, 0x2B0808082B081919, 0x2B0808082B190819,
     0x2B0808082B191908, 0x2B08081908080819, 0x2B08081908081908, 0x2B08081908082B19, 0x2B08081908190808, 0x2B0808190819082B,
     0x2B08081908191919, 0x2B08081908192B08, 0x2B080819082B0819, 0x2B080819082B1908, 0x2B08081919080808, 0x2B0808191908082B,
     0x2B08081919081919, 0x2B08081919082B08, 0x2B08081919190819, 0x2B08081919191908, 0x2B0808192B080819, 0x2B0808192B081908,
     0x2B0808192B190808, 0x2B0808192B2B2B19, 0x2B08082B08080808, 0x2B08082B08081919, 0x2B08082B08082B2B, 0x2B08082B08190819,
     0x2B08082B08191908, 0x2B08082B19080819, 0x2B08082B19081908, 0x2B08082B19190808, 0x2B08190808080819, 0x2B08190808081908,
     0x2B0819080808192B, 0x2B08190808082B19, 0x2B08190808190808, 0x2B0819080819082B, 0x2B08190808191919, 0x2B08190808192B08,
     0x2B081908082B0819, 0x2B08190819080808, 0x2B0819081908082B, 0x2B08190819081919, 0x2B08190819082B08, 0x2B08190819190819,
     0x2B08190819191908, 0x2B081908192B0808, 0x2B0819082B080819, 0x2B0819082B081908, 0x2B0819082B190808, 0x2B08191908080808,
     0x2B0819190808082B, 0x2B08191908081919, 0x2B08191908082B08, 0x2B08191908190819, 0x2B08191908191908, 0x2B081919082B0808,
     0x2B08191919080819, 0x2B08191919081908, 0x2B08191919190808, 0x2B0819192B080808],
    [0x2B0819192B082B2B, 0x2B08192B08080819, 0x2B08192B08081908, 0x2B08192B08190808, 0x2B08192B082B2B19, 0x2B08192B19080808,
     0x2B082B0808080808, 0x2B082B0808081919, 0x2B082B0808190819, 0x2B082B0808191908, 0x2B082B0819080819, 0x2B082B0819081908,
     0x2B082B0819190808, 0x2B082B082B2B082B, 0x2B082B1908080819, 0x2B082B1908081908, 0x2B082B1919080808, 0x2B082B19192B1919,
     0x2B082B2B082B082B, 0x2B082B2B19192B08, 0x2B082B2B19192B2B, 0x2B082B2B2B08082B, 0x2B082B2B2B2B082B, 0x2B19080808080819,
     0x2B19080808081908, 0x2B19080808082B19, 0x2B19080808190808, 0x2B1908080819082B, 0x2B19080808191919, 0x2B19080808192B08,
     0x2B190808082B1908, 0x2B19080819080808, 0x2B1908081908082B, 0x2B19080819081919, 0x2B19080819082B08, 0x2B19080819190819,
     0x2B19080819191908, 0x2B190808192B0808, 0x2B1908082B080819, 0x2B1908082B081908, 0x2B1908082B190808, 0x2B19081908080808,
     0x2B19081908081919, 0x2B19081908190819, 0x2B19081908191908, 0x2B19081919080819, 0x2B19081919081908, 0x2B19081919190808,
     0x2B19081919192B2B, 0x2B19082B08080819, 0x2B19082B08081908, 0x2B19082B08190808, 0x2B19082B19080808, 0x2B19082B2B2B192B,
     0x2B19190808080808, 0x2B1919080808082B, 0x2B19190808081919, 0x2B19190808082B08, 0x2B19190808190819, 0x2B19190808191908,
     0x2B191908082B0808, 0x2B19190819080819, 0x2B19190819081908, 0x2B19190819190808],
    [0x2B1919082B080808, 0x2B1919082B19192B, 0x2B19191908080819, 0x2B19191908081908, 0x2B19191908190808, 0x2B19191919080808,
     0x2B1919192B192B08, 0x2B1919192B2B0819, 0x2B19192B08080808, 0x2B19192B1908192B, 0x2B19192B192B1908, 0x2B192B0808080819,
     0x2B192B0808081908, 0x2B192B0808190808, 0x2B192B08082B192B, 0x2B192B0819080808, 0x2B192B082B2B2B19, 0x2B192B1908080808,
     0x2B192B1919082B19, 0x2B192B191919082B, 0x2B192B2B2B190808, 0x2B2B080808080808, 0x2B2B080808081919, 0x2B2B080808082B2B,
     0x2B2B080808191908, 0x2B2B0808082B082B, 0x2B2B0808082B2B2B, 0x2B2B080819080819, 0x2B2B080819081908, 0x2B2B080819190808,
     0x2B2B08082B2B082B, 0x2B2B08082B2B2B2B, 0x2B2B081919080808, 0x2B2B0819192B1919, 0x2B2B082B0808082B, 0x2B2B082B08082B2B,
     0x2B2B082B082B082B, 0x2B2B082B082B2B08, 0x2B2B082B082B2B2B, 0x2B2B082B2B08082B, 0x2B2B082B2B082B08, 0x2B2B082B2B082B2B,
     0x2B2B082B2B2B2B08, 0x2B2B190808080819, 0x2B2B190808081908, 0x2B2B190808190808, 0x2B2B190819080808, 0x2B2B19082B082B19,
     0x2B2B19082B2B1908, 0x2B2B191908080808, 0x2B2B191908192B19, 0x2B2B192B19190819, 0x2B2B2B0808082B2B, 0x2B2B2B08082B2B08,
     0x2B2B2B082B2B082B, 0x2B2B2B1919191908, 0x2B2B2B192B08192B, 0x2B2B2B2B08082B08, 0x2B2B2B2B08082B2B, 0x2B2B2B2B082B0808,
     0x2B2B2B2B082B082B, 0x2B2B2B2B082B2B08, 0x2B2B2B2B2B082B08, 0x2B2B2B2B2B2B2B2B]]"

text \<open>256 entries of four magnitudes.\<close>

definition iq3xxs_grid :: "int list" where
  "iq3xxs_grid = concat [
    [0x04040404, 0x04040414, 0x04040424, 0x04040C0C, 0x04040C1C, 0x04040C3E, 0x04041404, 0x04041414, 0x04041C0C, 0x04042414,
     0x04043E1C, 0x04043E2C, 0x040C040C, 0x040C041C, 0x040C0C04, 0x040C0C14, 0x040C140C, 0x040C142C, 0x040C1C04, 0x040C1C14,
     0x040C240C, 0x040C2C24, 0x040C3E04, 0x04140404, 0x04140414, 0x04140424, 0x04140C0C, 0x04141404, 0x04141414, 0x04141C0C,
     0x04141C1C, 0x04141C3E, 0x04142C0C, 0x04142C3E, 0x04143E2C, 0x041C040C, 0x041C043E, 0x041C0C04, 0x041C0C14, 0x041C142C,
     0x041C3E04, 0x04240C1C, 0x04241C3E, 0x04242424, 0x04242C3E, 0x04243E1C, 0x04243E2C, 0x042C040C, 0x042C043E, 0x042C1C14,
     0x042C2C14, 0x04341C2C, 0x04343424, 0x043E0C04, 0x043E0C24, 0x043E0C34, 0x043E241C, 0x043E340C, 0x0C04040C, 0x0C04041C,
     0x0C040C04, 0x0C040C14, 0x0C04140C, 0x0C04141C],
    [0x0C041C04, 0x0C041C14, 0x0C041C24, 0x0C04243E, 0x0C042C04, 0x0C0C0404, 0x0C0C0414, 0x0C0C0C0C, 0x0C0C1404, 0x0C0C1414,
     0x0C14040C, 0x0C14041C, 0x0C140C04, 0x0C140C14, 0x0C14140C, 0x0C141C04, 0x0C143E14, 0x0C1C0404, 0x0C1C0414, 0x0C1C1404,
     0x0C1C1C0C, 0x0C1C2434, 0x0C1C3434, 0x0C24040C, 0x0C24042C, 0x0C242C04, 0x0C2C1404, 0x0C2C1424, 0x0C2C2434, 0x0C2C3E0C,
     0x0C34042C, 0x0C3E1414, 0x0C3E2404, 0x14040404, 0x14040414, 0x14040C0C, 0x14040C1C, 0x14041404, 0x14041414, 0x14041434,
     0x14041C0C, 0x14042414, 0x140C040C, 0x140C041C, 0x140C042C, 0x140C0C04, 0x140C0C14, 0x140C140C, 0x140C1C04, 0x140C341C,
     0x140C343E, 0x140C3E04, 0x14140404, 0x14140414, 0x14140C0C, 0x14140C3E, 0x14141404, 0x14141414, 0x14141C3E, 0x14142404,
     0x14142C2C, 0x141C040C, 0x141C0C04, 0x141C0C24],
    [0x141C3E04, 0x141C3E24, 0x14241C2C, 0x14242C1C, 0x142C041C, 0x142C143E, 0x142C240C, 0x142C3E24, 0x143E040C, 0x143E041C,
     0x143E0C34, 0x143E242C, 0x1C04040C, 0x1C040C04, 0x1C040C14, 0x1C04140C, 0x1C04141C, 0x1C042C04, 0x1C04342C, 0x1C043E14,
     0x1C0C0404, 0x1C0C0414, 0x1C0C1404, 0x1C0C1C0C, 0x1C0C2424, 0x1C0C2434, 0x1C14040C, 0x1C14041C, 0x1C140C04, 0x1C14142C,
     0x1C142C14, 0x1C143E14, 0x1C1C0C0C, 0x1C1C1C1C, 0x1C241C04, 0x1C24243E, 0x1C243E14, 0x1C2C0404, 0x1C2C0434, 0x1C2C1414,
     0x1C2C2C2C, 0x1C340C24, 0x1C341C34, 0x1C34341C, 0x1C3E1C1C, 0x1C3E3404, 0x24040424, 0x24040C3E, 0x24041C2C, 0x24041C3E,
     0x24042C1C, 0x24042C3E, 0x240C3E24, 0x24141404, 0x24141C3E, 0x24142404, 0x24143404, 0x24143434, 0x241C043E, 0x241C242C,
     0x24240424, 0x24242C0C, 0x24243424, 0x242C142C],
    [0x242C241C, 0x242C3E04, 0x243E042C, 0x243E0C04, 0x243E0C14, 0x243E1C04, 0x2C040C14, 0x2C04240C, 0x2C043E04, 0x2C0C0404,
     0x2C0C0434, 0x2C0C1434, 0x2C0C2C2C, 0x2C140C24, 0x2C141C14, 0x2C143E14, 0x2C1C0414, 0x2C1C2C1C, 0x2C240C04, 0x2C24141C,
     0x2C24143E, 0x2C243E14, 0x2C2C0414, 0x2C2C1C0C, 0x2C342C04, 0x2C3E1424, 0x2C3E2414, 0x34041424, 0x34042424, 0x34042434,
     0x34043424, 0x340C140C, 0x340C340C, 0x34140C3E, 0x34143424, 0x341C1C04, 0x341C1C34, 0x34242424, 0x342C042C, 0x342C2C14,
     0x34341C1C, 0x343E041C, 0x343E140C, 0x3E04041C, 0x3E04042C, 0x3E04043E, 0x3E040C04, 0x3E041C14, 0x3E042C14, 0x3E0C1434,
     0x3E0C2404, 0x3E140C14, 0x3E14242C, 0x3E142C14, 0x3E1C0404, 0x3E1C0C2C, 0x3E1C1C1C, 0x3E1C3404, 0x3E24140C, 0x3E24240C,
     0x3E2C0404, 0x3E2C0414, 0x3E2C1424, 0x3E341C04]]"

text \<open>512 entries of four magnitudes.\<close>

definition iq3s_grid :: "int list" where
  "iq3s_grid = concat [
    [0x01010101, 0x01010103, 0x01010105, 0x0101010B, 0x0101010F, 0x01010301, 0x01010303, 0x01010305, 0x01010309, 0x0101030D,
     0x01010501, 0x01010503, 0x0101050B, 0x01010707, 0x01010901, 0x01010905, 0x0101090B, 0x0101090F, 0x01010B03, 0x01010B07,
     0x01010D01, 0x01010D05, 0x01010F03, 0x01010F09, 0x01010F0F, 0x01030101, 0x01030103, 0x01030105, 0x01030109, 0x01030301,
     0x01030303, 0x0103030B, 0x01030501, 0x01030507, 0x0103050F, 0x01030703, 0x0103070B, 0x01030909, 0x01030D03, 0x01030D0B,
     0x01030F05, 0x01050101, 0x01050103, 0x0105010B, 0x0105010F, 0x01050301, 0x01050307, 0x0105030D, 0x01050503, 0x0105050B,
     0x01050701, 0x01050709, 0x01050905, 0x0105090B, 0x0105090F, 0x01050B03, 0x01050B07, 0x01050F01, 0x01050F07, 0x01070107,
     0x01070303, 0x0107030B, 0x01070501, 0x01070505],
    [0x01070703, 0x01070707, 0x0107070D, 0x01070909, 0x01070B01, 0x01070B05, 0x01070D0F, 0x01070F03, 0x01070F0B, 0x01090101,
     0x01090307, 0x0109030F, 0x01090503, 0x01090509, 0x01090705, 0x01090901, 0x01090907, 0x01090B03, 0x01090F01, 0x010B0105,
     0x010B0109, 0x010B0501, 0x010B0505, 0x010B050D, 0x010B0707, 0x010B0903, 0x010B090B, 0x010B090F, 0x010B0D0D, 0x010B0F07,
     0x010D010D, 0x010D0303, 0x010D0307, 0x010D0703, 0x010D0B05, 0x010D0F03, 0x010F0101, 0x010F0105, 0x010F0109, 0x010F0501,
     0x010F0505, 0x010F050D, 0x010F0707, 0x010F0B01, 0x010F0B09, 0x03010101, 0x03010103, 0x03010105, 0x03010109, 0x03010301,
     0x03010303, 0x03010307, 0x0301030B, 0x0301030F, 0x03010501, 0x03010505, 0x03010703, 0x03010709, 0x0301070D, 0x03010B09,
     0x03010B0D, 0x03010D03, 0x03010F05, 0x03030101],
    [0x03030103, 0x03030107, 0x0303010D, 0x03030301, 0x03030309, 0x03030503, 0x03030701, 0x03030707, 0x03030903, 0x03030B01,
     0x03030B05, 0x03030F01, 0x03030F0D, 0x03050101, 0x03050305, 0x0305030B, 0x0305030F, 0x03050501, 0x03050509, 0x03050705,
     0x03050901, 0x03050907, 0x03050B0B, 0x03050D01, 0x03050F05, 0x03070103, 0x03070109, 0x0307010F, 0x03070301, 0x03070307,
     0x03070503, 0x0307050F, 0x03070701, 0x03070709, 0x03070903, 0x03070D05, 0x03070F01, 0x03090107, 0x0309010B, 0x03090305,
     0x03090309, 0x03090703, 0x03090707, 0x03090905, 0x0309090D, 0x03090B01, 0x03090B09, 0x030B0103, 0x030B0301, 0x030B0307,
     0x030B0503, 0x030B0701, 0x030B0705, 0x030B0B03, 0x030D0501, 0x030D0509, 0x030D050F, 0x030D0909, 0x030D090D, 0x030F0103,
     0x030F0107, 0x030F0301, 0x030F0305, 0x030F0503],
    [0x030F070B, 0x030F0903, 0x030F0D05, 0x030F0F01, 0x05010101, 0x05010103, 0x05010107, 0x0501010B, 0x0501010F, 0x05010301,
     0x05010305, 0x05010309, 0x0501030D, 0x05010503, 0x05010507, 0x0501050F, 0x05010701, 0x05010705, 0x05010903, 0x05010907,
     0x0501090B, 0x05010B01, 0x05010B05, 0x05010D0F, 0x05010F01, 0x05010F07, 0x05010F0B, 0x05030101, 0x05030105, 0x05030301,
     0x05030307, 0x0503030F, 0x05030505, 0x0503050B, 0x05030703, 0x05030709, 0x05030905, 0x05030B03, 0x05050103, 0x05050109,
     0x0505010F, 0x05050503, 0x05050507, 0x05050701, 0x0505070F, 0x05050903, 0x05050B07, 0x05050B0F, 0x05050F03, 0x05050F09,
     0x05070101, 0x05070105, 0x0507010B, 0x05070303, 0x05070505, 0x05070509, 0x05070703, 0x05070707, 0x05070905, 0x05070B01,
     0x05070D0D, 0x05090103, 0x0509010F, 0x05090501],
    [0x05090507, 0x05090705, 0x0509070B, 0x05090903, 0x05090F05, 0x05090F0B, 0x050B0109, 0x050B0303, 0x050B0505, 0x050B070F,
     0x050B0901, 0x050B0B07, 0x050B0F01, 0x050D0101, 0x050D0105, 0x050D010F, 0x050D0503, 0x050D0B0B, 0x050D0D03, 0x050F010B,
     0x050F0303, 0x050F050D, 0x050F0701, 0x050F0907, 0x050F0B01, 0x07010105, 0x07010303, 0x07010307, 0x0701030B, 0x0701030F,
     0x07010505, 0x07010703, 0x07010707, 0x0701070B, 0x07010905, 0x07010909, 0x0701090F, 0x07010B03, 0x07010D07, 0x07010F03,
     0x07030103, 0x07030107, 0x0703010B, 0x07030309, 0x07030503, 0x07030507, 0x07030901, 0x07030D01, 0x07030F05, 0x07030F0D,
     0x07050101, 0x07050305, 0x07050501, 0x07050705, 0x07050709, 0x07050B01, 0x07070103, 0x07070301, 0x07070309, 0x07070503,
     0x07070507, 0x0707050F, 0x07070701, 0x07070903],
    [0x07070907, 0x0707090F, 0x07070B0B, 0x07070F07, 0x07090107, 0x07090303, 0x0709030D, 0x07090505, 0x07090703, 0x07090B05,
     0x07090D01, 0x07090D09, 0x070B0103, 0x070B0301, 0x070B0305, 0x070B050B, 0x070B0705, 0x070B0909, 0x070B0B0D, 0x070B0F07,
     0x070D030D, 0x070D0903, 0x070F0103, 0x070F0107, 0x070F0501, 0x070F0505, 0x070F070B, 0x09010101, 0x09010109, 0x09010305,
     0x09010501, 0x09010509, 0x0901050F, 0x09010705, 0x09010903, 0x09010B01, 0x09010F01, 0x09030105, 0x0903010F, 0x09030303,
     0x09030307, 0x09030505, 0x09030701, 0x0903070B, 0x09030907, 0x09030B03, 0x09030B0B, 0x09050103, 0x09050107, 0x09050301,
     0x0905030B, 0x09050503, 0x09050707, 0x09050901, 0x09050B0F, 0x09050D05, 0x09050F01, 0x09070109, 0x09070303, 0x09070307,
     0x09070501, 0x09070505, 0x09070703, 0x0907070B],
    [0x09090101, 0x09090105, 0x09090509, 0x0909070F, 0x09090901, 0x09090F03, 0x090B010B, 0x090B010F, 0x090B0503, 0x090B0D05,
     0x090D0307, 0x090D0709, 0x090D0D01, 0x090F0301, 0x090F030B, 0x090F0701, 0x090F0907, 0x090F0B03, 0x0B010105, 0x0B010301,
     0x0B010309, 0x0B010505, 0x0B010901, 0x0B010909, 0x0B01090F, 0x0B010B05, 0x0B010D0D, 0x0B010F09, 0x0B030103, 0x0B030107,
     0x0B03010B, 0x0B030305, 0x0B030503, 0x0B030705, 0x0B030F05, 0x0B050101, 0x0B050303, 0x0B050507, 0x0B050701, 0x0B05070D,
     0x0B050B07, 0x0B070105, 0x0B07010F, 0x0B070301, 0x0B07050F, 0x0B070909, 0x0B070B03, 0x0B070D0B, 0x0B070F07, 0x0B090103,
     0x0B090109, 0x0B090501, 0x0B090705, 0x0B09090D, 0x0B0B0305, 0x0B0B050D, 0x0B0B0B03, 0x0B0B0B07, 0x0B0D0905, 0x0B0F0105,
     0x0B0F0109, 0x0B0F0505, 0x0D010303, 0x0D010307],
    [0x0D01030B, 0x0D010703, 0x0D010707, 0x0D010D01, 0x0D030101, 0x0D030501, 0x0D03050F, 0x0D030D09, 0x0D050305, 0x0D050709,
     0x0D050905, 0x0D050B0B, 0x0D050D05, 0x0D050F01, 0x0D070101, 0x0D070309, 0x0D070503, 0x0D070901, 0x0D09050B, 0x0D090907,
     0x0D090D05, 0x0D0B0101, 0x0D0B0107, 0x0D0B0709, 0x0D0B0D01, 0x0D0D010B, 0x0D0D0901, 0x0D0F0303, 0x0D0F0307, 0x0F010101,
     0x0F010109, 0x0F01010F, 0x0F010501, 0x0F010505, 0x0F01070D, 0x0F010901, 0x0F010B09, 0x0F010D05, 0x0F030105, 0x0F030303,
     0x0F030509, 0x0F030907, 0x0F03090B, 0x0F050103, 0x0F050109, 0x0F050301, 0x0F05030D, 0x0F050503, 0x0F050701, 0x0F050B03,
     0x0F070105, 0x0F070705, 0x0F07070B, 0x0F070B07, 0x0F090103, 0x0F09010B, 0x0F090307, 0x0F090501, 0x0F090B01, 0x0F0B0505,
     0x0F0B0905, 0x0F0D0105, 0x0F0D0703, 0x0F0F0101]]"

text \<open>Sign masks: seven bits and the parity that makes the number of minus signs even.\<close>

definition ksigns_iq2xs :: "int list" where
  "ksigns_iq2xs = [
    0, 129, 130, 3, 132, 5, 6, 135, 136, 9, 10, 139, 12, 141, 142, 15, 144, 17, 18, 147, 20, 149, 150, 23,
    24, 153, 154, 27, 156, 29, 30, 159, 160, 33, 34, 163, 36, 165, 166, 39, 40, 169, 170, 43, 172, 45, 46, 175,
    48, 177, 178, 51, 180, 53, 54, 183, 184, 57, 58, 187, 60, 189, 190, 63, 192, 65, 66, 195, 68, 197, 198, 71,
    72, 201, 202, 75, 204, 77, 78, 207, 80, 209, 210, 83, 212, 85, 86, 215, 216, 89, 90, 219, 92, 221, 222, 95,
    96, 225, 226, 99, 228, 101, 102, 231, 232, 105, 106, 235, 108, 237, 238, 111, 240, 113, 114, 243, 116, 245, 246, 119,
    120, 249, 250, 123, 252, 125, 126, 255]"

text \<open>One bit per element.\<close>

definition kmask_iq2xs :: "int list" where
  "kmask_iq2xs = [
    1, 2, 4, 8, 16, 32, 64, 128]"

text \<open>2048 entries of eight signed values.\<close>

definition iq1s_grid :: "int list" where
  "iq1s_grid = concat [
    [0xFFFFFFFFFFFFFFFF, 0xFFFFFFFFFFFFFF01, 0xFFFFFFFFFFFF0000, 0xFFFFFFFFFFFF01FF, 0xFFFFFFFFFFFF0101, 0xFFFFFFFFFF00FF00,
     0xFFFFFFFFFF000000, 0xFFFFFFFFFF01FFFF, 0xFFFFFFFFFF01FF01, 0xFFFFFFFFFF0101FF, 0xFFFFFFFFFF010101, 0xFFFFFFFF00FF0000,
     0xFFFFFFFF0000FF00, 0xFFFFFFFF000000FF, 0xFFFFFFFF00000001, 0xFFFFFFFF00010000, 0xFFFFFFFF01FFFFFF, 0xFFFFFFFF01FFFF01,
     0xFFFFFFFF01FF01FF, 0xFFFFFFFF01FF0101, 0xFFFFFFFF01000000, 0xFFFFFFFF0101FFFF, 0xFFFFFFFF0101FF01, 0xFFFFFFFF010101FF,
     0xFFFFFFFF01010101, 0xFFFFFF00FFFF00FF, 0xFFFFFF00FFFF0000, 0xFFFFFF00FF00FF00, 0xFFFFFF00FF0000FF, 0xFFFFFF00FF000001,
     0xFFFFFF00FF000100, 0xFFFFFF00FF000101, 0xFFFFFF00FF010000, 0xFFFFFF0000FFFF00, 0xFFFFFF0000FF0001, 0xFFFFFF0000FF0100,
     0xFFFFFF000000FF01, 0xFFFFFF0000000000, 0xFFFFFF0000000101, 0xFFFFFF000001FF00, 0xFFFFFF00000100FF, 0xFFFFFF0000010001,
     0xFFFFFF00000101FF, 0xFFFFFF0001FF0000, 0xFFFFFF000100FF00, 0xFFFFFF00010000FF, 0xFFFFFF0001000001, 0xFFFFFF0001010000,
     0xFFFFFF01FFFFFFFF, 0xFFFFFF01FFFFFF01, 0xFFFFFF01FFFF01FF, 0xFFFFFF01FFFF0101, 0xFFFFFF01FF000000, 0xFFFFFF01FF01FFFF,
     0xFFFFFF01FF01FF01, 0xFFFFFF01FF0101FF, 0xFFFFFF01FF010101, 0xFFFFFF0100FF0000, 0xFFFFFF010000FF00, 0xFFFFFF0100000100,
     0xFFFFFF01000100FF, 0xFFFFFF0100010100, 0xFFFFFF0101FFFFFF, 0xFFFFFF0101FFFF01],
    [0xFFFFFF0101FF01FF, 0xFFFFFF0101FF0101, 0xFFFFFF010100FF00, 0xFFFFFF0101000000, 0xFFFFFF0101000100, 0xFFFFFF010101FFFF,
     0xFFFFFF010101FF01, 0xFFFFFF01010101FF, 0xFFFFFF0101010101, 0xFFFF00FFFF00FF00, 0xFFFF00FFFF0000FF, 0xFFFF00FFFF000001,
     0xFFFF00FFFF010000, 0xFFFF00FF00FFFF00, 0xFFFF00FF00FF0100, 0xFFFF00FF00000000, 0xFFFF00FF00000101, 0xFFFF00FF000100FF,
     0xFFFF00FF00010000, 0xFFFF00FF0100FF00, 0xFFFF00FF01000100, 0xFFFF00FF01010000, 0xFFFF0000FFFFFF00, 0xFFFF0000FFFF00FF,
     0xFFFF0000FFFF0000, 0xFFFF0000FFFF0001, 0xFFFF0000FF000000, 0xFFFF0000FF0001FF, 0xFFFF0000FF000101, 0xFFFF0000FF010100,
     0xFFFF000000FFFFFF, 0xFFFF000000FF0000, 0xFFFF000000FF0101, 0xFFFF00000000FFFF, 0xFFFF00000000FF00, 0xFFFF0000000000FF,
     0xFFFF000000000000, 0xFFFF000000000001, 0xFFFF000000000100, 0xFFFF00000001FFFF, 0xFFFF00000001FF01, 0xFFFF000000010000,
     0xFFFF0000000101FF, 0xFFFF000000010101, 0xFFFF000001FFFF00, 0xFFFF00000100FF00, 0xFFFF000001000000, 0xFFFF0000010001FF,
     0xFFFF000001000101, 0xFFFF00000101FF00, 0xFFFF0000010100FF, 0xFFFF000001010000, 0xFFFF000001010001, 0xFFFF000001010100,
     0xFFFF0001FF0000FF, 0xFFFF0001FF000100, 0xFFFF000100FFFF00, 0xFFFF000100FF00FF, 0xFFFF00010000FFFF, 0xFFFF00010000FF01,
     0xFFFF000100000000, 0xFFFF0001000001FF, 0xFFFF00010001FFFF, 0xFFFF00010001FF00],
    [0xFFFF000100010001, 0xFFFF000100010100, 0xFFFF000101FF0000, 0xFFFF00010100FF00, 0xFFFF0001010000FF, 0xFFFF000101000100,
     0xFFFF01FFFFFFFFFF, 0xFFFF01FFFFFFFF01, 0xFFFF01FFFFFF01FF, 0xFFFF01FFFFFF0101, 0xFFFF01FFFF000000, 0xFFFF01FFFF01FFFF,
     0xFFFF01FFFF01FF01, 0xFFFF01FFFF0101FF, 0xFFFF01FFFF010101, 0xFFFF01FF00FF0000, 0xFFFF01FF0000FF00, 0xFFFF01FF00000001,
     0xFFFF01FF00010000, 0xFFFF01FF01FFFFFF, 0xFFFF01FF01FFFF01, 0xFFFF01FF01FF01FF, 0xFFFF01FF01FF0101, 0xFFFF01FF01000000,
     0xFFFF01FF0101FFFF, 0xFFFF01FF0101FF01, 0xFFFF01FF010101FF, 0xFFFF01FF01010101, 0xFFFF0100FFFF0000, 0xFFFF0100FF00FF00,
     0xFFFF0100FF0000FF, 0xFFFF0100FF000100, 0xFFFF0100FF0100FF, 0xFFFF0100FF010000, 0xFFFF010000FFFF00, 0xFFFF01000000FFFF,
     0xFFFF01000000FF00, 0xFFFF010000000000, 0xFFFF01000001FF00, 0xFFFF0100000100FF, 0xFFFF010000010100, 0xFFFF01000100FF00,
     0xFFFF0100010000FF, 0xFFFF010001000001, 0xFFFF010001000100, 0xFFFF010001010000, 0xFFFF0101FFFFFFFF, 0xFFFF0101FFFFFF01,
     0xFFFF0101FFFF01FF, 0xFFFF0101FFFF0101, 0xFFFF0101FF000000, 0xFFFF0101FF01FFFF, 0xFFFF0101FF01FF01, 0xFFFF0101FF0101FF,
     0xFFFF0101FF010101, 0xFFFF010100FF0000, 0xFFFF01010000FF00, 0xFFFF010100000100, 0xFFFF01010001FF00, 0xFFFF010100010000,
     0xFFFF010101FFFFFF, 0xFFFF010101FFFF01, 0xFFFF010101FF0000, 0xFFFF010101FF01FF],
    [0xFFFF010101FF0101, 0xFFFF010101000000, 0xFFFF01010101FFFF, 0xFFFF01010101FF01, 0xFFFF0101010101FF, 0xFFFF010101010101,
     0xFF00FFFFFF00FFFF, 0xFF00FFFFFF00FF00, 0xFF00FFFFFF0000FF, 0xFF00FFFFFF000100, 0xFF00FFFFFF0100FF, 0xFF00FFFFFF010000,
     0xFF00FFFF00FFFF00, 0xFF00FFFF00FF00FF, 0xFF00FFFF0000FFFF, 0xFF00FFFF00000000, 0xFF00FFFF000001FF, 0xFF00FFFF0001FF00,
     0xFF00FFFF000100FF, 0xFF00FFFF00010000, 0xFF00FFFF00010100, 0xFF00FFFF0100FF00, 0xFF00FFFF010000FF, 0xFF00FFFF01000001,
     0xFF00FFFF0101FF00, 0xFF00FFFF01010000, 0xFF00FF00FFFFFF00, 0xFF00FF00FFFF00FF, 0xFF00FF00FFFF0001, 0xFF00FF00FFFF0100,
     0xFF00FF00FF00FFFF, 0xFF00FF00FF00FF01, 0xFF00FF00FF000000, 0xFF00FF00FF0001FF, 0xFF00FF00FF01FF00, 0xFF00FF00FF0100FF,
     0xFF00FF00FF010100, 0xFF00FF0000FF0000, 0xFF00FF0000FF0101, 0xFF00FF000000FFFF, 0xFF00FF000000FF00, 0xFF00FF000000FF01,
     0xFF00FF00000000FF, 0xFF00FF0000000000, 0xFF00FF0000000001, 0xFF00FF0000000100, 0xFF00FF000001FFFF, 0xFF00FF0000010000,
     0xFF00FF0001FF00FF, 0xFF00FF000100FF01, 0xFF00FF0001000000, 0xFF00FF000101FF00, 0xFF00FF00010100FF, 0xFF00FF01FF00FF00,
     0xFF00FF01FF0000FF, 0xFF00FF01FF000001, 0xFF00FF01FF010000, 0xFF00FF0100FFFFFF, 0xFF00FF0100FF0001, 0xFF00FF0100FF0100,
     0xFF00FF010000FF01, 0xFF00FF0100000000, 0xFF00FF01000001FF, 0xFF00FF0100000101],
    [0xFF00FF01000100FF, 0xFF00FF0100010001, 0xFF00FF0101FF0000, 0xFF00FF010100FF00, 0xFF00FF01010000FF, 0xFF00FF0101000001,
     0xFF00FF0101010000, 0xFF0000FFFFFFFF00, 0xFF0000FFFFFF0001, 0xFF0000FFFFFF0100, 0xFF0000FFFF0000FF, 0xFF0000FFFF000000,
     0xFF0000FFFF0001FF, 0xFF0000FFFF000100, 0xFF0000FFFF01FF00, 0xFF0000FFFF010001, 0xFF0000FF00FFFF00, 0xFF0000FF00FF0000,
     0xFF0000FF00FF0001, 0xFF0000FF00FF01FF, 0xFF0000FF00FF0101, 0xFF0000FF0000FF00, 0xFF0000FF000000FF, 0xFF0000FF00000000,
     0xFF0000FF00000001, 0xFF0000FF00000100, 0xFF0000FF0001FF01, 0xFF0000FF00010000, 0xFF0000FF000101FF, 0xFF0000FF01FF00FF,
     0xFF0000FF01FF0100, 0xFF0000FF0100FFFF, 0xFF0000FF010000FF, 0xFF0000FF01000000, 0xFF0000FF010001FF, 0xFF0000FF01000100,
     0xFF0000FF01000101, 0xFF0000FF0101FF00, 0xFF0000FF010100FF, 0xFF0000FF01010000, 0xFF0000FF01010100, 0xFF000000FFFFFF01,
     0xFF000000FFFF0000, 0xFF000000FFFF0101, 0xFF000000FF00FF00, 0xFF000000FF0000FF, 0xFF000000FF000000, 0xFF000000FF000001,
     0xFF000000FF000100, 0xFF000000FF01FFFF, 0xFF000000FF01FF01, 0xFF000000FF010000, 0xFF000000FF0101FF, 0xFF000000FF010101,
     0xFF00000000FFFF00, 0xFF00000000FF00FF, 0xFF00000000FF0000, 0xFF00000000FF0001, 0xFF0000000000FF00, 0xFF0000000000FF01,
     0xFF000000000000FF, 0xFF00000000000000, 0xFF00000000000001, 0xFF00000000000100],
    [0xFF00000000000101, 0xFF0000000001FF00, 0xFF000000000100FF, 0xFF00000000010000, 0xFF00000000010001, 0xFF00000000010100,
     0xFF00000001FFFFFF, 0xFF00000001FFFF01, 0xFF00000001FF00FF, 0xFF00000001FF0000, 0xFF00000001FF01FF, 0xFF00000001FF0101,
     0xFF0000000100FFFF, 0xFF0000000100FF00, 0xFF000000010000FF, 0xFF00000001000000, 0xFF00000001000001, 0xFF00000001000100,
     0xFF00000001000101, 0xFF0000000101FFFF, 0xFF0000000101FF01, 0xFF00000001010000, 0xFF000001FFFFFF00, 0xFF000001FFFF00FF,
     0xFF000001FFFF0000, 0xFF000001FFFF0001, 0xFF000001FF000000, 0xFF000001FF000001, 0xFF000001FF0001FF, 0xFF000001FF000101,
     0xFF000001FF01FF00, 0xFF000001FF010001, 0xFF00000100FFFFFF, 0xFF00000100FFFF01, 0xFF00000100FF00FF, 0xFF00000100FF0000,
     0xFF00000100FF01FF, 0xFF00000100FF0101, 0xFF0000010000FF00, 0xFF00000100000000, 0xFF00000100000001, 0xFF000001000001FF,
     0xFF00000100000100, 0xFF0000010001FF00, 0xFF000001000100FF, 0xFF00000100010000, 0xFF000001000101FF, 0xFF00000100010100,
     0xFF00000100010101, 0xFF00000101FF0001, 0xFF00000101FF0101, 0xFF0000010100FF01, 0xFF00000101000000, 0xFF000001010100FF,
     0xFF00000101010100, 0xFF0001FFFF00FF00, 0xFF0001FFFF000001, 0xFF0001FFFF010000, 0xFF0001FF00FFFF00, 0xFF0001FF00FF00FF,
     0xFF0001FF00FF0001, 0xFF0001FF00FF0100, 0xFF0001FF0000FFFF, 0xFF0001FF00000000],
    [0xFF0001FF000001FF, 0xFF0001FF00000101, 0xFF0001FF0001FFFF, 0xFF0001FF0001FF00, 0xFF0001FF000100FF, 0xFF0001FF00010001,
     0xFF0001FF00010100, 0xFF0001FF01FF0000, 0xFF0001FF0100FF00, 0xFF0001FF010000FF, 0xFF0001FF01010000, 0xFF000100FF00FFFF,
     0xFF000100FF00FF01, 0xFF000100FF000000, 0xFF000100FF000101, 0xFF000100FF01FF00, 0xFF000100FF010000, 0xFF00010000FFFF01,
     0xFF00010000FF00FF, 0xFF00010000FF0000, 0xFF00010000FF01FF, 0xFF0001000000FF00, 0xFF000100000000FF, 0xFF00010000000000,
     0xFF00010000000001, 0xFF00010000000100, 0xFF00010000000101, 0xFF0001000001FFFF, 0xFF00010000010000, 0xFF00010000010101,
     0xFF00010001FF0100, 0xFF0001000100FF00, 0xFF0001000100FF01, 0xFF00010001000000, 0xFF000100010001FF, 0xFF0001000101FF00,
     0xFF00010001010001, 0xFF00010001010100, 0xFF000101FFFF0100, 0xFF000101FF000001, 0xFF000101FF0100FF, 0xFF000101FF010001,
     0xFF00010100FF00FF, 0xFF00010100FF0001, 0xFF00010100FF0100, 0xFF0001010000FFFF, 0xFF0001010000FF01, 0xFF00010100000000,
     0xFF000101000001FF, 0xFF0001010001FF00, 0xFF00010100010001, 0xFF00010100010100, 0xFF00010101FF0000, 0xFF0001010100FF00,
     0xFF00010101000001, 0xFF00010101000101, 0xFF01FFFFFFFFFFFF, 0xFF01FFFFFFFFFF01, 0xFF01FFFFFFFF01FF, 0xFF01FFFFFFFF0101,
     0xFF01FFFFFF000000, 0xFF01FFFFFF01FFFF, 0xFF01FFFFFF01FF01, 0xFF01FFFFFF010000],
    [0xFF01FFFFFF0101FF, 0xFF01FFFFFF010101, 0xFF01FFFF00FF0000, 0xFF01FFFF0000FF00, 0xFF01FFFF00000100, 0xFF01FFFF0001FF00,
     0xFF01FFFF00010000, 0xFF01FFFF01FFFFFF, 0xFF01FFFF01FFFF01, 0xFF01FFFF01FF01FF, 0xFF01FFFF01FF0101, 0xFF01FFFF01000000,
     0xFF01FFFF0101FFFF, 0xFF01FFFF0101FF01, 0xFF01FFFF01010000, 0xFF01FFFF010101FF, 0xFF01FFFF01010101, 0xFF01FF00FFFF0000,
     0xFF01FF00FF00FF00, 0xFF01FF00FF0000FF, 0xFF01FF00FF000100, 0xFF01FF00FF010000, 0xFF01FF0000FFFF01, 0xFF01FF0000FF00FF,
     0xFF01FF0000FF0100, 0xFF01FF0000000000, 0xFF01FF00000001FF, 0xFF01FF0000000101, 0xFF01FF000001FF00, 0xFF01FF00000100FF,
     0xFF01FF0000010000, 0xFF01FF0000010001, 0xFF01FF0001FF0000, 0xFF01FF000100FFFF, 0xFF01FF0001000001, 0xFF01FF0001000100,
     0xFF01FF0001010000, 0xFF01FF01FFFFFF00, 0xFF01FF01FFFF01FF, 0xFF01FF01FFFF0101, 0xFF01FF01FF00FF00, 0xFF01FF01FF000000,
     0xFF01FF01FF01FFFF, 0xFF01FF01FF01FF01, 0xFF01FF01FF0101FF, 0xFF01FF01FF010101, 0xFF01FF0100FF0000, 0xFF01FF010000FF00,
     0xFF01FF0100000001, 0xFF01FF0100000100, 0xFF01FF0100010000, 0xFF01FF0101FFFF00, 0xFF01FF0101FF01FF, 0xFF01FF0101FF0101,
     0xFF01FF010100FF00, 0xFF01FF0101000000, 0xFF01FF010101FFFF, 0xFF01FF010101FF01, 0xFF01FF01010101FF, 0xFF01FF0101010101,
     0xFF0100FFFFFF0000, 0xFF0100FFFF0000FF, 0xFF0100FFFF000001, 0xFF0100FFFF000100],
    [0xFF0100FFFF010000, 0xFF0100FF00FF00FF, 0xFF0100FF00FF0000, 0xFF0100FF00FF0001, 0xFF0100FF00FF0100, 0xFF0100FF0000FF01,
     0xFF0100FF00000000, 0xFF0100FF000001FF, 0xFF0100FF00000101, 0xFF0100FF00010001, 0xFF0100FF01FF0000, 0xFF0100FF0100FF00,
     0xFF0100FF010000FF, 0xFF0100FF01000100, 0xFF0100FF0101FF00, 0xFF0100FF01010000, 0xFF010000FFFF0100, 0xFF010000FF000000,
     0xFF010000FF01FF00, 0xFF010000FF010100, 0xFF01000000FFFFFF, 0xFF01000000FF0000, 0xFF01000000FF01FF, 0xFF0100000000FF00,
     0xFF010000000000FF, 0xFF01000000000000, 0xFF01000000000100, 0xFF0100000001FF01, 0xFF01000000010000, 0xFF010000000101FF,
     0xFF01000001FF0100, 0xFF0100000100FFFF, 0xFF010000010000FF, 0xFF01000001000000, 0xFF010000010001FF, 0xFF01000001000101,
     0xFF0100000101FF00, 0xFF010000010100FF, 0xFF01000001010001, 0xFF01000001010100, 0xFF010001FFFF0000, 0xFF010001FF00FFFF,
     0xFF010001FF00FF01, 0xFF010001FF000100, 0xFF010001FF010000, 0xFF01000100FFFF00, 0xFF01000100FF0100, 0xFF01000100000000,
     0xFF0100010001FFFF, 0xFF0100010001FF00, 0xFF01000100010100, 0xFF01000101FF00FF, 0xFF01000101FF0001, 0xFF0100010100FFFF,
     0xFF01000101000101, 0xFF0101FFFFFFFFFF, 0xFF0101FFFFFFFF01, 0xFF0101FFFFFF01FF, 0xFF0101FFFFFF0101, 0xFF0101FFFF000000,
     0xFF0101FFFF01FFFF, 0xFF0101FFFF01FF01, 0xFF0101FFFF0101FF, 0xFF0101FFFF010101],
    [0xFF0101FF00FF0000, 0xFF0101FF0000FF00, 0xFF0101FF000000FF, 0xFF0101FF00010000, 0xFF0101FF01FFFFFF, 0xFF0101FF01FFFF01,
     0xFF0101FF01FF01FF, 0xFF0101FF01FF0101, 0xFF0101FF0101FFFF, 0xFF0101FF0101FF01, 0xFF0101FF010101FF, 0xFF0101FF01010101,
     0xFF010100FFFF0100, 0xFF010100FF00FF00, 0xFF010100FF0000FF, 0xFF010100FF000100, 0xFF010100FF010000, 0xFF01010000FF0001,
     0xFF01010000FF0100, 0xFF0101000000FF01, 0xFF01010000000000, 0xFF0101000001FF00, 0xFF010100000100FF, 0xFF01010000010001,
     0xFF01010000010100, 0xFF01010001FF0000, 0xFF0101000100FFFF, 0xFF01010001000001, 0xFF01010001000100, 0xFF010100010100FF,
     0xFF01010001010000, 0xFF010101FFFFFFFF, 0xFF010101FFFFFF01, 0xFF010101FFFF01FF, 0xFF010101FFFF0101, 0xFF010101FF01FFFF,
     0xFF010101FF01FF01, 0xFF010101FF0101FF, 0xFF010101FF010101, 0xFF01010100FF0000, 0xFF0101010000FF00, 0xFF01010100000001,
     0xFF01010100000100, 0xFF01010100010000, 0xFF01010101FFFFFF, 0xFF01010101FFFF01, 0xFF01010101FF01FF, 0xFF01010101FF0101,
     0xFF01010101000000, 0xFF0101010101FFFF, 0xFF0101010101FF01, 0xFF010101010101FF, 0xFF01010101010101, 0x00FFFFFFFFFF0000,
     0x00FFFFFFFF00FF00, 0x00FFFFFFFF000001, 0x00FFFFFFFF010000, 0x00FFFFFF00FF0100, 0x00FFFFFF0000FF01, 0x00FFFFFF00000000,
     0x00FFFFFF000001FF, 0x00FFFFFF00000101, 0x00FFFFFF0001FF00, 0x00FFFFFF000100FF],
    [0x00FFFFFF00010001, 0x00FFFFFF010000FF, 0x00FFFFFF01000100, 0x00FFFFFF0101FF00, 0x00FFFFFF01010001, 0x00FFFF00FFFFFFFF,
     0x00FFFF00FFFFFF00, 0x00FFFF00FFFF00FF, 0x00FFFF00FFFF0001, 0x00FFFF00FFFF0100, 0x00FFFF00FF00FF01, 0x00FFFF00FF000000,
     0x00FFFF00FF000001, 0x00FFFF00FF0001FF, 0x00FFFF00FF000101, 0x00FFFF00FF01FF00, 0x00FFFF00FF010001, 0x00FFFF00FF010100,
     0x00FFFF0000FF0000, 0x00FFFF0000FF01FF, 0x00FFFF0000FF0101, 0x00FFFF000000FF00, 0x00FFFF00000000FF, 0x00FFFF0000000000,
     0x00FFFF0000000001, 0x00FFFF0000000100, 0x00FFFF0000000101, 0x00FFFF0000010000, 0x00FFFF00000101FF, 0x00FFFF0000010101,
     0x00FFFF0001FFFF00, 0x00FFFF0001FF00FF, 0x00FFFF0001FF0001, 0x00FFFF000100FFFF, 0x00FFFF000100FF01, 0x00FFFF0001000000,
     0x00FFFF000101FFFF, 0x00FFFF000101FF00, 0x00FFFF000101FF01, 0x00FFFF01FFFF0000, 0x00FFFF01FF00FF00, 0x00FFFF01FF0000FF,
     0x00FFFF01FF000001, 0x00FFFF01FF010000, 0x00FFFF0100FFFF00, 0x00FFFF010000FF01, 0x00FFFF0100000000, 0x00FFFF0100000101,
     0x00FFFF01000100FF, 0x00FFFF0100010100, 0x00FFFF0101FF0100, 0x00FFFF01010000FF, 0x00FFFF0101010000, 0x00FF00FFFFFFFF00,
     0x00FF00FFFF000000, 0x00FF00FFFF000100, 0x00FF00FFFF010100, 0x00FF00FF00FF0000, 0x00FF00FF00FF01FF, 0x00FF00FF00FF0101,
     0x00FF00FF0000FF00, 0x00FF00FF000000FF, 0x00FF00FF00000000, 0x00FF00FF00000001],
    [0x00FF00FF0001FF00, 0x00FF00FF0001FF01, 0x00FF00FF00010000, 0x00FF00FF000101FF, 0x00FF00FF00010101, 0x00FF00FF01FFFF00,
     0x00FF00FF01FF0001, 0x00FF00FF01FF0100, 0x00FF00FF0100FFFF, 0x00FF00FF0100FF01, 0x00FF00FF01000000, 0x00FF00FF0101FFFF,
     0x00FF00FF0101FF00, 0x00FF00FF01010100, 0x00FF0000FFFFFF00, 0x00FF0000FFFFFF01, 0x00FF0000FFFF0000, 0x00FF0000FFFF0101,
     0x00FF0000FF00FF00, 0x00FF0000FF0000FF, 0x00FF0000FF000000, 0x00FF0000FF000001, 0x00FF0000FF000100, 0x00FF0000FF01FFFF,
     0x00FF0000FF010000, 0x00FF0000FF010101, 0x00FF000000FFFF00, 0x00FF000000FF00FF, 0x00FF000000FF0000, 0x00FF000000FF0001,
     0x00FF000000FF0100, 0x00FF00000000FFFF, 0x00FF00000000FF00, 0x00FF0000000000FF, 0x00FF000000000000, 0x00FF000000000001,
     0x00FF0000000001FF, 0x00FF000000000100, 0x00FF00000001FF00, 0x00FF0000000100FF, 0x00FF000000010000, 0x00FF000000010001,
     0x00FF000000010100, 0x00FF000001FFFF01, 0x00FF000001FF00FF, 0x00FF000001FF0000, 0x00FF000001FF01FF, 0x00FF00000100FF00,
     0x00FF0000010000FF, 0x00FF000001000000, 0x00FF000001000001, 0x00FF000001000100, 0x00FF000001000101, 0x00FF000001010000,
     0x00FF0000010101FF, 0x00FF000001010101, 0x00FF0001FFFFFF00, 0x00FF0001FFFF0000, 0x00FF0001FFFF0100, 0x00FF0001FF0000FF,
     0x00FF0001FF000000, 0x00FF0001FF0001FF, 0x00FF0001FF000101, 0x00FF0001FF01FF00],
    [0x00FF0001FF0100FF, 0x00FF0001FF010100, 0x00FF000100FFFFFF, 0x00FF000100FFFF01, 0x00FF000100FF0000, 0x00FF000100FF01FF,
     0x00FF00010000FFFF, 0x00FF00010000FF00, 0x00FF00010000FF01, 0x00FF000100000000, 0x00FF000100000001, 0x00FF000100000100,
     0x00FF00010001FF01, 0x00FF000100010000, 0x00FF0001000101FF, 0x00FF000101FFFF00, 0x00FF000101FF0000, 0x00FF000101FF0101,
     0x00FF0001010000FF, 0x00FF000101000000, 0x00FF00010101FF00, 0x00FF0001010100FF, 0x00FF000101010001, 0x00FF01FFFFFF0000,
     0x00FF01FFFF00FF00, 0x00FF01FFFF000000, 0x00FF01FFFF000101, 0x00FF01FFFF010000, 0x00FF01FF00FFFF01, 0x00FF01FF00FF0100,
     0x00FF01FF0000FFFF, 0x00FF01FF00000000, 0x00FF01FF000001FF, 0x00FF01FF0001FF00, 0x00FF01FF000100FF, 0x00FF01FF00010001,
     0x00FF01FF00010100, 0x00FF01FF01FF0000, 0x00FF01FF0100FF00, 0x00FF01FF010000FF, 0x00FF01FF01000001, 0x00FF01FF01000100,
     0x00FF01FF01010000, 0x00FF0100FFFFFF00, 0x00FF0100FFFF0000, 0x00FF0100FFFF0001, 0x00FF0100FFFF0101, 0x00FF0100FF00FFFF,
     0x00FF0100FF0000FF, 0x00FF0100FF000000, 0x00FF0100FF0001FF, 0x00FF0100FF01FF00, 0x00FF0100FF0100FF, 0x00FF0100FF010001,
     0x00FF010000FFFFFF, 0x00FF010000FF0000, 0x00FF010000FF0101, 0x00FF01000000FF00, 0x00FF01000000FF01, 0x00FF0100000000FF,
     0x00FF010000000000, 0x00FF010000000001, 0x00FF010000000100, 0x00FF01000001FFFF],
    [0x00FF01000001FF01, 0x00FF010000010000, 0x00FF010000010001, 0x00FF010000010101, 0x00FF010001FF0001, 0x00FF010001FF0100,
     0x00FF01000100FF01, 0x00FF010001000000, 0x00FF010001000001, 0x00FF0100010001FF, 0x00FF01000101FF00, 0x00FF0100010100FF,
     0x00FF010001010001, 0x00FF010001010100, 0x00FF0101FF000001, 0x00FF010100FF00FF, 0x00FF010100FF0001, 0x00FF010100FF0100,
     0x00FF010100000000, 0x00FF0101000001FF, 0x00FF010100000101, 0x00FF0101000100FF, 0x00FF010100010100, 0x00FF0101010000FF,
     0x00FF010101010000, 0x0000FFFFFFFFFF00, 0x0000FFFFFFFF00FF, 0x0000FFFFFFFF0000, 0x0000FFFFFFFF0001, 0x0000FFFFFFFF0100,
     0x0000FFFFFF00FF01, 0x0000FFFFFF000000, 0x0000FFFFFF000101, 0x0000FFFFFF01FF00, 0x0000FFFFFF0100FF, 0x0000FFFFFF010100,
     0x0000FFFF00FFFFFF, 0x0000FFFF00FF0000, 0x0000FFFF00FF01FF, 0x0000FFFF0000FF00, 0x0000FFFF000000FF, 0x0000FFFF00000000,
     0x0000FFFF00000001, 0x0000FFFF00000100, 0x0000FFFF00010000, 0x0000FFFF000101FF, 0x0000FFFF01FF0001, 0x0000FFFF01FF0100,
     0x0000FFFF01000000, 0x0000FFFF010001FF, 0x0000FFFF0101FFFF, 0x0000FFFF0101FF00, 0x0000FFFF01010001, 0x0000FFFF01010100,
     0x0000FF00FFFF0000, 0x0000FF00FFFF01FF, 0x0000FF00FFFF0100, 0x0000FF00FFFF0101, 0x0000FF00FF00FF00, 0x0000FF00FF0000FF,
     0x0000FF00FF000000, 0x0000FF00FF000001, 0x0000FF00FF0001FF, 0x0000FF00FF000100],
    [0x0000FF00FF01FFFF, 0x0000FF00FF010000, 0x0000FF00FF010001, 0x0000FF00FF0101FF, 0x0000FF00FF010101, 0x0000FF0000FFFF00,
     0x0000FF0000FF00FF, 0x0000FF0000FF0000, 0x0000FF0000FF0001, 0x0000FF0000FF0100, 0x0000FF000000FFFF, 0x0000FF000000FF00,
     0x0000FF000000FF01, 0x0000FF00000000FF, 0x0000FF0000000000, 0x0000FF0000000001, 0x0000FF00000001FF, 0x0000FF0000000100,
     0x0000FF0000000101, 0x0000FF000001FF00, 0x0000FF00000100FF, 0x0000FF0000010000, 0x0000FF0000010001, 0x0000FF0000010100,
     0x0000FF0001FFFF01, 0x0000FF0001FF0000, 0x0000FF000100FF00, 0x0000FF00010000FF, 0x0000FF0001000000, 0x0000FF0001000001,
     0x0000FF0001000100, 0x0000FF000101FFFF, 0x0000FF0001010000, 0x0000FF0001010101, 0x0000FF01FFFFFF00, 0x0000FF01FFFF0001,
     0x0000FF01FF00FF01, 0x0000FF01FF000000, 0x0000FF01FF000101, 0x0000FF01FF01FF00, 0x0000FF01FF0100FF, 0x0000FF0100FFFF01,
     0x0000FF0100FF0000, 0x0000FF0100FF0101, 0x0000FF010000FF00, 0x0000FF01000000FF, 0x0000FF0100000000, 0x0000FF0100000001,
     0x0000FF0100000100, 0x0000FF010001FF01, 0x0000FF0100010000, 0x0000FF0101FF0000, 0x0000FF010100FFFF, 0x0000FF010100FF01,
     0x0000FF0101000000, 0x0000FF0101000100, 0x0000FF0101000101, 0x0000FF01010100FF, 0x000000FFFFFF00FF, 0x000000FFFFFF0000,
     0x000000FFFF00FF00, 0x000000FFFF0000FF, 0x000000FFFF000000, 0x000000FFFF000001],
    [0x000000FFFF0001FF, 0x000000FFFF000100, 0x000000FFFF01FF00, 0x000000FFFF010000, 0x000000FFFF0101FF, 0x000000FFFF010101,
     0x000000FF00FFFF00, 0x000000FF00FF00FF, 0x000000FF00FF0000, 0x000000FF00FF0001, 0x000000FF00FF0100, 0x000000FF00FF0101,
     0x000000FF0000FFFF, 0x000000FF0000FF00, 0x000000FF000000FF, 0x000000FF00000000, 0x000000FF00000001, 0x000000FF000001FF,
     0x000000FF00000100, 0x000000FF00000101, 0x000000FF0001FF00, 0x000000FF0001FF01, 0x000000FF000100FF, 0x000000FF00010000,
     0x000000FF00010001, 0x000000FF00010100, 0x000000FF01FFFFFF, 0x000000FF01FF01FF, 0x000000FF01FF0101, 0x000000FF0100FF00,
     0x000000FF010000FF, 0x000000FF01000000, 0x000000FF01000001, 0x000000FF01000100, 0x000000FF0101FF00, 0x000000FF010100FF,
     0x000000FF01010000, 0x000000FF01010101, 0x00000000FFFFFF00, 0x00000000FFFFFF01, 0x00000000FFFF00FF, 0x00000000FFFF0000,
     0x00000000FFFF0001, 0x00000000FFFF0100, 0x00000000FF00FFFF, 0x00000000FF00FF00, 0x00000000FF00FF01, 0x00000000FF0000FF,
     0x00000000FF000000, 0x00000000FF000001, 0x00000000FF000100, 0x00000000FF000101, 0x00000000FF01FF00, 0x00000000FF0100FF,
     0x00000000FF010000, 0x00000000FF010001, 0x00000000FF010100, 0x0000000000FFFFFF, 0x0000000000FFFF00, 0x0000000000FFFF01,
     0x0000000000FF00FF, 0x0000000000FF0000, 0x0000000000FF0001, 0x0000000000FF01FF],
    [0x0000000000FF0100, 0x000000000000FFFF, 0x000000000000FF00, 0x000000000000FF01, 0x00000000000000FF, 0x0000000000000000,
     0x0000000000000001, 0x00000000000001FF, 0x0000000000000100, 0x0000000000000101, 0x000000000001FFFF, 0x000000000001FF00,
     0x00000000000100FF, 0x0000000000010000, 0x0000000000010001, 0x00000000000101FF, 0x0000000000010100, 0x0000000000010101,
     0x0000000001FFFF00, 0x0000000001FF00FF, 0x0000000001FF0000, 0x0000000001FF0100, 0x0000000001FF0101, 0x000000000100FFFF,
     0x000000000100FF00, 0x00000000010000FF, 0x0000000001000000, 0x0000000001000001, 0x00000000010001FF, 0x0000000001000100,
     0x000000000101FF00, 0x00000000010100FF, 0x0000000001010000, 0x0000000001010001, 0x0000000001010100, 0x00000001FFFFFFFF,
     0x00000001FFFFFF00, 0x00000001FFFFFF01, 0x00000001FFFF00FF, 0x00000001FFFF0001, 0x00000001FFFF01FF, 0x00000001FFFF0100,
     0x00000001FF00FF00, 0x00000001FF0000FF, 0x00000001FF000000, 0x00000001FF0001FF, 0x00000001FF000100, 0x00000001FF01FFFF,
     0x00000001FF01FF00, 0x00000001FF01FF01, 0x00000001FF0100FF, 0x00000001FF010000, 0x00000001FF010001, 0x00000001FF0101FF,
     0x00000001FF010100, 0x0000000100FFFF00, 0x0000000100FF0000, 0x0000000100FF0001, 0x0000000100FF01FF, 0x0000000100FF0100,
     0x0000000100FF0101, 0x000000010000FFFF, 0x000000010000FF00, 0x000000010000FF01],
    [0x00000001000000FF, 0x0000000100000000, 0x0000000100000001, 0x00000001000001FF, 0x0000000100000100, 0x0000000100000101,
     0x000000010001FF00, 0x00000001000100FF, 0x0000000100010000, 0x0000000100010100, 0x0000000101FFFF01, 0x0000000101FF0000,
     0x0000000101FF0001, 0x0000000101FF01FF, 0x0000000101FF0100, 0x0000000101FF0101, 0x000000010100FF00, 0x0000000101000000,
     0x0000000101000101, 0x000000010101FF01, 0x0000000101010000, 0x0000000101010001, 0x00000001010101FF, 0x0000000101010100,
     0x000001FFFFFF00FF, 0x000001FFFFFF0000, 0x000001FFFFFF0001, 0x000001FFFFFF0100, 0x000001FFFF00FFFF, 0x000001FFFF000000,
     0x000001FFFF0001FF, 0x000001FFFF01FF00, 0x000001FFFF010101, 0x000001FF00FF0000, 0x000001FF00FF01FF, 0x000001FF00FF0101,
     0x000001FF0000FF00, 0x000001FF000000FF, 0x000001FF00000000, 0x000001FF00000001, 0x000001FF000001FF, 0x000001FF00000100,
     0x000001FF0001FFFF, 0x000001FF0001FF01, 0x000001FF000100FF, 0x000001FF00010000, 0x000001FF01FFFF01, 0x000001FF01FF0100,
     0x000001FF0100FFFF, 0x000001FF0100FF01, 0x000001FF01000000, 0x000001FF010001FF, 0x000001FF0101FF00, 0x000001FF01010100,
     0x00000100FFFFFF00, 0x00000100FFFFFF01, 0x00000100FFFF0000, 0x00000100FFFF0101, 0x00000100FF00FF00, 0x00000100FF0000FF,
     0x00000100FF000000, 0x00000100FF000001, 0x00000100FF000100, 0x00000100FF010000],
    [0x0000010000FFFF00, 0x0000010000FF00FF, 0x0000010000FF0000, 0x0000010000FF0001, 0x0000010000FF0100, 0x000001000000FFFF,
     0x000001000000FF00, 0x000001000000FF01, 0x00000100000000FF, 0x0000010000000000, 0x0000010000000001, 0x00000100000001FF,
     0x0000010000000100, 0x0000010000000101, 0x000001000001FF00, 0x00000100000100FF, 0x0000010000010000, 0x0000010000010001,
     0x0000010000010100, 0x0000010001FFFF00, 0x0000010001FF0000, 0x0000010001FF0100, 0x000001000100FF00, 0x00000100010000FF,
     0x0000010001000000, 0x0000010001000001, 0x00000100010001FF, 0x0000010001000100, 0x0000010001010000, 0x00000101FFFF00FF,
     0x00000101FFFF01FF, 0x00000101FF000000, 0x00000101FF000101, 0x00000101FF01FFFF, 0x00000101FF010000, 0x00000101FF010001,
     0x00000101FF010100, 0x0000010100FF0000, 0x0000010100FF01FF, 0x0000010100FF0100, 0x000001010000FF00, 0x0000010100000000,
     0x0000010100000001, 0x00000101000001FF, 0x0000010100000100, 0x000001010001FF01, 0x0000010100010000, 0x00000101000101FF,
     0x0000010100010101, 0x0000010101FFFF00, 0x0000010101FF0101, 0x000001010100FF01, 0x0000010101000000, 0x0000010101000001,
     0x00000101010001FF, 0x0000010101000101, 0x000001010101FF00, 0x0001FFFFFFFF0000, 0x0001FFFFFF0000FF, 0x0001FFFFFF000001,
     0x0001FFFFFF000100, 0x0001FFFFFF010000, 0x0001FFFF00FF00FF, 0x0001FFFF0000FFFF],
    [0x0001FFFF00000000, 0x0001FFFF00000001, 0x0001FFFF000001FF, 0x0001FFFF00000101, 0x0001FFFF0001FF00, 0x0001FFFF000100FF,
     0x0001FFFF00010001, 0x0001FFFF00010100, 0x0001FFFF01FFFF00, 0x0001FFFF01000001, 0x0001FFFF01010000, 0x0001FF00FFFFFF00,
     0x0001FF00FFFF00FF, 0x0001FF00FFFF0001, 0x0001FF00FFFF0100, 0x0001FF00FF00FF01, 0x0001FF00FF000000, 0x0001FF00FF01FF00,
     0x0001FF00FF01FF01, 0x0001FF00FF010001, 0x0001FF00FF010100, 0x0001FF0000FF0000, 0x0001FF0000FF0100, 0x0001FF000000FF00,
     0x0001FF0000000000, 0x0001FF0000000001, 0x0001FF0000000100, 0x0001FF0000010000, 0x0001FF0000010001, 0x0001FF0000010101,
     0x0001FF0001FF00FF, 0x0001FF0001FF0101, 0x0001FF000100FF01, 0x0001FF0001000000, 0x0001FF000101FF00, 0x0001FF0001010001,
     0x0001FF0001010100, 0x0001FF01FF00FF00, 0x0001FF01FF000001, 0x0001FF01FF000100, 0x0001FF0100FFFFFF, 0x0001FF0100FFFF00,
     0x0001FF0100FF0001, 0x0001FF0100000000, 0x0001FF0100000001, 0x0001FF01000001FF, 0x0001FF010001FFFF, 0x0001FF0101FF0000,
     0x0001FF010100FF00, 0x0001FF0101000001, 0x0001FF0101010000, 0x000100FFFF00FF00, 0x000100FFFF00FF01, 0x000100FFFF000000,
     0x000100FFFF000001, 0x000100FFFF000101, 0x000100FFFF01FF00, 0x000100FFFF010001, 0x000100FFFF010100, 0x000100FF00FFFFFF,
     0x000100FF00FFFF01, 0x000100FF00FF0000, 0x000100FF00FF01FF, 0x000100FF00FF0101],
    [0x000100FF0000FF00, 0x000100FF000000FF, 0x000100FF00000000, 0x000100FF00000001, 0x000100FF00000100, 0x000100FF00000101,
     0x000100FF0001FFFF, 0x000100FF0001FF01, 0x000100FF00010000, 0x000100FF01FF00FF, 0x000100FF01FF0000, 0x000100FF01FF0100,
     0x000100FF0100FFFF, 0x000100FF0100FF01, 0x000100FF010000FF, 0x000100FF01000000, 0x000100FF01000001, 0x000100FF010001FF,
     0x000100FF01000101, 0x000100FF0101FF00, 0x000100FF010100FF, 0x000100FF01010100, 0x00010000FFFF0000, 0x00010000FFFF01FF,
     0x00010000FFFF0101, 0x00010000FF00FF00, 0x00010000FF000000, 0x00010000FF000001, 0x00010000FF000100, 0x0001000000FF00FF,
     0x0001000000FF0000, 0x0001000000FF0001, 0x0001000000FF0100, 0x000100000000FFFF, 0x000100000000FF00, 0x00010000000000FF,
     0x0001000000000000, 0x0001000000000001, 0x0001000000000100, 0x000100000001FF00, 0x00010000000100FF, 0x0001000000010000,
     0x0001000000010001, 0x0001000000010100, 0x0001000001FF0001, 0x0001000001FF0100, 0x0001000001FF0101, 0x000100000100FF00,
     0x0001000001000000, 0x0001000001000001, 0x0001000001000100, 0x0001000001000101, 0x000100000101FF01, 0x0001000001010000,
     0x0001000001010001, 0x00010000010101FF, 0x00010001FFFFFF01, 0x00010001FFFF0100, 0x00010001FF000000, 0x00010001FF01FFFF,
     0x00010001FF010001, 0x00010001FF0101FF, 0x00010001FF010100, 0x0001000100FFFFFF],
    [0x0001000100FF0000, 0x0001000100FF01FF, 0x0001000100FF0101, 0x000100010000FF00, 0x00010001000000FF, 0x0001000100000000,
     0x0001000100000001, 0x00010001000001FF, 0x0001000100000101, 0x000100010001FFFF, 0x0001000100010000, 0x00010001000101FF,
     0x0001000101FFFFFF, 0x0001000101FFFF01, 0x0001000101FF0000, 0x0001000101FF0101, 0x00010001010000FF, 0x0001000101000001,
     0x00010001010001FF, 0x0001000101000100, 0x000100010101FFFF, 0x00010001010100FF, 0x0001000101010001, 0x0001000101010101,
     0x000101FFFF000001, 0x000101FFFF000100, 0x000101FFFF010000, 0x000101FF00FFFF00, 0x000101FF0000FF01, 0x000101FF00000000,
     0x000101FF00000101, 0x000101FF0001FF00, 0x000101FF00010100, 0x000101FF01FF0000, 0x000101FF0100FF00, 0x000101FF010001FF,
     0x000101FF01010001, 0x00010100FFFFFF00, 0x00010100FFFF00FF, 0x00010100FF00FFFF, 0x00010100FF000000, 0x00010100FF01FF00,
     0x00010100FF0100FF, 0x00010100FF010001, 0x00010100FF010100, 0x0001010000FFFFFF, 0x0001010000FFFF00, 0x0001010000FF0000,
     0x0001010000FF0001, 0x0001010000FF01FF, 0x000101000000FF00, 0x00010100000000FF, 0x0001010000000000, 0x0001010000000001,
     0x0001010000000100, 0x000101000001FFFF, 0x0001010000010000, 0x0001010000010101, 0x0001010001FFFF01, 0x0001010001FF00FF,
     0x0001010001FF0101, 0x0001010001000000, 0x000101000101FF00, 0x00010100010100FF],
    [0x0001010001010000, 0x0001010001010100, 0x00010101FF00FF00, 0x00010101FF000001, 0x00010101FF0001FF, 0x0001010100FFFF00,
     0x0001010100FF00FF, 0x0001010100FF0100, 0x000101010000FFFF, 0x0001010100000000, 0x00010101000001FF, 0x0001010100000101,
     0x00010101000100FF, 0x0001010100010000, 0x0001010100010100, 0x0001010101FF0001, 0x00010101010000FF, 0x00010101010001FF,
     0x0001010101000101, 0x0001010101010001, 0x01FFFFFFFFFFFFFF, 0x01FFFFFFFFFFFF01, 0x01FFFFFFFFFF01FF, 0x01FFFFFFFFFF0101,
     0x01FFFFFFFF01FFFF, 0x01FFFFFFFF01FF01, 0x01FFFFFFFF0101FF, 0x01FFFFFFFF010101, 0x01FFFFFF00FF0000, 0x01FFFFFF0000FFFF,
     0x01FFFFFF0000FF00, 0x01FFFFFF000000FF, 0x01FFFFFF00000001, 0x01FFFFFF00000100, 0x01FFFFFF00010000, 0x01FFFFFF01FFFFFF,
     0x01FFFFFF01FFFF01, 0x01FFFFFF01FF01FF, 0x01FFFFFF01FF0101, 0x01FFFFFF01000000, 0x01FFFFFF0101FFFF, 0x01FFFFFF0101FF01,
     0x01FFFFFF010101FF, 0x01FFFFFF01010101, 0x01FFFF00FFFF0000, 0x01FFFF00FF00FF00, 0x01FFFF00FF0000FF, 0x01FFFF00FF000001,
     0x01FFFF00FF000100, 0x01FFFF00FF010000, 0x01FFFF0000FFFF00, 0x01FFFF0000FF00FF, 0x01FFFF0000FF0100, 0x01FFFF000000FFFF,
     0x01FFFF000000FF01, 0x01FFFF0000000000, 0x01FFFF0000000001, 0x01FFFF00000001FF, 0x01FFFF0000000100, 0x01FFFF00000100FF,
     0x01FFFF0000010001, 0x01FFFF0000010100, 0x01FFFF0001FF0000, 0x01FFFF0001FF0100],
    [0x01FFFF00010000FF, 0x01FFFF0001000001, 0x01FFFF0001000100, 0x01FFFF0001010000, 0x01FFFF01FFFFFFFF, 0x01FFFF01FFFFFF01,
     0x01FFFF01FFFF01FF, 0x01FFFF01FFFF0101, 0x01FFFF01FF000000, 0x01FFFF01FF01FFFF, 0x01FFFF01FF01FF01, 0x01FFFF01FF0101FF,
     0x01FFFF01FF010101, 0x01FFFF010000FF00, 0x01FFFF01000000FF, 0x01FFFF0100000100, 0x01FFFF0100010000, 0x01FFFF0101FFFFFF,
     0x01FFFF0101FFFF01, 0x01FFFF0101FF01FF, 0x01FFFF0101FF0101, 0x01FFFF0101000000, 0x01FFFF010101FFFF, 0x01FFFF010101FF01,
     0x01FFFF01010101FF, 0x01FFFF0101010101, 0x01FF00FFFF0000FF, 0x01FF00FFFF000100, 0x01FF00FF00FFFF00, 0x01FF00FF00FF00FF,
     0x01FF00FF0000FF00, 0x01FF00FF00000000, 0x01FF00FF00000101, 0x01FF00FF0001FF00, 0x01FF00FF000100FF, 0x01FF00FF00010100,
     0x01FF00FF010000FF, 0x01FF00FF01000100, 0x01FF0000FFFFFF00, 0x01FF0000FFFF0100, 0x01FF0000FF00FF01, 0x01FF0000FF000000,
     0x01FF0000FF000101, 0x01FF0000FF010001, 0x01FF0000FF010100, 0x01FF000000FFFFFF, 0x01FF000000FFFF00, 0x01FF000000FF0000,
     0x01FF000000FF01FF, 0x01FF00000000FF00, 0x01FF0000000000FF, 0x01FF000000000000, 0x01FF000000000001, 0x01FF000000000100,
     0x01FF000000000101, 0x01FF000000010000, 0x01FF000000010001, 0x01FF0000000101FF, 0x01FF000000010101, 0x01FF000001FFFF00,
     0x01FF000001FF00FF, 0x01FF000001FF0001, 0x01FF000001FF0100, 0x01FF00000100FFFF],
    [0x01FF00000100FF01, 0x01FF000001000000, 0x01FF0000010001FF, 0x01FF000001010001, 0x01FF0001FF00FF00, 0x01FF0001FF000001,
     0x01FF0001FF000100, 0x01FF0001FF010000, 0x01FF000100FFFF00, 0x01FF000100FF00FF, 0x01FF000100FF0100, 0x01FF000100FF0101,
     0x01FF00010000FFFF, 0x01FF000100000000, 0x01FF000100000100, 0x01FF000100000101, 0x01FF00010001FF00, 0x01FF000100010001,
     0x01FF000100010101, 0x01FF000101FF0000, 0x01FF00010100FF00, 0x01FF000101000101, 0x01FF0001010100FF, 0x01FF01FFFFFFFFFF,
     0x01FF01FFFFFFFF01, 0x01FF01FFFFFF01FF, 0x01FF01FFFFFF0101, 0x01FF01FFFF000000, 0x01FF01FFFF01FFFF, 0x01FF01FFFF01FF01,
     0x01FF01FFFF0101FF, 0x01FF01FFFF010101, 0x01FF01FF00FFFF00, 0x01FF01FF00FF0000, 0x01FF01FF0000FF00, 0x01FF01FF000000FF,
     0x01FF01FF00000100, 0x01FF01FF00010000, 0x01FF01FF00010100, 0x01FF01FF01FFFFFF, 0x01FF01FF01FFFF01, 0x01FF01FF01FF01FF,
     0x01FF01FF01FF0101, 0x01FF01FF01000000, 0x01FF01FF0101FFFF, 0x01FF01FF0101FF01, 0x01FF01FF010101FF, 0x01FF01FF01010101,
     0x01FF0100FFFF0000, 0x01FF0100FFFF0001, 0x01FF0100FF00FF00, 0x01FF0100FF0000FF, 0x01FF0100FF000001, 0x01FF0100FF010000,
     0x01FF010000FFFF00, 0x01FF010000FF00FF, 0x01FF010000FF0001, 0x01FF010000FF0100, 0x01FF01000000FFFF, 0x01FF01000000FF01,
     0x01FF010000000000, 0x01FF010000000101, 0x01FF01000001FF00, 0x01FF0100000100FF],
    [0x01FF010001FF0000, 0x01FF010001000001, 0x01FF010001000100, 0x01FF010001010000, 0x01FF0101FFFFFFFF, 0x01FF0101FFFFFF01,
     0x01FF0101FFFF01FF, 0x01FF0101FFFF0101, 0x01FF0101FF000000, 0x01FF0101FF01FFFF, 0x01FF0101FF01FF01, 0x01FF0101FF0101FF,
     0x01FF0101FF010101, 0x01FF010100FF0000, 0x01FF01010000FF00, 0x01FF0101000000FF, 0x01FF010100000001, 0x01FF010101FFFFFF,
     0x01FF010101FFFF01, 0x01FF010101FF01FF, 0x01FF010101FF0101, 0x01FF010101000000, 0x01FF01010101FFFF, 0x01FF01010101FF01,
     0x01FF0101010101FF, 0x01FF010101010101, 0x0100FFFFFFFF0000, 0x0100FFFFFF00FF00, 0x0100FFFFFF000001, 0x0100FFFFFF0001FF,
     0x0100FFFFFF000100, 0x0100FFFFFF010000, 0x0100FFFF00FFFF00, 0x0100FFFF00FF0001, 0x0100FFFF00FF0100, 0x0100FFFF00000000,
     0x0100FFFF000001FF, 0x0100FFFF00000101, 0x0100FFFF00010100, 0x0100FFFF00010101, 0x0100FFFF01FF0000, 0x0100FFFF0100FF00,
     0x0100FFFF010000FF, 0x0100FFFF01000001, 0x0100FFFF01000100, 0x0100FFFF01010000, 0x0100FF00FFFFFF00, 0x0100FF00FFFF00FF,
     0x0100FF00FFFF0001, 0x0100FF00FFFF0100, 0x0100FF00FF00FFFF, 0x0100FF00FF000000, 0x0100FF00FF0001FF, 0x0100FF00FF000101,
     0x0100FF00FF01FF00, 0x0100FF00FF0100FF, 0x0100FF00FF010001, 0x0100FF00FF010100, 0x0100FF0000FFFFFF, 0x0100FF0000FF0000,
     0x0100FF000000FFFF, 0x0100FF000000FF00, 0x0100FF00000000FF, 0x0100FF0000000000],
    [0x0100FF0000000001, 0x0100FF0000000100, 0x0100FF000001FF01, 0x0100FF0000010000, 0x0100FF0001FF00FF, 0x0100FF0001FF0001,
     0x0100FF000100FF01, 0x0100FF0001000000, 0x0100FF00010001FF, 0x0100FF000101FF00, 0x0100FF00010100FF, 0x0100FF0001010001,
     0x0100FF0001010100, 0x0100FF01FFFF0000, 0x0100FF01FF00FF00, 0x0100FF01FF0000FF, 0x0100FF01FF000100, 0x0100FF01FF010000,
     0x0100FF0100FF00FF, 0x0100FF0100FF0001, 0x0100FF0100FF0100, 0x0100FF010000FFFF, 0x0100FF010000FF01, 0x0100FF0100000000,
     0x0100FF01000001FF, 0x0100FF0100010001, 0x0100FF0100010100, 0x0100FF0101FF0000, 0x0100FF01010000FF, 0x0100FF0101000001,
     0x0100FF0101010100, 0x010000FFFFFFFF00, 0x010000FFFFFF00FF, 0x010000FFFFFF0001, 0x010000FFFF00FFFF, 0x010000FFFF000000,
     0x010000FFFF0001FF, 0x010000FFFF010001, 0x010000FF00FFFFFF, 0x010000FF00FF0101, 0x010000FF0000FF00, 0x010000FF000000FF,
     0x010000FF00000000, 0x010000FF00000001, 0x010000FF000001FF, 0x010000FF00000100, 0x010000FF0001FFFF, 0x010000FF0001FF00,
     0x010000FF0001FF01, 0x010000FF00010000, 0x010000FF01FF00FF, 0x010000FF01FF0001, 0x010000FF0100FF01, 0x010000FF010000FF,
     0x010000FF01000000, 0x010000FF010001FF, 0x010000FF0101FF00, 0x010000FF01010100, 0x01000000FFFFFFFF, 0x01000000FFFF0000,
     0x01000000FFFF01FF, 0x01000000FFFF0101, 0x01000000FF00FFFF, 0x01000000FF00FF00],
    [0x01000000FF0000FF, 0x01000000FF000000, 0x01000000FF000001, 0x01000000FF000100, 0x01000000FF01FF00, 0x01000000FF010000,
     0x01000000FF010100, 0x01000000FF010101, 0x0100000000FFFF00, 0x0100000000FF00FF, 0x0100000000FF0000, 0x0100000000FF0001,
     0x0100000000FF0100, 0x010000000000FFFF, 0x010000000000FF00, 0x010000000000FF01, 0x01000000000000FF, 0x0100000000000000,
     0x0100000000000001, 0x01000000000001FF, 0x0100000000000100, 0x0100000000000101, 0x010000000001FF00, 0x01000000000100FF,
     0x0100000000010000, 0x0100000000010001, 0x0100000000010100, 0x0100000001FFFF00, 0x0100000001FF0000, 0x0100000001FF01FF,
     0x010000000100FF00, 0x010000000100FF01, 0x01000000010000FF, 0x0100000001000000, 0x0100000001000001, 0x0100000001000100,
     0x0100000001000101, 0x010000000101FFFF, 0x010000000101FF01, 0x0100000001010000, 0x01000000010101FF, 0x0100000001010101,
     0x01000001FFFFFF00, 0x01000001FFFF00FF, 0x01000001FF00FFFF, 0x01000001FF000000, 0x01000001FF000100, 0x01000001FF01FFFF,
     0x01000001FF010001, 0x01000001FF010100, 0x0100000100FF0000, 0x0100000100FF01FF, 0x0100000100FF0100, 0x010000010000FF00,
     0x010000010000FF01, 0x0100000100000000, 0x0100000100000001, 0x0100000100000100, 0x0100000100010000, 0x01000001000101FF,
     0x0100000101FFFF01, 0x0100000101FF00FF, 0x0100000101FF0100, 0x0100000101FF0101],
    [0x010000010100FF01, 0x01000001010000FF, 0x0100000101000000, 0x01000001010100FF, 0x0100000101010001, 0x0100000101010100,
     0x010001FFFFFF0000, 0x010001FFFF000001, 0x010001FFFF000100, 0x010001FFFF010000, 0x010001FF00FFFF00, 0x010001FF00FF0001,
     0x010001FF0000FFFF, 0x010001FF0000FF01, 0x010001FF00000000, 0x010001FF00000001, 0x010001FF00000101, 0x010001FF000100FF,
     0x010001FF00010000, 0x010001FF01FF0000, 0x010001FF0100FF00, 0x010001FF01000001, 0x010001FF01000100, 0x010001FF01010000,
     0x01000100FFFF00FF, 0x01000100FFFF0001, 0x01000100FFFF0100, 0x01000100FF00FFFF, 0x01000100FF00FF01, 0x01000100FF000000,
     0x01000100FF0001FF, 0x01000100FF000101, 0x01000100FF01FFFF, 0x01000100FF01FF00, 0x01000100FF0100FF, 0x01000100FF010001,
     0x0100010000FFFFFF, 0x0100010000FFFF01, 0x0100010000FF0000, 0x0100010000FF01FF, 0x0100010000FF0101, 0x010001000000FF00,
     0x01000100000000FF, 0x0100010000000000, 0x0100010000000001, 0x0100010000000100, 0x010001000001FF01, 0x0100010000010000,
     0x0100010000010001, 0x0100010000010101, 0x0100010001FFFF00, 0x0100010001FF00FF, 0x010001000100FFFF, 0x010001000100FF01,
     0x0100010001000000, 0x0100010001000101, 0x010001000101FF00, 0x0100010001010001, 0x01000101FFFF0000, 0x01000101FF000000,
     0x01000101FF010000, 0x0100010100FF00FF, 0x0100010100FF0001, 0x0100010100FF0100],
    [0x010001010000FFFF, 0x0100010100000000, 0x01000101000001FF, 0x010001010001FF00, 0x0100010101FF0000, 0x010001010100FF00,
     0x01000101010000FF, 0x0100010101000000, 0x0100010101000001, 0x0101FFFFFFFFFFFF, 0x0101FFFFFFFFFF01, 0x0101FFFFFFFF01FF,
     0x0101FFFFFFFF0101, 0x0101FFFFFF000000, 0x0101FFFFFF01FFFF, 0x0101FFFFFF01FF01, 0x0101FFFFFF0101FF, 0x0101FFFFFF010101,
     0x0101FFFF00FF0000, 0x0101FFFF0000FF00, 0x0101FFFF000000FF, 0x0101FFFF00000001, 0x0101FFFF00000100, 0x0101FFFF01FFFFFF,
     0x0101FFFF01FFFF01, 0x0101FFFF01FF01FF, 0x0101FFFF01FF0101, 0x0101FFFF01000000, 0x0101FFFF0101FFFF, 0x0101FFFF0101FF01,
     0x0101FFFF010101FF, 0x0101FFFF01010101, 0x0101FF00FFFF0000, 0x0101FF00FFFF0100, 0x0101FF00FF00FF00, 0x0101FF00FF0000FF,
     0x0101FF00FF000001, 0x0101FF00FF000100, 0x0101FF00FF000101, 0x0101FF0000FF0001, 0x0101FF0000FF0100, 0x0101FF000000FF00,
     0x0101FF0000000000, 0x0101FF00000001FF, 0x0101FF0000000101, 0x0101FF000001FF00, 0x0101FF00000100FF, 0x0101FF0001FF0000,
     0x0101FF000100FFFF, 0x0101FF000100FF01, 0x0101FF0001000001, 0x0101FF0001000100, 0x0101FF01FFFFFF01, 0x0101FF01FFFF01FF,
     0x0101FF01FFFF0101, 0x0101FF01FF00FFFF, 0x0101FF01FF000100, 0x0101FF01FF01FF01, 0x0101FF01FF0101FF, 0x0101FF01FF010101,
     0x0101FF0100FF0000, 0x0101FF010000FF00, 0x0101FF0100000001, 0x0101FF0100000100],
    [0x0101FF0100010000, 0x0101FF0101FFFFFF, 0x0101FF0101FFFF01, 0x0101FF0101FF01FF, 0x0101FF0101FF0101, 0x0101FF0101000000,
     0x0101FF010101FFFF, 0x0101FF010101FF01, 0x0101FF01010101FF, 0x0101FF0101010101, 0x010100FFFF000100, 0x010100FFFF010000,
     0x010100FF00FFFF00, 0x010100FF00FF00FF, 0x010100FF0000FFFF, 0x010100FF000000FF, 0x010100FF00000000, 0x010100FF000001FF,
     0x010100FF00000101, 0x010100FF0001FF00, 0x010100FF00010000, 0x010100FF00010001, 0x010100FF000101FF, 0x010100FF00010100,
     0x010100FF01FF0000, 0x01010000FFFF0001, 0x01010000FFFF0100, 0x01010000FF00FFFF, 0x01010000FF00FF01, 0x01010000FF000000,
     0x01010000FF0001FF, 0x01010000FF010001, 0x01010000FF010100, 0x0101000000FFFF01, 0x0101000000FF0000, 0x010100000000FF00,
     0x01010000000000FF, 0x0101000000000000, 0x0101000000000001, 0x0101000000000100, 0x0101000000010000, 0x0101000000010101,
     0x0101000001FFFF00, 0x0101000001FF00FF, 0x0101000001FF0000, 0x0101000001FF0001, 0x0101000001FF0100, 0x010100000100FF01,
     0x0101000001000000, 0x01010000010001FF, 0x01010001FFFF0000, 0x01010001FF00FF00, 0x01010001FF000001, 0x01010001FF000101,
     0x01010001FF01FF00, 0x01010001FF010000, 0x0101000100FF00FF, 0x0101000100FF0001, 0x0101000100FF0101, 0x010100010000FF01,
     0x0101000100000000, 0x0101000100000001, 0x01010001000001FF, 0x010100010001FFFF],
    [0x010100010001FF01, 0x0101000101FF0001, 0x010100010100FFFF, 0x0101000101000000, 0x0101000101000001, 0x0101000101000100,
     0x010100010101FF00, 0x01010001010100FF, 0x0101000101010001, 0x010101FFFFFFFFFF, 0x010101FFFFFFFF01, 0x010101FFFFFF01FF,
     0x010101FFFFFF0101, 0x010101FFFF01FFFF, 0x010101FFFF01FF01, 0x010101FFFF0101FF, 0x010101FFFF010101, 0x010101FF0000FF00,
     0x010101FF000000FF, 0x010101FF00000001, 0x010101FF00000100, 0x010101FF01FFFFFF, 0x010101FF01FFFF01, 0x010101FF01FF01FF,
     0x010101FF01FF0101, 0x010101FF01000000, 0x010101FF0101FFFF, 0x010101FF0101FF01, 0x010101FF010101FF, 0x010101FF01010101,
     0x01010100FFFF0000, 0x01010100FF0000FF, 0x01010100FF000100, 0x01010100FF01FF00, 0x01010100FF010000, 0x0101010000FFFF00,
     0x010101000000FFFF, 0x0101010000000000, 0x0101010000000101, 0x010101000001FF00, 0x0101010000010001, 0x0101010000010100,
     0x010101000100FFFF, 0x0101010001000001, 0x01010101FFFFFFFF, 0x01010101FFFFFF01, 0x01010101FFFF01FF, 0x01010101FFFF0101,
     0x01010101FF01FFFF, 0x01010101FF01FF01, 0x01010101FF0101FF, 0x01010101FF010101, 0x010101010000FF00, 0x01010101000000FF,
     0x0101010100000001, 0x0101010101FFFFFF, 0x0101010101FFFF01, 0x0101010101FF01FF, 0x0101010101FF0101, 0x0101010101000000,
     0x010101010101FFFF, 0x010101010101FF01, 0x01010101010101FF, 0x0101010101010101]]"

lemma length_iq2xxs_grid [simp]: "length iq2xxs_grid = 256"
  by (simp add: iq2xxs_grid_def)

lemma length_iq2xs_grid [simp]: "length iq2xs_grid = 512"
  by (simp add: iq2xs_grid_def)

lemma length_iq2s_grid [simp]: "length iq2s_grid = 1024"
  by (simp add: iq2s_grid_def)

lemma length_iq3xxs_grid [simp]: "length iq3xxs_grid = 256"
  by (simp add: iq3xxs_grid_def)

lemma length_iq3s_grid [simp]: "length iq3s_grid = 512"
  by (simp add: iq3s_grid_def)

lemma length_ksigns_iq2xs [simp]: "length ksigns_iq2xs = 128"
  by (simp add: ksigns_iq2xs_def)

lemma length_kmask_iq2xs [simp]: "length kmask_iq2xs = 8"
  by (simp add: kmask_iq2xs_def)

lemma length_iq1s_grid [simp]: "length iq1s_grid = 2048"
  by (simp add: iq1s_grid_def)

end
