(* ===== verification/Float8.thy ===== *)
theory Float8
  imports Fp16
begin

text \<open>
  The eight-bit floats of \<^verbatim>\<open>kernels/quantization/quantization_ref.cpp\<close> (E4M3FN and E5M2) and the four-bit float of
  \<^verbatim>\<open>kernels/quantization/microscale_ref.cpp\<close>, over bit patterns. Decoding is exact; encoding rounds to nearest, ties to even,
  and saturates at the largest finite value.
\<close>

unbundle bit_operations_syntax

datatype Float8Format = F8_kE4M3FN | F8_kE5M2

section \<open>Decoding\<close>

text \<open>
  \<^verbatim>\<open>std::ldexp\<close> of a non-negative number: \<open>m * 2 ^ e\<close> rounded to binary32. \<^verbatim>\<open>1.0f + m / 8.0f\<close> is \<open>8 + m\<close> eighths, exactly.
\<close>

definition ldexp32 :: "int \<Rightarrow> int \<Rightarrow> f32" where
  "ldexp32 m e = of_nat (round_mag 23 8 (nat m) e)"

definition fp8_positive :: "u8 \<Rightarrow> Float8Format \<Rightarrow> f32" where
  "fp8_positive code fmt =
     (case fmt of
        F8_kE4M3FN \<Rightarrow>
          let ex = uint (drop_bit 3 code AND 15); mantissa = uint (code AND 7)
          in if ex = 15 \<and> mantissa = 7 then 0x7FC00000
             else if ex = 0 then ldexp32 mantissa (- 9)
             else ldexp32 (8 + mantissa) (ex - 7 - 3)
      | F8_kE5M2 \<Rightarrow>
          let ex = uint (drop_bit 2 code AND 31); mantissa = uint (code AND 3)
          in if ex = 31 then (if mantissa = 0 then 0x7F800000 else 0x7FC00000)
             else if ex = 0 then ldexp32 mantissa (- 16)
             else ldexp32 (4 + mantissa) (ex - 15 - 2))"

definition float8_decode :: "u8 \<Rightarrow> Float8Format \<Rightarrow> f32" where
  "float8_decode code fmt =
     (let v = fp8_positive (code AND 0x7F) fmt in if code AND 0x80 \<noteq> 0 then v XOR 0x80000000 else v)"

section \<open>Encoding\<close>

definition fp8_max_finite :: "Float8Format \<Rightarrow> u8" where
  "fp8_max_finite fmt = (case fmt of F8_kE4M3FN \<Rightarrow> 0x7E | F8_kE5M2 \<Rightarrow> 0x7B)"

text \<open>\<^verbatim>\<open>448.0f\<close> and \<^verbatim>\<open>57344.0f\<close>.\<close>

definition fp8_max_value :: "Float8Format \<Rightarrow> f32" where
  "fp8_max_value fmt = (case fmt of F8_kE4M3FN \<Rightarrow> 0x43E00000 | F8_kE5M2 \<Rightarrow> 0x47600000)"

definition round_right_even :: "u32 \<Rightarrow> int \<Rightarrow> u32" where
  "round_right_even v shift =
     (if shift \<le> 0 then push_bit (nat (- shift)) v
      else if shift > 31 then 0
      else let truncated = drop_bit (nat shift) v;
               remainder = v AND (push_bit (nat shift) 1 - 1);
               halfway = push_bit (nat (shift - 1)) 1
           in truncated + (if remainder > halfway \<or> (remainder = halfway \<and> truncated AND 1 \<noteq> 0) then 1 else 0))"

text \<open>
  The magnitude of a float is its pattern without the sign; on magnitudes \<^verbatim>\<open>>=\<close> is the order of the patterns. The order
  of the tests is the code's: not a number, zero, at least the largest value (infinity included), subnormal, the rest.
\<close>

definition float8_encode :: "f32 \<Rightarrow> Float8Format \<Rightarrow> u8" where
  "float8_encode value fmt =
     (let bits = value AND 0x7FFFFFFF; negative = (value AND 0x80000000 \<noteq> 0)
      in if bits > 0x7F800000 then (case fmt of F8_kE4M3FN \<Rightarrow> 0x7F | F8_kE5M2 \<Rightarrow> 0x7D)
         else if bits = 0 then (if negative then 0x80 else 0)
         else if bits \<ge> 0x7F800000 \<or> bits \<ge> fp8_max_value fmt
         then fp8_max_finite fmt OR (if negative then 0x80 else 0)
         else let source_exponent = uint (drop_bit 23 bits AND 0xFF)
              in if source_exponent = 0 then (if negative then 0x80 else 0)
                 else let unbiased = source_exponent - 127;
                          significand = push_bit 23 1 OR (bits AND 0x7FFFFF);
                          mantissa_bits = (case fmt of F8_kE4M3FN \<Rightarrow> 3 | F8_kE5M2 \<Rightarrow> 2);
                          bias = (case fmt of F8_kE4M3FN \<Rightarrow> 7 | F8_kE5M2 \<Rightarrow> 15);
                          code = (if unbiased < 1 - bias
                                  then round_right_even significand (24 - unbiased - bias - int mantissa_bits)
                                  else let rounded = round_right_even significand (23 - int mantissa_bits);
                                           carry = (rounded = push_bit (mantissa_bits + 1) 1);
                                           rounded = (if carry then drop_bit 1 rounded else rounded);
                                           unbiased = (if carry then unbiased + 1 else unbiased);
                                           encoded = unbiased + bias
                                       in push_bit mantissa_bits (word_of_int encoded) OR
                                          (rounded - push_bit mantissa_bits 1));
                          code = min code (ucast (fp8_max_finite fmt))
                      in ucast (code OR (if negative then 0x80 else 0)))"

section \<open>Rounding to an eight-bit format\<close>

definition fraction_bits :: "Float8Format \<Rightarrow> nat" where
  "fraction_bits fmt = (case fmt of F8_kE4M3FN \<Rightarrow> 3 | F8_kE5M2 \<Rightarrow> 2)"

definition exponent_bits :: "Float8Format \<Rightarrow> nat" where
  "exponent_bits fmt = (case fmt of F8_kE4M3FN \<Rightarrow> 4 | F8_kE5M2 \<Rightarrow> 5)"

lemma unat_round_right_even:
  assumes "0 < k" "k \<le> 31"
  shows "unat (round_right_even v (int k)) = rne_shift (unat v) k"
proof -
  have t: "unat (drop_bit k v) = unat v div 2 ^ k" by (rule unat_drop)
  have r: "unat (v AND (push_bit k 1 - 1)) = unat v mod 2 ^ k"
    by (rule unat_and_mask, rule unat_shift_one(2)) (use assms in simp)
  have h: "2 * unat (push_bit (k - 1) 1 :: u32) = 2 ^ k"
    using assms unat_shift_one(1) [of "k - 1"] by (simp flip: power_Suc)
  have big: "unat v div 2 ^ k < 2147483648"
  proof -
    have "unat v div 2 ^ k \<le> unat v div 2 ^ 1" using assms by (intro div_le_mono2 power_increasing) auto
    then show ?thesis using unat_lt_32 [of v] by simp
  qed
  have "v AND (push_bit k 1 - 1) > push_bit (k - 1) 1 \<longleftrightarrow> 2 * (unat v mod 2 ^ k) > 2 ^ k"
    using r h by (simp add: word_less_nat_alt) linarith
  moreover have "v AND (push_bit k 1 - 1) = push_bit (k - 1) 1 \<longleftrightarrow> 2 * (unat v mod 2 ^ k) = 2 ^ k"
    using r h by (simp add: word_unat_eq_iff) linarith
  moreover have "drop_bit k v AND 1 \<noteq> 0 \<longleftrightarrow> odd (unat v div 2 ^ k)" by (simp only: unat_and_one t)
  moreover have "unat (drop_bit k v + 1) = unat v div 2 ^ k + 1"
    using big t by (simp add: unat_add_lem [THEN iffD1])
  moreover have "nat (int k - 1) = k - 1" using assms by simp
  ultimately show ?thesis
    using assms t by (simp add: round_right_even_def rne_shift_def Let_def)
qed


lemma unat_sign8: "b < 128 \<Longrightarrow> unat (of_nat b OR (if c then 0x80 else 0) :: u8) = (if c then 128 else 0) + b"
  using unat_or_shift [of "0x80 :: u8" 1 7 "of_nat b"]
  by (simp add: unat_of_nat take_bit_nat_eq_self or.commute)

text \<open>The general branch: a normal binary32 number.\<close>

lemma encode_code:
  fixes bits :: u32 and p ew :: nat
  defines "significand \<equiv> push_bit 23 1 OR (bits AND 0x7FFFFF)"
    and "ex \<equiv> unat bits div 2 ^ 23" and "fr \<equiv> unat bits mod 2 ^ 23"
    and "bias \<equiv> 2 ^ (ew - 1) - 1 :: int"
  assumes pe: "p = 3 \<and> ew = 4 \<or> p = 2 \<and> ew = 5" and ex: "0 < ex" "ex < 200"
  shows "unat (if int ex - 127 < 1 - bias then round_right_even significand (24 - (int ex - 127) - bias - int p)
      else let rounded = round_right_even significand (23 - int p);
               carry = (rounded = push_bit (p + 1) 1);
               rounded = (if carry then drop_bit 1 rounded else rounded);
               unbiased = (if carry then int ex - 127 + 1 else int ex - 127);
               encoded = unbiased + bias
           in push_bit p (word_of_int encoded) OR (rounded - push_bit p 1)) =
    round_free p ew (fr + 2 ^ 23) (int ex - 150)"
proof -
  have fr: "fr < 2 ^ 23" by (simp add: fr_def)
  have bias: "bias = 1 - emin ew" using pe by (auto simp: bias_def emin_def)
  have "unat (bits AND 0x7FFFFF) = fr" using unat_and_mask [of "0x7FFFFF :: u32" 23 bits] by (simp add: fr_def)
  then have sig: "unat significand = fr + 2 ^ 23"
    using unat_or_shift [of "push_bit 23 1 :: u32" 1 23 "bits AND 0x7FFFFF"] fr by (simp add: significand_def)
  have len: "bitlen (fr + 2 ^ 23) = 24" using bitlen_unique [of 23 "fr + 2 ^ 23"] fr by simp
  show ?thesis
  proof (cases "int ex - 127 < 1 - bias")
    case True
    define k where "k = nat (24 - (int ex - 127) - bias - int p)"
    have k: "24 - (int ex - 127) - bias - int p = int k" "20 \<le> k" using True pe by (auto simp: k_def bias_def)
    have E: "max (int ex - 150 + 24 - 1) (emin ew) = emin ew" using True bias by simp
    have "nat (emin ew - int p - (int ex - 150)) = k" using k(1) bias by linarith
    moreover have "\<not> emin ew - int p \<le> int ex - 150" using k bias by linarith
    ultimately have spec: "round_free p ew (fr + 2 ^ 23) (int ex - 150) = rne_shift (fr + 2 ^ 23) k"
      using E len by (simp add: round_free_def Let_def)
    have "unat (round_right_even significand (int k)) = rne_shift (fr + 2 ^ 23) k"
    proof (cases "k \<le> 31")
      case True
      then show ?thesis using unat_round_right_even [of k significand] k sig by simp
    next
      case False
      have "2 * (fr + 2 ^ 23) < 2 ^ 25" using fr by simp
      also have "(2 :: nat) ^ 25 \<le> 2 ^ k" using False by (intro power_increasing) auto
      finally have "rne_shift (fr + 2 ^ 23) k = 0" by (rule rne_shift_small)
      then show ?thesis using False by (simp add: round_right_even_def)
    qed
    then show ?thesis using True spec k(1) by simp
  next
    case False
    define k where "k = 23 - p"
    have k: "23 - int p = int k" "0 < k" "k \<le> 31" "k + p = 23" using pe by (auto simp: k_def)
    define r where "r = rne_shift (fr + 2 ^ 23) k"
    have R: "unat (round_right_even significand (int k)) = r"
      using unat_round_right_even [OF k(2,3), of significand] sig by (simp add: r_def)
    have two: "(2 :: nat) ^ 23 = 2 ^ p * 2 ^ k" using k(4) by (simp flip: power_add add: add.commute)
    have "(fr + 2 ^ 23) div 2 ^ k = fr div 2 ^ k + 2 ^ p" unfolding two by simp
    then have lo: "2 ^ p \<le> r" using rne_shift_ge [of "fr + 2 ^ 23" k] by (simp add: r_def)
    have "fr + 2 ^ 23 \<le> 2 ^ (p + 1) * 2 ^ k" using fr two by simp
    then have hi: "r \<le> 2 ^ (p + 1)" unfolding r_def by (rule rne_shift_le)
    define u where "u = nat (int ex - 127 + bias)"
    have u: "int ex - 127 + bias = int u" "1 \<le> u" "u < 100" using False ex(2) pe by (auto simp: u_def bias_def)
    have E: "max (int ex - 150 + 24 - 1) (emin ew) = int ex - 127" using False bias by simp
    have "nat (int ex - 127 - emin ew) = u - 1" using u bias by linarith
    moreover have "nat (int ex - 127 - int p - (int ex - 150)) = k" using k by linarith
    moreover have "\<not> int ex - 127 - int p \<le> int ex - 150" using k by linarith
    ultimately have spec: "round_free p ew (fr + 2 ^ 23) (int ex - 150) = (u - 1) * 2 ^ p + r"
      using E len by (simp add: round_free_def Let_def r_def)
    have small: "(2 :: nat) ^ p \<le> 8" "p < 8" using pe by auto
    have join: "unat (push_bit p (word_of_int (int a)) OR (c - push_bit p 1) :: u32) = a * 2 ^ p + (unat c - 2 ^ p)"
      if "a < 200" "2 ^ p \<le> unat c" "unat c < 2 * 2 ^ p" for a and c :: u32
    proof -
      have one: "unat (push_bit p 1 :: u32) = 2 ^ p" using small by (intro unat_shift_one) simp
      have "a * 2 ^ p \<le> 200 * 8" using that small by (intro mult_mono) auto
      then have A: "unat (push_bit p (word_of_int (int a)) :: u32) = a * 2 ^ p"
        using that by (subst unat_push) (auto simp: unat_of_nat take_bit_nat_eq_self)
      have "unat (c - push_bit p 1) = unat c - 2 ^ p" using one that by (simp add: unat_sub word_le_nat_alt)
      then show ?thesis using unat_or_shift [OF A, of "c - push_bit p 1"] A that by simp
    qed
    have P1: "unat (push_bit (p + 1) 1 :: u32) = 2 ^ (p + 1)" using small by (intro unat_shift_one) simp
    have carry: "round_right_even significand (int k) = push_bit (p + 1) 1 \<longleftrightarrow> r = 2 ^ (p + 1)"
      by (simp only: word_unat_eq_iff R P1)
    show ?thesis
    proof (cases "r = 2 ^ (p + 1)")
      case True
      have "unat (drop_bit 1 (round_right_even significand (int k))) = 2 ^ p" using True R by (simp add: unat_drop)
      then have "unat (push_bit p (word_of_int (int (u + 1))) OR (drop_bit 1 (round_right_even significand (int k)) - push_bit p 1) :: u32) =
          (u + 1) * 2 ^ p" using join [of "u + 1" "drop_bit 1 (round_right_even significand (int k))"] u by simp
      moreover have "(u + 1) * 2 ^ p = (u - 1) * 2 ^ p + r" using True u by (cases u) auto
      moreover have "int ex - 127 + 1 + bias = int (u + 1)" using u by simp
      moreover have "(round_right_even significand (int k) = push_bit (p + 1) 1) = True" using True carry by simp
      ultimately show ?thesis using False spec by (simp only: Let_def k(1) if_True if_False)
    next
      case no: False
      then have "unat (push_bit p (word_of_int (int u)) OR (round_right_even significand (int k) - push_bit p 1) :: u32) =
          u * 2 ^ p + (r - 2 ^ p)" using join [of u "round_right_even significand (int k)"] u R lo hi by simp
      moreover have "u * 2 ^ p + (r - 2 ^ p) = (u - 1) * 2 ^ p + r" using u lo by (cases u) auto
      moreover have "(round_right_even significand (int k) = push_bit (p + 1) 1) = False" using no carry by simp
      ultimately show ?thesis using False spec by (simp only: Let_def k(1) u(1) if_True if_False)
    qed
  qed
qed


text \<open>The code of a magnitude: rounded to nearest even, then held at the largest finite value.\<close>

definition fp8_mag :: "Float8Format \<Rightarrow> nat \<Rightarrow> nat" where
  "fp8_mag fmt y =
     (case unpack 23 8 y of (n, e) \<Rightarrow>
        min (unat (fp8_max_finite fmt)) (round_free (fraction_bits fmt) (exponent_bits fmt) n e))"

lemma round_free_ge:
  assumes "n < 2 ^ 24" "2 ^ 23 \<le> n" "emin ew \<le> e + 23" "p < 23"
  shows "round_free p ew n e = nat (e + 23 - emin ew) * 2 ^ p + rne_shift n (23 - p)"
proof -
  have "bitlen n = 24" using bitlen_unique [of 23 n] assms by simp
  moreover have "max (e + 24 - 1) (emin ew) = e + 23" using assms(3) by (simp add: max_def)
  moreover have "nat (e + 23 - int p - e) = 23 - p" using assms by simp
  moreover have "\<not> e + 23 - int p \<le> e" using assms by simp
  moreover have "n \<noteq> 0" using assms(2) by (cases n) auto
  ultimately show ?thesis by (simp only: round_free_def Let_def if_False of_nat_numeral)
qed

lemma fp8_mag_0 [simp]: "fp8_mag fmt 0 = 0"
  by (simp add: fp8_mag_def unpack_def round_free_def)

lemma fp8_mag_subnormal:
  assumes "0 < y" "y < 2 ^ 23"
  shows "fp8_mag fmt y = 0"
proof -
  define p ew where "p = fraction_bits fmt" and "ew = exponent_bits fmt"
  have pe: "p = 3 \<and> ew = 4 \<or> p = 2 \<and> ew = 5"
    by (cases fmt) (auto simp: p_def ew_def fraction_bits_def exponent_bits_def)
  define k where "k = nat (emin ew - int p + 149)"
  have k: "25 \<le> k" "emin ew - int p + 149 = int k" using pe by (auto simp: k_def emin_def)
  have "bitlen y - 1 < 23"
  proof -
    have "(2 :: nat) ^ (bitlen y - 1) < 2 ^ 23" using bitlen_bounds [OF assms(1)] assms(2) by linarith
    then show ?thesis by (rule power_less_imp_less_exp [rotated]) simp
  qed
  then have E: "max (- 149 + int (bitlen y) - 1) (emin ew) = emin ew" using pe by (auto simp: emin_def)
  have "2 * y < 2 ^ 25" using assms by simp
  also have "(2 :: nat) ^ 25 \<le> 2 ^ k" using k(1) by (intro power_increasing) auto
  finally have "rne_shift y k = 0" by (rule rne_shift_small)
  moreover have "\<not> emin ew - int p \<le> - 149" "nat (emin ew - int p - - 149) = k" using k by linarith+
  ultimately have "round_free p ew y (- 149) = 0" using E assms by (simp add: round_free_def Let_def)
  moreover have "unpack 23 8 y = (y, - 149)" using assms by (simp add: unpack_def emin_def)
  ultimately show ?thesis by (simp add: fp8_mag_def p_def ew_def)
qed

lemma fp8_mag_normal:
  assumes "2 ^ 23 \<le> y"
  shows "fp8_mag fmt y = min (unat (fp8_max_finite fmt))
    (round_free (fraction_bits fmt) (exponent_bits fmt) (y mod 2 ^ 23 + 2 ^ 23) (int (y div 2 ^ 23) - 150))"
proof -
  have "y div 2 ^ 23 \<noteq> 0" using assms by (simp add: div_eq_0_iff)
  then show ?thesis by (simp add: fp8_mag_def unpack_def Let_def emin_def)
qed

lemma fp8_mag_saturates:
  assumes "unat (fp8_max_value fmt) \<le> y"
  shows "fp8_mag fmt y = unat (fp8_max_finite fmt)"
proof -
  define ex fr p ew where "ex = y div 2 ^ 23" and "fr = y mod 2 ^ 23" and "p = fraction_bits fmt" and "ew = exponent_bits fmt"
  have y: "y = ex * 2 ^ 23 + fr" and fr: "fr < 2 ^ 23"
    by (simp_all only: ex_def fr_def div_mult_mod_eq) simp
  have y0: "2 ^ 23 \<le> y" using assms by (cases fmt) (auto simp: fp8_max_value_def)
  have low: "(fr + 2 ^ 23) div 2 ^ (23 - p) \<le> rne_shift (fr + 2 ^ 23) (23 - p)" by (rule rne_shift_ge)
  have "unat (fp8_max_finite fmt) \<le> nat (int ex - 127 - emin ew) * 2 ^ p + (fr + 2 ^ 23) div 2 ^ (23 - p)
      \<and> emin ew \<le> int ex - 150 + 23"
  proof (cases fmt)
    case F8_kE4M3FN
    then have c: "p = 3" "ew = 4" "135 \<le> ex" "ex = 135 \<longrightarrow> 0x600000 \<le> fr"
      using assms y fr by (auto simp: p_def ew_def fraction_bits_def exponent_bits_def fp8_max_value_def)
    show ?thesis
    proof (cases "ex = 135")
      case True
      have "(14 * 2 ^ 20) div 2 ^ 20 \<le> (fr + 2 ^ 23) div 2 ^ 20" using c True by (intro div_le_mono) simp
      then show ?thesis using c True F8_kE4M3FN by (simp add: emin_def fp8_max_finite_def)
    next
      case False
      have "(8 * 2 ^ 20) div 2 ^ 20 \<le> (fr + 2 ^ 23) div 2 ^ 20" by (intro div_le_mono) simp
      moreover have "nat (int ex - 121) \<ge> 15" using c False by simp
      ultimately show ?thesis using c False F8_kE4M3FN by (simp add: emin_def fp8_max_finite_def)
    qed
  next
    case F8_kE5M2
    then have c: "p = 2" "ew = 5" "142 \<le> ex" "ex = 142 \<longrightarrow> 0x600000 \<le> fr"
      using assms y fr by (auto simp: p_def ew_def fraction_bits_def exponent_bits_def fp8_max_value_def)
    show ?thesis
    proof (cases "ex = 142")
      case True
      have "(7 * 2 ^ 21) div 2 ^ 21 \<le> (fr + 2 ^ 23) div 2 ^ 21" using c True by (intro div_le_mono) simp
      then show ?thesis using c True F8_kE5M2 by (simp add: emin_def fp8_max_finite_def)
    next
      case False
      have "(4 * 2 ^ 21) div 2 ^ 21 \<le> (fr + 2 ^ 23) div 2 ^ 21" by (intro div_le_mono) simp
      moreover have "nat (int ex - 113) \<ge> 30" using c False by simp
      ultimately show ?thesis using c False F8_kE5M2 by (simp add: emin_def fp8_max_finite_def)
    qed
  qed
  moreover have "p < 23" by (cases fmt) (auto simp: p_def fraction_bits_def)
  ultimately have "unat (fp8_max_finite fmt) \<le> round_free p ew (fr + 2 ^ 23) (int ex - 150)"
    using round_free_ge [of "fr + 2 ^ 23" ew "int ex - 150" p] fr low by simp
  then show ?thesis using fp8_mag_normal [OF y0, of fmt] by (simp add: p_def ew_def fr_def ex_def)
qed

lemma unat_magnitude: "unat (f AND 0x7FFFFFFF :: f32) = magnitude32 f"
  unfolding magnitude32_def by (subst unat_and_mask [where n = 31]) simp_all

lemma sign_set: "(f AND 0x80000000 :: f32) \<noteq> 0 \<longleftrightarrow> unat f div 2147483648 = 1"
proof -
  have "unat (f AND 0x80000000) = unat f AND 2 ^ 31" by (simp only: unsigned_and_eq) simp
  also have "\<dots> = (unat f div 2 ^ 31 mod 2) * 2 ^ 31" by (rule and_pow2_nat)
  also have "unat f div 2 ^ 31 mod 2 = unat f div 2147483648" using unat_lt_32 [of f] by simp
  finally show ?thesis using unat_lt_32 [of f] by (auto simp: unat_eq_zero [symmetric])
qed

lemma sign_cases: "unat (f :: f32) div 2147483648 = 0 \<or> unat f div 2147483648 = 1"
  using unat_lt_32 [of f] by linarith

lemma fp8_max_finite_less: "unat (fp8_max_finite fmt) < 128"
  by (cases fmt) (simp_all add: fp8_max_finite_def)

lemma unat_sign_byte:
  assumes "unat (b :: u32) < 128"
  shows "unat (ucast (b OR (if c then 0x80 else 0)) :: u8) = (if c then 128 else 0) + unat b"
proof -
  have "unat (0x80 OR b) = 128 + unat b" using unat_or_shift [of "0x80 :: u32" 1 7 b] assms by simp
  then show ?thesis using assms by (simp add: unsigned_ucast_eq or.commute take_bit_nat_eq_self)
qed

lemma unat_min: "unat (min a b) = min (unat a) (unat b)"
  by (simp add: min_def word_le_nat_alt)

lemma float8_encode_nat:
  assumes "\<not> is_nan32 f"
  shows "unat (float8_encode f fmt) = (unat f div 2147483648) * 128 + fp8_mag fmt (magnitude32 f)"
proof -
  define y where "y = magnitude32 f"
  define bits where "bits = f AND 0x7FFFFFFF"
  define neg where "neg \<longleftrightarrow> f AND 0x80000000 \<noteq> 0"
  have bits: "unat bits = y" by (simp add: bits_def y_def unat_magnitude)
  have s: "(unat f div 2147483648) * 128 = (if neg then 128 else 0)"
    using sign_cases [of f] by (auto simp: neg_def sign_set)
  have y: "y \<le> 0x7F800000" using assms by (simp add: is_nan32_def y_def)
  have not_nan: "(bits > 0x7F800000) = False" using y bits by (simp add: word_less_nat_alt)
  have big: "(bits \<ge> 0x7F800000 \<or> bits \<ge> fp8_max_value fmt) \<longleftrightarrow> unat (fp8_max_value fmt) \<le> y"
    using bits by (cases fmt) (auto simp: word_le_nat_alt fp8_max_value_def)
  note unfold = float8_encode_def Let_def bits_def [symmetric] neg_def [symmetric] not_nan if_False
  consider "y = 0" | "unat (fp8_max_value fmt) \<le> y" "0 < y" | "0 < y" "y < 2 ^ 23"
    | "2 ^ 23 \<le> y" "y < unat (fp8_max_value fmt)" by linarith
  then have "unat (float8_encode f fmt) = (if neg then 128 else 0) + fp8_mag fmt y"
  proof cases
    case 1
    then have "bits = 0" using bits by (simp add: word_unat_eq_iff)
    then show ?thesis using 1 by (simp only: unfold) simp
  next
    case 2
    then have "bits \<noteq> 0" using bits by auto
    moreover have "unat (fp8_max_finite fmt OR (if neg then 0x80 else 0)) = (if neg then 128 else 0) + unat (fp8_max_finite fmt)"
      using unat_sign8 [OF fp8_max_finite_less [of fmt], of neg] by simp
    ultimately show ?thesis using 2 fp8_mag_saturates [of fmt y] by (simp only: unfold big if_True)
  next
    case 3
    then have "bits \<noteq> 0" using bits by auto
    moreover have "\<not> unat (fp8_max_value fmt) \<le> y" using 3 by (cases fmt) (auto simp: fp8_max_value_def)
    moreover have "uint (drop_bit 23 bits AND 0xFF) = 0"
    proof -
      have "unat (drop_bit 23 bits) = 0" using 3 by (simp add: unat_drop bits)
      then show ?thesis by (simp add: unat_eq_zero)
    qed
    ultimately show ?thesis using fp8_mag_subnormal [OF 3] by (simp only: unfold big if_True) simp
  next
    case 4
    define ex where "ex = y div 2 ^ 23"
    define p ew where "p = fraction_bits fmt" and "ew = exponent_bits fmt"
    have nz: "(bits = 0) = False" using 4 bits by auto
    have nb: "(unat (fp8_max_value fmt) \<le> y) = False" using 4 by simp
    have ex: "0 < ex" "ex < 200"
    proof -
      show "0 < ex" using 4 by (simp add: ex_def div_greater_zero_iff)
      have "y < 200 * 2 ^ 23" using 4 by (cases fmt) (auto simp: fp8_max_value_def)
      then show "ex < 200" unfolding ex_def by (rule less_mult_imp_div_less)
    qed
    have se: "uint (drop_bit 23 bits AND 0xFF) = int ex"
    proof -
      have "unat (drop_bit 23 bits) = ex" by (simp add: unat_drop bits ex_def)
      then have "unat (drop_bit 23 bits AND 0xFF) = ex" using ex by (subst unat_and_mask [where n = 8]) simp_all
      then show ?thesis by (simp only: uint_nat)
    qed
    have pe: "p = 3 \<and> ew = 4 \<or> p = 2 \<and> ew = 5"
      by (cases fmt) (auto simp: p_def ew_def fraction_bits_def exponent_bits_def)
    have P: "(case fmt of F8_kE4M3FN \<Rightarrow> 3 | F8_kE5M2 \<Rightarrow> 2) = p" and B: "(case fmt of F8_kE4M3FN \<Rightarrow> 7 | F8_kE5M2 \<Rightarrow> 15) = (2 ^ (ew - 1) - 1 :: int)"
      by (cases fmt; simp add: p_def ew_def fraction_bits_def exponent_bits_def)+
    have nz': "(int ex = 0) = False" using ex by simp
    have small: "unat (min c (ucast (fp8_max_finite fmt)) :: u32) = min (unat c) (unat (fp8_max_finite fmt))" for c
      by (simp add: unat_min ucast_up)
    have small': "unat (min c (ucast (fp8_max_finite fmt)) :: u32) < 128" for c
      using fp8_max_finite_less [of fmt] by (simp add: small)
    show ?thesis
      by (simp only: unfold big nb nz se nz' P B unat_sign_byte [OF small'] small
            encode_code [OF pe, of bits, unfolded bits, folded ex_def, OF ex, unfolded Let_def] fp8_mag_normal [OF 4(1)])
         (simp only: p_def ew_def ex_def min.commute)
  qed
  then show ?thesis by (simp add: y_def s)
qed


section \<open>Decoding is exact\<close>

lemma unat_ldexp32: "unat (ldexp32 (int n) e) = round_mag 23 8 n e"
proof -
  have "round_mag 23 8 n e \<le> inf_bits 23 8" by (simp add: round_mag_free)
  then have "round_mag 23 8 n e < 2 ^ 32" by (simp add: inf_bits_def)
  then show ?thesis by (simp add: ldexp32_def unat_of_nat take_bit_nat_eq_self)
qed

text \<open>The fields of a code without its sign.\<close>

lemma fp8_fields:
  assumes "unat (b :: u8) < 128"
  shows "uint (drop_bit 3 b AND 15) = int (unat b div 8)" "uint (b AND 7) = int (unat b mod 8)"
    and "uint (drop_bit 2 b AND 31) = int (unat b div 4)" "uint (b AND 3) = int (unat b mod 4)"
proof -
  show "uint (drop_bit 3 b AND 15) = int (unat b div 8)"
    using unat_and_mask [of "15 :: u8" 4 "drop_bit 3 b"] assms by (simp add: uint_nat unat_drop)
  show "uint (b AND 7) = int (unat b mod 8)"
    using unat_and_mask [of "7 :: u8" 3 b] by (simp add: uint_nat)
  show "uint (drop_bit 2 b AND 31) = int (unat b div 4)"
    using unat_and_mask [of "31 :: u8" 5 "drop_bit 2 b"] assms by (simp add: uint_nat unat_drop)
  show "uint (b AND 3) = int (unat b mod 4)"
    using unat_and_mask [of "3 :: u8" 2 b] by (simp add: uint_nat)
qed

lemma fp8_positive_nat:
  assumes "unat b \<le> unat (fp8_max_finite fmt)"
  shows "unat (fp8_positive b fmt) =
    round_mag 23 8 (fst (unpack (fraction_bits fmt) (exponent_bits fmt) (unat b)))
      (snd (unpack (fraction_bits fmt) (exponent_bits fmt) (unat b)))"
proof (cases fmt)
  case F8_kE4M3FN
  define ex fr where "ex = unat b div 8" and "fr = unat b mod 8"
  have b: "unat b < 127" using assms F8_kE4M3FN by (simp add: fp8_max_finite_def)
  then have f: "uint (drop_bit 3 b AND 15) = int ex" "uint (b AND 7) = int fr"
    using fp8_fields(1,2) [of b] by (simp_all add: ex_def fr_def)
  have "\<not> (ex = 15 \<and> fr = 7)" unfolding ex_def fr_def using b by presburger
  then have "fp8_positive b fmt = ldexp32 (int (if ex = 0 then fr else 8 + fr)) (if ex = 0 then - 9 else int ex - 10)"
    using F8_kE4M3FN f by (auto simp: fp8_positive_def Let_def)
  then have "unat (fp8_positive b fmt) = round_mag 23 8 (if ex = 0 then fr else 8 + fr) (if ex = 0 then - 9 else int ex - 10)"
    by (simp only: unat_ldexp32)
  then show ?thesis using F8_kE4M3FN
    by (simp add: unpack_def emin_def fraction_bits_def exponent_bits_def Let_def ex_def fr_def add.commute)
next
  case F8_kE5M2
  define ex fr where "ex = unat b div 4" and "fr = unat b mod 4"
  have b: "unat b < 124" using assms F8_kE5M2 by (simp add: fp8_max_finite_def)
  then have f: "uint (drop_bit 2 b AND 31) = int ex" "uint (b AND 3) = int fr"
    using fp8_fields(3,4) [of b] by (simp_all add: ex_def fr_def)
  have "ex \<noteq> 31" using b by (auto simp: ex_def)
  then have "fp8_positive b fmt = ldexp32 (int (if ex = 0 then fr else 4 + fr)) (if ex = 0 then - 16 else int ex - 17)"
    using F8_kE5M2 f by (auto simp: fp8_positive_def Let_def)
  then have "unat (fp8_positive b fmt) = round_mag 23 8 (if ex = 0 then fr else 4 + fr) (if ex = 0 then - 16 else int ex - 17)"
    by (simp only: unat_ldexp32)
  then show ?thesis using F8_kE5M2
    by (simp add: unpack_def emin_def fraction_bits_def exponent_bits_def Let_def ex_def fr_def add.commute)
qed

text \<open>Every value of the format is a binary32 value.\<close>

lemma fp8_exact:
  fixes fmt :: Float8Format and b :: nat
  defines "p \<equiv> fraction_bits fmt" and "ew \<equiv> exponent_bits fmt"
  assumes b: "0 < b" "b \<le> unat (fp8_max_finite fmt)" and u: "unpack p ew b = (n, e)"
  shows "\<exists>j. unpack 23 8 (round_mag 23 8 n e) = (n * 2 ^ j, e - int j)"
proof -
  have pe: "p = 3 \<and> ew = 4 \<or> p = 2 \<and> ew = 5"
    by (cases fmt) (auto simp: p_def ew_def fraction_bits_def exponent_bits_def)
  define ex fr where "ex = b div 2 ^ p" and "fr = b mod 2 ^ p"
  have fr: "fr < 2 ^ p" by (simp add: fr_def)
  have "b < 128" using b(2) fp8_max_finite_less [of fmt] by simp
  then have ex: "ex < 32" using pe by (auto simp: ex_def)
  have n: "0 < n" "n < 2 ^ Suc p" and e: "- 16 \<le> e" "e \<le> 30"
    using u b(1) pe fr ex by (auto simp: unpack_def Let_def emin_def ex_def fr_def div_eq_0_iff split: if_splits)
  have "bitlen n \<le> Suc p" using n(2) by (simp only: bitlen_le_iff)
  then have len: "1 \<le> bitlen n" "bitlen n \<le> 4" using n(1) pe by (auto simp: bitlen_pos)
  have "unpack 23 8 (round_mag 23 8 n e) = (n * 2 ^ (Suc 23 - bitlen n), e - int (Suc 23 - bitlen n))"
    by (rule unpack_round_mag_exact) (use n(1) len e in \<open>simp_all add: emin_def\<close>)
  then show ?thesis by blast
qed

lemma fp8_decode_mag:
  assumes "b \<le> unat (fp8_max_finite fmt)"
  shows "fp8_mag fmt (round_mag 23 8 (fst (unpack (fraction_bits fmt) (exponent_bits fmt) b))
    (snd (unpack (fraction_bits fmt) (exponent_bits fmt) b))) = b"
proof (cases "b = 0")
  case True
  then show ?thesis by (simp add: unpack_def round_mag_def)
next
  case False
  obtain n e where u: "unpack (fraction_bits fmt) (exponent_bits fmt) b = (n, e)" by fastforce
  from fp8_exact [OF _ assms u] False
  obtain j where j: "unpack 23 8 (round_mag 23 8 n e) = (n * 2 ^ j, e - int j)" by auto
  have "round_free (fraction_bits fmt) (exponent_bits fmt) n e = b"
    using round_free_unpack [of "fraction_bits fmt" "exponent_bits fmt" b] u by simp
  then show ?thesis using assms u j by (simp add: fp8_mag_def round_free_scale)
qed

text \<open>
  C33: encoding a number to an eight-bit float keeps its sign and rounds its magnitude to the nearest value of the format,
  ties to even, held at the largest finite value; infinities and everything above go there too.
\<close>

theorem float8_encode_rounds_to_nearest:
  assumes "\<not> is_nan32 f"
  shows "unat (float8_encode f fmt) = (unat f div 2147483648) * 128 +
    min (unat (fp8_max_finite fmt))
      (round_free (fraction_bits fmt) (exponent_bits fmt)
        (fst (unpack 23 8 (magnitude32 f))) (snd (unpack 23 8 (magnitude32 f))))"
  using float8_encode_nat [OF assms, of fmt] by (simp add: fp8_mag_def split_beta)

text \<open>\<open>-19\<close> is half way between the neighbours \<open>-18\<close> and \<open>-20\<close>: it goes to \<open>-20\<close>, whose last bit is 0.\<close>

theorem float8_encode_rounds_to_nearest_witness:
  "\<not> is_nan32 0xC1980000 \<and> float8_encode 0xC1980000 F8_kE4M3FN = 0xDA \<and>
   unat (float8_encode 0xC1980000 F8_kE4M3FN) = (unat (0xC1980000 :: f32) div 2147483648) * 128 +
     min (unat (fp8_max_finite F8_kE4M3FN))
       (round_free (fraction_bits F8_kE4M3FN) (exponent_bits F8_kE4M3FN)
         (fst (unpack 23 8 (magnitude32 0xC1980000))) (snd (unpack 23 8 (magnitude32 0xC1980000))))"
  (is "?a \<and> ?b \<and> ?c")
proof -
  have a: ?a by (simp add: is_nan32_def magnitude32_def)
  moreover have ?b by code_simp
  ultimately show ?thesis using float8_encode_rounds_to_nearest [OF a] by blast
qed

lemma unat_xor_sign: "unat v < 2147483648 \<Longrightarrow> unat (v XOR 0x80000000 :: u32) = 2147483648 + unat v"
proof -
  assume v: "unat v < 2147483648"
  then have "v AND 0x80000000 = 0" using sign_set [of v] by auto
  then have "v XOR 0x80000000 = 0x80000000 OR v" by (simp add: disjunctive_xor_eq_or or.commute)
  then show ?thesis using unat_or_shift [of "0x80000000 :: u32" 1 31 v] v by simp
qed

lemma fp8_decode_parts:
  assumes "unat (c AND 0x7F) \<le> unat (fp8_max_finite fmt)"
  shows "magnitude32 (float8_decode c fmt) = unat (fp8_positive (c AND 0x7F) fmt)"
    and "unat (float8_decode c fmt) div 2147483648 = (if c AND 0x80 \<noteq> 0 then 1 else 0)"
    and "\<not> is_nan32 (float8_decode c fmt)"
proof -
  have "unat (fp8_positive (c AND 0x7F) fmt) \<le> inf_bits 23 8"
    by (simp add: fp8_positive_nat [OF assms] round_mag_free)
  then have v: "unat (fp8_positive (c AND 0x7F) fmt) \<le> 0x7F800000" by (simp add: inf_bits_def)
  then have x: "unat (fp8_positive (c AND 0x7F) fmt XOR 0x80000000) = 2147483648 + unat (fp8_positive (c AND 0x7F) fmt)"
    by (intro unat_xor_sign) simp
  show m: "magnitude32 (float8_decode c fmt) = unat (fp8_positive (c AND 0x7F) fmt)"
    using v x by (simp add: float8_decode_def magnitude32_def Let_def)
  show "unat (float8_decode c fmt) div 2147483648 = (if c AND 0x80 \<noteq> 0 then 1 else 0)"
    using v x by (simp add: float8_decode_def Let_def)
  show "\<not> is_nan32 (float8_decode c fmt)" using v by (simp add: is_nan32_def m)
qed

lemma unat_byte_split: "unat (c :: u8) = (if c AND 0x80 \<noteq> 0 then 128 else 0) + unat (c AND 0x7F)"
proof -
  have m: "unat (c AND 0x7F) = unat c mod 128" using unat_and_mask [of "0x7F :: u8" 7 c] by simp
  have "unat (c AND 0x80) = unat c AND 2 ^ 7" by (simp only: unsigned_and_eq) simp
  also have "\<dots> = (unat c div 2 ^ 7 mod 2) * 2 ^ 7" by (rule and_pow2_nat)
  finally have "c AND 0x80 \<noteq> 0 \<longleftrightarrow> unat c div 128 mod 2 = 1" by (auto simp: unat_eq_zero [symmetric])
  moreover have "unat c < 256" using unsigned_less [of c] by simp
  moreover have "unat c = 128 * (unat c div 128) + unat c mod 128" by simp
  moreover from \<open>unat c < 256\<close> have "unat c div 128 = 0 \<or> unat c div 128 = 1" by linarith
  ultimately show ?thesis using m by (elim disjE) (simp_all only:, simp_all)
qed

text \<open>C34: every finite eight-bit float survives decoding to binary32 and encoding again, both zeros included.\<close>

theorem float8_encode_of_decode:
  assumes "unat (c AND 0x7F) \<le> unat (fp8_max_finite fmt)"
  shows "float8_encode (float8_decode c fmt) fmt = c"
proof -
  note d = fp8_decode_parts [OF assms]
  have "unat (float8_encode (float8_decode c fmt) fmt) =
      (if c AND 0x80 \<noteq> 0 then 128 else 0) + fp8_mag fmt (unat (fp8_positive (c AND 0x7F) fmt))"
    using float8_encode_nat [OF d(3), of fmt] d(1,2) by simp
  also have "fp8_mag fmt (unat (fp8_positive (c AND 0x7F) fmt)) = unat (c AND 0x7F)"
    by (simp only: fp8_positive_nat [OF assms] fp8_decode_mag [OF assms])
  also have "(if c AND 0x80 \<noteq> 0 then 128 else 0) + unat (c AND 0x7F) = unat c" by (rule unat_byte_split [symmetric])
  finally show ?thesis by (simp only: word_unat_eq_iff)
qed

theorem float8_encode_of_decode_witness:
  "unat ((0x81 :: u8) AND 0x7F) \<le> unat (fp8_max_finite F8_kE5M2) \<and> float8_decode 0x81 F8_kE5M2 = 0xB7800000 \<and>
   float8_encode (float8_decode 0x81 F8_kE5M2) F8_kE5M2 = 0x81"
  (is "?a \<and> ?b \<and> ?c")
proof -
  have a: ?a by (simp add: fp8_max_finite_def)
  moreover have ?b
    by (simp add: float8_decode_def fp8_positive_def ldexp32_def round_mag_def bitlen_pos emin_def inf_bits_def)
  ultimately show ?thesis using float8_encode_of_decode [OF a] by blast
qed

end
