(* ===== verification/Float_Ops.thy ===== *)
theory Float_Ops
  imports Float8
begin

text \<open>
  The arithmetic of C++ \<^verbatim>\<open>float\<close> and \<^verbatim>\<open>double\<close> that the reference kernels use, over bit patterns: each operation is the exact
  result rounded once to nearest, ties to even (no contraction of a product and a sum). A format is given by \<open>p\<close> and \<open>ew\<close> as
  in \<open>Soft_Float\<close>; \<open>fp_qnan\<close> stands for every quiet NaN, whose payload IEEE-754 leaves to the processor.
\<close>

unbundle bit_operations_syntax

section \<open>Signed patterns\<close>

definition fp_sign :: "nat \<Rightarrow> nat \<Rightarrow> nat \<Rightarrow> bool" where
  "fp_sign p ew b = odd (b div 2 ^ (p + ew))"

definition fp_mag :: "nat \<Rightarrow> nat \<Rightarrow> nat \<Rightarrow> nat" where
  "fp_mag p ew b = b mod 2 ^ (p + ew)"

definition fp_make :: "nat \<Rightarrow> nat \<Rightarrow> bool \<Rightarrow> nat \<Rightarrow> nat" where
  "fp_make p ew s m = (if s then 2 ^ (p + ew) else 0) + m"

definition fp_qnan :: "nat \<Rightarrow> nat \<Rightarrow> nat" where
  "fp_qnan p ew = inf_bits p ew + 2 ^ (p - 1)"

section \<open>Operations\<close>

definition fp_neg :: "nat \<Rightarrow> nat \<Rightarrow> nat \<Rightarrow> nat" where
  "fp_neg p ew a = fp_make p ew (\<not> fp_sign p ew a) (fp_mag p ew a)"

definition fp_mul :: "nat \<Rightarrow> nat \<Rightarrow> nat \<Rightarrow> nat \<Rightarrow> nat" where
  "fp_mul p ew a b =
     (let s = (fp_sign p ew a \<noteq> fp_sign p ew b); x = fp_mag p ew a; y = fp_mag p ew b; I = inf_bits p ew
      in if x > I \<or> y > I then fp_qnan p ew
         else if x = I \<or> y = I then (if x = 0 \<or> y = 0 then fp_qnan p ew else fp_make p ew s I)
         else case unpack p ew x of (n, e) \<Rightarrow> case unpack p ew y of (m, f) \<Rightarrow>
           fp_make p ew s (round_mag p ew (n * m) (e + f)))"

text \<open>The exact sum is an integer multiple of the smaller power of two; an exact zero is positive unless both are negative.\<close>

definition fp_add :: "nat \<Rightarrow> nat \<Rightarrow> nat \<Rightarrow> nat \<Rightarrow> nat" where
  "fp_add p ew a b =
     (let s = fp_sign p ew a; t = fp_sign p ew b; x = fp_mag p ew a; y = fp_mag p ew b; I = inf_bits p ew
      in if x > I \<or> y > I then fp_qnan p ew
         else if x = I then (if y = I \<and> s \<noteq> t then fp_qnan p ew else fp_make p ew s I)
         else if y = I then fp_make p ew t I
         else case unpack p ew x of (n, e) \<Rightarrow> case unpack p ew y of (m, f) \<Rightarrow>
           let g = min e f;
               v = (if s then - 1 else 1) * (int n * 2 ^ nat (e - g)) + (if t then - 1 else 1) * (int m * 2 ^ nat (f - g))
           in if v = 0 then fp_make p ew (s \<and> t) 0
              else fp_make p ew (v < 0) (round_mag p ew (nat \<bar>v\<bar>) g))"

definition fp_sub :: "nat \<Rightarrow> nat \<Rightarrow> nat \<Rightarrow> nat \<Rightarrow> nat" where
  "fp_sub p ew a b = fp_add p ew a (fp_neg p ew b)"

definition fp_of_int :: "nat \<Rightarrow> nat \<Rightarrow> int \<Rightarrow> nat" where
  "fp_of_int p ew i = fp_make p ew (i < 0) (round_mag p ew (nat \<bar>i\<bar>) 0)"

definition fp_div :: "nat \<Rightarrow> nat \<Rightarrow> nat \<Rightarrow> nat \<Rightarrow> nat" where
  "fp_div p ew a b =
     (let s = (fp_sign p ew a \<noteq> fp_sign p ew b); x = fp_mag p ew a; y = fp_mag p ew b; I = inf_bits p ew
      in if x > I \<or> y > I then fp_qnan p ew
         else if x = I then (if y = I then fp_qnan p ew else fp_make p ew s I)
         else if y = I then fp_make p ew s 0
         else if y = 0 then (if x = 0 then fp_qnan p ew else fp_make p ew s I)
         else fp_make p ew s (div_mag p ew x y))"

text \<open>The order of numbers: signed magnitudes, both zeros equal, nothing below or above a NaN.\<close>

definition fp_key :: "nat \<Rightarrow> nat \<Rightarrow> nat \<Rightarrow> int" where
  "fp_key p ew a = (if fp_sign p ew a then - int (fp_mag p ew a) else int (fp_mag p ew a))"

definition fp_less :: "nat \<Rightarrow> nat \<Rightarrow> nat \<Rightarrow> nat \<Rightarrow> bool" where
  "fp_less p ew a b \<longleftrightarrow> fp_mag p ew a \<le> inf_bits p ew \<and> fp_mag p ew b \<le> inf_bits p ew \<and> fp_key p ew a < fp_key p ew b"

definition fp_le :: "nat \<Rightarrow> nat \<Rightarrow> nat \<Rightarrow> nat \<Rightarrow> bool" where
  "fp_le p ew a b \<longleftrightarrow> fp_mag p ew a \<le> inf_bits p ew \<and> fp_mag p ew b \<le> inf_bits p ew \<and> fp_key p ew a \<le> fp_key p ew b"

definition fp_eq :: "nat \<Rightarrow> nat \<Rightarrow> nat \<Rightarrow> nat \<Rightarrow> bool" where
  "fp_eq p ew a b \<longleftrightarrow> fp_mag p ew a \<le> inf_bits p ew \<and> fp_mag p ew b \<le> inf_bits p ew \<and> fp_key p ew a = fp_key p ew b"

text \<open>Conversions to \<^verbatim>\<open>int\<close>: towards zero, and of \<^verbatim>\<open>std::round\<close> (halves away from zero). Out of range is undefined.\<close>

definition fp_to_int :: "nat \<Rightarrow> nat \<Rightarrow> nat \<Rightarrow> int option" where
  "fp_to_int p ew a =
     (if fp_mag p ew a \<ge> inf_bits p ew then None
      else case unpack p ew (fp_mag p ew a) of (n, e) \<Rightarrow>
        let m = (if 0 \<le> e then n * 2 ^ nat e else n div 2 ^ nat (- e))
        in i32 (if fp_sign p ew a then - int m else int m))"

definition fp_round_to_int :: "nat \<Rightarrow> nat \<Rightarrow> nat \<Rightarrow> int option" where
  "fp_round_to_int p ew a =
     (if fp_mag p ew a \<ge> inf_bits p ew then None
      else case unpack p ew (fp_mag p ew a) of (n, e) \<Rightarrow>
        let m = (if 0 \<le> e then n * 2 ^ nat e else (2 * n + 2 ^ nat (- e)) div (2 * 2 ^ nat (- e)))
        in i32 (if fp_sign p ew a then - int m else int m))"

text \<open>From one format to another, as \<^verbatim>\<open>static_cast<float>\<close> and the promotion to \<^verbatim>\<open>double\<close> do.\<close>

definition fp_convert :: "nat \<Rightarrow> nat \<Rightarrow> nat \<Rightarrow> nat \<Rightarrow> nat \<Rightarrow> nat" where
  "fp_convert p ew p' ew' a =
     (let s = fp_sign p ew a; x = fp_mag p ew a
      in if x > inf_bits p ew then fp_qnan p' ew'
         else if x = inf_bits p ew then fp_make p' ew' s (inf_bits p' ew')
         else case unpack p ew x of (n, e) \<Rightarrow> fp_make p' ew' s (round_mag p' ew' n e))"

section \<open>Over the machine types\<close>

definition f32_neg :: "f32 \<Rightarrow> f32" where "f32_neg a = of_nat (fp_neg 23 8 (unat a))"
definition f32_mul :: "f32 \<Rightarrow> f32 \<Rightarrow> f32" where "f32_mul a b = of_nat (fp_mul 23 8 (unat a) (unat b))"
definition f32_add :: "f32 \<Rightarrow> f32 \<Rightarrow> f32" where "f32_add a b = of_nat (fp_add 23 8 (unat a) (unat b))"
definition f32_sub :: "f32 \<Rightarrow> f32 \<Rightarrow> f32" where "f32_sub a b = of_nat (fp_sub 23 8 (unat a) (unat b))"
definition f32_div :: "f32 \<Rightarrow> f32 \<Rightarrow> f32" where "f32_div a b = of_nat (fp_div 23 8 (unat a) (unat b))"
definition f32_abs :: "f32 \<Rightarrow> f32" where "f32_abs a = a AND 0x7FFFFFFF"
definition f32_less :: "f32 \<Rightarrow> f32 \<Rightarrow> bool" where "f32_less a b \<longleftrightarrow> fp_less 23 8 (unat a) (unat b)"
definition f32_le :: "f32 \<Rightarrow> f32 \<Rightarrow> bool" where "f32_le a b \<longleftrightarrow> fp_le 23 8 (unat a) (unat b)"
definition f32_eq :: "f32 \<Rightarrow> f32 \<Rightarrow> bool" where "f32_eq a b \<longleftrightarrow> fp_eq 23 8 (unat a) (unat b)"
definition f32_to_int :: "f32 \<Rightarrow> int option" where "f32_to_int a = fp_to_int 23 8 (unat a)"
definition f32_round_to_int :: "f32 \<Rightarrow> int option" where "f32_round_to_int a = fp_round_to_int 23 8 (unat a)"
definition f64_sub :: "f64 \<Rightarrow> f64 \<Rightarrow> f64" where "f64_sub a b = of_nat (fp_sub 52 11 (unat a) (unat b))"
definition f64_div :: "f64 \<Rightarrow> f64 \<Rightarrow> f64" where "f64_div a b = of_nat (fp_div 52 11 (unat a) (unat b))"
definition f64_to_int :: "f64 \<Rightarrow> int option" where "f64_to_int a = fp_to_int 52 11 (unat a)"
definition f32_of_int :: "int \<Rightarrow> f32" where "f32_of_int i = of_nat (fp_of_int 23 8 i)"
definition f64_add :: "f64 \<Rightarrow> f64 \<Rightarrow> f64" where "f64_add a b = of_nat (fp_add 52 11 (unat a) (unat b))"
definition f64_mul :: "f64 \<Rightarrow> f64 \<Rightarrow> f64" where "f64_mul a b = of_nat (fp_mul 52 11 (unat a) (unat b))"
definition f64_of_f32 :: "f32 \<Rightarrow> f64" where "f64_of_f32 a = of_nat (fp_convert 23 8 52 11 (unat a))"
definition f32_of_f64 :: "f64 \<Rightarrow> f32" where "f32_of_f64 a = of_nat (fp_convert 52 11 23 8 (unat a))"

text \<open>\<^verbatim>\<open>std::max\<close> and \<^verbatim>\<open>std::min\<close> keep the first argument unless the second is strictly beyond it.\<close>

definition f32_max :: "f32 \<Rightarrow> f32 \<Rightarrow> f32" where "f32_max a b = (if f32_less a b then b else a)"
definition f32_min :: "f32 \<Rightarrow> f32 \<Rightarrow> f32" where "f32_min a b = (if f32_less b a then b else a)"

section \<open>Values\<close>

text \<open>The exact value of a finite number.\<close>

definition f32_value :: "f32 \<Rightarrow> rat" where
  "f32_value f = (if unat f div 2147483648 = 1 then - 1 else 1) * mag_value 23 8 (magnitude32 f)"

definition f16_value :: "u16 \<Rightarrow> rat" where
  "f16_value h = (if unat h div 32768 = 1 then - 1 else 1) * mag_value 10 5 (unat h mod 32768)"

lemma bitlen_mult: "bitlen (m * n) \<le> bitlen m + bitlen n"
proof (cases "m = 0 \<or> n = 0")
  case False
  then have "m < 2 ^ bitlen m" "n < 2 ^ bitlen n" using bitlen_bounds by auto
  then have "m * n < 2 ^ bitlen m * 2 ^ bitlen n" using False by (intro mult_strict_mono) auto
  then show ?thesis by (simp add: bitlen_le_iff power_add)
qed auto

text \<open>A word made of a sign and a magnitude.\<close>

lemma fp_make_32:
  assumes "m < 2147483648"
  shows "unat (of_nat (fp_make 23 8 s m) :: f32) = (if s then 2147483648 else 0) + m"
proof -
  have "fp_make 23 8 s m < 2 ^ 32" using assms by (simp add: fp_make_def)
  then have "unat (of_nat (fp_make 23 8 s m) :: f32) = fp_make 23 8 s m"
    by (simp add: unat_of_nat take_bit_nat_eq_self)
  then show ?thesis by (simp add: fp_make_def)
qed

lemma round_mag_32: "round_mag 23 8 n e \<le> 2139095040"
  by (simp add: round_mag_free inf_bits_def)

lemma fp_parts_32: "fp_mag 23 8 (unat f) = magnitude32 f" "fp_sign 23 8 (unat f) \<longleftrightarrow> unat f div 2147483648 = 1"
  using sign_cases [of f] by (auto simp: fp_mag_def fp_sign_def magnitude32_def)

text \<open>The product of two finite numbers, the first given by a pair that need not be the one \<open>unpack\<close> gives.\<close>

lemma f32_mul_finite:
  assumes "magnitude32 a < 0x7F800000" "magnitude32 b < 0x7F800000"
    and "unpack 23 8 (magnitude32 a) = (n * 2 ^ j, e - int j)" "unpack 23 8 (magnitude32 b) = (m * 2 ^ i, f - int i)"
  shows "magnitude32 (f32_mul a b) = round_mag 23 8 (n * m) (e + f)"
    and "unat (f32_mul a b) div 2147483648 = (if (unat a div 2147483648 = 1) \<noteq> (unat b div 2147483648 = 1) then 1 else 0)"
proof -
  have "n * 2 ^ j * (m * 2 ^ i) = n * m * 2 ^ (j + i)" by (simp add: power_add)
  moreover have "e - int j + (f - int i) = e + f - int (j + i)" by simp
  ultimately have r: "round_mag 23 8 (n * 2 ^ j * (m * 2 ^ i)) (e - int j + (f - int i)) = round_mag 23 8 (n * m) (e + f)"
    by (simp only: round_mag_scale)
  have "fp_mul 23 8 (unat a) (unat b) =
      fp_make 23 8 ((unat a div 2147483648 = 1) \<noteq> (unat b div 2147483648 = 1)) (round_mag 23 8 (n * m) (e + f))"
    using assms r by (simp add: fp_mul_def Let_def fp_parts_32 inf_bits_def)
  then have u: "unat (f32_mul a b) = (if (unat a div 2147483648 = 1) \<noteq> (unat b div 2147483648 = 1) then 2147483648 else 0) +
      round_mag 23 8 (n * m) (e + f)"
    using round_mag_32 [of "n * m" "e + f"] by (simp only: f32_mul_def) (rule fp_make_32, simp)
  show "magnitude32 (f32_mul a b) = round_mag 23 8 (n * m) (e + f)"
    using u round_mag_32 [of "n * m" "e + f"] by (simp add: magnitude32_def)
  show "unat (f32_mul a b) div 2147483648 = (if (unat a div 2147483648 = 1) \<noteq> (unat b div 2147483648 = 1) then 1 else 0)"
    using u round_mag_32 [of "n * m" "e + f"] by simp
qed

text \<open>An integer of at most 24 bits is a binary32 number.\<close>

lemma f32_of_int_parts:
  assumes "bitlen (nat \<bar>q\<bar>) \<le> 24"
  shows "\<exists>i. unpack 23 8 (magnitude32 (f32_of_int q)) = (nat \<bar>q\<bar> * 2 ^ i, (if q = 0 then - 149 else 0) - int i)"
    and "unat (f32_of_int q) div 2147483648 = (if q < 0 then 1 else 0)"
    and "magnitude32 (f32_of_int q) < 0x7F800000"
proof -
  define R where "R = round_mag 23 8 (nat \<bar>q\<bar>) 0"
  have R: "R < 2147483648" using round_mag_32 [of "nat \<bar>q\<bar>" 0] by (simp add: R_def)
  have u: "unat (f32_of_int q) = (if q < 0 then 2147483648 else 0) + R"
    unfolding f32_of_int_def fp_of_int_def R_def [symmetric] using R by (rule fp_make_32)
  then have "magnitude32 (f32_of_int q) = R" using R by (simp add: magnitude32_def)
  then have m: "magnitude32 (f32_of_int q) = round_mag 23 8 (nat \<bar>q\<bar>) 0" by (simp add: R_def)
  show "unat (f32_of_int q) div 2147483648 = (if q < 0 then 1 else 0)"
    using u R by simp
  show ex: "\<exists>i. unpack 23 8 (magnitude32 (f32_of_int q)) = (nat \<bar>q\<bar> * 2 ^ i, (if q = 0 then - 149 else 0) - int i)"
  proof (cases "q = 0")
    case True
    then have "magnitude32 (f32_of_int q) = 0" using m by (simp add: round_mag_def)
    with True show ?thesis by (intro exI [of _ 0]) (simp add: unpack_def emin_def)
  next
    case False
    then have "unpack 23 8 (round_mag 23 8 (nat \<bar>q\<bar>) 0) = (nat \<bar>q\<bar> * 2 ^ (Suc 23 - bitlen (nat \<bar>q\<bar>)), 0 - int (Suc 23 - bitlen (nat \<bar>q\<bar>)))"
      using assms by (intro unpack_round_mag_exact) (simp_all add: emin_def)
    then show ?thesis using False by (auto simp: m)
  qed
  show "magnitude32 (f32_of_int q) < 0x7F800000"
  proof (rule ccontr)
    assume "\<not> magnitude32 (f32_of_int q) < 0x7F800000"
    then have "magnitude32 (f32_of_int q) = 2139095040" using m round_mag_32 [of "nat \<bar>q\<bar>" 0] by simp
    then have "unpack 23 8 (magnitude32 (f32_of_int q)) = (2 ^ 23, 105)"
      by (simp add: unpack_def emin_def)
    then show False using ex by (auto simp: emin_def split: if_splits)
  qed
qed

text \<open>A half times a small integer needs no rounding.\<close>

lemma f32_mul_half_int:
  assumes h: "unat h mod 32768 < 0x7C00" "fp16_to_fp32 h = Some d" and q: "bitlen (nat \<bar>q\<bar>) \<le> 13"
  shows "f32_value (f32_mul d (f32_of_int q)) = f16_value h * of_int q"
proof -
  define m n e where "m = unat h mod 32768" and "n = fst (unpack 10 5 m)" and "e = snd (unpack 10 5 m)"
  have um: "unpack 10 5 m = (n, e)" by (simp add: n_def e_def)
  have d: "magnitude32 d = widen_mag m" "unat d div 2147483648 = unat h div 32768"
  proof -
    obtain f where f: "fp16_to_fp32 h = Some f" "unat f = (unat h div 32768) * 2147483648 + widen_mag m"
      unfolding m_def by (rule fp16_to_fp32_nat)
    have "widen_mag m < 2147483648" using widen_mag_bound [of m] h(1) by (simp add: m_def)
    then show "magnitude32 d = widen_mag m" "unat d div 2147483648 = unat h div 32768"
      using f h(2) by (simp_all add: magnitude32_def)
  qed
  obtain j where j: "unpack 23 8 (magnitude32 d) = (n * 2 ^ j, e - int j)"
    using widen_mag_exact [of m] h(1) d(1) by (auto simp: n_def e_def m_def)
  obtain i where i: "unpack 23 8 (magnitude32 (f32_of_int q)) = (nat \<bar>q\<bar> * 2 ^ i, (if q = 0 then - 149 else 0) - int i)"
    using f32_of_int_parts(1) [of q] q by auto
  note mul = f32_mul_finite [OF _ f32_of_int_parts(3) j i]
  have fin: "magnitude32 d < 0x7F800000" using widen_mag_bound [of m] h(1) d(1) by (simp add: m_def)
  define k where "k = n * nat \<bar>q\<bar>"
  have mag: "magnitude32 (f32_mul d (f32_of_int q)) = round_mag 23 8 k (e + (if q = 0 then - 149 else 0))"
    using mul(1) fin q by (simp add: k_def)
  have sign: "unat (f32_mul d (f32_of_int q)) div 2147483648 = (if (unat h div 32768 = 1) \<noteq> (q < 0) then 1 else 0)"
    using mul(2) fin q f32_of_int_parts(2) [of q] d(2) by simp
  have val: "mag_value 23 8 (round_mag 23 8 k (e + (if q = 0 then - 149 else 0))) = of_nat k * 2 powi e"
  proof (cases "k = 0")
    case True
    then show ?thesis by (simp add: round_mag_def mag_value_def unpack_def)
  next
    case False
    then have "q \<noteq> 0" by (auto simp: k_def)
    have m: "m < 0x7C00" using h(1) by (simp add: m_def)
    have ex: "m div 1024 < 31" using m by simp
    have n: "n < 2 ^ 11" "- 24 \<le> e" "e \<le> 5"
      using um ex by (auto simp: unpack_def emin_def Let_def split: if_splits)
    then have "bitlen n \<le> 11" by (simp only: bitlen_le_iff)
    then have len: "bitlen k \<le> 24" using bitlen_mult [of n "nat \<bar>q\<bar>"] q by (simp add: k_def)
    have "1 \<le> bitlen k" using False by (simp add: bitlen_pos)
    then have "unpack 23 8 (round_mag 23 8 k e) = (k * 2 ^ (Suc 23 - bitlen k), e - int (Suc 23 - bitlen k))"
      using False len n by (intro unpack_round_mag_exact) (simp_all add: emin_def)
    then show ?thesis using \<open>q \<noteq> 0\<close> by (simp only: mag_value_def prod.case powi_shift if_False add_0_right)
  qed
  have "(of_nat k :: rat) = of_nat n * of_int \<bar>q\<bar>" by (simp add: k_def)
  then have "mag_value 23 8 (magnitude32 (f32_mul d (f32_of_int q))) = mag_value 10 5 m * of_int \<bar>q\<bar>"
    using mag val um by (simp add: mag_value_def)
  moreover have "unat h div 32768 = 0 \<or> unat h div 32768 = 1" using unat_lt_16 [of h] by linarith
  ultimately show ?thesis using sign by (auto simp: f32_value_def f16_value_def m_def)
qed

section \<open>Quotients\<close>

lemma unpack_mono:
  assumes "x \<le> y" "unpack p ew x = (n, e)" "unpack p ew y = (m, f)"
  shows "e \<le> f" "n \<le> m * 2 ^ nat (f - e)"
proof -
  define ex ey fx fy where "ex = x div 2 ^ p" and "ey = y div 2 ^ p" and "fx = x mod 2 ^ p" and "fy = y mod 2 ^ p"
  have le: "ex \<le> ey" using assms(1) by (simp add: ex_def ey_def div_le_mono)
  have fr: "fx < 2 ^ p" "fy < 2 ^ p" by (simp_all add: fx_def fy_def)
  have u: "n = (if ex = 0 then fx else fx + 2 ^ p)" "e = (if ex = 0 then 0 else int ex - 1) + emin ew - int p"
      "m = (if ey = 0 then fy else fy + 2 ^ p)" "f = (if ey = 0 then 0 else int ey - 1) + emin ew - int p"
    using assms(2,3) by (auto simp: unpack_def Let_def ex_def ey_def fx_def fy_def split: if_splits)
  show "e \<le> f" using u le by auto
  show "n \<le> m * 2 ^ nat (f - e)"
  proof (cases "e = f")
    case True
    show ?thesis
    proof (cases "ex = ey")
      case True
      have "x = ex * 2 ^ p + fx" "y = ey * 2 ^ p + fy" by (simp_all only: ex_def ey_def fx_def fy_def div_mult_mod_eq)
      then have "fx \<le> fy" using assms(1) True by simp
      then show ?thesis using u True by auto
    next
      case False
      then have "ex = 0" using u le \<open>e = f\<close> by (auto split: if_splits)
      then have "n \<le> m" using u fr False le by auto
      then show ?thesis using \<open>e = f\<close> by simp
    qed
  next
    case False
    with \<open>e \<le> f\<close> have "1 \<le> nat (f - e)" "ey \<noteq> 0" using u le by (auto split: if_splits)
    then have "m * 2 ^ 1 \<le> m * 2 ^ nat (f - e)" by (intro mult_left_mono power_increasing) auto
    moreover have "n \<le> m * 2 ^ 1" using u fr \<open>ey \<noteq> 0\<close> by auto
    ultimately show ?thesis using order.trans by blast
  qed
qed

lemma div_mag_le_one:
  assumes "x \<le> y" "0 < y" "y < inf_bits 23 8"
  shows "div_mag 23 8 x y \<le> 0x3F800000"
proof -
  obtain n e m f where u: "unpack 23 8 x = (n, e)" "unpack 23 8 y = (m, f)" by fastforce
  note mono = unpack_mono [OF assms(1) u]
  define s d where "s = 23 + 3 + bitlen m" and "d = nat (f - e)"
  have m: "0 < m" using u(2) assms(2) by (auto simp: unpack_def Let_def div_eq_0_iff split: if_splits)
  have le: "n * 2 ^ s \<le> 2 ^ (d + s) * m" using mono(2) by (simp add: d_def power_add mult.commute)
  have "2 * (n * 2 ^ s div m) + (if n * 2 ^ s mod m = 0 then 0 else 1) \<le> 1 * 2 ^ (d + s + 1)"
  proof (cases "n * 2 ^ s = 2 ^ (d + s) * m")
    case True
    then show ?thesis using m by simp
  next
    case False
    then have "n * 2 ^ s div m < 2 ^ (d + s)" using le by (intro less_mult_imp_div_less) simp
    then show ?thesis by simp
  qed
  then have "div_mag 23 8 x y \<le> round_mag 23 8 (1 * 2 ^ (d + s + 1)) (e - f - int s - 1)"
    unfolding div_mag_def u prod.case Let_def s_def [symmetric] by (rule round_mag_mono)
  also have "e - f - int s - 1 = 0 - int (d + s + 1)" using mono(1) by (simp add: d_def)
  also have "round_mag 23 8 (1 * 2 ^ (d + s + 1)) (0 - int (d + s + 1)) = round_mag 23 8 1 0" by (rule round_mag_scale)
  also have "\<dots> = 0x3F800000" by (simp add: round_mag_def bitlen_pos emin_def)
  finally show ?thesis .
qed

text \<open>A quotient by the number of largest magnitude lies between \<open>-1\<close> and 1, and so does the nearest integer.\<close>

lemma f32_div_unit:
  assumes "magnitude32 v \<le> magnitude32 w" "0 < magnitude32 w" "magnitude32 w < 0x7F800000"
  shows "magnitude32 (f32_div v w) \<le> 0x3F800000"
proof -
  have d: "div_mag 23 8 (magnitude32 v) (magnitude32 w) \<le> 0x3F800000"
    by (rule div_mag_le_one) (use assms in auto)
  have "fp_div 23 8 (unat v) (unat w) = fp_make 23 8 (fp_sign 23 8 (unat v) \<noteq> fp_sign 23 8 (unat w))
      (div_mag 23 8 (magnitude32 v) (magnitude32 w))"
    using assms by (simp add: fp_div_def Let_def fp_parts_32(1))
  then have "unat (f32_div v w) = (if fp_sign 23 8 (unat v) \<noteq> fp_sign 23 8 (unat w) then 2147483648 else 0) +
      div_mag 23 8 (magnitude32 v) (magnitude32 w)"
    using fp_make_32 d by (simp only: f32_div_def)
  then show ?thesis using d by (simp add: magnitude32_def)
qed

lemma f32_round_unit:
  assumes "magnitude32 v \<le> 0x3F800000"
  shows "\<exists>t. f32_round_to_int v = Some t \<and> - 1 \<le> t \<and> t \<le> 1"
proof -
  obtain n e where u: "unpack 23 8 (magnitude32 v) = (n, e)" by fastforce
  define k where "k = nat (- e)"
  have one: "unpack 23 8 0x3F800000 = (2 ^ 23, - 23)" by (simp add: unpack_def emin_def)
  note mono = unpack_mono [OF assms u one]
  have "n * 2 ^ 0 \<le> 2 ^ 23 * 2 ^ nat (- 23 - e)" using mono(2) by simp
  also have "2 ^ 23 * 2 ^ nat (- 23 - e) = (2 :: nat) ^ (23 + nat (- 23 - e))" by (simp only: power_add)
  also have "23 + nat (- 23 - e) = k" using mono(1) by (simp add: k_def)
  finally have n: "n \<le> 2 ^ k" by simp
  have "2 * n + 2 ^ k \<le> 2 * 2 ^ k + 2 ^ k" using n by simp
  also have "\<dots> < 2 * (2 * 2 ^ k)" by simp
  finally have "2 * n + 2 ^ k < 2 * (2 * 2 ^ k)" .
  then have m: "(2 * n + 2 ^ k) div (2 * 2 ^ k) < 2" by (rule less_mult_imp_div_less)
  have "\<not> 0 \<le> e" using mono(1) by simp
  moreover have "i32 (if c then - int j else int j) = Some (if c then - int j else int j)" if "j < 2" for j c
    using that by (simp add: i32_def is_int_def int_limits)
  ultimately show ?thesis using assms u m
    by (simp add: f32_round_to_int_def fp_round_to_int_def fp_parts_32(1) Let_def k_def [symmetric])
qed

end
