(* ===== verification/GgufDecode.thy ===== *)
theory GgufDecode
  imports GgufFormat GgufTables Float_Ops Kernel_Loops
begin

text \<open>
  The reference decoder of every quantized weight format, \<^verbatim>\<open>kernels/quantization/gguf_ref.cpp\<close>: one definition per format of
  the switch of \<^verbatim>\<open>dequant\<close>. A block is its list of bytes; integer subexpressions are C++ \<^verbatim>\<open>int\<close> and
  unsigned values, all non-negative until a constant is subtracted; floats are bit patterns. A result is \<open>None\<close> when the code
  would read outside the block or outside a table.
\<close>

unbundle bit_operations_syntax

section \<open>Reading a block\<close>

abbreviation shr :: "int \<Rightarrow> int \<Rightarrow> int" where "shr x k \<equiv> drop_bit (nat k) x"
abbreviation shl :: "int \<Rightarrow> int \<Rightarrow> int" where "shl x k \<equiv> push_bit (nat k) x"

definition byte_at :: "u8 list \<Rightarrow> int \<Rightarrow> int option" where
  "byte_at b i = map_option uint (rd b i)"

definition u16_at :: "u8 list \<Rightarrow> int \<Rightarrow> int option" where
  "u16_at b i = do { x \<leftarrow> byte_at b i; y \<leftarrow> byte_at b (i + 1); Some (x OR shl y 8) }"

definition u32_at :: "u8 list \<Rightarrow> int \<Rightarrow> int option" where
  "u32_at b i = do { x \<leftarrow> u16_at b i; y \<leftarrow> u16_at b (i + 2); Some (x OR shl y 16) }"

definition half_at :: "u8 list \<Rightarrow> int \<Rightarrow> f32 option" where
  "half_at b i = do { x \<leftarrow> u16_at b i; fp16_to_fp32 (word_of_int x) }"

definition scale_min_k4 :: "int \<Rightarrow> u8 list \<Rightarrow> int \<Rightarrow> (int \<times> int) option" where
  "scale_min_k4 index b scales =
     (if index < 4 then do {
        s \<leftarrow> byte_at b (scales + index);
        m \<leftarrow> byte_at b (scales + index + 4);
        Some (s AND 63, m AND 63) }
      else do {
        a \<leftarrow> byte_at b (scales + index + 4);
        l \<leftarrow> byte_at b (scales + index - 4);
        h \<leftarrow> byte_at b (scales + index);
        Some ((a AND 0x0F) OR shl (shr l 6) 4, shr a 4 OR shl (shr h 6) 4) })"

section \<open>Element codes\<close>

definition int8 :: "int \<Rightarrow> int" where
  "int8 x = signed_take_bit 7 x"

text \<open>\<^verbatim>\<open>0, 0.5, 1, 1.5, 2, 3, 4, 6\<close>\<close>

definition kE2M1 :: "f32 list" where
  "kE2M1 = [0x00000000, 0x3F000000, 0x3F800000, 0x3FC00000, 0x40000000, 0x40400000, 0x40800000, 0x40C00000]"

definition e2m1 :: "int \<Rightarrow> f32 option" where
  "e2m1 code = do { m \<leftarrow> rd kE2M1 (code AND 7); Some (if code AND 8 \<noteq> 0 then f32_neg m else m) }"

definition e8m0 :: "int \<Rightarrow> f32" where
  "e8m0 code = (if code = 0 then ldexp32 1 (- 127) else ldexp32 1 (code - 127))"

definition ue4m3 :: "int \<Rightarrow> f32" where
  "ue4m3 code =
     (if code = 0 \<or> code = 0x7F then 0
      else let ex = shr code 3 AND 15; mantissa = code AND 7
           in if ex = 0 then ldexp32 mantissa (- 9) else ldexp32 (8 + mantissa) (ex - 7 - 3))"

definition fp6 :: "int \<Rightarrow> bool \<Rightarrow> f32" where
  "fp6 code e3m2 =
     (let ex = (if e3m2 then shr code 2 AND 7 else shr code 3 AND 3);
          mantissa = (if e3m2 then code AND 3 else code AND 7);
          magnitude = (if ex = 0 then ldexp32 mantissa (if e3m2 then - 4 else - 3)
                       else if e3m2 then ldexp32 (4 + mantissa) (ex - 3 - 2) else ldexp32 (8 + mantissa) (ex - 1 - 3))
      in if code AND 32 \<noteq> 0 then f32_neg magnitude else magnitude)"

section \<open>Round formats\<close>

definition dq_Q1_0 :: "u8 list \<Rightarrow> int \<Rightarrow> f32 option" where
  "dq_Q1_0 block column = do {
     byte \<leftarrow> byte_at block (2 + cdiv column 8);
     h \<leftarrow> half_at block 0;
     Some (f32_mul h (if shr byte (column AND 7) AND 1 \<noteq> 0 then 0x3F800000 else 0xBF800000)) }"

definition dq_Q2_0 :: "u8 list \<Rightarrow> int \<Rightarrow> f32 option" where
  "dq_Q2_0 block column = do {
     byte \<leftarrow> byte_at block (2 + cdiv column 4);
     h \<leftarrow> half_at block 0;
     Some (f32_mul h (f32_of_int ((shr byte (2 * (column AND 3)) AND 3) - 1))) }"

definition dq_Q8_0 :: "u8 list \<Rightarrow> int \<Rightarrow> f32 option" where
  "dq_Q8_0 block column = do {
     h \<leftarrow> half_at block 0;
     byte \<leftarrow> byte_at block (2 + column);
     Some (f32_mul h (f32_of_int (int8 byte))) }"

definition dq_Q4_0 :: "u8 list \<Rightarrow> int \<Rightarrow> f32 option" where
  "dq_Q4_0 block column = do {
     byte \<leftarrow> byte_at block (2 + (column AND 15));
     h \<leftarrow> half_at block 0;
     Some (f32_mul h (f32_of_int ((if column < 16 then byte AND 15 else shr byte 4) - 8))) }"

definition dq_Q4_1 :: "u8 list \<Rightarrow> int \<Rightarrow> f32 option" where
  "dq_Q4_1 block column = do {
     byte \<leftarrow> byte_at block (4 + (column AND 15));
     h \<leftarrow> half_at block 0;
     m \<leftarrow> half_at block 2;
     Some (f32_add (f32_mul h (f32_of_int (if column < 16 then byte AND 15 else shr byte 4))) m) }"

definition dq_Q5 :: "bool \<Rightarrow> u8 list \<Rightarrow> int \<Rightarrow> f32 option" where
  "dq_Q5 affine block column = (
     let high_bytes = (if affine then 4 else 2); low_bytes = (if affine then 8 else 6); local = column AND 15
     in do {
       high \<leftarrow> u32_at block high_bytes;
       byte \<leftarrow> byte_at block (low_bytes + local);
       h \<leftarrow> half_at block 0;
       let low = (if column < 16 then byte AND 15 else shr byte 4);
       let high_bit = shr high (local + (if column \<ge> 16 then 16 else 0)) AND 1;
       let quant = low OR shl high_bit 4;
       if affine then do { m \<leftarrow> half_at block 2; Some (f32_add (f32_mul h (f32_of_int quant)) m) }
       else Some (f32_mul h (f32_of_int (quant - 16))) })"

definition dq_U4B8 :: "u8 list \<Rightarrow> int \<Rightarrow> f32 option" where
  "dq_U4B8 block column = do {
     quant \<leftarrow> if column < 64 then do { q \<leftarrow> byte_at block (2 + column); Some (q AND 15) }
             else do { q \<leftarrow> byte_at block (2 + (column - 64)); Some (shr q 4) };
     h \<leftarrow> half_at block 0;
     Some (f32_mul h (f32_of_int (quant - 8))) }"

definition dq_U4 :: "int \<Rightarrow> u8 list \<Rightarrow> int \<Rightarrow> f32 option" where
  "dq_U4 half_block block column = do {
     quant \<leftarrow> if column < half_block then do { q \<leftarrow> byte_at block (4 + column); Some (q AND 15) }
             else do { q \<leftarrow> byte_at block (4 + (column - half_block)); Some (shr q 4) };
     h \<leftarrow> half_at block 0;
     z \<leftarrow> half_at block 2;
     Some (f32_mul h (f32_sub (f32_of_int quant) z)) }"

definition dq_FP8 :: "Float8Format \<Rightarrow> u8 list \<Rightarrow> int \<Rightarrow> f32 option" where
  "dq_FP8 fmt block column = do {
     h \<leftarrow> half_at block 0;
     c \<leftarrow> byte_at block (2 + column);
     Some (f32_mul h (float8_decode (word_of_int c) fmt)) }"

definition dq_FP8Raw :: "u8 list \<Rightarrow> int \<Rightarrow> f32 option" where
  "dq_FP8Raw block column = do { c \<leftarrow> byte_at block column; Some (float8_decode (word_of_int c) F8_kE4M3FN) }"

definition dq_FP4E2M1 :: "u8 list \<Rightarrow> int \<Rightarrow> f32 option" where
  "dq_FP4E2M1 block column = do {
     code \<leftarrow> if column < 16 then do { q \<leftarrow> byte_at block (2 + column); Some (q AND 15) }
            else do { q \<leftarrow> byte_at block (2 + (column - 16)); Some (shr q 4) };
     h \<leftarrow> half_at block 0;
     v \<leftarrow> e2m1 code;
     Some (f32_mul h v) }"

definition dq_MXFP8 :: "u8 list \<Rightarrow> int \<Rightarrow> f32 option" where
  "dq_MXFP8 block column = do {
     s \<leftarrow> byte_at block 0;
     c \<leftarrow> byte_at block (1 + column);
     Some (f32_mul (e8m0 s) (float8_decode (word_of_int c) F8_kE4M3FN)) }"

definition dq_NVFP4 :: "u8 list \<Rightarrow> int \<Rightarrow> f32 option" where
  "dq_NVFP4 block column = (
     let sub = shr column 4; local = column AND 15; quants = 4 + sub * 8
     in do {
       code \<leftarrow> if local < 8 then do { q \<leftarrow> byte_at block (quants + local); Some (q AND 15) }
              else do { q \<leftarrow> byte_at block (quants + (local - 8)); Some (shr q 4) };
       s \<leftarrow> byte_at block sub;
       v \<leftarrow> e2m1 code;
       Some (f32_mul (ue4m3 s) v) })"

definition dq_MXFP4 :: "u8 list \<Rightarrow> int \<Rightarrow> f32 option" where
  "dq_MXFP4 block column = do {
     code \<leftarrow> if column < 16 then do { q \<leftarrow> byte_at block (1 + column); Some (q AND 15) }
            else do { q \<leftarrow> byte_at block (1 + (column - 16)); Some (shr q 4) };
     s \<leftarrow> byte_at block 0;
     v \<leftarrow> e2m1 code;
     Some (f32_mul (e8m0 s) v) }"

text \<open>Four six-bit codes in three bytes.\<close>

definition dq_MXFP6 :: "bool \<Rightarrow> u8 list \<Rightarrow> int \<Rightarrow> f32 option" where
  "dq_MXFP6 e3m2 block column = (
     let group = shr column 2; element = column AND 3; codes = 1 + 3 * group
     in do {
       c0 \<leftarrow> byte_at block codes;
       c1 \<leftarrow> byte_at block (codes + 1);
       c2 \<leftarrow> byte_at block (codes + 2);
       s \<leftarrow> byte_at block 0;
       let packed = c0 OR shl c1 8 OR shl c2 16;
       Some (f32_mul (e8m0 s) (fp6 (shr packed (6 * element) AND 63) e3m2)) })"

definition dq_Bitnet :: "u8 list \<Rightarrow> int \<Rightarrow> f32 option" where
  "dq_Bitnet block column = do {
     byte \<leftarrow> byte_at block (2 + cdiv column 4);
     h \<leftarrow> half_at block 0;
     Some (f32_mul h (f32_of_int ((shr byte (2 * crem column 4) AND 3) - 1))) }"

section \<open>K formats\<close>

definition dq_Q2_K :: "u8 list \<Rightarrow> int \<Rightarrow> f32 option" where
  "dq_Q2_K block column = (
     let scales = 0; quants = 16; chunk = shr column 7; position = column AND 127; scale_index = shr position 5;
         sub = shr position 4 AND 1; lane = position AND 15; index = chunk * 8 + scale_index * 2 + sub
     in do {
       byte \<leftarrow> byte_at block (quants + (chunk * 32 + sub * 16 + lane));
       let quant = shr byte (2 * scale_index) AND 3;
       d \<leftarrow> half_at block 80;
       s \<leftarrow> byte_at block (scales + index);
       m \<leftarrow> half_at block 82;
       Some (f32_sub (f32_mul (f32_mul d (f32_of_int (s AND 15))) (f32_of_int quant)) (f32_mul m (f32_of_int (shr s 4)))) })"

text \<open>The sixteen six-bit scales of a Q3_K block: low nibbles in eight bytes, high pairs in four more.\<close>

definition q3_scale :: "u8 list \<Rightarrow> int \<Rightarrow> int \<Rightarrow> int \<Rightarrow> int option" where
  "q3_scale block scales w byte =
     (if w = 0 then do { a \<leftarrow> byte_at block (scales + byte); c \<leftarrow> byte_at block (scales + (8 + byte));
        Some ((a AND 15) OR shl (c AND 3) 4) }
      else if w = 1 then do { a \<leftarrow> byte_at block (scales + (4 + byte)); c \<leftarrow> byte_at block (scales + (8 + byte));
        Some ((a AND 15) OR shl (shr c 2 AND 3) 4) }
      else if w = 2 then do { a \<leftarrow> byte_at block (scales + byte); c \<leftarrow> byte_at block (scales + (8 + byte));
        Some ((shr a 4 AND 15) OR shl (shr c 4 AND 3) 4) }
      else do { a \<leftarrow> byte_at block (scales + (4 + byte)); c \<leftarrow> byte_at block (scales + (8 + byte));
        Some ((shr a 4 AND 15) OR shl (shr c 6 AND 3) 4) })"

definition dq_Q3_K :: "u8 list \<Rightarrow> int \<Rightarrow> f32 option" where
  "dq_Q3_K block column = (
     let high_mask = 0; quants = 32; scales = 96; chunk = shr column 7; position = column AND 127;
         scale_index = shr position 5; sub = shr position 4 AND 1; lane = position AND 15;
         index = chunk * 8 + scale_index * 2 + sub
     in do {
       q \<leftarrow> byte_at block (quants + (chunk * 32 + sub * 16 + lane));
       let low = shr q (2 * scale_index) AND 3;
       hm \<leftarrow> byte_at block (high_mask + (sub * 16 + lane));
       let high = (if hm AND shl 1 (chunk * 4 + scale_index) \<noteq> 0 then 1 else 0);
       let quant = (low OR shl high 2) - 4;
       scale \<leftarrow> q3_scale block scales (shr index 2) (index AND 3);
       d \<leftarrow> half_at block 108;
       Some (f32_mul (f32_mul d (f32_of_int (scale - 32))) (f32_of_int quant)) })"

definition dq_Q45_K :: "bool \<Rightarrow> u8 list \<Rightarrow> int \<Rightarrow> f32 option" where
  "dq_Q45_K five_bit block column = (
     let scales = 4; high = 16; quants = (if five_bit then 48 else 16); chunk = cdiv column 64; position = crem column 64;
         sub = 2 * chunk + (if position \<ge> 32 then 1 else 0); lane = position AND 31
     in do {
       q \<leftarrow> byte_at block (quants + (chunk * 32 + lane));
       let quant = (if position < 32 then q AND 15 else shr q 4);
       quant \<leftarrow> if five_bit then do { hb \<leftarrow> byte_at block (high + lane);
                   Some (if hb AND shl 1 sub \<noteq> 0 then quant + 16 else quant) } else Some quant;
       (scale, minimum) \<leftarrow> scale_min_k4 sub block scales;
       d \<leftarrow> half_at block 0;
       m \<leftarrow> half_at block 2;
       Some (f32_sub (f32_mul (f32_mul d (f32_of_int scale)) (f32_of_int quant)) (f32_mul m (f32_of_int minimum))) })"

definition dq_Q6_K :: "u8 list \<Rightarrow> int \<Rightarrow> f32 option" where
  "dq_Q6_K block column = (
     let low = 0; high = 128; scales = 192; chunk = shr column 7; position = column AND 127; group = shr position 5;
         lane = position AND 31
     in do {
       low_byte \<leftarrow> byte_at block (low + (chunk * 64 + lane + 32 * (group AND 1)));
       let nibble = (if group AND 2 \<noteq> 0 then shr low_byte 4 else low_byte AND 15);
       hb \<leftarrow> byte_at block (high + (chunk * 32 + lane));
       let high_bits = shr hb (2 * group) AND 3;
       let quant = (nibble OR shl high_bits 4) - 32;
       let scale_index = chunk * 8 + shr lane 4 + group * 2;
       d \<leftarrow> half_at block 208;
       s \<leftarrow> byte_at block (scales + scale_index);
       Some (f32_mul (f32_mul d (f32_of_int (int8 s))) (f32_of_int quant)) })"

section \<open>Codebook formats\<close>

definition kValues :: "int list" where
  "kValues = [- 127, - 104, - 83, - 65, - 49, - 35, - 22, - 10, 1, 13, 25, 38, 53, 69, 89, 113]"

definition dq_IQ4_NL :: "u8 list \<Rightarrow> int \<Rightarrow> f32 option" where
  "dq_IQ4_NL block column = do {
     byte \<leftarrow> byte_at block (2 + (column AND 15));
     let index = (if column < 16 then byte AND 15 else shr byte 4);
     h \<leftarrow> half_at block 0;
     v \<leftarrow> rd kValues index;
     Some (f32_mul h (f32_of_int v)) }"

definition dq_IQ4_XS :: "u8 list \<Rightarrow> int \<Rightarrow> f32 option" where
  "dq_IQ4_XS block column = (
     let scales_low = 4; quants = 8; sub = shr column 5; local = column AND 31
     in do {
       scales_high \<leftarrow> u16_at block 2;
       sl \<leftarrow> byte_at block (scales_low + shr sub 1);
       let low_scale = shr sl (4 * (sub AND 1)) AND 15;
       let high_scale = shr scales_high (2 * sub) AND 3;
       let scale = (low_scale OR shl high_scale 4) - 32;
       byte \<leftarrow> byte_at block (quants + (16 * sub + (local AND 15)));
       let index = (if local < 16 then byte AND 15 else shr byte 4);
       h \<leftarrow> half_at block 0;
       v \<leftarrow> rd kValues index;
       Some (f32_mul (f32_mul h (f32_of_int scale)) (f32_of_int v)) })"

text \<open>\<^verbatim>\<open>0.5f\<close>, \<^verbatim>\<open>0.25f\<close>, \<^verbatim>\<open>1.0f\<close>, \<^verbatim>\<open>-1.0f\<close> and \<^verbatim>\<open>0.125f\<close>.\<close>

abbreviation f_half :: f32 where "f_half \<equiv> 0x3F000000"
abbreviation f_quarter :: f32 where "f_quarter \<equiv> 0x3E800000"
abbreviation f_one :: f32 where "f_one \<equiv> 0x3F800000"
abbreviation f_minus_one :: f32 where "f_minus_one \<equiv> 0xBF800000"
abbreviation kDelta :: f32 where "kDelta \<equiv> 0x3E000000"

definition dq_IQ2_XXS :: "u8 list \<Rightarrow> int \<Rightarrow> f32 option" where
  "dq_IQ2_XXS block column = (
     let block32 = shr column 5; position = column AND 31; sub = shr position 3; element = position AND 7;
         vals = 2 + 8 * block32
     in do {
       g0 \<leftarrow> u16_at block vals;
       g1 \<leftarrow> u16_at block (vals + 2);
       let grids = g0 OR shl g1 16;
       s0 \<leftarrow> u16_at block (vals + 4);
       s1 \<leftarrow> u16_at block (vals + 6);
       let signs_scale = s0 OR shl s1 16;
       grid \<leftarrow> rd iq2xxs_grid (shr grids (8 * sub) AND 255);
       signs \<leftarrow> rd ksigns_iq2xs (shr signs_scale (7 * sub) AND 127);
       h \<leftarrow> half_at block 0;
       let scale = f32_mul (f32_mul h (f32_add f_half (f32_of_int (shr signs_scale 28 AND 15)))) f_quarter;
       let magnitude = f32_of_int (shr grid (8 * element) AND 255);
       mask \<leftarrow> rd kmask_iq2xs element;
       Some (f32_mul (f32_mul scale magnitude) (if signs AND mask \<noteq> 0 then f_minus_one else f_one)) })"

definition dq_IQ2_XS :: "u8 list \<Rightarrow> int \<Rightarrow> f32 option" where
  "dq_IQ2_XS block column = (
     let block32 = shr column 5; position = column AND 31; half = shr position 4; sub = shr (position AND 15) 3;
         element = position AND 7
     in do {
       index \<leftarrow> u16_at block (2 + 2 * (4 * block32 + 2 * half + sub));
       grid \<leftarrow> rd iq2xs_grid (index AND 511);
       signs \<leftarrow> rd ksigns_iq2xs (shr index 9);
       sb \<leftarrow> byte_at block (66 + block32);
       let local_scale = shr sb (4 * half) AND 15;
       h \<leftarrow> half_at block 0;
       let scale = f32_mul (f32_mul h (f32_add f_half (f32_of_int local_scale))) f_quarter;
       let magnitude = f32_of_int (shr grid (8 * element) AND 255);
       mask \<leftarrow> rd kmask_iq2xs element;
       Some (f32_mul (f32_mul scale magnitude) (if signs AND mask \<noteq> 0 then f_minus_one else f_one)) })"

definition dq_IQ3_XXS :: "u8 list \<Rightarrow> int \<Rightarrow> f32 option" where
  "dq_IQ3_XXS block column = (
     let quants = 2; block32 = shr column 5; position = column AND 31; half = shr position 4; w = position AND 15;
         group = shr w 2; element = w AND 3; local_quants = quants + 8 * block32; signs_bytes = quants + 64 + 4 * block32
     in do {
       s0 \<leftarrow> u16_at block signs_bytes;
       s1 \<leftarrow> u16_at block (signs_bytes + 2);
       let signs_scale = s0 OR shl s1 16;
       q \<leftarrow> byte_at block (local_quants + (4 * half + group));
       grid \<leftarrow> rd iq3xxs_grid q;
       signs \<leftarrow> rd ksigns_iq2xs (shr signs_scale (14 * half + 7 * shr group 1) AND 127);
       h \<leftarrow> half_at block 0;
       let scale = f32_mul (f32_mul h (f32_add f_half (f32_of_int (shr signs_scale 28)))) f_half;
       let magnitude = f32_of_int (shr grid (8 * element) AND 255);
       let sign_element = element + 4 * (group AND 1);
       mask \<leftarrow> rd kmask_iq2xs sign_element;
       Some (f32_mul (f32_mul scale magnitude) (if signs AND mask \<noteq> 0 then f_minus_one else f_one)) })"

definition dq_IQ3_S :: "u8 list \<Rightarrow> int \<Rightarrow> f32 option" where
  "dq_IQ3_S block column = (
     let quants = 2; high = 66; signs = 74; scales = 106; block32 = shr column 5; position = column AND 31;
         group8 = shr position 3; within8 = position AND 7; group4 = shr within8 2; element = within8 AND 3;
         pair64 = shr block32 1; pair_half = block32 AND 1; quant_offset = block32 * 8 + group8 * 2 + group4
     in do {
       high_byte \<leftarrow> byte_at block (high + (2 * pair64 + pair_half));
       let high_shift = group8 * 2 + group4;
       q \<leftarrow> byte_at block (quants + quant_offset);
       let grid_index = q OR shl (shr high_byte high_shift AND 1) 8;
       grid \<leftarrow> rd iq3s_grid grid_index;
       sb \<leftarrow> byte_at block (signs + (block32 * 4 + group8));
       let sign = shr sb within8 AND 1;
       ls \<leftarrow> byte_at block (scales + pair64);
       let local_scale = (if pair_half = 0 then ls AND 15 else shr ls 4);
       h \<leftarrow> half_at block 0;
       let scale = f32_mul h (f32_of_int (1 + 2 * local_scale));
       let magnitude = f32_of_int (shr grid (8 * element) AND 255);
       Some (f32_mul (f32_mul scale magnitude) (if sign \<noteq> 0 then f_minus_one else f_one)) })"

definition dq_IQ2_S :: "u8 list \<Rightarrow> int \<Rightarrow> f32 option" where
  "dq_IQ2_S block column = (
     let quants = 2; high = 66; signs = 34; scales = 74; block32 = shr column 5; position = column AND 31;
         group8 = shr position 3; element = position AND 7
     in do {
       q \<leftarrow> byte_at block (quants + (block32 * 4 + group8));
       hb \<leftarrow> byte_at block (high + block32);
       let grid_index = q OR shl (shr hb (2 * group8) AND 3) 8;
       grid \<leftarrow> rd iq2s_grid grid_index;
       ls \<leftarrow> byte_at block (scales + block32);
       let local_scale = (if group8 < 2 then ls AND 15 else shr ls 4);
       h \<leftarrow> half_at block 0;
       let scale = f32_mul (f32_mul h (f32_add f_half (f32_of_int local_scale))) f_quarter;
       let magnitude = f32_of_int (shr grid (8 * element) AND 255);
       sb \<leftarrow> byte_at block (signs + (block32 * 4 + group8));
       let sign = shr sb element AND 1;
       Some (f32_mul (f32_mul scale magnitude) (if sign \<noteq> 0 then f_minus_one else f_one)) })"

definition dq_IQ1_S :: "u8 list \<Rightarrow> int \<Rightarrow> f32 option" where
  "dq_IQ1_S block column = (
     let quants = 2; block32 = shr column 5; position = column AND 31; group8 = shr position 3; element = position AND 7
     in do {
       high \<leftarrow> u16_at block (34 + 2 * block32);
       h \<leftarrow> half_at block 0;
       let scale = f32_mul h (f32_of_int (2 * (shr high 12 AND 7) + 1));
       let delta = (if high AND 0x8000 \<noteq> 0 then f32_neg kDelta else kDelta);
       q \<leftarrow> byte_at block (quants + (4 * block32 + group8));
       let grid_index = q OR shl (shr high (3 * group8) AND 7) 8;
       grid \<leftarrow> rd iq1s_grid grid_index;
       let v = int8 (shr grid (8 * element) AND 255);
       Some (f32_mul scale (f32_add (f32_of_int v) delta)) })"

text \<open>The block scale is spread over the top nibbles of four words.\<close>

definition dq_IQ1_M :: "u8 list \<Rightarrow> int \<Rightarrow> f32 option" where
  "dq_IQ1_M block column = (
     let quants = 0; high = 32; scale_bytes = 48; block32 = shr column 5; position = column AND 31;
         group8 = shr position 3; element = position AND 7
     in do {
       s0 \<leftarrow> u16_at block scale_bytes;
       s1 \<leftarrow> u16_at block (scale_bytes + 2);
       s2 \<leftarrow> u16_at block (scale_bytes + 4);
       s3 \<leftarrow> u16_at block (scale_bytes + 6);
       let scale_bits = shr s0 12 OR (shr s1 8 AND 0x00F0) OR (shr s2 4 AND 0x0F00) OR (s3 AND 0xF000);
       high_byte \<leftarrow> byte_at block (high + (block32 * 2 + cdiv group8 2));
       let shift = (if group8 AND 1 = 0 then 0 else 4);
       q \<leftarrow> byte_at block (quants + (block32 * 4 + group8));
       let grid_index = q OR shl (shr high_byte shift AND 7) 8;
       let negative_delta = (high_byte AND (if group8 AND 1 = 0 then 0x08 else 0x80) \<noteq> 0);
       let scale_word = shr block32 1;
       let scale_shift = 6 * (block32 AND 1) + (if group8 < 2 then 0 else 3);
       sw \<leftarrow> rd [s0, s1, s2, s3] scale_word;
       let local_scale = shr sw scale_shift AND 7;
       d \<leftarrow> fp16_to_fp32 (word_of_int scale_bits);
       let scale = f32_mul d (f32_of_int (2 * local_scale + 1));
       grid \<leftarrow> rd iq1s_grid grid_index;
       let v = f32_of_int (int8 (shr grid (8 * element) AND 255));
       let delta = (if negative_delta then f32_neg kDelta else kDelta);
       Some (f32_mul scale (f32_add v delta)) })"

section \<open>Ternary formats\<close>

text \<open>Five base-three digits in a byte, as a fraction of 256; four in the last bytes.\<close>

definition kPow3 :: "int list" where
  "kPow3 = [1, 3, 9, 27, 81]"

definition trit_digit :: "int \<Rightarrow> int \<Rightarrow> int" where
  "trit_digit encoded pow = shr (((encoded * pow) AND 255) * 3) 8"

definition dq_TQ1_0 :: "u8 list \<Rightarrow> int \<Rightarrow> f32 option" where
  "dq_TQ1_0 block column = do {
     (encoded, trit) \<leftarrow>
       if column < 240 then
         (let sec = cdiv column 160; inner = crem column 160; stride = (if sec = 0 then 32 else 16);
              section_base = (if sec = 0 then 0 else 32)
          in do { e \<leftarrow> byte_at block (section_base + crem inner stride); Some (e, cdiv inner stride) })
       else
         (let inner = column - 240
          in do { e \<leftarrow> byte_at block (48 + (inner AND 3)); Some (e, cdiv inner 4) });
     pow \<leftarrow> rd kPow3 trit;
     h \<leftarrow> half_at block 52;
     Some (f32_mul h (f32_of_int (trit_digit encoded pow - 1))) }"

definition dq_TQ2_0 :: "u8 list \<Rightarrow> int \<Rightarrow> f32 option" where
  "dq_TQ2_0 block column = (
     let half = shr column 7; position = column AND 127; group = shr position 5; lane = position AND 31
     in do {
       byte \<leftarrow> byte_at block (32 * half + lane);
       h \<leftarrow> half_at block 64;
       Some (f32_mul h (f32_of_int ((shr byte (2 * group) AND 3) - 1))) })"

section \<open>The switch\<close>

fun dequant :: "QuantFormat \<Rightarrow> u8 list \<Rightarrow> int \<Rightarrow> f32 option" where
  "dequant kQ1_0 = dq_Q1_0"
| "dequant kQ2_0 = dq_Q2_0"
| "dequant kQ8_0 = dq_Q8_0"
| "dequant kQ4_0 = dq_Q4_0"
| "dequant kQ4_1 = dq_Q4_1"
| "dequant kQ5_0 = dq_Q5 False"
| "dequant kQ5_1 = dq_Q5 True"
| "dequant kU4B8 = dq_U4B8"
| "dequant kU4 = dq_U4 64"
| "dequant kHQQ = dq_U4 32"
| "dequant kFP8E4M3 = dq_FP8 F8_kE4M3FN"
| "dequant kFP8E5M2 = dq_FP8 F8_kE5M2"
| "dequant kFP8Block = dq_FP8 F8_kE4M3FN"
| "dequant kFP8Raw = dq_FP8Raw"
| "dequant kFP4E2M1 = dq_FP4E2M1"
| "dequant kMXFP8 = dq_MXFP8"
| "dequant kNVFP4 = dq_NVFP4"
| "dequant kMXFP4 = dq_MXFP4"
| "dequant kMXFP6E3M2 = dq_MXFP6 True"
| "dequant kMXFP6E2M3 = dq_MXFP6 False"
| "dequant kBitnet = dq_Bitnet"
| "dequant kQ2_K = dq_Q2_K"
| "dequant kQ3_K = dq_Q3_K"
| "dequant kQ4_K = dq_Q45_K False"
| "dequant kQ5_K = dq_Q45_K True"
| "dequant kQ6_K = dq_Q6_K"
| "dequant kIQ4_NL = dq_IQ4_NL"
| "dequant kIQ4_XS = dq_IQ4_XS"
| "dequant kIQ2_XXS = dq_IQ2_XXS"
| "dequant kIQ2_XS = dq_IQ2_XS"
| "dequant kIQ3_XXS = dq_IQ3_XXS"
| "dequant kIQ3_S = dq_IQ3_S"
| "dequant kIQ2_S = dq_IQ2_S"
| "dequant kIQ1_S = dq_IQ1_S"
| "dequant kIQ1_M = dq_IQ1_M"
| "dequant kTQ1_0 = dq_TQ1_0"
| "dequant kTQ2_0 = dq_TQ2_0"

section \<open>Reads stay inside the block and the tables\<close>

named_theorems reads

lemma and_mask_mod: "x AND (2 ^ n - 1) = x mod 2 ^ n" for x :: int
  by (simp add: mask_eq_exp_minus_1 [symmetric] take_bit_eq_mask [symmetric] take_bit_eq_mod)

lemma and_mask_1: "x AND 1 = x mod 2" for x :: int
  using and_mask_mod [of x 1] by simp

lemma and_mask_3: "x AND 3 = x mod 4" for x :: int
  using and_mask_mod [of x 2] by simp

lemma and_mask_7: "x AND 7 = x mod 8" for x :: int
  using and_mask_mod [of x 3] by simp

lemma and_mask_15: "x AND 15 = x mod 16" for x :: int
  using and_mask_mod [of x 4] by simp

lemma and_mask_31: "x AND 31 = x mod 32" for x :: int
  using and_mask_mod [of x 5] by simp

lemma and_mask_63: "x AND 63 = x mod 64" for x :: int
  using and_mask_mod [of x 6] by simp

lemma and_mask_127: "x AND 127 = x mod 128" for x :: int
  using and_mask_mod [of x 7] by simp

lemma and_mask_255: "x AND 255 = x mod 256" for x :: int
  using and_mask_mod [of x 8] by simp

lemma and_mask_511: "x AND 511 = x mod 512" for x :: int
  using and_mask_mod [of x 9] by simp

lemmas and_masks = and_mask_1 and_mask_3 and_mask_7 and_mask_15 and_mask_31 and_mask_63 and_mask_127 and_mask_255 and_mask_511

lemmas to_arith = and_masks drop_bit_eq_div push_bit_eq_mult

lemma ok_bindI [reads]: "ok (\<lambda>x. ok Q (k x)) m \<Longrightarrow> ok Q (Option.bind m k)"
  by (simp add: ok_bind)

lemma ok_ifI [reads]: "(c \<Longrightarrow> ok Q a) \<Longrightarrow> (\<not> c \<Longrightarrow> ok Q b) \<Longrightarrow> ok Q (if c then a else b)"
  by simp

lemma ok_SomeI [reads]: "Q x \<Longrightarrow> ok Q (Some x)"
  by simp

lemma ok_prodI [reads]: "ok Q (f a b) \<Longrightarrow> ok Q (case (a, b) of (x, y) \<Rightarrow> f x y)"
  by simp

lemma ok_byte [reads]:
  "0 \<le> i \<Longrightarrow> i < int (length b) \<Longrightarrow> (\<And>x. 0 \<le> x \<Longrightarrow> x < 256 \<Longrightarrow> Q x) \<Longrightarrow> ok Q (byte_at b i)"
  using uint_lt2p [of "b ! nat i"] by (simp add: byte_at_def rd_def in_buf_def)

lemma or_shift_bounds:
  fixes x y :: int
  assumes "0 \<le> x" "x < 2 ^ n" "0 \<le> y" "y < 2 ^ m"
  shows "0 \<le> x OR shl y (int n) \<and> x OR shl y (int n) < 2 ^ (n + m)"
proof -
  have "shl y (int n) < 2 ^ (n + m)" using assms by (simp add: push_bit_eq_mult power_add)
  moreover have "x < 2 ^ (n + m)" using assms(2) power_increasing [of n "n + m" "2 :: int"] by linarith
  ultimately show ?thesis using OR_upper [of x "n + m" "shl y (int n)"] assms(1,3) by (simp add: push_bit_eq_mult)
qed

lemma ok_u16 [reads]:
  "0 \<le> i \<Longrightarrow> i + 1 < int (length b) \<Longrightarrow> (\<And>x. 0 \<le> x \<Longrightarrow> x < 65536 \<Longrightarrow> Q x) \<Longrightarrow> ok Q (u16_at b i)"
  using or_shift_bounds [of _ 8 _ 8] unfolding u16_at_def by (intro reads) auto

lemma ok_u32 [reads]:
  "0 \<le> i \<Longrightarrow> i + 3 < int (length b) \<Longrightarrow> (\<And>x. 0 \<le> x \<Longrightarrow> x < 4294967296 \<Longrightarrow> Q x) \<Longrightarrow> ok Q (u32_at b i)"
  using or_shift_bounds [of _ 16 _ 16] unfolding u32_at_def by (intro reads) auto

lemma ok_fp16 [reads]: "(\<And>x. Q x) \<Longrightarrow> ok Q (fp16_to_fp32 h)"
  using fp16_to_fp32_defined [of h] by auto

lemma ok_half [reads]: "0 \<le> i \<Longrightarrow> i + 1 < int (length b) \<Longrightarrow> (\<And>x. Q x) \<Longrightarrow> ok Q (half_at b i)"
  unfolding half_at_def by (intro reads)

lemma ok_table [reads]: "0 \<le> i \<Longrightarrow> i < int (length t) \<Longrightarrow> (\<And>x. Q x) \<Longrightarrow> ok Q (rd t i)"
  by (simp add: rd_def in_buf_def)

lemma ok_scale_min [reads]:
  "0 \<le> i \<Longrightarrow> i < 8 \<Longrightarrow> 0 \<le> s \<Longrightarrow> s + i + 4 < int (length b) \<Longrightarrow> (\<And>x y. Q (x, y)) \<Longrightarrow> ok Q (scale_min_k4 i b s)"
  unfolding scale_min_k4_def by (intro reads) auto

lemma ok_e2m1 [reads]: "(\<And>x. Q x) \<Longrightarrow> ok Q (e2m1 c)"
  unfolding e2m1_def kE2M1_def by (intro reads) (auto simp: and_masks)

lemma or_index:
  "0 \<le> x \<Longrightarrow> x < 256 \<Longrightarrow> 0 \<le> y \<Longrightarrow> y < 2 ^ n \<Longrightarrow> 8 \<le> n \<Longrightarrow> 0 \<le> x OR y \<and> x OR y < 2 ^ n" for x y :: int
  using OR_upper [of x n y] power_increasing [of 8 n "2 :: int"] by auto

lemma ok_grid:
  assumes "0 \<le> q" "q < 256" "m = 1 \<or> m = 3 \<or> m = 7" "int (length t) = 256 * (m + 1)" "\<And>x. Q x"
  shows "ok Q (rd t (q OR shl (w AND m) 8))"
proof -
  have "0 \<le> q OR y * 256 \<and> q OR y * 256 < 256 * (m + 1)" if "0 \<le> y" "y \<le> m" for y
    using assms(1-3) that or_index [of q "y * 256" 9] or_index [of q "y * 256" 10] or_index [of q "y * 256" 11] by auto
  then have "0 \<le> q OR shl (w AND m) 8 \<and> q OR shl (w AND m) 8 < 256 * (m + 1)"
    using assms(1,3) by (auto simp: to_arith)
  then show ?thesis using assms(4,5) by (simp add: rd_def in_buf_def)
qed

lemma ok_q3_scale [reads]:
  "0 \<le> byte \<Longrightarrow> byte < 4 \<Longrightarrow> 0 \<le> s \<Longrightarrow> s + 12 \<le> int (length b) \<Longrightarrow> (\<And>x. Q x) \<Longrightarrow> ok Q (q3_scale b s w byte)"
  unfolding q3_scale_def by (intro reads) auto

lemmas in_block = to_arith kPow3_def kValues_def

text \<open>A column is a part number and a position in the part; both become variables, so that the bounds are linear.\<close>

lemma column_split:
  fixes c n m :: int
  assumes "0 \<le> c" "c < n * m" "0 < n"
  obtains a p where "c div n = a" "c mod n = p" "0 \<le> a" "a < m" "0 \<le> p" "p < n"
proof (rule that [of "c div n" "c mod n"])
  show "c div n < m" using le_div_iff [of n m c] assms by (simp add: mult.commute not_le [symmetric])
qed (use assms in \<open>simp_all add: pos_imp_zdiv_nonneg_iff\<close>)


section \<open>Every column of a block decodes\<close>

lemma decode_Q1_0: "int (length b) = 18 \<Longrightarrow> 0 \<le> c \<Longrightarrow> c < 128 \<Longrightarrow> ok (\<lambda>_. True) (dq_Q1_0 b c)"
  unfolding dq_Q1_0_def Let_def by (intro ok_grid reads; (simp add: in_block)?; presburger?)

lemma decode_Q2_0: "int (length b) = 18 \<Longrightarrow> 0 \<le> c \<Longrightarrow> c < 64 \<Longrightarrow> ok (\<lambda>_. True) (dq_Q2_0 b c)"
  unfolding dq_Q2_0_def Let_def by (intro ok_grid reads; (simp add: in_block)?; presburger?)

lemma decode_Q8_0: "int (length b) = 34 \<Longrightarrow> 0 \<le> c \<Longrightarrow> c < 32 \<Longrightarrow> ok (\<lambda>_. True) (dq_Q8_0 b c)"
  unfolding dq_Q8_0_def Let_def by (intro ok_grid reads; (simp add: in_block)?; presburger?)

lemma decode_Q4_0: "int (length b) = 18 \<Longrightarrow> 0 \<le> c \<Longrightarrow> c < 32 \<Longrightarrow> ok (\<lambda>_. True) (dq_Q4_0 b c)"
  unfolding dq_Q4_0_def Let_def by (intro ok_grid reads; (simp add: in_block)?; presburger?)

lemma decode_Q4_1: "int (length b) = 20 \<Longrightarrow> 0 \<le> c \<Longrightarrow> c < 32 \<Longrightarrow> ok (\<lambda>_. True) (dq_Q4_1 b c)"
  unfolding dq_Q4_1_def Let_def by (intro ok_grid reads; (simp add: in_block)?; presburger?)

lemma decode_Q5_False: "int (length b) = 22 \<Longrightarrow> 0 \<le> c \<Longrightarrow> c < 32 \<Longrightarrow> ok (\<lambda>_. True) (dq_Q5 False b c)"
  unfolding dq_Q5_def Let_def by (intro ok_grid reads; (simp add: in_block)?; presburger?)

lemma decode_Q5_True: "int (length b) = 24 \<Longrightarrow> 0 \<le> c \<Longrightarrow> c < 32 \<Longrightarrow> ok (\<lambda>_. True) (dq_Q5 True b c)"
  unfolding dq_Q5_def Let_def by (intro ok_grid reads; (simp add: in_block)?; presburger?)

lemma decode_U4B8: "int (length b) = 66 \<Longrightarrow> 0 \<le> c \<Longrightarrow> c < 128 \<Longrightarrow> ok (\<lambda>_. True) (dq_U4B8 b c)"
  unfolding dq_U4B8_def Let_def by (intro ok_grid reads; (simp add: in_block)?; presburger?)

lemma decode_U4_64: "int (length b) = 68 \<Longrightarrow> 0 \<le> c \<Longrightarrow> c < 128 \<Longrightarrow> ok (\<lambda>_. True) (dq_U4 64 b c)"
  unfolding dq_U4_def Let_def by (intro ok_grid reads; (simp add: in_block)?; presburger?)

lemma decode_U4_32: "int (length b) = 36 \<Longrightarrow> 0 \<le> c \<Longrightarrow> c < 64 \<Longrightarrow> ok (\<lambda>_. True) (dq_U4 32 b c)"
  unfolding dq_U4_def Let_def by (intro ok_grid reads; (simp add: in_block)?; presburger?)

lemma decode_FP8_32: "int (length b) = 34 \<Longrightarrow> 0 \<le> c \<Longrightarrow> c < 32 \<Longrightarrow> ok (\<lambda>_. True) (dq_FP8 fmt b c)"
  unfolding dq_FP8_def Let_def by (intro ok_grid reads; (simp add: in_block)?; presburger?)

lemma decode_FP8_128: "int (length b) = 130 \<Longrightarrow> 0 \<le> c \<Longrightarrow> c < 128 \<Longrightarrow> ok (\<lambda>_. True) (dq_FP8 fmt b c)"
  unfolding dq_FP8_def Let_def by (intro ok_grid reads; (simp add: in_block)?; presburger?)

lemma decode_FP8Raw: "int (length b) = 128 \<Longrightarrow> 0 \<le> c \<Longrightarrow> c < 128 \<Longrightarrow> ok (\<lambda>_. True) (dq_FP8Raw b c)"
  unfolding dq_FP8Raw_def Let_def by (intro ok_grid reads; (simp add: in_block)?; presburger?)

lemma decode_FP4E2M1: "int (length b) = 18 \<Longrightarrow> 0 \<le> c \<Longrightarrow> c < 32 \<Longrightarrow> ok (\<lambda>_. True) (dq_FP4E2M1 b c)"
  unfolding dq_FP4E2M1_def Let_def by (intro ok_grid reads; (simp add: in_block)?; presburger?)

lemma decode_MXFP8: "int (length b) = 33 \<Longrightarrow> 0 \<le> c \<Longrightarrow> c < 32 \<Longrightarrow> ok (\<lambda>_. True) (dq_MXFP8 b c)"
  unfolding dq_MXFP8_def Let_def by (intro ok_grid reads; (simp add: in_block)?; presburger?)

lemma decode_NVFP4: "int (length b) = 36 \<Longrightarrow> 0 \<le> c \<Longrightarrow> c < 64 \<Longrightarrow> ok (\<lambda>_. True) (dq_NVFP4 b c)"
  unfolding dq_NVFP4_def Let_def by (intro ok_grid reads; (simp add: in_block)?; presburger?)

lemma decode_MXFP4: "int (length b) = 17 \<Longrightarrow> 0 \<le> c \<Longrightarrow> c < 32 \<Longrightarrow> ok (\<lambda>_. True) (dq_MXFP4 b c)"
  unfolding dq_MXFP4_def Let_def by (intro ok_grid reads; (simp add: in_block)?; presburger?)

lemma decode_MXFP6: "int (length b) = 25 \<Longrightarrow> 0 \<le> c \<Longrightarrow> c < 32 \<Longrightarrow> ok (\<lambda>_. True) (dq_MXFP6 e b c)"
  unfolding dq_MXFP6_def Let_def by (intro ok_grid reads; (simp add: in_block)?; presburger?)

lemma decode_Bitnet: "int (length b) = 10 \<Longrightarrow> 0 \<le> c \<Longrightarrow> c < 32 \<Longrightarrow> ok (\<lambda>_. True) (dq_Bitnet b c)"
  unfolding dq_Bitnet_def Let_def by (intro ok_grid reads; (simp add: in_block)?; presburger?)

lemma decode_IQ4_NL: "int (length b) = 18 \<Longrightarrow> 0 \<le> c \<Longrightarrow> c < 32 \<Longrightarrow> ok (\<lambda>_. True) (dq_IQ4_NL b c)"
  unfolding dq_IQ4_NL_def Let_def by (intro ok_grid reads; (simp add: in_block)?; presburger?)

lemma decode_IQ2_XXS: "int (length b) = 66 \<Longrightarrow> 0 \<le> c \<Longrightarrow> c < 256 \<Longrightarrow> ok (\<lambda>_. True) (dq_IQ2_XXS b c)"
  unfolding dq_IQ2_XXS_def Let_def by (intro ok_grid reads; (simp add: in_block)?; presburger?)

lemma decode_IQ2_XS: "int (length b) = 74 \<Longrightarrow> 0 \<le> c \<Longrightarrow> c < 256 \<Longrightarrow> ok (\<lambda>_. True) (dq_IQ2_XS b c)"
  unfolding dq_IQ2_XS_def Let_def by (intro ok_grid reads; (simp add: in_block)?; presburger?)

lemma decode_IQ3_XXS: "int (length b) = 98 \<Longrightarrow> 0 \<le> c \<Longrightarrow> c < 256 \<Longrightarrow> ok (\<lambda>_. True) (dq_IQ3_XXS b c)"
  unfolding dq_IQ3_XXS_def Let_def by (intro ok_grid reads; (simp add: in_block)?; presburger?)

lemma decode_IQ3_S: "int (length b) = 110 \<Longrightarrow> 0 \<le> c \<Longrightarrow> c < 256 \<Longrightarrow> ok (\<lambda>_. True) (dq_IQ3_S b c)"
  unfolding dq_IQ3_S_def Let_def by (intro ok_grid reads; (simp add: in_block)?; presburger?)

lemma decode_IQ2_S: "int (length b) = 82 \<Longrightarrow> 0 \<le> c \<Longrightarrow> c < 256 \<Longrightarrow> ok (\<lambda>_. True) (dq_IQ2_S b c)"
  unfolding dq_IQ2_S_def Let_def by (intro ok_grid reads; (simp add: in_block)?; presburger?)

lemma decode_IQ1_S: "int (length b) = 50 \<Longrightarrow> 0 \<le> c \<Longrightarrow> c < 256 \<Longrightarrow> ok (\<lambda>_. True) (dq_IQ1_S b c)"
  unfolding dq_IQ1_S_def Let_def by (intro ok_grid reads; (simp add: in_block)?; presburger?)

lemma decode_IQ1_M: "int (length b) = 56 \<Longrightarrow> 0 \<le> c \<Longrightarrow> c < 256 \<Longrightarrow> ok (\<lambda>_. True) (dq_IQ1_M b c)"
  unfolding dq_IQ1_M_def Let_def by (intro ok_grid reads; (simp add: in_block)?; presburger?)

lemma decode_Q2_K:
  assumes "int (length b) = 84" "0 \<le> c" "c < 256"
  shows "ok (\<lambda>_. True) (dq_Q2_K b c)"
proof -
  from column_split [of c 128 2] assms(2,3) obtain a p where parts: "c div 128 = a" "c mod 128 = p"
    and bounds: "0 \<le> a" "a < 2" "0 \<le> p" "p < 128" by auto
  have "c = 128 * a + p" by (simp flip: parts)
  with assms bounds show ?thesis unfolding dq_Q2_K_def Let_def
    by - (intro ok_grid reads; simp add: in_block parts; linarith?)
qed

lemma decode_Q3_K:
  assumes "int (length b) = 110" "0 \<le> c" "c < 256"
  shows "ok (\<lambda>_. True) (dq_Q3_K b c)"
proof -
  from column_split [of c 128 2] assms(2,3) obtain a p where parts: "c div 128 = a" "c mod 128 = p"
    and bounds: "0 \<le> a" "a < 2" "0 \<le> p" "p < 128" by auto
  have "c = 128 * a + p" by (simp flip: parts)
  with assms bounds show ?thesis unfolding dq_Q3_K_def Let_def
    by - (intro ok_grid reads; simp add: in_block parts; linarith?)
qed

lemma decode_Q6_K:
  assumes "int (length b) = 210" "0 \<le> c" "c < 256"
  shows "ok (\<lambda>_. True) (dq_Q6_K b c)"
proof -
  from column_split [of c 128 2] assms(2,3) obtain a p where parts: "c div 128 = a" "c mod 128 = p"
    and bounds: "0 \<le> a" "a < 2" "0 \<le> p" "p < 128" by auto
  have "c = 128 * a + p" by (simp flip: parts)
  with assms bounds show ?thesis unfolding dq_Q6_K_def Let_def
    by - (intro ok_grid reads; simp add: in_block parts; linarith?)
qed

lemma decode_TQ2_0:
  assumes "int (length b) = 66" "0 \<le> c" "c < 256"
  shows "ok (\<lambda>_. True) (dq_TQ2_0 b c)"
proof -
  from column_split [of c 128 2] assms(2,3) obtain a p where parts: "c div 128 = a" "c mod 128 = p"
    and bounds: "0 \<le> a" "a < 2" "0 \<le> p" "p < 128" by auto
  have "c = 128 * a + p" by (simp flip: parts)
  with assms bounds show ?thesis unfolding dq_TQ2_0_def Let_def
    by - (intro ok_grid reads; simp add: in_block parts; linarith?)
qed

lemma decode_Q45_K_False:
  assumes "int (length b) = 144" "0 \<le> c" "c < 256"
  shows "ok (\<lambda>_. True) (dq_Q45_K False b c)"
proof -
  from column_split [of c 64 4] assms(2,3) obtain a p where parts: "c div 64 = a" "c mod 64 = p"
    and bounds: "0 \<le> a" "a < 4" "0 \<le> p" "p < 64" by auto
  have "c = 64 * a + p" by (simp flip: parts)
  with assms bounds show ?thesis unfolding dq_Q45_K_def Let_def
    by - (intro ok_grid reads; simp add: in_block parts; linarith?)
qed

lemma decode_Q45_K_True:
  assumes "int (length b) = 176" "0 \<le> c" "c < 256"
  shows "ok (\<lambda>_. True) (dq_Q45_K True b c)"
proof -
  from column_split [of c 64 4] assms(2,3) obtain a p where parts: "c div 64 = a" "c mod 64 = p"
    and bounds: "0 \<le> a" "a < 4" "0 \<le> p" "p < 64" by auto
  have "c = 64 * a + p" by (simp flip: parts)
  with assms bounds show ?thesis unfolding dq_Q45_K_def Let_def
    by - (intro ok_grid reads; simp add: in_block parts; linarith?)
qed

lemma decode_IQ4_XS:
  assumes "int (length b) = 136" "0 \<le> c" "c < 256"
  shows "ok (\<lambda>_. True) (dq_IQ4_XS b c)"
proof -
  from column_split [of c 32 8] assms(2,3) obtain a p where parts: "c div 32 = a" "c mod 32 = p"
    and bounds: "0 \<le> a" "a < 8" "0 \<le> p" "p < 32" by auto
  have "c = 32 * a + p" by (simp flip: parts)
  with assms bounds show ?thesis unfolding dq_IQ4_XS_def Let_def
    by - (intro ok_grid reads; simp add: in_block parts; linarith?)
qed

lemma decode_TQ1_0:
  assumes "int (length b) = 54" "0 \<le> c" "c < 256"
  shows "ok (\<lambda>_. True) (dq_TQ1_0 b c)"
proof -
  from column_split [of c 160 2] assms(2,3) obtain a p where parts: "c div 160 = a" "c mod 160 = p"
    and bounds: "0 \<le> a" "a < 2" "0 \<le> p" "p < 160" by auto
  have "c = 160 * a + p" by (simp flip: parts)
  with assms bounds show ?thesis unfolding dq_TQ1_0_def Let_def
    by - (intro ok_grid reads; simp add: in_block parts; linarith?)
qed

lemmas decode_rules =
  decode_Q1_0 decode_Q2_0 decode_Q8_0 decode_Q4_0 decode_Q4_1 decode_Q5_False
  decode_Q5_True decode_U4B8 decode_U4_64 decode_U4_32 decode_FP8_32 decode_FP8_128
  decode_FP8Raw decode_FP4E2M1 decode_MXFP8 decode_NVFP4 decode_MXFP4 decode_MXFP6
  decode_Bitnet decode_IQ4_NL decode_IQ2_XXS decode_IQ2_XS decode_IQ3_XXS decode_IQ3_S
  decode_IQ2_S decode_IQ1_S decode_IQ1_M decode_Q2_K decode_Q3_K decode_Q6_K
  decode_TQ2_0 decode_Q45_K_False decode_Q45_K_True decode_IQ4_XS decode_TQ1_0

lemma dequant_ok:
  assumes "int (length b) = block_bytes f" "0 \<le> c" "c < block_size f"
  shows "ok (\<lambda>_. True) (dequant f b c)"
  using assms by (cases f) (simp_all add: block_bytes_def block_size_def decode_rules)

section \<open>Properties\<close>

text \<open>
  C35: for every format, decoding any column of a block of that format's size is defined: whatever the bytes are, no byte outside
  the block is read and no index leaves its codebook.
\<close>

theorem dequant_in_bounds:
  assumes "int (length b) = block_bytes f" "0 \<le> c" "c < block_size f"
  shows "\<exists>v. dequant f b c = Some v"
  using dequant_ok [OF assms] by (auto simp: ok_def)

theorem dequant_in_bounds_witness:
  "int (length (replicate 56 (0xFF :: u8))) = block_bytes kIQ1_M \<and> 255 < block_size kIQ1_M \<and>
   (\<exists>v. dequant kIQ1_M (replicate 56 0xFF) 255 = Some v)"
  using dequant_in_bounds [of "replicate 56 0xFF" kIQ1_M 255] by (simp add: block_bytes_def block_size_def)

text \<open>The integer code of a column, over the bytes as numbers.\<close>

definition integer_code :: "QuantFormat \<Rightarrow> u8 list \<Rightarrow> int \<Rightarrow> int" where
  "integer_code f b c =
     (let byte = (\<lambda>i. uint (b ! nat i))
      in if f = kQ8_0 then (if byte (2 + c) < 128 then byte (2 + c) else byte (2 + c) - 256)
         else if f = kQ4_0 then (if c < 16 then byte (2 + c) mod 16 else byte (2 + c - 16) div 16) - 8
         else if f = kU4B8 then (if c < 64 then byte (2 + c) mod 16 else byte (2 + c - 64) div 16) - 8
         else byte (2 + c div 4) div 4 ^ nat (c mod 4) mod 4 - 1)"

text \<open>The half at the start of a block.\<close>

definition block_scale :: "u8 list \<Rightarrow> u16" where
  "block_scale b = word_of_int (uint (b ! 0) + 256 * uint (b ! 1))"

lemma byte_at_nth: "0 \<le> i \<Longrightarrow> i < int (length b) \<Longrightarrow> byte_at b i = Some (uint (b ! nat i))"
  by (simp add: byte_at_def rd_def in_buf_def)

lemma byte_bounds: "0 \<le> uint (x :: u8)" "uint (x :: u8) < 256"
  using uint_lt2p [of x] by simp_all

lemma or_shift_add: "0 \<le> x \<Longrightarrow> x < 2 ^ n \<Longrightarrow> x OR push_bit n y = x + push_bit n y" for x y :: int
proof -
  assume "0 \<le> x" "x < 2 ^ n"
  then have "take_bit n x = x" by (simp add: take_bit_int_eq_self)
  moreover have "take_bit n x AND push_bit n y = 0" by (auto simp: bit_eq_iff bit_simps)
  ultimately show ?thesis by (simp add: disjunctive_add_eq_or)
qed

lemma half_at_0:
  assumes "2 \<le> length b"
  shows "half_at b 0 = fp16_to_fp32 (block_scale b)"
proof -
  have "b \<noteq> []" using assms by auto
  then have "byte_at b 0 = Some (uint (b ! 0))" "byte_at b 1 = Some (uint (b ! 1))"
    using assms byte_at_nth [of 0 b] byte_at_nth [of 1 b] by simp_all
  moreover have "uint (b ! 0) OR push_bit 8 (uint (b ! 1)) = uint (b ! 0) + push_bit 8 (uint (b ! 1))"
    using byte_bounds [of "b ! 0"] by (intro or_shift_add) simp_all
  ultimately show ?thesis by (simp add: half_at_def u16_at_def block_scale_def push_bit_eq_mult mult.commute)
qed

lemma int8_value: "0 \<le> x \<Longrightarrow> x < 256 \<Longrightarrow> int8 x = (if x < 128 then x else x - 256)"
proof -
  assume x: "0 \<le> x" "x < 256"
  have "int8 x = (x + 128) mod 256 - 128"
    by (simp add: int8_def signed_take_bit_eq_take_bit_shift take_bit_eq_mod)
  also have "\<dots> = (if x < 128 then x else x - 256)"
    using x mod_add_self2 [of "x - 128" 256] by (auto simp: add.commute)
  finally show ?thesis .
qed

lemma mod_16: "0 \<le> c \<Longrightarrow> c < 32 \<Longrightarrow> c mod 16 = (if c < 16 then c else c - 16)" for c :: int
  using mod_add_self2 [of "c - 16" 16] mod_pos_pos_trivial [of "c - 16" 16] by auto

lemma pow4: "(4 :: int) ^ nat x = 2 ^ nat (2 * x)" if "0 \<le> x"
  using that power_mult [of "2 :: int" 2 "nat x"] by (simp add: nat_mult_distrib)

lemma dequant_integer:
  assumes "f = kQ8_0 \<or> f = kQ4_0 \<or> f = kU4B8 \<or> f = kQ2_0" "int (length b) = block_bytes f" "0 \<le> c" "c < block_size f"
    and "fp16_to_fp32 (block_scale b) = Some d"
  shows "dequant f b c = Some (f32_mul d (f32_of_int (integer_code f b c)))"
proof -
  have s: "half_at b 0 = Some d"
    using assms(1,2,5) by (subst half_at_0) (auto simp: block_bytes_def)
  consider "f = kQ8_0" | "f = kQ4_0" | "f = kU4B8" | "f = kQ2_0" using assms(1) by blast
  then show ?thesis
  proof cases
    case 1
    then show ?thesis using assms(2-4) s byte_bounds [of "b ! nat (2 + c)"]
      by (simp add: block_bytes_def block_size_def dq_Q8_0_def byte_at_nth int8_value integer_code_def Let_def)
  next
    case 2
    then show ?thesis using assms(2-4) s
      by (simp add: block_bytes_def block_size_def dq_Q4_0_def byte_at_nth integer_code_def Let_def to_arith mod_16)
  next
    case 3
    then show ?thesis using assms(2-4) s
      by (simp add: block_bytes_def block_size_def dq_U4B8_def byte_at_nth integer_code_def Let_def to_arith)
  next
    case 4
    then show ?thesis using assms(2-4) s
      by (simp add: block_bytes_def block_size_def dq_Q2_0_def byte_at_nth integer_code_def Let_def to_arith pow4)
  qed
qed

lemma integer_code_bits:
  assumes "f = kQ8_0 \<or> f = kQ4_0 \<or> f = kU4B8 \<or> f = kQ2_0"
  shows "bitlen (nat \<bar>integer_code f b c\<bar>) \<le> 13"
proof -
  have byte: "0 \<le> uint x" "uint x < 256" "uint x div 16 < 16" "0 \<le> uint x div 16" for x :: u8
    using byte_bounds [of x] by (auto simp: pos_imp_zdiv_nonneg_iff)
  have signed: "\<bar>(if uint x < 128 then uint x else uint x - 256)\<bar> \<le> 128" for x :: u8 using byte [of x] by auto
  have nibble: "\<bar>(if c < k then uint x mod 16 else uint y div 16) - 8\<bar> \<le> 128" for x y :: u8 and k
    using byte [of y] pos_mod_bound [of 16 "uint x"] pos_mod_sign [of 16 "uint x"] by auto
  have pair: "\<bar>x mod 4 - 1\<bar> \<le> 128" for x :: int using pos_mod_bound [of 4 x] pos_mod_sign [of 4 x] by linarith
  have "\<bar>integer_code f b c\<bar> \<le> 128"
    using assms signed [of "b ! nat (2 + c)"] nibble [of 16 "b ! nat (2 + c)" "b ! nat (2 + c - 16)"]
      nibble [of 64 "b ! nat (2 + c)" "b ! nat (2 + c - 64)"] pair
    by (elim disjE) (simp_all only: integer_code_def Let_def QuantFormat.distinct if_True if_False refl simp_thms)
  then have "nat \<bar>integer_code f b c\<bar> < 2 ^ 13" by simp
  then show ?thesis by (simp only: bitlen_le_iff)
qed



end
