(* ===== verification/GgufUnpack.thy ===== *)
theory GgufUnpack
  imports GgufDecode Grid
begin

text \<open>
  Whole matrices of quantized weights, \<^verbatim>\<open>kernels/quantization/gguf_ref.cpp\<close>: unpacking to floats and the reference
  matrix-vector product, which decodes as it goes. A pointer to a block is the list of the block's bytes.
\<close>

section \<open>The kernels\<close>

definition gguf_dequant_block_ref :: "QuantFormat \<Rightarrow> u8 list \<Rightarrow> f32 list \<Rightarrow> f32 list option" where
  "gguf_dequant_block_ref f block =
     loop 0 (block_size f) (\<lambda>column out. do { v \<leftarrow> dequant f block column; wr out column v })"

definition gguf_unpack_ref :: "QuantFormat \<Rightarrow> u8 list \<Rightarrow> int \<Rightarrow> int \<Rightarrow> f32 list \<Rightarrow> f32 list option" where
  "gguf_unpack_ref f packed n k =
     (let blocks_per_row = cdiv k (block_size f)
      in loop 0 n (\<lambda>r. loop 0 blocks_per_row (\<lambda>block. loop 0 (block_size f) (\<lambda>column weights. do {
           v \<leftarrow> dequant f (row (block_bytes f) packed (r * blocks_per_row + block)) column;
           wr weights (r * k + block * block_size f + column) v }))))"

text \<open>\<open>cs\<close> are the calls of the parallel region over the rows.\<close>

definition gguf_gemv_ref :: "QuantFormat \<Rightarrow> u8 list \<Rightarrow> f32 list \<Rightarrow> int \<Rightarrow> int \<Rightarrow> call list \<Rightarrow> f32 list \<Rightarrow> f32 list option" where
  "gguf_gemv_ref f packed x n k cs =
     (let blocks_per_row = cdiv k (block_size f)
      in parallel_ranges cs (\<lambda>r y. do {
           accumulator \<leftarrow> loop 0 blocks_per_row (\<lambda>block. loop 0 (block_size f) (\<lambda>column a. do {
             v \<leftarrow> dequant f (row (block_bytes f) packed (r * blocks_per_row + block)) column;
             xv \<leftarrow> rd x (block * block_size f + column);
             Some (f64_add a (f64_of_f32 (f32_mul v xv))) })) (0 :: f64);
           wr y r (f32_of_f64 accumulator) }))"

section \<open>Loops over blocks\<close>

lemma outside_sameD: "outside_same base n xs ys \<Longrightarrow> i < length xs \<Longrightarrow> int i < base \<Longrightarrow> ys ! i = xs ! i"
  by (simp add: outside_same_def)

lemma seg_blocks:
  assumes "0 \<le> base" "0 \<le> m" "0 < s" "base + m * s \<le> int (length xs)"
    and body: "\<And>b j d. 0 \<le> b \<Longrightarrow> b < m \<Longrightarrow> 0 \<le> j \<Longrightarrow> j < s \<Longrightarrow> length d = length xs \<Longrightarrow>
      body b j d = Some (d[nat (base + b * s + j) := y b j])"
  shows "ok (\<lambda>d. outside_same base (m * s) xs d \<and> (\<forall>j. 0 \<le> j \<and> j < m * s \<longrightarrow> d ! nat (base + j) = y (j div s) (j mod s)))
    (loop 0 m (\<lambda>b. loop 0 s (body b)) xs)"
proof -
  let ?I = "\<lambda>b d. outside_same base (m * s) xs d \<and> (\<forall>j. 0 \<le> j \<and> j < b * s \<longrightarrow> d ! nat (base + j) = y (j div s) (j mod s))"
  have "ok (?I m) (loop 0 m (\<lambda>b. loop 0 s (body b)) xs)"
  proof (rule loop_inv [where I = ?I])
    fix b t assume b: "0 \<le> b" "b < m" and I: "?I b t"
    have len: "length t = length xs" using I outside_same_length by blast
    have bnd: "0 \<le> b * s" "b * s + s \<le> m * s" using row_bound [OF b, of s] assms(3) by simp_all
    have "ok (\<lambda>d. outside_same (base + b * s) s t d \<and> (\<forall>j. 0 \<le> j \<and> j < s \<longrightarrow> d ! nat (base + b * s + j) = y b j)) (loop 0 s (body b) t)"
    proof (rule seg_loop)
      fix j d assume j: "0 \<le> j" "j < s" and o: "outside_same (base + b * s) s t d"
      show "body b j d = Some (d[nat (base + b * s + j) := y b j])"
        using body [OF b j] outside_same_length [OF o] len by simp
    qed (use assms bnd len in auto)
    then show "ok (?I (b + 1)) (loop 0 s (body b) t)"
    proof (rule ok_mono)
      fix d assume d: "outside_same (base + b * s) s t d \<and> (\<forall>j. 0 \<le> j \<and> j < s \<longrightarrow> d ! nat (base + b * s + j) = y b j)"
      have "outside_same base (m * s) t d" using d bnd assms(1) by (auto simp: outside_same_def)
      moreover have "d ! nat (base + j) = y (j div s) (j mod s)" if j: "0 \<le> j" "j < (b + 1) * s" for j
      proof (cases "j < b * s")
        case True
        then have "base + j < int (length xs)" using assms(3,4) bnd(2) by linarith
        then have "d ! nat (base + j) = t ! nat (base + j)"
          by (intro outside_sameD [of "base + b * s" s]) (use True d j bnd assms(1,4) len in \<open>simp_all add: nat_less_iff\<close>)
        then show ?thesis using I True j by simp
      next
        case False
        define i where "i = j - b * s"
        have i: "j = b * s + i" "0 \<le> i" "i < s" using False j by (simp_all add: i_def distrib_right)
        have "d ! nat (base + b * s + i) = y b i" using d i by blast
        moreover have "j div s = b" "j mod s = i" using i by simp_all
        ultimately show ?thesis using i(1) by (simp add: add.assoc)
      qed
      ultimately show "?I (b + 1) d" using I outside_same_trans by blast
    qed
  qed (use assms in auto)
  then show ?thesis .
qed

text \<open>A fold over blocks of columns is a fold over the columns of the row.\<close>

lemma foldl_blocks:
  assumes "0 \<le> m" "0 < s"
  shows "foldl (\<lambda>a b. foldl (\<lambda>a j. f a (b * s + j)) a [0..s - 1]) a0 [0..m - 1] = foldl f a0 [0..m * s - 1]"
  using assms(1)
proof (induction m rule: int_ge_induct)
  case (step m)
  have m: "0 \<le> m * s" using step assms by simp
  have "[0..m + 1 - 1] = [0..m - 1] @ [m]" using upto_rec2 [of 0 m] step by simp
  moreover have "[0..(m + 1) * s - 1] = [0..m * s - 1] @ map (\<lambda>j. m * s + j) [0..s - 1]"
  proof -
    have "[0..m * s + s - 1] = [0..m * s - 1] @ [m * s..m * s + s - 1]"
      using upto_split2 [of 0 "m * s - 1" "m * s + s - 1"] m assms(2) by (cases "m * s = 0") auto
    moreover have "map (\<lambda>j. m * s + j) [0..s - 1] = [m * s..m * s + s - 1]"
      by (rule nth_equalityI) (auto simp: nth_upto)
    ultimately show ?thesis by (simp add: distrib_right)
  qed
  ultimately show ?case using step.IH by (simp add: foldl_map)
qed simp

section \<open>What the kernels compute\<close>

text \<open>Element \<open>j\<close> of row \<open>r\<close> of the matrix that \<open>packed\<close> holds.\<close>

definition weight_at :: "QuantFormat \<Rightarrow> u8 list \<Rightarrow> int \<Rightarrow> int \<Rightarrow> int \<Rightarrow> f32" where
  "weight_at f packed k r j =
     the (dequant f (row (block_bytes f) packed (r * (k div block_size f) + j div block_size f)) (j mod block_size f))"

text \<open>The product of a row of floats with a vector: one rounding to \<^verbatim>\<open>float\<close> per product, one to \<^verbatim>\<open>double\<close> per sum.\<close>

definition dense_row_dot :: "f32 list \<Rightarrow> int \<Rightarrow> f32 list \<Rightarrow> int \<Rightarrow> f32" where
  "dense_row_dot weights k x r =
     f32_of_f64 (foldl (\<lambda>a j. f64_add a (f64_of_f32 (f32_mul (weights ! nat (r * k + j)) (x ! nat j)))) 0 [0..k - 1])"

definition packed_matrix :: "QuantFormat \<Rightarrow> u8 list \<Rightarrow> int \<Rightarrow> int \<Rightarrow> bool" where
  "packed_matrix f packed n k \<longleftrightarrow> 0 \<le> n \<and> 0 \<le> k \<and> block_size f dvd k \<and>
     n * (k div block_size f) * block_bytes f \<le> int (length packed)"

lemma packed_block:
  assumes "packed_matrix f packed n k" "0 \<le> r" "r < n" "0 \<le> b" "b < k div block_size f" "0 \<le> c" "c < block_size f"
  shows "dequant f (row (block_bytes f) packed (r * (k div block_size f) + b)) c =
    Some (weight_at f packed k r (b * block_size f + c))"
proof -
  let ?m = "k div block_size f"
  have i: "0 \<le> r * ?m + b" "r * ?m + b < n * ?m"
    using assms row_bound [of r n ?m] by (auto intro: add_nonneg_nonneg)
  have "int (length (row (block_bytes f) packed (r * ?m + b))) = block_bytes f"
    using length_row [OF i, of "block_bytes f" packed] assms(1) less_imp_le [OF block_size_pos(2) [of f]]
    by (simp add: packed_matrix_def)
  from dequant_ok [OF this assms(6,7)] show ?thesis using assms(6,7) by (auto simp: weight_at_def ok_def)
qed

lemma unpack_rows:
  assumes "packed_matrix f packed n k" "n * k \<le> int (length weights)"
  shows "ok (rows_are k n (weight_at f packed k) weights) (gguf_unpack_ref f packed n k weights)"
proof -
  let ?s = "block_size f" and ?m = "k div block_size f"
  have s: "0 < ?s" "?m * ?s = k" "0 \<le> ?m" "0 \<le> n" "0 \<le> k" "cdiv k ?s = ?m"
    using assms(1) by (auto simp: packed_matrix_def pos_imp_zdiv_nonneg_iff)
  show ?thesis unfolding gguf_unpack_ref_def Let_def s(6)
  proof (rule rows_loop)
    fix r and t :: "f32 list" assume r: "0 \<le> r" "r < n" and t: "length t = length weights"
    have base: "0 \<le> r * k" "r * k + k \<le> int (length t)" using row_bound [OF r s(5)] assms(2) t by auto
    have "ok (\<lambda>u. outside_same (r * k) (?m * ?s) t u \<and>
        (\<forall>j. 0 \<le> j \<and> j < ?m * ?s \<longrightarrow> u ! nat (r * k + j) = weight_at f packed k r (j div ?s * ?s + j mod ?s)))
      (loop 0 ?m (\<lambda>block. loop 0 ?s (\<lambda>column weights. do {
           v \<leftarrow> dequant f (row (block_bytes f) packed (r * ?m + block)) column;
           wr weights (r * k + block * ?s + column) v })) t)"
    proof (rule seg_blocks [where y = "\<lambda>b c. weight_at f packed k r (b * ?s + c)"])
      fix b c and d :: "f32 list" assume b: "0 \<le> b" "b < ?m" and c: "0 \<le> c" "c < ?s" and d: "length d = length t"
      have "b * ?s + c < k" using row_bound [OF b, of ?s] c s by simp
      then show "(do { v \<leftarrow> dequant f (row (block_bytes f) packed (r * ?m + b)) c; wr d (r * k + b * ?s + c) v }) =
          Some (d[nat (r * k + b * ?s + c) := weight_at f packed k r (b * ?s + c)])"
        using packed_block [OF assms(1) r b c] base b c d s by (simp add: wr_def in_buf_def)
    qed (use base s in auto)
    then show "ok (\<lambda>u. outside_same (r * k) k t u \<and> (\<forall>j. 0 \<le> j \<and> j < k \<longrightarrow> u ! nat (r * k + j) = weight_at f packed k r j))
      (loop 0 ?m (\<lambda>block. loop 0 ?s (\<lambda>column weights. do {
           v \<leftarrow> dequant f (row (block_bytes f) packed (r * ?m + block)) column;
           wr weights (r * k + block * ?s + column) v })) t)" using s(2) by simp
  qed (use s assms(2) in auto)
qed

lemma gemv_accumulator:
  assumes "packed_matrix f packed n k" "k \<le> int (length x)" "0 \<le> r" "r < n"
  shows "loop 0 (k div block_size f) (\<lambda>block. loop 0 (block_size f) (\<lambda>column a. do {
      v \<leftarrow> dequant f (row (block_bytes f) packed (r * (k div block_size f) + block)) column;
      xv \<leftarrow> rd x (block * block_size f + column);
      Some (f64_add a (f64_of_f32 (f32_mul v xv))) })) 0 =
    Some (foldl (\<lambda>a j. f64_add a (f64_of_f32 (f32_mul (weight_at f packed k r j) (x ! nat j)))) 0 [0..k - 1])"
proof -
  let ?s = "block_size f" and ?m = "k div block_size f"
  let ?f = "\<lambda>a j. f64_add a (f64_of_f32 (f32_mul (weight_at f packed k r j) (x ! nat j)))"
  have s: "0 < ?s" "?m * ?s = k" "0 \<le> ?m"
    using assms(1) by (auto simp: packed_matrix_def pos_imp_zdiv_nonneg_iff)
  have inner: "loop 0 ?s (\<lambda>column a. do {
      v \<leftarrow> dequant f (row (block_bytes f) packed (r * ?m + b)) column;
      xv \<leftarrow> rd x (b * ?s + column);
      Some (f64_add a (f64_of_f32 (f32_mul v xv))) }) a = Some (foldl (\<lambda>a j. ?f a (b * ?s + j)) a [0..?s - 1])"
    if b: "0 \<le> b" "b < ?m" for b a
  proof (rule fold_loop)
    fix c and a :: f64 assume c: "0 \<le> c" "c < ?s"
    have "b * ?s + c < k" using row_bound [OF b, of ?s] c s by simp
    then show "(do { v \<leftarrow> dequant f (row (block_bytes f) packed (r * ?m + b)) c; xv \<leftarrow> rd x (b * ?s + c);
        Some (f64_add a (f64_of_f32 (f32_mul v xv))) }) = Some (?f a (b * ?s + c))"
      using packed_block [OF assms(1,3,4) b c] assms(2) b c s by (simp add: rd_def in_buf_def)
  qed (rule less_imp_le [OF s(1)])
  show ?thesis
    using fold_loop [OF s(3), where f = "\<lambda>a b. foldl (\<lambda>a j. ?f a (b * ?s + j)) a [0..?s - 1]"] inner
      foldl_blocks [OF s(3,1), of ?f 0] s(2) by simp
qed

lemma gemv_rows:
  assumes "packed_matrix f packed n k" "k \<le> int (length x)" "n \<le> int (length y)" "region_calls n cs"
  shows "ok (rows_are 1 n (\<lambda>r _. f32_of_f64 (foldl (\<lambda>a j. f64_add a (f64_of_f32 (f32_mul (weight_at f packed k r j) (x ! nat j))))
    0 [0..k - 1])) y) (gguf_gemv_ref f packed x n k cs y)"
proof -
  have c: "cdiv k (block_size f) = k div block_size f" using assms(1) by (simp add: packed_matrix_def)
  show ?thesis unfolding gguf_gemv_ref_def Let_def c parallel_ranges_def
  proof (rule vec_each)
    fix r and d :: "f32 list" assume r: "0 \<le> r" "r < n" "length d = length y"
    then show "(do { accumulator \<leftarrow> loop 0 (k div block_size f) (\<lambda>block. loop 0 (block_size f) (\<lambda>column a. do {
             v \<leftarrow> dequant f (row (block_bytes f) packed (r * (k div block_size f) + block)) column;
             xv \<leftarrow> rd x (block * block_size f + column);
             Some (f64_add a (f64_of_f32 (f32_mul v xv))) })) (0 :: f64); wr d r (f32_of_f64 accumulator) }) =
        Some (d[nat r := f32_of_f64 (foldl (\<lambda>a j. f64_add a (f64_of_f32 (f32_mul (weight_at f packed k r j) (x ! nat j)))) 0 [0..k - 1])])"
      using gemv_accumulator [OF assms(1,2) r(1,2)] assms(3) by (simp add: wr_def in_buf_def)
  qed (use assms region_items [OF assms(4)] in \<open>auto simp: packed_matrix_def\<close>)
qed

section \<open>Properties\<close>

text \<open>
  C37: unpacking a packed matrix returns, reads inside the packed bytes only, and puts in element \<open>j\<close> of row \<open>r\<close> the decoded
  column \<open>j mod block_size\<close> of block \<open>j div block_size\<close> of that row; what lies behind the matrix is unchanged.
\<close>

theorem gguf_unpack_decodes:
  assumes "packed_matrix f packed n k" "n * k \<le> int (length weights)"
  shows "\<exists>out. gguf_unpack_ref f packed n k weights = Some out \<and> length out = length weights \<and>
    (\<forall>r j. 0 \<le> r \<and> r < n \<and> 0 \<le> j \<and> j < k \<longrightarrow>
      dequant f (row (block_bytes f) packed (r * (k div block_size f) + j div block_size f)) (j mod block_size f) =
        Some (out ! nat (r * k + j))) \<and>
    (\<forall>i < length weights. n * k \<le> int i \<longrightarrow> out ! i = weights ! i)"
proof -
  from unpack_rows [OF assms] obtain out where out: "gguf_unpack_ref f packed n k weights = Some out"
    "rows_are k n (weight_at f packed k) weights out" by (rule okE)
  have "dequant f (row (block_bytes f) packed (r * (k div block_size f) + j div block_size f)) (j mod block_size f) =
      Some (out ! nat (r * k + j))" if rj: "0 \<le> r" "r < n" "0 \<le> j" "j < k" for r j
  proof -
    have "k = k div block_size f * block_size f" using assms(1) by (simp add: packed_matrix_def)
    then have "j < k div block_size f * block_size f" using rj by simp
    note d = div_mod_bound [OF rj(3) this block_size_pos(1)]
    show ?thesis using packed_block [OF assms(1) rj(1,2) d(1-4)] rows_areD [OF out(2) rj] d(5) by simp
  qed
  then show ?thesis using out by (auto simp: rows_are_def)
qed

theorem gguf_unpack_decodes_witness:
  "packed_matrix kQ4_0 (replicate 18 0x31) 1 32 \<and> 1 * 32 \<le> int (length (replicate 32 (0 :: f32))) \<and>
   (\<exists>out. gguf_unpack_ref kQ4_0 (replicate 18 0x31) 1 32 (replicate 32 0) = Some out \<and> length out = 32 \<and>
     dequant kQ4_0 (row 18 (replicate 18 0x31) 0) 17 = Some (out ! 17))"
proof -
  have a: "packed_matrix kQ4_0 (replicate 18 0x31) 1 32" "1 * 32 \<le> int (length (replicate 32 (0 :: f32)))"
    by (simp_all add: packed_matrix_def block_size_def block_bytes_def)
  from gguf_unpack_decodes [OF a] obtain out where "gguf_unpack_ref kQ4_0 (replicate 18 0x31) 1 32 (replicate 32 0) = Some out"
    "length out = 32"
    and e: "\<And>r j. 0 \<le> r \<Longrightarrow> r < 1 \<Longrightarrow> 0 \<le> j \<Longrightarrow> j < 32 \<Longrightarrow>
      dequant kQ4_0 (row (block_bytes kQ4_0) (replicate 18 0x31) (r * (32 div block_size kQ4_0) + j div block_size kQ4_0))
        (j mod block_size kQ4_0) = Some (out ! nat (r * 32 + j))" by auto
  then show ?thesis using a e [of 0 17] by (auto simp: block_size_def block_bytes_def)
qed

text \<open>
  C38: the quantized product equals the product of the unpacked matrix, bit for bit and however the pool cuts the rows: decoding
  on the fly neither skips nor reorders a term.
\<close>

theorem gguf_gemv_is_dense_product:
  assumes "packed_matrix f packed n k" "n * k \<le> int (length weights)" "gguf_unpack_ref f packed n k weights = Some w"
    and "k \<le> int (length x)" "n \<le> int (length y)" "region_calls n cs"
  shows "\<exists>out. gguf_gemv_ref f packed x n k cs y = Some out \<and> length out = length y \<and>
    (\<forall>r. 0 \<le> r \<and> r < n \<longrightarrow> out ! nat r = dense_row_dot w k x r) \<and> (\<forall>i < length y. n \<le> int i \<longrightarrow> out ! i = y ! i)"
proof -
  let ?addend = "\<lambda>r a j. f64_add a (f64_of_f32 (f32_mul (weight_at f packed k r j) (x ! nat j)))"
  have w: "rows_are k n (weight_at f packed k) weights w" using okD [OF unpack_rows [OF assms(1,2)] assms(3)] .
  from gemv_rows [OF assms(1,4,5,6)] obtain out where out: "gguf_gemv_ref f packed x n k cs y = Some out"
    "rows_are 1 n (\<lambda>r _. f32_of_f64 (foldl (?addend r) 0 [0..k - 1])) y out" by (rule okE)
  have "out ! nat r = dense_row_dot w k x r" if r: "0 \<le> r" "r < n" for r
  proof -
    have "foldl (?addend r) 0 [0..k - 1] =
        foldl (\<lambda>a j. f64_add a (f64_of_f32 (f32_mul (w ! nat (r * k + j)) (x ! nat j)))) 0 [0..k - 1]"
      by (rule foldl_cong) (auto simp: rows_areD [OF w r])
    then show ?thesis using rows_areD [OF out(2) r, of 0] by (simp add: dense_row_dot_def)
  qed
  then show ?thesis using out by (auto simp: rows_are_def)
qed

theorem gguf_gemv_is_dense_product_witness:
  "packed_matrix kQ8_0 (replicate 68 1) 2 32 \<and> region_calls 2 [(0, 2, 0)] \<and>
   (\<exists>w out. gguf_unpack_ref kQ8_0 (replicate 68 1) 2 32 (replicate 64 0) = Some w \<and>
     gguf_gemv_ref kQ8_0 (replicate 68 1) (replicate 32 0x3F800000) 2 32 [(0, 2, 0)] [0, 0] = Some out \<and>
     out ! 1 = dense_row_dot w 32 (replicate 32 0x3F800000) 1)"
proof -
  have a: "packed_matrix kQ8_0 (replicate 68 1) 2 32" "2 * 32 \<le> int (length (replicate 64 (0 :: f32)))"
    by (simp_all add: packed_matrix_def block_size_def block_bytes_def)
  have r: "region_calls 2 [(0, 2, 0)]" by (rule region_inline) simp
  obtain w where w: "gguf_unpack_ref kQ8_0 (replicate 68 1) 2 32 (replicate 64 0) = Some w"
    using unpack_rows [OF a] by (rule okE)
  from gguf_gemv_is_dense_product [OF a w _ _ r, of "replicate 32 0x3F800000" "[0, 0]"]
  obtain out where "gguf_gemv_ref kQ8_0 (replicate 68 1) (replicate 32 0x3F800000) 2 32 [(0, 2, 0)] [0, 0] = Some out"
    and e: "\<forall>r. 0 \<le> r \<and> r < 2 \<longrightarrow> out ! nat r = dense_row_dot w 32 (replicate 32 0x3F800000) r" by auto
  with a(1) r w spec [OF e, of 1] show ?thesis by auto
qed

end
