(* ===== verification/GgufPack.thy ===== *)
theory GgufPack
  imports GgufUnpack
begin

text \<open>
  The reference packers of \<^verbatim>\<open>kernels/quantization/gguf_pack_ref.cpp\<close> for the round and ternary formats, with the float
  arithmetic of \<open>Float_Ops\<close>. The input of a packer is the list of the block's values, its result the list of the block's bytes;
  a loop whose iterations set different elements is a \<open>map\<close>, a loop that accumulates a \<open>foldl\<close> in the same order. A conversion to
  \<^verbatim>\<open>int\<close> of a number that does not fit is undefined, and makes the result \<open>None\<close>.
\<close>

unbundle bit_operations_syntax

section \<open>Stores and rounding\<close>

definition put_half :: "f32 \<Rightarrow> u8 list" where
  "put_half v = (let bits = fp32_to_fp16 v in [ucast bits, ucast (drop_bit 8 bits)])"

definition put_u32 :: "u32 \<Rightarrow> u8 list" where
  "put_u32 v = [ucast v, ucast (drop_bit 8 v), ucast (drop_bit 16 v), ucast (drop_bit 24 v)]"

definition half_round :: "f32 \<Rightarrow> f32" where
  "half_round v = the (fp16_to_fp32 (fp32_to_fp16 v))"

text \<open>Adding \<open>3 * 2 ^ 22\<close> leaves the rounded integer in the fraction of the sum.\<close>

definition nearest_int :: "f32 \<Rightarrow> int" where
  "nearest_int v = (let bits = f32_add v 0x4B400000 in uint (bits AND 0x007FFFFF) - 0x00400000)"

text \<open>The largest magnitude, and the value that has it.\<close>

definition max_abs :: "f32 list \<Rightarrow> f32" where
  "max_abs vs = foldl (\<lambda>m v. f32_max m (f32_abs v)) 0 vs"

definition signed_max :: "f32 list \<Rightarrow> f32 \<times> f32" where
  "signed_max vs = foldl (\<lambda>(m, s) v. if f32_less m (f32_abs v) then (f32_abs v, v) else (m, s)) (0, 0) vs"

definition finite_block :: "f32 list \<Rightarrow> bool" where
  "finite_block vs = list_all (\<lambda>v. f32_abs v < 0x7F800000) vs"

section \<open>Round formats\<close>

definition pack_q1_0 :: "f32 list \<Rightarrow> u8 list" where
  "pack_q1_0 vs =
     (let sum_abs = foldl (\<lambda>s v. f32_add s (f32_abs v)) 0 vs
      in put_half (f32_div sum_abs 0x43000000) @
         map (\<lambda>i. foldl (\<lambda>byte j. if f32_le 0 (vs ! (8 * i + j)) then byte OR push_bit j 1 else byte) (0 :: u8) [0..<8]) [0..<16])"

definition q2_levels :: "f32 list \<Rightarrow> int list option" where
  "q2_levels vs =
     (let maximum = max_abs vs
      in those (map (\<lambda>v. do {
           q \<leftarrow> f32_round_to_int (if f32_less 0 maximum then f32_div v maximum else 0);
           Some (clamp (q + 1) 0 3) }) vs))"

definition pack_q2_0 :: "f32 list \<Rightarrow> u8 list option" where
  "pack_q2_0 vs = do {
     qs \<leftarrow> q2_levels vs;
     Some (put_half (max_abs vs) @
       map (\<lambda>i. foldl (\<lambda>byte j. byte OR word_of_int (push_bit (2 * j) (qs ! (4 * i + j)))) (0 :: u8) [0..<4]) [0..<16]) }"

text \<open>Smallest and largest value, from \<^verbatim>\<open>max()\<close> and \<^verbatim>\<open>-max()\<close> of \<^verbatim>\<open>float\<close>.\<close>

definition min_max :: "f32 list \<Rightarrow> f32 \<times> f32" where
  "min_max vs = foldl (\<lambda>(lo, hi) v. (f32_min lo v, f32_max hi v)) (0x7F7FFFFF, 0xFF7FFFFF) vs"

text \<open>\<^verbatim>\<open>scale != 0.0f ? 1.0 / static_cast<double>(scale) : 0.0\<close>\<close>

definition f64_inverse :: "f32 \<Rightarrow> f64" where
  "f64_inverse scale = (if \<not> f32_eq scale 0 then f64_div 0x3FF0000000000000 (f64_of_f32 scale) else 0)"

text \<open>\<^verbatim>\<open>(static_cast<double>(value) - minimum) * inverse + 0.5\<close>\<close>

definition affine_level :: "f32 \<Rightarrow> f64 \<Rightarrow> f32 \<Rightarrow> int option" where
  "affine_level minimum recip v =
     f64_to_int (f64_add (f64_mul (f64_sub (f64_of_f32 v) (f64_of_f32 minimum)) recip) 0x3FE0000000000000)"

definition pack_q4_1 :: "f32 list \<Rightarrow> u8 list option" where
  "pack_q4_1 vs =
     (case min_max vs of (minimum, maximum) \<Rightarrow>
        let scale = f32_div (f32_sub maximum minimum) 0x41700000
        in do {
          qs \<leftarrow> those (map (\<lambda>v. map_option (min 15) (affine_level minimum (f64_inverse scale) v)) vs);
          Some (put_half scale @ put_half minimum @
            map (\<lambda>i. word_of_int ((qs ! i) OR push_bit 4 (qs ! (16 + i)))) [0..<16]) })"

text \<open>The fifth bits of 32 levels, in one word, and the low nibbles in 16 bytes.\<close>

definition q5_high_bits :: "int list \<Rightarrow> u32" where
  "q5_high_bits qs = foldl (\<lambda>h i. h OR push_bit i (word_of_int (drop_bit 4 (qs ! i) AND 1)) OR
     push_bit (16 + i) (word_of_int (drop_bit 4 (qs ! (16 + i)) AND 1))) 0 [0..<16]"

definition q5_low_bytes :: "int list \<Rightarrow> u8 list" where
  "q5_low_bytes qs = map (\<lambda>i. word_of_int ((qs ! i AND 15) OR push_bit 4 (qs ! (16 + i) AND 15))) [0..<16]"

definition q5_0_scale :: "f32 list \<Rightarrow> f32" where
  "q5_0_scale vs = f32_div (snd (signed_max vs)) 0xC1800000"

definition q5_0_levels :: "f32 list \<Rightarrow> int list option" where
  "q5_0_levels vs = those (map (\<lambda>v. map_option (min 31)
     (f64_to_int (f64_add (f64_mul (f64_of_f32 v) (f64_inverse (q5_0_scale vs))) 0x4030800000000000))) vs)"

definition pack_q5_0 :: "f32 list \<Rightarrow> u8 list option" where
  "pack_q5_0 vs = do {
     qs \<leftarrow> q5_0_levels vs;
     Some (put_half (q5_0_scale vs) @ put_u32 (q5_high_bits qs) @ q5_low_bytes qs) }"

definition q5_1_scale :: "f32 list \<Rightarrow> f32" where
  "q5_1_scale vs = (case min_max vs of (minimum, maximum) \<Rightarrow> f32_div (f32_sub maximum minimum) 0x41F80000)"

definition q5_1_levels :: "f32 list \<Rightarrow> int list option" where
  "q5_1_levels vs = those (map (affine_level (fst (min_max vs)) (f64_inverse (q5_1_scale vs))) vs)"

definition pack_q5_1 :: "f32 list \<Rightarrow> u8 list option" where
  "pack_q5_1 vs = do {
     qs \<leftarrow> q5_1_levels vs;
     Some (put_half (q5_1_scale vs) @ put_half (fst (min_max vs)) @ put_u32 (q5_high_bits qs) @ q5_low_bytes qs) }"

section \<open>Ternary format\<close>

text \<open>\<^verbatim>\<open>lround(maximum != 0.0f ? value / maximum : 0.0f) + 1\<close>\<close>

definition trit_of :: "f32 \<Rightarrow> f32 \<Rightarrow> int option" where
  "trit_of maximum v = map_option (\<lambda>t. t + 1) (f32_round_to_int (if \<not> f32_eq maximum 0 then f32_div v maximum else 0))"

text \<open>Base-three digits, first digit most significant, then scaled to a fraction of 256.\<close>

definition encode_trits :: "int list \<Rightarrow> int" where
  "encode_trits ts = foldl (\<lambda>encoded t. encoded * 3 + t) 0 ts"

definition trit_byte :: "int \<Rightarrow> u8" where
  "trit_byte encoded = word_of_int (cdiv (encoded * 256 + 242) 243)"

definition pack_tq1_0 :: "f32 list \<Rightarrow> u8 list option" where
  "pack_tq1_0 vs =
     (let maximum = max_abs vs
      in do {
        ts \<leftarrow> those (map (trit_of maximum) vs);
        Some (map (\<lambda>lane. trit_byte (encode_trits (map (\<lambda>trit. ts ! (lane + trit * 32)) [0..<5]))) [0..<32] @
          map (\<lambda>lane. trit_byte (encode_trits (map (\<lambda>trit. ts ! (160 + lane + trit * 16)) [0..<5]))) [0..<16] @
          map (\<lambda>lane. trit_byte (encode_trits (map (\<lambda>trit. ts ! (240 + lane + trit * 4)) [0..<4]) * 3)) [0..<4] @
          put_half maximum) })"

section \<open>Rounding by a large constant\<close>

lemma rne_shift_diff:
  assumes n: "n \<le> a * 2 ^ Suc k"
  shows "rne_shift (a * 2 ^ Suc k - n) k = 2 * a - rne_shift n k"
proof -
  define q r where "q = n div 2 ^ k" and "r = n mod 2 ^ k"
  have nq: "n = q * 2 ^ k + r" and r: "r < 2 ^ k" by (simp_all only: q_def r_def div_mult_mod_eq) simp
  have rn: "rne_shift n k = (if 2 ^ k < 2 * r \<or> 2 * r = 2 ^ k \<and> odd q then q + 1 else q)"
    by (simp add: rne_shift_def q_def r_def Let_def)
  show ?thesis
  proof (cases "r = 0")
    case True
    have "a * 2 ^ Suc k - n = (2 * a - q) * 2 ^ k" using nq True by (simp add: diff_mult_distrib)
    then show ?thesis using True rn by (simp only: rne_shift_exact) simp
  next
    case False
    have "q * 2 ^ k < a * 2 ^ Suc k" using n nq False by linarith
    also have "\<dots> = 2 * a * 2 ^ k" by simp
    finally have "q * 2 ^ k < 2 * a * 2 ^ k" .
    then have q: "q < 2 * a" by (rule mult_right_less_imp_less) simp
    then have "2 * a = (2 * a - q - 1) + q + 1" by simp
    then have "2 * a * 2 ^ k = ((2 * a - q - 1) + q + 1) * 2 ^ k" by (rule arg_cong)
    then have "a * 2 ^ Suc k - n = (2 * a - q - 1) * 2 ^ k + (2 ^ k - r)"
      using nq r by (simp add: distrib_right)
    moreover have "2 ^ k - r < 2 ^ k" using False r by simp
    ultimately have d: "(a * 2 ^ Suc k - n) div 2 ^ k = 2 * a - q - 1" "(a * 2 ^ Suc k - n) mod 2 ^ k = 2 ^ k - r"
      by (simp_all only: div_mult_self3 mod_mult_self3 div_less mod_less)
    have "odd (2 * a - q - 1) \<longleftrightarrow> even q" using q by simp
    then have "rne_shift (a * 2 ^ Suc k - n) k =
        (if 2 ^ k < 2 * (2 ^ k - r) \<or> 2 * (2 ^ k - r) = 2 ^ k \<and> even q then 2 * a - q - 1 + 1 else 2 * a - q - 1)"
      by (simp only: rne_shift_def Let_def d)
    moreover have "2 ^ k < 2 * (2 ^ k - r) \<longleftrightarrow> 2 * r < 2 ^ k" "2 * (2 ^ k - r) = 2 ^ k \<longleftrightarrow> 2 * r = 2 ^ k"
      using r by linarith+
    ultimately show ?thesis using rn q by auto
  qed
qed

lemma nearest_int_sum:
  assumes v: "magnitude32 v \<le> 0x4A7FFFFC" "unpack 23 8 (magnitude32 v) = (n, e)"
    and m: "m = (if unat v div 2147483648 = 1 then 12582912 - rne_shift n (nat (- e)) else 12582912 + rne_shift n (nat (- e)))"
  shows "unat (f32_add v 0x4B400000) = 149 * 2 ^ 23 + m" "2 ^ 23 \<le> m" "m < 2 ^ 24"
proof -
  define k where "k = nat (- e)"
  define mag where "mag = magnitude32 v"
  have ex: "mag div 2 ^ 23 < 149" using v(1) by (simp add: mag_def)
  have e: "e \<le> - 2" "n < 2 ^ 24"
    using v(2) ex by (auto simp: unpack_def emin_def Let_def mag_def split: if_splits)
  then have k: "e = - int k" "2 \<le> k" by (simp_all add: k_def)
  have n: "n \<le> 4194303 * 2 ^ k"
  proof (cases "mag div 2 ^ 23 = 148")
    case True
    then have "n = mag mod 2 ^ 23 + 2 ^ 23" "e = - 2" using v(2) by (auto simp: unpack_def emin_def Let_def mag_def)
    moreover have "mag mod 2 ^ 23 = mag - 148 * 2 ^ 23" using True minus_div_mult_eq_mod [of mag "2 ^ 23"] by simp
    ultimately show ?thesis using v(1) by (simp add: k_def mag_def)
  next
    case False
    then have "3 \<le> k" using v(2) ex by (auto simp: k_def unpack_def emin_def Let_def mag_def split: if_splits)
    then have "(2 :: nat) ^ 3 \<le> 2 ^ k" by (intro power_increasing) auto
    then show ?thesis using e(2) by simp
  qed
  have c: "unpack 23 8 1262485504 = (12582912, 0)" by (simp add: unpack_def emin_def)
  define N where "N = (if unat v div 2147483648 = 1 then 12582912 * 2 ^ k - n else 12582912 * 2 ^ k + n)"
  have le: "n \<le> 12582912 * 2 ^ k" using n by simp
  have Nb: "8388609 * 2 ^ k \<le> N" "N \<le> 16777215 * 2 ^ k" using n by (auto simp: N_def)
  have r: "rne_shift N k = m"
    using rne_shift_add [of 6291456 k n] rne_shift_diff [of n 6291456 k] le by (simp add: N_def m k_def)
  have len: "bitlen N = 24 + k"
  proof -
    have "16777215 * 2 ^ k < (2 :: nat) ^ Suc (23 + k)" by (simp add: power_add)
    with Nb(2) have "N < 2 ^ Suc (23 + k)" by (rule order.strict_trans1)
    moreover have "2 ^ (23 + k) \<le> N" using Nb(1) by (simp add: power_add)
    ultimately have "2 ^ (23 + k) \<le> N" "N < 2 ^ Suc (23 + k)" by blast+
    then show ?thesis using bitlen_unique [of "23 + k" N] by simp
  qed
  have free: "round_free 23 8 N e = 149 * 2 ^ 23 + m"
  proof -
    have "N \<noteq> 0" using Nb by (cases N) auto
    moreover have "max (e + int (24 + k) - 1) (emin 8) = 23" by (simp add: k(1) emin_def)
    moreover have "\<not> 23 - int 23 \<le> e" "nat (23 - int 23 - e) = k" using k by simp_all
    ultimately show ?thesis using r by (simp add: round_free_def Let_def len emin_def)
  qed
  have "8388609 * 2 ^ k div 2 ^ k \<le> N div 2 ^ k" using Nb(1) by (rule div_le_mono)
  then show lo: "2 ^ 23 \<le> m" using rne_shift_ge [of N k] r by simp
  show hi: "m < 2 ^ 24" using rne_shift_le [OF Nb(2)] r by simp
  have V: "(if unat v div 2147483648 = 1 then - 1 else 1) * (int n * 2 ^ nat (e - min e 0)) + 1 * (int 12582912 * 2 ^ nat (0 - min e 0)) = int N"
    using le by (simp add: N_def k of_nat_diff)
  have fin: "magnitude32 v < 2139095040" using v(1) by simp
  have "fp_add 23 8 (unat v) 1262485504 = fp_make 23 8 (int N < 0) (round_mag 23 8 (nat \<bar>int N\<bar>) (min e 0))"
  proof -
    have "fp_mag 23 8 1262485504 = 1262485504" "\<not> fp_sign 23 8 1262485504" by (simp_all add: fp_mag_def fp_sign_def)
    moreover have "int N \<noteq> 0" using Nb(1) by (cases N) auto
    ultimately show ?thesis using fin by (simp only: fp_add_def Let_def fp_parts_32 inf_bits_32 v(2) c prod.case V if_False simp_thms) simp
  qed
  also have "round_mag 23 8 (nat \<bar>int N\<bar>) (min e 0) = 149 * 2 ^ 23 + m"
    using hi by (simp add: round_mag_free k(1) free [unfolded k(1)] inf_bits_def)
  finally have "f32_add v 0x4B400000 = of_nat (fp_make 23 8 False (149 * 2 ^ 23 + m))" using Nb(1) by (simp add: f32_add_def)
  then show "unat (f32_add v 0x4B400000) = 149 * 2 ^ 23 + m"
    using fp_make_32 [of "149 * 2 ^ 23 + m" False] hi by simp
qed

text \<open>
  C39: for numbers up to 4194303 in magnitude the addition trick is rounding to the nearest integer, ties to even.
\<close>

theorem nearest_int_rounds_to_nearest:
  assumes "magnitude32 v \<le> 0x4A7FFFFC" "unpack 23 8 (magnitude32 v) = (n, e)"
  shows "nearest_int v = (if unat v div 2147483648 = 1 then - 1 else 1) * int (rne_shift n (nat (- e)))"
proof -
  define m where "m = (if unat v div 2147483648 = 1 then 12582912 - rne_shift n (nat (- e)) else 12582912 + rne_shift n (nat (- e)))"
  note s = nearest_int_sum [OF assms m_def]
  have "unat (f32_add v 0x4B400000 AND 0x007FFFFF) = (149 * 2 ^ 23 + m) mod 2 ^ 23"
    using unat_and_mask [of "0x007FFFFF :: f32" 23 "f32_add v 0x4B400000"] s(1) by simp
  also have "149 * 2 ^ 23 + m = 150 * 2 ^ 23 + (m - 2 ^ 23)" using s(2) by simp
  also have "(150 * 2 ^ 23 + (m - 2 ^ 23)) mod 2 ^ 23 = m - 2 ^ 23" using s(2,3) by (subst mod_mult_self3) simp
  finally have "uint (f32_add v 0x4B400000 AND 0x007FFFFF) = int (m - 2 ^ 23)" by (simp only: uint_nat)
  then have "nearest_int v = int (m - 2 ^ 23) - 4194304" by (simp add: nearest_int_def)
  also have "\<dots> = int m - 12582912" using s(2) by simp
  finally have "nearest_int v = int m - 12582912" .
  moreover have "rne_shift n (nat (- e)) \<le> 12582912" if "unat v div 2147483648 = 1"
    using that s(2) by (simp add: m_def)
  ultimately show ?thesis by (auto simp: m_def)
qed

text \<open>\<open>-2.5\<close> and \<open>-3.5\<close> are ties: the even neighbours are \<open>-2\<close> and \<open>-4\<close>.\<close>

theorem nearest_int_rounds_to_nearest_witness:
  "magnitude32 0xC0200000 \<le> 0x4A7FFFFC \<and> unpack 23 8 (magnitude32 0xC0200000) = (0xA00000, - 22) \<and>
   nearest_int 0xC0200000 = - 2 \<and> nearest_int 0xC0600000 = - 4"
proof -
  have a: "magnitude32 0xC0200000 \<le> 0x4A7FFFFC" "unpack 23 8 (magnitude32 0xC0200000) = (0xA00000, - 22)"
    by (simp_all add: magnitude32_def unpack_def emin_def)
  have b: "magnitude32 0xC0600000 \<le> 0x4A7FFFFC" "unpack 23 8 (magnitude32 0xC0600000) = (0xE00000, - 22)"
    by (simp_all add: magnitude32_def unpack_def emin_def)
  show ?thesis
    using nearest_int_rounds_to_nearest [OF a] nearest_int_rounds_to_nearest [OF b] a by (simp add: rne_shift_def)
qed

section \<open>Trits\<close>

lemma third_digit: "(x mod 256) * 3 div 256 = x * 3 div 256 mod 3" for x :: nat
proof -
  have "x * 3 = 256 * (3 * (x div 256)) + (x mod 256) * 3"
    using mult_div_mod_eq [of 256 x] by (metis add_mult_distrib mult.assoc mult.commute)
  then have "x * 3 div 256 = 3 * (x div 256) + (x mod 256) * 3 div 256" by simp
  moreover have "(x mod 256) * 3 div 256 < 3" by (rule less_mult_imp_div_less) simp
  ultimately show ?thesis by simp
qed

text \<open>Rounding the fraction up loses no digit: the error is less than the last digit's unit.\<close>

lemma trit_digit_of_byte:
  fixes enc t :: nat
  assumes "enc < 243" "t < 5"
  shows "(((enc * 256 + 242) div 243) * 3 ^ t mod 256) * 3 div 256 = enc div 3 ^ (4 - t) mod 3"
proof -
  define b D y where "b = (enc * 256 + 242) div 243" and "D = (3 :: nat) ^ (4 - t)" and "y = b * 3 ^ t * 3"
  have "(3 :: nat) ^ t * 3 * D = 3 ^ (t + 1 + (4 - t))" by (simp add: D_def power_add)
  also have "t + 1 + (4 - t) = 5" using assms(2) by simp
  finally have P: "(3 :: nat) ^ t * 3 * D = 243" by simp
  have D: "0 < D" by (simp add: D_def)
  define d where "d = 242 - (enc * 256 + 242) mod 243"
  have "(enc * 256 + 242) mod 243 \<le> 242" by (simp add: less_Suc_eq_le [symmetric])
  moreover have "b * 243 + (enc * 256 + 242) mod 243 = enc * 256 + 242" by (simp add: b_def)
  ultimately have b: "b * 243 = enc * 256 + d" "d \<le> 242" by (simp_all add: d_def)
  have "y * D = b * 243" unfolding y_def by (simp only: P [symmetric] mult.assoc)
  also have "\<dots> = enc div D * (D * 256) + (256 * (enc mod D) + d)"
    using b(1) mult_div_mod_eq [of D enc] by (metis add.assoc add_mult_distrib mult.assoc mult.commute)
  finally have yD: "y * D = enc div D * (D * 256) + (256 * (enc mod D) + d)" .
  have "enc mod D + 1 \<le> D" using D by (simp add: Suc_le_eq)
  then have "256 * (enc mod D + 1) \<le> 256 * D" by (rule mult_le_mono2)
  then have z: "256 * (enc mod D) + d < D * 256" using b(2) by simp
  have "y div 256 = y * D div (D * 256)" using D by (simp add: mult.commute)
  also have "\<dots> = enc div D" unfolding yD using z D by simp
  finally have "y div 256 = enc div D" .
  then show ?thesis by (simp only: third_digit b_def [symmetric] y_def [symmetric] D_def [symmetric])
qed

text \<open>The digits of an encoded group.\<close>

lemma encode_trits_snoc: "encode_trits (ts @ [x]) = encode_trits ts * 3 + x"
  by (simp add: encode_trits_def)

definition trits :: "int list \<Rightarrow> bool" where
  "trits ts \<longleftrightarrow> (\<forall>x \<in> set ts. 0 \<le> x \<and> x < 3)"

lemma encode_trits_bounds: "trits ts \<Longrightarrow> 0 \<le> encode_trits ts \<and> encode_trits ts < 3 ^ length ts"
proof (induction ts rule: rev_induct)
  case (snoc x xs)
  then have "0 \<le> encode_trits xs" "encode_trits xs + 1 \<le> 3 ^ length xs" "0 \<le> x" "x < 3" by (auto simp: trits_def)
  then show ?case by (simp add: encode_trits_snoc)
qed (simp add: encode_trits_def)

lemma encode_trits_digit:
  "trits ts \<Longrightarrow> t < length ts \<Longrightarrow> encode_trits ts div 3 ^ (length ts - 1 - t) mod 3 = ts ! t"
proof (induction ts rule: rev_induct)
  case (snoc x xs)
  have x: "0 \<le> x" "x < 3" "trits xs" using snoc.prems(1) by (auto simp: trits_def)
  show ?case
  proof (cases "t = length xs")
    case True
    then show ?thesis using x by (simp add: encode_trits_snoc)
  next
    case False
    then have t: "t < length xs" using snoc.prems(2) by simp
    then have "length (xs @ [x]) - 1 - t = Suc (length xs - 1 - t)" by simp
    then have "encode_trits (xs @ [x]) div 3 ^ (length (xs @ [x]) - 1 - t) =
        (encode_trits xs * 3 + x) div 3 div 3 ^ (length xs - 1 - t)"
      by (simp add: encode_trits_snoc zdiv_zmult2_eq)
    also have "(encode_trits xs * 3 + x) div 3 = encode_trits xs" using x by simp
    finally show ?thesis using snoc.IH [OF x(3) t] t by (simp add: nth_append)
  qed
qed simp

text \<open>So a byte decodes to the digits it was made of.\<close>

lemma trit_byte_digit:
  assumes "0 \<le> encoded" "encoded < 243" "t < 5"
  shows "trit_digit (uint (trit_byte encoded)) (3 ^ t) = encoded div 3 ^ (4 - t) mod 3"
proof -
  define enc where "enc = nat encoded"
  have enc: "encoded = int enc" "enc < 243" using assms by (simp_all add: enc_def)
  have "(enc * 256 + 242) div 243 < 256" using enc(2) by (intro less_mult_imp_div_less) simp
  moreover have "uint (trit_byte encoded) = int ((enc * 256 + 242) div 243) mod 256"
    by (simp add: trit_byte_def enc(1) unsigned_of_int take_bit_eq_mod zdiv_int)
  ultimately have b: "uint (trit_byte encoded) = int ((enc * 256 + 242) div 243)" by simp
  have "trit_digit (uint (trit_byte encoded)) (3 ^ t) = int ((((enc * 256 + 242) div 243) * 3 ^ t mod 256) * 3 div 256)"
    by (simp add: trit_digit_def b to_arith zdiv_int zmod_int)
  also have "\<dots> = int (enc div 3 ^ (4 - t) mod 3)" by (simp only: trit_digit_of_byte [OF enc(2) assms(3)])
  finally show ?thesis by (simp add: enc(1) zdiv_int zmod_int)
qed

lemma five_trits:
  assumes "trits ts" "length ts = 5" "t < 5"
  shows "trit_digit (uint (trit_byte (encode_trits ts))) (3 ^ t) = ts ! t"
  using trit_byte_digit [of "encode_trits ts" t] encode_trits_bounds [OF assms(1)] encode_trits_digit [OF assms(1), of t] assms
  by simp

lemma four_trits:
  assumes "trits ts" "length ts = 4" "t < 4"
  shows "trit_digit (uint (trit_byte (encode_trits ts * 3))) (3 ^ t) = ts ! t"
proof -
  have "encode_trits ts * 3 div 3 ^ (4 - t) = encode_trits ts div 3 ^ (3 - t)"
  proof -
    have "4 - t = Suc (3 - t)" using assms(3) by simp
    then show ?thesis by (simp add: zdiv_zmult2_eq)
  qed
  then show ?thesis
    using trit_byte_digit [of "encode_trits ts * 3" t] encode_trits_bounds [OF assms(1)] encode_trits_digit [OF assms(1), of t] assms
    by simp
qed

section \<open>The largest magnitude\<close>

lemma unat_abs: "unat (f32_abs v) = magnitude32 v"
  by (simp add: f32_abs_def unat_magnitude)

lemma magnitude_idem: "unat w < 2147483648 \<Longrightarrow> magnitude32 w = unat w"
  by (simp add: magnitude32_def)

lemma f32_less_pos:
  assumes "unat a < 0x7F800000" "unat b < 0x7F800000"
  shows "f32_less a b \<longleftrightarrow> unat a < unat b"
  using assms by (simp add: f32_less_def fp_less_def fp_key_def fp_parts_32 magnitude_idem)
    (simp only: uint_nat of_nat_less_iff)

lemma f32_eq_0:
  assumes "unat a < 0x7F800000"
  shows "f32_eq a 0 \<longleftrightarrow> unat a = 0"
  using assms by (simp add: f32_eq_def fp_eq_def fp_key_def fp_parts_32 magnitude_idem fp_mag_def fp_sign_def)
    (simp only: uint_nat of_nat_eq_0_iff)

lemma max_abs_bounds:
  assumes "finite_block vs"
  shows "unat (max_abs vs) < 0x7F800000" "v \<in> set vs \<Longrightarrow> magnitude32 v \<le> unat (max_abs vs)"
proof -
  have "unat (foldl (\<lambda>m v. f32_max m (f32_abs v)) m vs) < 0x7F800000 \<and>
      unat m \<le> unat (foldl (\<lambda>m v. f32_max m (f32_abs v)) m vs) \<and>
      (\<forall>v \<in> set vs. magnitude32 v \<le> unat (foldl (\<lambda>m v. f32_max m (f32_abs v)) m vs))"
    if "unat m < 0x7F800000" for m
    using assms that
  proof (induction vs arbitrary: m)
    case (Cons v vs)
    have v: "magnitude32 v < 0x7F800000" "finite_block vs"
      using Cons.prems(1) by (simp_all add: finite_block_def word_less_nat_alt unat_abs)
    have step: "unat (f32_max m (f32_abs v)) = max (unat m) (magnitude32 v)"
      using f32_less_pos [of m "f32_abs v"] Cons.prems(2) v(1) by (simp add: f32_max_def unat_abs)
    have "unat (f32_max m (f32_abs v)) < 0x7F800000" using step Cons.prems(2) v(1) by simp
    from Cons.IH [OF v(2) this] show ?case using step by simp
  qed simp
  from this [of 0] show "unat (max_abs vs) < 0x7F800000" "v \<in> set vs \<Longrightarrow> magnitude32 v \<le> unat (max_abs vs)"
    by (simp_all add: max_abs_def)
qed

section \<open>Reading back a packed block\<close>

lemma those_total:
  "(\<And>x. x \<in> set xs \<Longrightarrow> \<exists>y. f x = Some y \<and> P y) \<Longrightarrow>
   \<exists>ys. those (map f xs) = Some ys \<and> length ys = length xs \<and> (\<forall>i < length xs. f (xs ! i) = Some (ys ! i) \<and> P (ys ! i))"
proof (induction xs)
  case (Cons x xs)
  obtain y where "f x = Some y" "P y" using Cons.prems [of x] by auto
  moreover obtain ys where "those (map f xs) = Some ys" "length ys = length xs"
    "\<forall>i < length xs. f (xs ! i) = Some (ys ! i) \<and> P (ys ! i)" using Cons.IH Cons.prems by (metis list.set_intros(2))
  ultimately show ?case by (auto simp: nth_Cons split: nat.split)
qed simp

lemma trit_of_defined:
  assumes "finite_block vs" "v \<in> set vs"
  shows "\<exists>t. trit_of (max_abs vs) v = Some t \<and> 0 \<le> t \<and> t < 3"
proof -
  note b = max_abs_bounds [OF assms(1)]
  let ?x = "if \<not> f32_eq (max_abs vs) 0 then f32_div v (max_abs vs) else 0"
  have "magnitude32 ?x \<le> 0x3F800000"
  proof (cases "f32_eq (max_abs vs) 0")
    case False
    then have "0 < magnitude32 (max_abs vs)" using f32_eq_0 [OF b(1)] b(1) by (simp add: magnitude_idem)
    then show ?thesis using False b(1) b(2) [OF assms(2)] f32_div_unit [of v "max_abs vs"] by (simp add: magnitude_idem)
  qed (simp add: magnitude32_def)
  from f32_round_unit [OF this] show ?thesis unfolding trit_of_def by (auto split: if_splits)
qed

lemma length_put_half [simp]: "length (put_half v) = 2"
  by (simp add: put_half_def Let_def)

lemma byte_join:
  fixes h :: u16
  shows "word_of_int (uint (ucast h :: u8) OR push_bit 8 (uint (ucast (drop_bit 8 h) :: u8))) = h"
proof -
  have "uint h < 65536" using uint_lt2p [of h] by simp
  then have "uint h div 256 < 256" by simp
  moreover have "0 \<le> uint h div 256" by (simp add: pos_imp_zdiv_nonneg_iff)
  ultimately have "uint (ucast (drop_bit 8 h) :: u8) = uint h div 256"
    by (simp add: unsigned_ucast_eq unsigned_drop_bit_eq drop_bit_eq_div uint_div take_bit_eq_mod)
  moreover have "uint (ucast h :: u8) = uint h mod 256" by (simp add: unsigned_ucast_eq take_bit_eq_mod)
  moreover have "uint h mod 256 OR push_bit 8 (uint h div 256) = uint h mod 256 + push_bit 8 (uint h div 256)"
    by (rule or_shift_add) simp_all
  ultimately have "uint (ucast h :: u8) OR push_bit 8 (uint (ucast (drop_bit 8 h) :: u8)) = uint h"
    by (simp add: push_bit_eq_mult)
  then show ?thesis by simp
qed

lemma half_at_put:
  assumes "0 \<le> i" "nat i + 1 < length b" "b ! nat i = put_half v ! 0" "b ! (nat i + 1) = put_half v ! 1"
  shows "half_at b i = Some (half_round v)"
proof -
  define h where "h = fp32_to_fp16 v"
  have "byte_at b i = Some (uint (ucast h :: u8))" "byte_at b (i + 1) = Some (uint (ucast (drop_bit 8 h) :: u8))"
    using assms byte_at_nth [of i b] byte_at_nth [of "i + 1" b]
    by (simp_all add: put_half_def Let_def h_def nat_add_distrib)
  moreover obtain d where "fp16_to_fp32 h = Some d" using fp16_to_fp32_defined by blast
  ultimately show ?thesis by (simp add: half_at_def u16_at_def byte_join half_round_def h_def)
qed

text \<open>The block made of 256 digits, column by column.\<close>

definition tq1_bytes :: "int list \<Rightarrow> u8 list" where
  "tq1_bytes ts =
     map (\<lambda>lane. trit_byte (encode_trits (map (\<lambda>trit. ts ! (lane + trit * 32)) [0..<5]))) [0..<32] @
     map (\<lambda>lane. trit_byte (encode_trits (map (\<lambda>trit. ts ! (160 + lane + trit * 16)) [0..<5]))) [0..<16] @
     map (\<lambda>lane. trit_byte (encode_trits (map (\<lambda>trit. ts ! (240 + lane + trit * 4)) [0..<4]) * 3)) [0..<4]"

lemma length_tq1_bytes [simp]: "length (tq1_bytes ts) = 52"
  by (simp add: tq1_bytes_def)

lemma group_trits:
  assumes "\<And>i. i < 256 \<Longrightarrow> 0 \<le> ts ! i \<and> ts ! i < 3" "k + m * s \<le> 256 + s - 1" "0 < s"
  shows "trits (map (\<lambda>trit. ts ! (k + trit * s)) [0..<m])"
proof -
  have "k + trit * s < 256" if "trit < m" for trit
  proof -
    have "(trit + 1) * s \<le> m * s" using that by (intro mult_right_mono) auto
    then show ?thesis using assms(2,3) by simp
  qed
  then show ?thesis using assms(1) by (auto simp: trits_def)
qed

lemma pow3: "t < 5 \<Longrightarrow> rd kPow3 (int t) = Some (3 ^ t)"
  by (auto simp: rd_def in_buf_def kPow3_def less_Suc_eq numeral_eq_Suc)

lemma tq1_column:
  assumes ts: "\<And>i. i < 256 \<Longrightarrow> 0 \<le> ts ! i \<and> ts ! i < 3" and h: "half_at (tq1_bytes ts @ hs) 52 = Some h" and c: "c < 256"
  shows "dequant kTQ1_0 (tq1_bytes ts @ hs) (int c) = Some (f32_mul h (f32_of_int (ts ! c - 1)))"
proof -
  have byte: "byte_at (tq1_bytes ts @ hs) (int i) = Some (uint (tq1_bytes ts ! i))" if "i < 52" for i
    using that byte_at_nth [of "int i" "tq1_bytes ts @ hs"] by (simp add: nth_append)
  note digit = group_trits [OF ts]
  consider "c < 160" | "160 \<le> c" "c < 240" | "240 \<le> c" by linarith
  then show ?thesis
  proof cases
    case 1
    define l t where "l = c mod 32" and "t = c div 32"
    have l: "c = l + t * 32" "l < 32" "t < 5" using 1 by (simp_all add: l_def t_def less_mult_imp_div_less)
    have "crem (crem (int c) 160) 32 = int l" "cdiv (crem (int c) 160) 32 = int t" "cdiv (int c) 160 = 0"
      using 1 by (simp_all add: l_def t_def zmod_int zdiv_int)
    moreover have "tq1_bytes ts ! l = trit_byte (encode_trits (map (\<lambda>trit. ts ! (l + trit * 32)) [0..<5]))"
      using l(2) by (simp add: tq1_bytes_def nth_append)
    moreover have "trit_digit (uint (trit_byte (encode_trits (map (\<lambda>trit. ts ! (l + trit * 32)) [0..<5])))) (3 ^ t) = ts ! c"
      using five_trits [OF digit [of l 5 32], of t] l by simp
    ultimately show ?thesis using 1 byte [of l] pow3 [of t] h l(2,3) by (simp add: dq_TQ1_0_def Let_def)
  next
    case 2
    define l t where "l = (c - 160) mod 16" and "t = (c - 160) div 16"
    have l: "c = 160 + l + t * 16" "l < 16" "t < 5" using 2 by (simp_all add: l_def t_def less_mult_imp_div_less)
    have m: "c mod 160 = c - 160" "c div 160 = 1" using 2 by (simp_all add: le_mod_geq le_div_geq)
    have "crem (int c) 160 = int (c mod 160)" "cdiv (int c) 160 = int (c div 160)" by (simp_all add: zmod_int zdiv_int)
    then have "crem (int c) 160 = int (c - 160)" "cdiv (int c) 160 = 1" by (simp_all only: m of_nat_1)
    then have "crem (crem (int c) 160) 16 = int l" "cdiv (crem (int c) 160) 16 = int t" "cdiv (int c) 160 = 1"
      by (simp_all add: l_def t_def zmod_int zdiv_int)
    moreover have "tq1_bytes ts ! (32 + l) = trit_byte (encode_trits (map (\<lambda>trit. ts ! (160 + l + trit * 16)) [0..<5]))"
      using l(2) by (simp add: tq1_bytes_def nth_append)
    moreover have "trit_digit (uint (trit_byte (encode_trits (map (\<lambda>trit. ts ! (160 + l + trit * 16)) [0..<5])))) (3 ^ t) = ts ! c"
      using five_trits [OF digit [of "160 + l" 5 16], of t] l by simp
    ultimately show ?thesis using 2 byte [of "32 + l"] pow3 [of t] h l(2,3) by (simp add: dq_TQ1_0_def Let_def)
  next
    case 3
    define l t where "l = (c - 240) mod 4" and "t = (c - 240) div 4"
    have l: "c = 240 + l + t * 4" "l < 4" "t < 4" using 3 c by (simp_all add: l_def t_def less_mult_imp_div_less)
    have ic: "int c - 240 = int (c - 240)" using 3 by simp
    have "(int c - 240) AND 3 = int l" "cdiv (int c - 240) 4 = int t"
      unfolding ic by (simp_all add: l_def t_def zmod_int zdiv_int and_masks)
    moreover have "tq1_bytes ts ! (48 + l) = trit_byte (encode_trits (map (\<lambda>trit. ts ! (240 + l + trit * 4)) [0..<4]) * 3)"
      using l(2) by (simp add: tq1_bytes_def nth_append)
    moreover have "trit_digit (uint (trit_byte (encode_trits (map (\<lambda>trit. ts ! (240 + l + trit * 4)) [0..<4]) * 3))) (3 ^ t) = ts ! c"
      using four_trits [OF digit [of "240 + l" 4 4], of t] l by simp
    ultimately show ?thesis using 3 byte [of "48 + l"] pow3 [of t] h l(2,3) by (simp add: dq_TQ1_0_def Let_def)
  qed
qed



end
