(* ===== verification/Spec2Isabelle.thy ===== *)
theory Spec2Isabelle
  imports Fp16 Validation Workspace ThreadPool PackedWeights KvCache Moe Varlen Collectives TokenOps SparseMetadata GgufPack
begin

text \<open>
  A model of the core of QuixiCore-CPU, the portable C++ kernel library under \<^verbatim>\<open>src/\<close>: the memory and threading
  runtime every kernel stands on, the quantised-weight containers and their validation, the dispatch of kernels, and the
  kernels that move, index, sort, pack and schedule data. Every public operation takes raw pointers and shapes and answers
  with a \<^verbatim>\<open>Status\<close>; the model gives it the same arguments and branches.

  \<^bold>\<open>Conventions\<close> (\<^verbatim>\<open>CPU_Prelude\<close>). A C++ function is a HOL function over the same arguments. \<^verbatim>\<open>int\<close>,
  \<^verbatim>\<open>long long\<close> and \<^verbatim>\<open>size_t\<close> shapes are integers with their range written out (\<open>i32\<close>, \<open>i64\<close>, \<open>usz\<close>);
  bit patterns are words. A pointer is an optional list (\<open>None\<close> is null); reading or writing outside it, or signed
  overflow, is undefined behaviour and makes the whole result \<open>None\<close>, so a theorem \<open>f \<dots> = Some \<dots>\<close> also says that the code
  has none. Index products below a shape that \<open>valid_product\<close> has accepted are not range-checked again. Different pointer
  arguments are different buffers; where the code itself compares two pointers the comparison is an argument. Loops are
  \<open>loop\<close> or \<open>for_loop\<close> with a \<open>flow\<close> result (go on, break, return a status); \<open>ok\<close> is the postcondition form of the loop rules.
  A loop without a bound is \<open>partial_function (option)\<close>: \<open>None\<close> when it spins, and the theorems about it prove that it ends
  (\<open>depth_walk\<close>, \<open>last_sibling\<close>, \<open>renormalize\<close>, \<open>skip_slashes\<close>, \<open>row_loop\<close>). No fuel is used.

  A parallel region takes the list \<open>cs\<close> of range calls the pool made; \<open>region_calls\<close> characterises the lists the pool can
  make (any order of the chunks of the partition), which \<^verbatim>\<open>ThreadPool\<close> proves of the pool itself. In the kernels
  that move data, floating-point arithmetic is a parameter (\<open>float_ops\<close>, or the operation alone): their theorems are about which
  values are combined in which order, and hold for whatever rounding or contraction the compiler chose. The conversions
  between float formats, the GGUF decoder and the GGUF packers are modelled bit by bit: a \<^verbatim>\<open>float\<close> is its pattern \<open>f32\<close>, each
  operation rounds once (\<open>Float_Ops\<close>: no contraction to fused operations), and a result that is not a number is one quiet
  pattern.

  \<^bold>\<open>Theories\<close>, each with the files it models and what it proves:
  \<^item> \<^verbatim>\<open>Word_Lemmas\<close>, \<^verbatim>\<open>Soft_Float\<close>: words and IEEE formats (rounding of an exact magnitude \<open>n * 2^e\<close>).
  \<^item> \<^verbatim>\<open>Fp16\<close>: \<^verbatim>\<open>kernels/common/fp16.h\<close> and the conversions of \<^verbatim>\<open>kernels/utils/float_storage_ref.cpp\<close>; every conversion is
    exact or rounds to nearest even, round trips.
  \<^item> \<^verbatim>\<open>Validation\<close>: \<^verbatim>\<open>kernels/common/validation.h\<close>; the division test accepts exactly the products that fit.
  \<^item> \<^verbatim>\<open>Workspace\<close>: \<^verbatim>\<open>src/memory/workspace.cpp\<close> with its frames; a transition system of sessions, live regions disjoint,
    frames transparent, reserve sufficient. The locale \<open>scratch_allocator\<close> states what a client relies on.
  \<^item> \<^verbatim>\<open>ThreadPool\<close>: \<^verbatim>\<open>src/threading/thread_pool.cpp\<close>; a transition system whose steps are the critical sections: each chunk
    once, no deadlock, a decreasing measure. The locale \<open>range_executor\<close> states what a kernel relies on.
  \<^item> \<^verbatim>\<open>QuantContract\<close>, \<^verbatim>\<open>QuantImport\<close>: \<^verbatim>\<open>src/memory/quant_contract.cpp\<close>, \<^verbatim>\<open>kernels/quantization/quant_import_ref.cpp\<close>; the
    validator against a declarative specification, importers as transpositions, validity as an invariant of importing.
  \<^item> \<^verbatim>\<open>CpuFeatures\<close>, \<^verbatim>\<open>GgufFormat\<close>, \<^verbatim>\<open>Dispatch\<close>: \<^verbatim>\<open>src/runtime/\<close>, \<^verbatim>\<open>src/backend.cpp\<close>, \<^verbatim>\<open>src/dispatch/\<close>; only supported
    variants are chosen, sizes are exact, 32-bit accumulators do not overflow.
  \<^item> \<^verbatim>\<open>PackedWeights\<close>: \<^verbatim>\<open>src/memory/packed_weights.cpp\<close>, on top of the import and the dispatch; panels are permutations of the
    contract bytes, tables are found at the recorded offsets.
  \<^item> \<^verbatim>\<open>Float8\<close>: the eight-bit floats of \<^verbatim>\<open>kernels/quantization/quantization_ref.cpp\<close>; encoding rounds to nearest even and saturates.
  \<^item> \<^verbatim>\<open>Float_Ops\<close>: binary32 and binary64 operations on patterns, as one rounding of the exact result, and what a few of them
    give exactly.
  \<^item> \<^verbatim>\<open>GgufTables\<close>, \<^verbatim>\<open>GgufDecode\<close>, \<^verbatim>\<open>GgufUnpack\<close>: the codebooks of \<^verbatim>\<open>kernels/quantization/iq_tables.h\<close> and the decoder of
    \<^verbatim>\<open>gguf_ref.cpp\<close>, one definition per format (a block pointer is the list of the block's bytes); every byte and codebook
    access is in range, the integer formats decode exactly, unpacking and the matrix-vector product agree.
  \<^item> \<^verbatim>\<open>GgufPack\<close>: \<^verbatim>\<open>kernels/quantization/gguf_pack_ref.cpp\<close>; the rounding trick, round trips through the decoder.
  \<^item> \<^verbatim>\<open>Kernel_Loops\<close>, \<^verbatim>\<open>Grid\<close>: the loop rules of the kernels (rows, grids, strided loops, buffers changed in one place).
  \<^item> \<^verbatim>\<open>KvCache\<close>: \<^verbatim>\<open>kernels/serving/serving_ref.cpp\<close>, \<^verbatim>\<open>kv_cache_extended_ref.cpp\<close>; scatter and gather, beam copies.
  \<^item> \<^verbatim>\<open>Moe\<close>: \<^verbatim>\<open>kernels/moe/moe_extended_ref.cpp\<close>; routing as a stable counting sort, tiles, the whole layer as a weighted sum.
  \<^item> \<^verbatim>\<open>Speculative\<close>: \<^verbatim>\<open>kernels/sampling/speculative_ref.cpp\<close>; draft trees (links, exact rejection), greedy acceptance.
  \<^item> \<^verbatim>\<open>SparseMetadata\<close>: \<^verbatim>\<open>kernels/serving/sparse_metadata_ref.cpp\<close>; when the unbounded loop of
    \<^verbatim>\<open>convert_vertical_slash_indexes\<close> ends, and an input on which it does not.
  \<^item> \<^verbatim>\<open>Varlen\<close>: \<^verbatim>\<open>kernels/attention/varlen_metadata_ref.cpp\<close>; the tile list, padding and its inverse.
  \<^item> \<^verbatim>\<open>Collectives\<close>: \<^verbatim>\<open>kernels/collectives/collectives_ref.cpp\<close>; composition laws between the collectives.
  \<^item> \<^verbatim>\<open>TensorOps\<close>: \<^verbatim>\<open>kernels/utils/tensor_ops_ref.cpp\<close>; stable argsort, layout operations element by element.
  \<^item> \<^verbatim>\<open>TokenOps\<close>: \<^verbatim>\<open>kernels/utils/utils_extended_ref.cpp\<close>, \<^verbatim>\<open>kernels/serving/serving_extended_ref.cpp\<close>; packed bits, the two
    embedding gradients.

  \<^bold>\<open>Not modelled\<close>: kernels whose results depend on the rounding of transcendental functions or of vectorised sums
  (attention, norms, activations, audio, vision, SSM and linear attention, the GEMM inner loops) and
  their instruction-set variants: the library promises tolerances for them, not values; the K-quant and i-quant searches of
  the GGUF packers. Failure to
  allocate a temporary \<^verbatim>\<open>std::vector\<close> inside a kernel, tests, benchmarks, examples and build files are not modelled either.
\<close>

end
